(* ===== verification/Prelude.thy ===== *)
theory Prelude
  imports Main "HOL-Library.Word"
begin

unbundle bit_operations_syntax

text \<open>
  Shared vocabulary of the development: the machine integer types of the C code, the lemma
  collections the component theories fill, and the facts on words and lists that
  several components need.
\<close>

type_synonym u8 = "8 word"
type_synonym u16 = "16 word"
type_synonym u32 = "32 word"

named_theorems linear_simps \<open>maps that are linear over exclusive or\<close>

named_theorems mask_tests \<open>tests of a single mask bit, as bit positions\<close>

section \<open>Words\<close>

lemma xor_cancel_left [simp]: "a XOR (a XOR b) = (b :: 'a::len word)"
  by (simp flip: xor.assoc)

lemma xor_eq_0_iff [simp]: "a XOR b = 0 \<longleftrightarrow> a = (b :: 'a::len word)"
proof
  assume "a XOR b = 0"
  then have "a XOR (a XOR b) = a" by simp
  then show "a = b" by simp
qed simp

lemma xor_right_cancel [simp]: "a XOR c = b XOR c \<longleftrightarrow> a = (b :: 'a::len word)"
  by (metis xor.assoc xor_self_eq xor.right_neutral)

lemma xor_left_cancel [simp]: "c XOR a = c XOR b \<longleftrightarrow> a = (b :: 'a::len word)"
  by (metis xor_cancel_left)

lemma xor_eq_self [simp]: "a XOR b = a \<longleftrightarrow> b = (0 :: 'a::len word)"
  using xor_left_cancel [of a b 0] by simp

lemma low_bit_test: "x AND 1 \<noteq> 0 \<longleftrightarrow> bit x 0" for x :: "'a::len word"
  by (simp add: and_one_eq odd_iff_mod_2_eq_one bit_0)

lemma take_bit_Suc_xor:
  "take_bit (Suc n) w = take_bit n w XOR push_bit n (of_bool (bit w n))" for w :: "'a::len word"
  by (rule bit_word_eqI) (auto simp: bit_simps less_Suc_eq)

lemma split_at_bit: "w = take_bit n w XOR push_bit n (drop_bit n w)" for w :: "'a::len word"
  by (rule bit_word_eqI) (auto simp: bit_simps)

lemma bit_ucast_u8 [simp]: "bit (ucast (b :: u8) :: u32) i \<longleftrightarrow> bit b i"
  by (auto simp: bit_simps dest: bit_imp_le_length)

lemma take_bit_8_ucast [simp]: "take_bit 8 (ucast (b :: u8) :: u32) = ucast b"
  by (rule bit_word_eqI) (auto simp: bit_simps dest: bit_imp_le_length)

lemma ucast_u8_inj: "(ucast (a :: u8) :: u32) = ucast b \<longleftrightarrow> a = b"
  by (metis bit_ucast_u8 bit_word_eqI)

lemma word_minus_one_32: "(-1 :: u32) = 0xffffffff"
  by simp

lemma u8_eq_iff:
  "w = v \<longleftrightarrow> bit w 0 = bit v 0 \<and> bit w 1 = bit v 1 \<and> bit w 2 = bit v 2 \<and> bit w 3 = bit v 3 \<and>
     bit w 4 = bit v 4 \<and> bit w 5 = bit v 5 \<and> bit w 6 = bit v 6 \<and> bit w 7 = bit v 7"
  (is "_ \<longleftrightarrow> ?bits") for w v :: u8
proof
  assume b: ?bits
  show "w = v"
  proof (rule bit_word_eqI)
    fix n assume "n < LENGTH(8)"
    then have "n = 0 \<or> n = 1 \<or> n = 2 \<or> n = 3 \<or> n = 4 \<or> n = 5 \<or> n = 6 \<or> n = 7" by auto
    with b show "bit w n = bit v n" by auto
  qed
qed simp

lemma and_exp_test: "n < LENGTH('a) \<Longrightarrow> x AND push_bit n 1 \<noteq> 0 \<longleftrightarrow> bit x n" for x :: "'a::len word"
proof -
  assume n: "n < LENGTH('a)"
  show ?thesis
  proof
    assume "bit x n"
    then have "bit (x AND push_bit n 1) n" using n by (simp add: bit_simps)
    then show "x AND push_bit n 1 \<noteq> 0" by auto
  next
    assume "x AND push_bit n 1 \<noteq> 0"
    then obtain m where "bit (x AND push_bit n 1) m" by (auto simp: bit_eq_iff)
    then show "bit x n" by (auto simp: bit_simps)
  qed
qed

lemmas u8_mask_tests [mask_tests] =
  and_exp_test [where 'a = 8, of 0, simplified] and_exp_test [where 'a = 8, of 1, simplified]
  and_exp_test [where 'a = 8, of 2, simplified] and_exp_test [where 'a = 8, of 3, simplified]
  and_exp_test [where 'a = 8, of 4, simplified] and_exp_test [where 'a = 8, of 5, simplified]
  and_exp_test [where 'a = 8, of 6, simplified] and_exp_test [where 'a = 8, of 7, simplified]

lemma even_odd_pairs:
  "((d XOR drop_bit 1 d) AND 0x55) = 0x55 \<longleftrightarrow>
     bit d 0 \<noteq> bit d 1 \<and> bit d 2 \<noteq> bit d 3 \<and> bit d 4 \<noteq> bit d 5 \<and> bit d 6 \<noteq> bit d 7"
  "((d XOR drop_bit 1 d) AND 0x54) = 0x54 \<longleftrightarrow>
     bit d 2 \<noteq> bit d 3 \<and> bit d 4 \<noteq> bit d 5 \<and> bit d 6 \<noteq> bit d 7"
  "((d XOR drop_bit 1 d) AND 0x15) = 0x15 \<longleftrightarrow>
     bit d 0 \<noteq> bit d 1 \<and> bit d 2 \<noteq> bit d 3 \<and> bit d 4 \<noteq> bit d 5" for d :: u8
  by (auto simp: u8_eq_iff bit_simps simp flip: numeral_3_eq_3)

text \<open>The population count, the value of every bit-counting loop.\<close>

definition pop_count :: "'a::len word \<Rightarrow> nat" where
  "pop_count x = card {n. bit x n}"

lemma finite_bits [simp]: "finite {n. bit x n}" for x :: "'a::len word"
  by (rule finite_subset [of _ "{..<LENGTH('a)}"]) (auto dest: bit_imp_le_length)

lemma pop_count_0 [simp]: "pop_count 0 = 0"
  by (simp add: pop_count_def)

lemma pop_count_exp [simp]: "n < LENGTH('a) \<Longrightarrow> pop_count (push_bit n 1 :: 'a::len word) = 1"
proof -
  assume "n < LENGTH('a)"
  then have "{m. bit (push_bit n 1 :: 'a word) m} = {n}" by (auto simp: bit_simps)
  then show ?thesis by (simp only: pop_count_def) simp
qed

lemma pop_count_step: "pop_count x = of_bool (bit x 0) + pop_count (drop_bit 1 x)"
proof -
  have "{n. bit x n} = (if bit x 0 then {0} else {}) \<union> Suc ` {n. bit (drop_bit 1 x) n}"
  proof (rule set_eqI)
    fix n show "n \<in> {n. bit x n} \<longleftrightarrow>
      n \<in> (if bit x 0 then {0} else {}) \<union> Suc ` {n. bit (drop_bit 1 x) n}"
      by (cases n) (auto simp: bit_simps)
  qed
  then show ?thesis
    by (auto simp: pop_count_def card_image card_insert_if)
qed

lemma pop_count_two_bits: "bit x m \<Longrightarrow> bit x n \<Longrightarrow> m \<noteq> n \<Longrightarrow> 2 \<le> pop_count x"
proof -
  assume "bit x m" "bit x n" "m \<noteq> n"
  then have "card {m, n} \<le> card {n. bit x n}" by (intro card_mono) auto
  with \<open>m \<noteq> n\<close> show ?thesis by (simp add: pop_count_def)
qed

lemma pop_count_eq_0 [simp]: "pop_count x = 0 \<longleftrightarrow> x = 0"
proof -
  have "{n. bit x n} = {} \<longleftrightarrow> x = 0"
    by (auto simp: bit_eq_iff dest: bit_imp_le_length)
  then show ?thesis by (simp add: pop_count_def)
qed

lemma unat_shift_less: "x \<noteq> 0 \<Longrightarrow> unat (drop_bit 1 x) < unat x" for x :: "'a::len word"
proof -
  assume "x \<noteq> 0"
  have "unat (drop_bit 1 x) = unat x div 2"
    by (simp only: unsigned_drop_bit_eq) (simp add: drop_bit_eq_div take_bit_nat_eq_self)
  with \<open>x \<noteq> 0\<close> show ?thesis by (simp add: unat_gt_0)
qed

section \<open>Little-endian memory\<close>

text \<open>The bytes of an unsigned int in memory on the little-endian targets.\<close>

definition le32 :: "u32 \<Rightarrow> u8 list" where
  "le32 w = [ucast w, ucast (drop_bit 8 w), ucast (drop_bit 16 w), ucast (drop_bit 24 w)]"

definition of_le32 :: "u8 list \<Rightarrow> u32" where
  "of_le32 bs = ucast (bs ! 0) OR push_bit 8 (ucast (bs ! 1)) OR push_bit 16 (ucast (bs ! 2))
     OR push_bit 24 (ucast (bs ! 3))"

lemma length_le32 [simp]: "length (le32 w) = 4"
  by (simp add: le32_def)

lemma of_le32_le32 [simp]: "of_le32 (le32 w) = w"
proof (rule bit_word_eqI)
  fix n assume "n < LENGTH(32)"
  then consider "n < 8" | "8 \<le> n" "n < 16" | "16 \<le> n" "n < 24" | "24 \<le> n" "n < 32"
    by fastforce
  then show "bit (of_le32 (le32 w)) n = bit w n"
    by cases (auto simp: of_le32_def le32_def bit_simps dest: bit_imp_le_length)
qed

lemma le32_of_le32 [simp]: "length bs = 4 \<Longrightarrow> le32 (of_le32 bs) = bs"
proof -
  assume "length bs = 4"
  then obtain a b c d where "bs = [a, b, c, d]"
    by (auto simp: eval_nat_numeral length_Suc_conv)
  moreover have "(ucast (of_le32 [a, b, c, d]) :: u8) = a" "(ucast (drop_bit 8 (of_le32 [a, b, c, d])) :: u8) = b"
    "(ucast (drop_bit 16 (of_le32 [a, b, c, d])) :: u8) = c" "(ucast (drop_bit 24 (of_le32 [a, b, c, d])) :: u8) = d"
    by (rule bit_word_eqI; auto simp: of_le32_def bit_simps dest: bit_imp_le_length)+
  ultimately show ?thesis by (simp add: le32_def)
qed

section \<open>Loops as iterated functions\<close>

lemma funpow_3: "(f ^^ 3) x = f (f (f x))"
  by (simp add: eval_nat_numeral)

lemma funpow_4: "(f ^^ 4) x = f (f (f (f x)))"
  by (simp add: eval_nat_numeral)

lemma funpow_8: "(f ^^ 8) x = f (f (f (f (f (f (f (f x)))))))"
  by (simp add: eval_nat_numeral)

lemma upt_256: "[0..<256] = 0 # Suc 0 # [2..<256]"
  by (simp add: upt_rec [of 0] upt_rec [of "Suc 0"] numeral_2_eq_2
      del: upt_rec_numeral upt.simps)

lemma less_256_cases: "n < 256 \<Longrightarrow> n \<in> set [0..<256]" for n :: nat
  by simp

end
