(* ===== verification/Crc32.thy ===== *)
theory Crc32
  imports Prelude
begin

text \<open>
  The checksum of lib_generic/crc32.c: the table generator, the static table, the
  unrolled loops of crc32 and crc32_no_comp, and the bit-serial shift register that
  the comment above make_crc_table describes, which the table-driven code implements.
\<close>

section \<open>The code\<close>

definition crc_poly_terms :: "nat list" where
  "crc_poly_terms = [0, 1, 2, 4, 5, 7, 8, 10, 11, 12, 16, 22, 23, 26]"

definition crc_poly :: u32 where
  "crc_poly = fold (\<lambda>p poly. poly OR push_bit (31 - p) 1) crc_poly_terms 0"

definition crc_shift :: "u32 \<Rightarrow> u32" where
  "crc_shift c = (if c AND 1 \<noteq> 0 then crc_poly XOR drop_bit 1 c else drop_bit 1 c)"

definition make_crc_table :: "u32 list" where
  "make_crc_table = map (\<lambda>n. (crc_shift ^^ 8) (word_of_nat n)) [0..<256]"

definition crc_table :: "u32 list" where
  "crc_table = [
     0x00000000, 0x77073096, 0xee0e612c, 0x990951ba, 0x076dc419, 0x706af48f, 0xe963a535, 0x9e6495a3,
     0x0edb8832, 0x79dcb8a4, 0xe0d5e91e, 0x97d2d988, 0x09b64c2b, 0x7eb17cbd, 0xe7b82d07, 0x90bf1d91,
     0x1db71064, 0x6ab020f2, 0xf3b97148, 0x84be41de, 0x1adad47d, 0x6ddde4eb, 0xf4d4b551, 0x83d385c7,
     0x136c9856, 0x646ba8c0, 0xfd62f97a, 0x8a65c9ec, 0x14015c4f, 0x63066cd9, 0xfa0f3d63, 0x8d080df5,
     0x3b6e20c8, 0x4c69105e, 0xd56041e4, 0xa2677172, 0x3c03e4d1, 0x4b04d447, 0xd20d85fd, 0xa50ab56b,
     0x35b5a8fa, 0x42b2986c, 0xdbbbc9d6, 0xacbcf940, 0x32d86ce3, 0x45df5c75, 0xdcd60dcf, 0xabd13d59,
     0x26d930ac, 0x51de003a, 0xc8d75180, 0xbfd06116, 0x21b4f4b5, 0x56b3c423, 0xcfba9599, 0xb8bda50f,
     0x2802b89e, 0x5f058808, 0xc60cd9b2, 0xb10be924, 0x2f6f7c87, 0x58684c11, 0xc1611dab, 0xb6662d3d,
     0x76dc4190, 0x01db7106, 0x98d220bc, 0xefd5102a, 0x71b18589, 0x06b6b51f, 0x9fbfe4a5, 0xe8b8d433,
     0x7807c9a2, 0x0f00f934, 0x9609a88e, 0xe10e9818, 0x7f6a0dbb, 0x086d3d2d, 0x91646c97, 0xe6635c01,
     0x6b6b51f4, 0x1c6c6162, 0x856530d8, 0xf262004e, 0x6c0695ed, 0x1b01a57b, 0x8208f4c1, 0xf50fc457,
     0x65b0d9c6, 0x12b7e950, 0x8bbeb8ea, 0xfcb9887c, 0x62dd1ddf, 0x15da2d49, 0x8cd37cf3, 0xfbd44c65,
     0x4db26158, 0x3ab551ce, 0xa3bc0074, 0xd4bb30e2, 0x4adfa541, 0x3dd895d7, 0xa4d1c46d, 0xd3d6f4fb,
     0x4369e96a, 0x346ed9fc, 0xad678846, 0xda60b8d0, 0x44042d73, 0x33031de5, 0xaa0a4c5f, 0xdd0d7cc9,
     0x5005713c, 0x270241aa, 0xbe0b1010, 0xc90c2086, 0x5768b525, 0x206f85b3, 0xb966d409, 0xce61e49f,
     0x5edef90e, 0x29d9c998, 0xb0d09822, 0xc7d7a8b4, 0x59b33d17, 0x2eb40d81, 0xb7bd5c3b, 0xc0ba6cad,
     0xedb88320, 0x9abfb3b6, 0x03b6e20c, 0x74b1d29a, 0xead54739, 0x9dd277af, 0x04db2615, 0x73dc1683,
     0xe3630b12, 0x94643b84, 0x0d6d6a3e, 0x7a6a5aa8, 0xe40ecf0b, 0x9309ff9d, 0x0a00ae27, 0x7d079eb1,
     0xf00f9344, 0x8708a3d2, 0x1e01f268, 0x6906c2fe, 0xf762575d, 0x806567cb, 0x196c3671, 0x6e6b06e7,
     0xfed41b76, 0x89d32be0, 0x10da7a5a, 0x67dd4acc, 0xf9b9df6f, 0x8ebeeff9, 0x17b7be43, 0x60b08ed5,
     0xd6d6a3e8, 0xa1d1937e, 0x38d8c2c4, 0x4fdff252, 0xd1bb67f1, 0xa6bc5767, 0x3fb506dd, 0x48b2364b,
     0xd80d2bda, 0xaf0a1b4c, 0x36034af6, 0x41047a60, 0xdf60efc3, 0xa867df55, 0x316e8eef, 0x4669be79,
     0xcb61b38c, 0xbc66831a, 0x256fd2a0, 0x5268e236, 0xcc0c7795, 0xbb0b4703, 0x220216b9, 0x5505262f,
     0xc5ba3bbe, 0xb2bd0b28, 0x2bb45a92, 0x5cb36a04, 0xc2d7ffa7, 0xb5d0cf31, 0x2cd99e8b, 0x5bdeae1d,
     0x9b64c2b0, 0xec63f226, 0x756aa39c, 0x026d930a, 0x9c0906a9, 0xeb0e363f, 0x72076785, 0x05005713,
     0x95bf4a82, 0xe2b87a14, 0x7bb12bae, 0x0cb61b38, 0x92d28e9b, 0xe5d5be0d, 0x7cdcefb7, 0x0bdbdf21,
     0x86d3d2d4, 0xf1d4e242, 0x68ddb3f8, 0x1fda836e, 0x81be16cd, 0xf6b9265b, 0x6fb077e1, 0x18b74777,
     0x88085ae6, 0xff0f6a70, 0x66063bca, 0x11010b5c, 0x8f659eff, 0xf862ae69, 0x616bffd3, 0x166ccf45,
     0xa00ae278, 0xd70dd2ee, 0x4e048354, 0x3903b3c2, 0xa7672661, 0xd06016f7, 0x4969474d, 0x3e6e77db,
     0xaed16a4a, 0xd9d65adc, 0x40df0b66, 0x37d83bf0, 0xa9bcae53, 0xdebb9ec5, 0x47b2cf7f, 0x30b5ffe9,
     0xbdbdf21c, 0xcabac28a, 0x53b39330, 0x24b4a3a6, 0xbad03605, 0xcdd70693, 0x54de5729, 0x23d967bf,
     0xb3667a2e, 0xc4614ab8, 0x5d681b02, 0x2a6f2b94, 0xb40bbe37, 0xc30c8ea1, 0x5a05df1b, 0x2d02ef8d]"

type_synonym crc_state = "u32 \<times> u8 list"

definition DO1 :: "crc_state \<Rightarrow> crc_state" where
  "DO1 s = (case s of (crc, buf) \<Rightarrow>
     (crc_table ! unat ((crc XOR ucast (hd buf)) AND 0xff) XOR drop_bit 8 crc, tl buf))"

definition DO2 :: "crc_state \<Rightarrow> crc_state" where
  "DO2 s = DO1 (DO1 s)"

definition DO4 :: "crc_state \<Rightarrow> crc_state" where
  "DO4 s = DO2 (DO2 s)"

definition DO8 :: "crc_state \<Rightarrow> crc_state" where
  "DO8 s = DO4 (DO4 s)"

lemma snd_DO1 [simp]: "snd (DO1 s) = tl (snd s)"
  by (simp add: DO1_def split: prod.splits)

lemma length_DO8 [simp]: "length (snd (DO8 s)) = length (snd s) - 8"
  by (simp add: DO8_def DO4_def DO2_def)

function crc_loop8 :: "crc_state \<Rightarrow> crc_state" where
  "crc_loop8 s = (if 8 \<le> length (snd s) then crc_loop8 (DO8 s) else s)"
  by pat_completeness auto
termination
  by (relation "measure (\<lambda>s. length (snd s))") auto

function crc_loop1 :: "crc_state \<Rightarrow> crc_state" where
  "crc_loop1 s = (if snd s \<noteq> [] then crc_loop1 (DO1 s) else s)"
  by pat_completeness auto
termination
  by (relation "measure (\<lambda>s. length (snd s))") auto

definition crc32 :: "u32 \<Rightarrow> u8 list \<Rightarrow> u32" where
  "crc32 crc buf = fst (crc_loop1 (crc_loop8 (crc XOR 0xffffffff, buf))) XOR 0xffffffff"

definition crc32_no_comp :: "u32 \<Rightarrow> u8 list \<Rightarrow> u32" where
  "crc32_no_comp crc buf = fst (crc_loop1 (crc_loop8 (crc, buf)))"

section \<open>The shift register\<close>

text \<open>
  The register of the comment: each incoming bit is compared with the bit shifted out,
  and the polynomial is added when they differ.
\<close>

definition crc_feed :: "bool \<Rightarrow> u32 \<Rightarrow> u32" where
  "crc_feed b r = (if bit r 0 \<noteq> b then crc_poly XOR drop_bit 1 r else drop_bit 1 r)"

definition crc_serial :: "u8 list \<Rightarrow> u32 \<Rightarrow> u32" where
  "crc_serial buf r = fold (\<lambda>b. fold crc_feed (map (bit b) [0..<8])) buf r"

section \<open>Linearity and injectivity of the register step\<close>

declare crc_loop8.simps [simp del] crc_loop1.simps [simp del]

lemma crc_poly_value: "crc_poly = 0xedb88320"
  by (simp add: crc_poly_def crc_poly_terms_def)

lemma crc_shift_alt: "crc_shift c = drop_bit 1 c XOR (if bit c 0 then crc_poly else 0)"
  by (simp add: crc_shift_def low_bit_test xor.commute)

lemma crc_shift_xor [linear_simps]: "crc_shift (a XOR b) = crc_shift a XOR crc_shift b"
  by (auto simp: crc_shift_alt bit_xor_iff drop_bit_xor xor.assoc xor.left_commute xor.commute)

lemma crc_shift_pow_xor [linear_simps]:
  "(crc_shift ^^ n) (a XOR b) = (crc_shift ^^ n) a XOR (crc_shift ^^ n) b"
  by (induction n) (simp_all add: linear_simps)

lemma crc_shift_eq_0: "crc_shift c = 0 \<Longrightarrow> c = 0"
proof (cases "bit c 0")
  case True
  assume "crc_shift c = 0"
  with True have "drop_bit 1 c = crc_poly" by (simp add: crc_shift_alt)
  then have "bit (drop_bit 1 c) 31 = bit crc_poly 31" by simp
  then show ?thesis by (auto simp: bit_simps crc_poly_value dest: bit_imp_le_length)
next
  case False
  assume "crc_shift c = 0"
  with False have d: "drop_bit 1 c = 0" by (simp add: crc_shift_alt)
  show ?thesis
  proof (rule bit_word_eqI)
    fix n
    show "bit c n = bit 0 n"
      using False d by (cases n) (auto simp: bit_simps dest: arg_cong [where f = "\<lambda>w. bit w (n - 1)"])
  qed
qed

lemma inj_crc_shift: "inj crc_shift"
proof (rule injI)
  fix x y assume "crc_shift x = crc_shift y"
  then have "crc_shift (x XOR y) = 0" by (simp add: linear_simps)
  then have "x XOR y = 0" by (rule crc_shift_eq_0)
  then show "x = y" by simp
qed

lemma crc_shift_push_bit:
  "\<not> bit y (31 - n) \<Longrightarrow> n < 31 \<Longrightarrow> crc_shift (push_bit (Suc n) y) = push_bit n y"
  unfolding crc_shift_alt
  by (rule bit_word_eqI, rename_tac m, case_tac "m = 31")
    (auto simp: bit_push_bit_iff bit_drop_bit_eq simp del: push_bit_Suc)

lemma crc_shift_pow_push_bit:
  "n < 32 \<Longrightarrow> (\<And>j. 32 - n \<le> j \<Longrightarrow> \<not> bit y j) \<Longrightarrow> (crc_shift ^^ n) (push_bit n y) = y"
proof (induction n)
  case (Suc n)
  have "crc_shift (push_bit (Suc n) y) = push_bit n y"
    using Suc.prems by (intro crc_shift_push_bit) auto
  then have "(crc_shift ^^ Suc n) (push_bit (Suc n) y) = (crc_shift ^^ n) (push_bit n y)"
    by (simp add: funpow_swap1 del: push_bit_Suc)
  also have "\<dots> = y" using Suc by auto
  finally show ?case .
qed simp

lemma crc_shift_pow_split:
  assumes "n < 32"
  shows "(crc_shift ^^ n) c = (crc_shift ^^ n) (take_bit n c) XOR drop_bit n c"
proof -
  have "(crc_shift ^^ n) (push_bit n (drop_bit n c)) = drop_bit n c"
    using assms by (intro crc_shift_pow_push_bit) (auto simp: bit_simps dest: bit_imp_le_length)
  then show ?thesis
    by (subst split_at_bit [of c n]) (simp add: linear_simps)
qed

section \<open>The table\<close>

lemma crc_shift_numeral:
  "crc_shift 0 = 0"
  "crc_shift 1 = 0xedb88320"
  "crc_shift (numeral (num.Bit0 n)) = drop_bit 1 (numeral (num.Bit0 n))"
  "crc_shift (numeral (num.Bit1 n)) = 0xedb88320 XOR drop_bit 1 (numeral (num.Bit1 n))"
  by (simp_all add: crc_shift_def crc_poly_value)

lemma make_crc_table_eq: "make_crc_table = crc_table"
  unfolding make_crc_table_def crc_table_def
  by (simp add: crc_shift_numeral funpow_8 upt_256)

lemma crc_table_nth: "n < 256 \<Longrightarrow> crc_table ! n = (crc_shift ^^ 8) (word_of_nat n)"
  by (simp add: make_crc_table_def flip: make_crc_table_eq)

lemma crc_table_lookup: "crc_table ! unat (c AND 0xff) = (crc_shift ^^ 8) (take_bit 8 c)"
proof -
  have m: "c AND 0xff = take_bit 8 c"
    by (simp add: take_bit_eq_mask mask_eq_exp_minus_1)
  have "unat (take_bit 8 c) < 256"
    using take_bit_nat_less_exp [of 8 "unat c"] by (simp add: unsigned_take_bit_eq)
  then show ?thesis by (simp add: m crc_table_nth)
qed


section \<open>The loops compute the register\<close>

definition crc_byte :: "u8 \<Rightarrow> u32 \<Rightarrow> u32" where
  "crc_byte b r = (crc_shift ^^ 8) (r XOR ucast b)"

lemma DO1_crc_byte: "snd s = b # bs \<Longrightarrow> DO1 s = (crc_byte b (fst s), bs)"
proof (cases s)
  case (Pair crc buf)
  assume "snd s = b # bs"
  moreover have "crc_byte b crc = (crc_shift ^^ 8) (take_bit 8 (crc XOR ucast b)) XOR drop_bit 8 crc"
  proof -
    have "drop_bit 8 (ucast b :: u32) = 0"
      by (rule bit_word_eqI) (auto simp: bit_simps dest: bit_imp_le_length)
    then show ?thesis
      by (simp add: crc_byte_def crc_shift_pow_split [of 8 "crc XOR ucast b"] drop_bit_xor)
  qed
  ultimately show ?thesis
    using Pair by (simp add: DO1_def crc_table_lookup)
qed

text \<open>What the register will hold at the end is the loop invariant.\<close>

definition crc_rest :: "crc_state \<Rightarrow> u32" where
  "crc_rest s = fold crc_byte (snd s) (fst s)"

lemma crc_rest_DO1: "snd s \<noteq> [] \<Longrightarrow> crc_rest (DO1 s) = crc_rest s"
  by (cases "snd s") (auto simp: crc_rest_def DO1_crc_byte)

lemma crc_rest_DO8:
  assumes "8 \<le> length (snd s)"
  shows "crc_rest (DO8 s) = crc_rest s"
proof -
  have ne: "drop k (snd s) \<noteq> []" if "k < 8" for k
    using that assms by simp
  show ?thesis
    using ne [of 0] ne [of 1] ne [of 2] ne [of 3] ne [of 4] ne [of 5] ne [of 6] ne [of 7]
    by (simp add: DO8_def DO4_def DO2_def crc_rest_DO1 eval_nat_numeral drop_Suc)
qed

lemma crc_rest_loop8: "crc_rest (crc_loop8 s) = crc_rest s"
proof (induction s rule: crc_loop8.induct)
  case (1 s)
  then show ?case by (simp add: crc_loop8.simps [of s] crc_rest_DO8)
qed

lemma crc_loop1_rest: "fst (crc_loop1 s) = crc_rest s"
proof (induction s rule: crc_loop1.induct)
  case (1 s)
  show ?case
  proof (cases "snd s = []")
    case True
    then show ?thesis by (simp add: crc_loop1.simps [of s] crc_rest_def)
  next
    case False
    with 1 show ?thesis by (simp add: crc_loop1.simps [of s] crc_rest_DO1)
  qed
qed

lemma crc32_fold: "crc32 crc buf = NOT (fold crc_byte buf (NOT crc))"
proof -
  have not: "w XOR 0xffffffff = NOT w" for w :: u32
    by (rule bit_word_eqI) (simp add: bit_xor_iff bit_not_iff flip: word_minus_one_32)
  show ?thesis
    by (simp add: crc32_def crc_loop1_rest crc_rest_loop8 not) (simp add: crc_rest_def)
qed

lemma crc32_no_comp_fold: "crc32_no_comp crc buf = fold crc_byte buf crc"
  by (simp add: crc32_no_comp_def crc_loop1_rest crc_rest_loop8) (simp add: crc_rest_def)

lemma inj_crc_fold: "inj (fold crc_byte bs)"
proof (induction bs)
  case (Cons b bs)
  have "inj (crc_byte b)"
    using inj_fn [OF inj_crc_shift, of 8] unfolding inj_def crc_byte_def by (metis xor_right_cancel)
  with Cons have "inj (fold crc_byte bs \<circ> crc_byte b)"
    by (rule inj_compose)
  then show ?case by (simp add: comp_def)
qed (simp add: inj_def)

section \<open>Bytes against bits\<close>

lemma crc_feed_alt: "crc_feed b r = crc_shift (r XOR of_bool b)"
  by (simp add: crc_feed_def crc_shift_alt drop_bit_xor bit_simps xor.commute)

lemma crc_feed_bits:
  "n < 32 \<Longrightarrow> fold crc_feed (map (bit w) [0..<n]) r = (crc_shift ^^ n) (r XOR take_bit n w)"
proof (induction n)
  case (Suc n)
  have "(crc_shift ^^ n) (push_bit n (of_bool (bit w n))) = of_bool (bit w n)"
    using Suc.prems by (intro crc_shift_pow_push_bit) (auto simp: bit_simps)
  with Suc show ?case
    by (simp add: crc_feed_alt take_bit_Suc_xor crc_shift_pow_xor flip: xor.assoc)
qed simp

lemma crc_feed_byte: "fold crc_feed (map (bit b) [0..<8]) = crc_byte b"
proof
  fix r
  have "map (bit b) [0..<8] = map (bit (ucast b :: u32)) [0..<8]" by simp
  then show "fold crc_feed (map (bit b) [0..<8]) r = crc_byte b r"
    using crc_feed_bits [of 8 "ucast b" r] by (simp only: crc_byte_def take_bit_8_ucast)
qed

section \<open>Bursts\<close>

fun le_bytes :: "u8 list \<Rightarrow> u32" where
  "le_bytes [] = 0"
| "le_bytes (b # bs) = ucast b XOR push_bit 8 (le_bytes bs)"

lemma bit_le_bytes: "bit (le_bytes bs) j \<Longrightarrow> j < 8 * length bs"
proof (induction bs arbitrary: j)
  case (Cons b bs)
  show ?case
  proof (cases "j < 8")
    case False
    with Cons.prems have "bit (le_bytes bs) (j - 8)"
      by (auto simp: bit_simps dest: bit_imp_le_length)
    then show ?thesis using Cons.IH by fastforce
  qed simp
qed simp

lemma crc_fold_burst:
  "length bs \<le> 4 \<Longrightarrow> fold crc_byte bs r = (crc_shift ^^ (8 * length bs)) (r XOR le_bytes bs)"
proof (induction bs arbitrary: r)
  case (Cons b bs)
  have p: "(crc_shift ^^ 8) (push_bit 8 (le_bytes bs)) = le_bytes bs"
    using Cons.prems bit_le_bytes [of bs] by (intro crc_shift_pow_push_bit) fastforce+
  have "fold crc_byte (b # bs) r = (crc_shift ^^ (8 * length bs)) (crc_byte b r XOR le_bytes bs)"
    using Cons by simp
  also have "crc_byte b r XOR le_bytes bs = (crc_shift ^^ 8) (r XOR le_bytes (b # bs))"
    by (simp add: crc_byte_def linear_simps p xor.assoc)
  finally show ?case
    by (simp add: funpow_add add.commute [of 8] del: funpow.simps fold.simps)
qed simp

lemma le_bytes_inj:
  "length xs = length ys \<Longrightarrow> length xs \<le> 4 \<Longrightarrow> le_bytes xs = le_bytes ys \<Longrightarrow> xs = ys"
proof (induction xs ys rule: list_induct2)
  case (Cons x xs y ys)
  have "take_bit 8 (le_bytes (x # xs)) = take_bit 8 (le_bytes (y # ys))"
    using Cons.prems by simp
  then have xy: "x = y"
    by (simp add: take_bit_xor take_bit_push_bit ucast_u8_inj)
  with Cons.prems have p: "push_bit 8 (le_bytes xs) = push_bit 8 (le_bytes ys)" by simp
  have "le_bytes xs = le_bytes ys"
  proof (rule bit_word_eqI)
    fix j assume "j < LENGTH(32)"
    have "bit (push_bit 8 (le_bytes xs)) (j + 8) = bit (push_bit 8 (le_bytes ys)) (j + 8)"
      by (simp add: p)
    with Cons.prems Cons.hyps show "bit (le_bytes xs) j = bit (le_bytes ys) j"
      using bit_le_bytes [of xs j] bit_le_bytes [of ys j] by (auto simp: bit_simps)
  qed
  with Cons xy show ?case by simp
qed simp


section \<open>Correctness of the checksum\<close>

text \<open>
  The table the generator computes at run time (the DYNAMIC_CRC_TABLE build) is the
  static table the default build compiles in, entry by entry, so both builds compute the same
  checksum.
\<close>
theorem make_crc_table_static: "make_crc_table = crc_table \<and> length crc_table = 256"
  by (simp add: make_crc_table_eq crc_table_def)

text \<open>
  C14: The unrolled table-driven loops of crc32 compute the bit-serial polynomial
  division of the comment, on the complemented register, for every buffer.
\<close>
theorem crc32_is_serial: "crc32 crc buf = NOT (crc_serial buf (NOT crc))"
  by (simp add: crc32_fold crc_serial_def crc_feed_byte)

text \<open>
  A checksum can be computed in pieces: running crc32 over the second part with the
  checksum of the first part as the start value gives the checksum of the whole, for both
  variants.
\<close>
theorem crc32_append:
  "crc32 (crc32 crc xs) ys = crc32 crc (xs @ ys) \<and>
   crc32_no_comp (crc32_no_comp crc xs) ys = crc32_no_comp crc (xs @ ys)"
  by (simp add: crc32_fold crc32_no_comp_fold)

text \<open>
  Any corruption confined to four consecutive bytes changes the checksum, wherever
  it lies in the data.
\<close>
theorem crc32_detects_burst:
  assumes "length xs = length ys" and "length xs \<le> 4" and "xs \<noteq> ys"
  shows "crc32 crc (pre @ xs @ post) \<noteq> crc32 crc (pre @ ys @ post)"
proof
  assume eq: "crc32 crc (pre @ xs @ post) = crc32 crc (pre @ ys @ post)"
  define r where "r = fold crc_byte pre (NOT crc)"
  have "fold crc_byte post (fold crc_byte xs r) = fold crc_byte post (fold crc_byte ys r)"
    using eq by (simp add: crc32_fold r_def)
  then have "fold crc_byte xs r = fold crc_byte ys r"
    using inj_crc_fold by (metis injD)
  then have "(crc_shift ^^ (8 * length xs)) (r XOR le_bytes xs) =
             (crc_shift ^^ (8 * length xs)) (r XOR le_bytes ys)"
    using assms by (simp add: crc_fold_burst)
  then have "le_bytes xs = le_bytes ys"
    using inj_fn [OF inj_crc_shift] by (metis injD xor_left_cancel)
  then show False using assms le_bytes_inj by blast
qed

theorem crc32_detects_burst_witness:
  "crc32 0 ([1, 2] @ [3, 4] @ [5]) \<noteq> crc32 0 ([1, 2] @ [3, 5] @ [5])"
  by (rule crc32_detects_burst) simp_all

end
