(* ===== verification/EccSpec.thy ===== *)
theory EccSpec
  imports Prelude
begin

text \<open>
  The contract of an error correcting code over a block of bytes, as the flash layers
  use it: a clean block is accepted, one flipped bit is put right, two flipped bits are reported.
  The drivers rely on these laws only, so the lemmas that the readers need are proved here once.
\<close>

definition flip_bit_at :: "nat \<Rightarrow> nat \<Rightarrow> u8 list \<Rightarrow> u8 list" where
  "flip_bit_at j k data = data[j := data ! j XOR push_bit k 1]"

lemma length_flip_bit_at [simp]: "length (flip_bit_at j k data) = length data"
  by (simp add: flip_bit_at_def)

lemma flip_bit_at_twice [simp]: "flip_bit_at j k (flip_bit_at j k data) = data"
  by (cases "j < length data") (auto simp: flip_bit_at_def xor.assoc list_update_beyond)

text \<open>At most one bit of the block has changed between writing and reading.\<close>

definition one_bit_apart :: "u8 list \<Rightarrow> u8 list \<Rightarrow> bool" where
  "one_bit_apart raw data \<longleftrightarrow>
     raw = data \<or> (\<exists>j < length data. \<exists>k < 8. raw = flip_bit_at j k data)"

lemma one_bit_apart_flip: "j < length data \<Longrightarrow> k < 8 \<Longrightarrow> one_bit_apart (flip_bit_at j k data) data"
  by (auto simp: one_bit_apart_def)

locale sec_code =
  fixes block :: nat
    and calculate :: "u8 list \<Rightarrow> 'e"
    and correct :: "u8 list \<Rightarrow> 'e \<Rightarrow> 'e \<Rightarrow> int \<times> u8 list \<times> 'e"
  assumes correct_clean:
    "length data = block \<Longrightarrow> correct data (calculate data) (calculate data) = (0, data, calculate data)"
    and correct_one:
    "\<lbrakk>length data = block; j < block; k < 8; raw = flip_bit_at j k data\<rbrakk> \<Longrightarrow>
       correct raw (calculate data) (calculate raw) = (1, data, calculate data)"
    and correct_two:
    "\<lbrakk>length data = block; j < block; k < 8; i < block; m < 8; (j, k) \<noteq> (i, m);
      raw = flip_bit_at i m (flip_bit_at j k data)\<rbrakk> \<Longrightarrow>
       correct raw (calculate data) (calculate raw) = (-1, raw, calculate data)"
begin

lemma correct_one_bit_apart:
  assumes "length data = block" and "one_bit_apart raw data"
  shows "fst (correct raw (calculate data) (calculate raw)) \<in> {0, 1}"
    and "fst (snd (correct raw (calculate data) (calculate raw))) = data"
    and "snd (snd (correct raw (calculate data) (calculate raw))) = calculate data"
  using assms correct_clean correct_one unfolding one_bit_apart_def by fastforce+

lemma correct_zero_iff:
  assumes "length data = block" and "one_bit_apart raw data"
  shows "fst (correct raw (calculate data) (calculate raw)) = 0 \<longleftrightarrow> raw = data"
proof -
  have "flip_bit_at j k data \<noteq> data" if "j < length data" "k < 8" for j k
  proof
    assume "flip_bit_at j k data = data"
    then have "data ! j XOR push_bit k 1 = data ! j"
      using that(1) by (metis flip_bit_at_def nth_list_update_eq)
    then have "push_bit k 1 = (0 :: u8)" by (metis xor_cancel_left xor_self_eq)
    with that(2) show False by (auto dest: arg_cong [where f = "\<lambda>w. bit w k"] simp: bit_simps)
  qed
  with assms correct_clean correct_one show ?thesis
    unfolding one_bit_apart_def by fastforce
qed

end

end
