(* ===== verification/YaffsEcc.thy ===== *)
theory YaffsEcc
  imports EccSpec
begin

text \<open>
  The error correcting codes of yaffs_ecc.c: the column parity table with its generator
  gen-ecc.c, the three-byte code over 256 bytes, and the code over an arbitrary number of
  bytes that protects the packed tags.
\<close>

section \<open>The column parity table\<close>

text \<open>The generator's result is built by conditional or-assignments.\<close>

definition or_if :: "bool \<Rightarrow> 'a::len word \<Rightarrow> 'a word \<Rightarrow> 'a word" where
  "or_if c m t = (if c then t OR m else t)"

definition entry :: "u8 \<Rightarrow> u8" where
  "entry x =
     (let b0 = (x AND 0x01 \<noteq> 0); b1 = (x AND 0x02 \<noteq> 0); b2 = (x AND 0x04 \<noteq> 0); b3 = (x AND 0x08 \<noteq> 0);
          b4 = (x AND 0x10 \<noteq> 0); b5 = (x AND 0x20 \<noteq> 0); b6 = (x AND 0x40 \<noteq> 0); b7 = (x AND 0x80 \<noteq> 0);
          p4 = (((b7 \<noteq> b6) \<noteq> b5) \<noteq> b4); p4p = (((b3 \<noteq> b2) \<noteq> b1) \<noteq> b0);
          p2 = (((b7 \<noteq> b6) \<noteq> b3) \<noteq> b2); p2p = (((b5 \<noteq> b4) \<noteq> b1) \<noteq> b0);
          p1 = (((b7 \<noteq> b5) \<noteq> b3) \<noteq> b1); p1p = (((b6 \<noteq> b4) \<noteq> b2) \<noteq> b0);
          linep = (p1 \<noteq> p1p)
      in or_if linep 0x01 (or_if p1p 0x04 (or_if p1 0x08 (or_if p2p 0x10 (or_if p2 0x20
           (or_if p4p 0x40 (or_if p4 0x80 0)))))))"

definition column_parity_table :: "u8 list" where
  "column_parity_table = [
     0x00, 0x55, 0x59, 0x0c, 0x65, 0x30, 0x3c, 0x69, 0x69, 0x3c, 0x30, 0x65, 0x0c, 0x59, 0x55, 0x00,
     0x95, 0xc0, 0xcc, 0x99, 0xf0, 0xa5, 0xa9, 0xfc, 0xfc, 0xa9, 0xa5, 0xf0, 0x99, 0xcc, 0xc0, 0x95,
     0x99, 0xcc, 0xc0, 0x95, 0xfc, 0xa9, 0xa5, 0xf0, 0xf0, 0xa5, 0xa9, 0xfc, 0x95, 0xc0, 0xcc, 0x99,
     0x0c, 0x59, 0x55, 0x00, 0x69, 0x3c, 0x30, 0x65, 0x65, 0x30, 0x3c, 0x69, 0x00, 0x55, 0x59, 0x0c,
     0xa5, 0xf0, 0xfc, 0xa9, 0xc0, 0x95, 0x99, 0xcc, 0xcc, 0x99, 0x95, 0xc0, 0xa9, 0xfc, 0xf0, 0xa5,
     0x30, 0x65, 0x69, 0x3c, 0x55, 0x00, 0x0c, 0x59, 0x59, 0x0c, 0x00, 0x55, 0x3c, 0x69, 0x65, 0x30,
     0x3c, 0x69, 0x65, 0x30, 0x59, 0x0c, 0x00, 0x55, 0x55, 0x00, 0x0c, 0x59, 0x30, 0x65, 0x69, 0x3c,
     0xa9, 0xfc, 0xf0, 0xa5, 0xcc, 0x99, 0x95, 0xc0, 0xc0, 0x95, 0x99, 0xcc, 0xa5, 0xf0, 0xfc, 0xa9,
     0xa9, 0xfc, 0xf0, 0xa5, 0xcc, 0x99, 0x95, 0xc0, 0xc0, 0x95, 0x99, 0xcc, 0xa5, 0xf0, 0xfc, 0xa9,
     0x3c, 0x69, 0x65, 0x30, 0x59, 0x0c, 0x00, 0x55, 0x55, 0x00, 0x0c, 0x59, 0x30, 0x65, 0x69, 0x3c,
     0x30, 0x65, 0x69, 0x3c, 0x55, 0x00, 0x0c, 0x59, 0x59, 0x0c, 0x00, 0x55, 0x3c, 0x69, 0x65, 0x30,
     0xa5, 0xf0, 0xfc, 0xa9, 0xc0, 0x95, 0x99, 0xcc, 0xcc, 0x99, 0x95, 0xc0, 0xa9, 0xfc, 0xf0, 0xa5,
     0x0c, 0x59, 0x55, 0x00, 0x69, 0x3c, 0x30, 0x65, 0x65, 0x30, 0x3c, 0x69, 0x00, 0x55, 0x59, 0x0c,
     0x99, 0xcc, 0xc0, 0x95, 0xfc, 0xa9, 0xa5, 0xf0, 0xf0, 0xa5, 0xa9, 0xfc, 0x95, 0xc0, 0xcc, 0x99,
     0x95, 0xc0, 0xcc, 0x99, 0xf0, 0xa5, 0xa9, 0xfc, 0xfc, 0xa9, 0xa5, 0xf0, 0x99, 0xcc, 0xc0, 0x95,
     0x00, 0x55, 0x59, 0x0c, 0x65, 0x30, 0x3c, 0x69, 0x69, 0x3c, 0x30, 0x65, 0x0c, 0x59, 0x55, 0x00]"

section \<open>Bit counting\<close>

function count_bits_loop :: "int \<Rightarrow> 'a::len word \<Rightarrow> int" where
  "count_bits_loop r x =
     (if x \<noteq> 0 then count_bits_loop (if x AND 1 \<noteq> 0 then r + 1 else r) (drop_bit 1 x) else r)"
  by pat_completeness auto
termination
  by (relation "measure (\<lambda>(r, x). unat x)") (use unat_shift_less in auto)

definition yaffs_CountBits :: "u8 \<Rightarrow> int" where
  "yaffs_CountBits x = count_bits_loop 0 x"

definition yaffs_CountBits32 :: "u32 \<Rightarrow> int" where
  "yaffs_CountBits32 x = count_bits_loop 0 x"

section \<open>The code over 256 bytes\<close>

text \<open>
  The loop over the data keeps the column parity and the two line parities; the 256-byte code keeps
  the line parities in bytes, the other code in 32-bit integers.
\<close>

fun ecc_loop :: "nat \<Rightarrow> u8 list \<Rightarrow> u8 \<times> 'a::len word \<times> 'a word \<Rightarrow> u8 \<times> 'a word \<times> 'a word" where
  "ecc_loop i [] s = s"
| "ecc_loop i (d # data) (col_parity, line_parity, line_parity_prime) =
     (let b = column_parity_table ! unat d in
      ecc_loop (Suc i) data
        (col_parity XOR b,
         if b AND 0x01 \<noteq> 0 then line_parity XOR word_of_nat i else line_parity,
         if b AND 0x01 \<noteq> 0 then line_parity_prime XOR NOT (word_of_nat i) else line_parity_prime))"

definition ecc_high :: "u8 \<Rightarrow> u8 \<Rightarrow> u8" where
  "ecc_high line_parity line_parity_prime =
     (let t = 0;
          t = or_if (line_parity AND 0x80 \<noteq> 0) 0x80 t;
          t = or_if (line_parity_prime AND 0x80 \<noteq> 0) 0x40 t;
          t = or_if (line_parity AND 0x40 \<noteq> 0) 0x20 t;
          t = or_if (line_parity_prime AND 0x40 \<noteq> 0) 0x10 t;
          t = or_if (line_parity AND 0x20 \<noteq> 0) 0x08 t;
          t = or_if (line_parity_prime AND 0x20 \<noteq> 0) 0x04 t;
          t = or_if (line_parity AND 0x10 \<noteq> 0) 0x02 t
      in or_if (line_parity_prime AND 0x10 \<noteq> 0) 0x01 t)"

definition ecc_low :: "u8 \<Rightarrow> u8 \<Rightarrow> u8" where
  "ecc_low line_parity line_parity_prime =
     (let t = 0;
          t = or_if (line_parity AND 0x08 \<noteq> 0) 0x80 t;
          t = or_if (line_parity_prime AND 0x08 \<noteq> 0) 0x40 t;
          t = or_if (line_parity AND 0x04 \<noteq> 0) 0x20 t;
          t = or_if (line_parity_prime AND 0x04 \<noteq> 0) 0x10 t;
          t = or_if (line_parity AND 0x02 \<noteq> 0) 0x08 t;
          t = or_if (line_parity_prime AND 0x02 \<noteq> 0) 0x04 t;
          t = or_if (line_parity AND 0x01 \<noteq> 0) 0x02 t
      in or_if (line_parity_prime AND 0x01 \<noteq> 0) 0x01 t)"

type_synonym ecc3 = "u8 \<times> u8 \<times> u8"

definition yaffs_ECCCalculate :: "u8 list \<Rightarrow> ecc3" where
  "yaffs_ECCCalculate data =
     (let (col_parity, line_parity, line_parity_prime) = ecc_loop 0 (take 256 data) (0, 0, 0)
      in (NOT (ecc_low line_parity line_parity_prime),
          NOT (ecc_high line_parity line_parity_prime),
          NOT col_parity OR 0x03))"

definition ecc_byte_address :: "u8 \<Rightarrow> u8 \<Rightarrow> u8" where
  "ecc_byte_address d0 d1 =
     (let byte = 0;
          byte = or_if (d1 AND 0x80 \<noteq> 0) 0x80 byte;
          byte = or_if (d1 AND 0x20 \<noteq> 0) 0x40 byte;
          byte = or_if (d1 AND 0x08 \<noteq> 0) 0x20 byte;
          byte = or_if (d1 AND 0x02 \<noteq> 0) 0x10 byte;
          byte = or_if (d0 AND 0x80 \<noteq> 0) 0x08 byte;
          byte = or_if (d0 AND 0x20 \<noteq> 0) 0x04 byte;
          byte = or_if (d0 AND 0x08 \<noteq> 0) 0x02 byte
      in or_if (d0 AND 0x02 \<noteq> 0) 0x01 byte)"

definition ecc_bit_address :: "u8 \<Rightarrow> u8" where
  "ecc_bit_address d2 =
     or_if (d2 AND 0x08 \<noteq> 0) 0x01 (or_if (d2 AND 0x20 \<noteq> 0) 0x02 (or_if (d2 AND 0x80 \<noteq> 0) 0x04 0))"

definition yaffs_ECCCorrect :: "u8 list \<Rightarrow> ecc3 \<Rightarrow> ecc3 \<Rightarrow> int \<times> u8 list \<times> ecc3" where
  "yaffs_ECCCorrect data read_ecc test_ecc =
     (let (r0, r1, r2) = read_ecc; (t0, t1, t2) = test_ecc;
          d0 = r0 XOR t0; d1 = r1 XOR t1; d2 = r2 XOR t2
      in if (d0 OR d1 OR d2) = 0 then (0, data, read_ecc)
         else if ((d0 XOR drop_bit 1 d0) AND 0x55) = 0x55 \<and>
                 ((d1 XOR drop_bit 1 d1) AND 0x55) = 0x55 \<and>
                 ((d2 XOR drop_bit 1 d2) AND 0x54) = 0x54
         then (let byte = unat (ecc_byte_address d0 d1); bit = unat (ecc_bit_address d2)
               in (1, data[byte := data ! byte XOR push_bit bit 1], read_ecc))
         else if yaffs_CountBits d0 + yaffs_CountBits d1 + yaffs_CountBits d2 = 1
         then (1, data, test_ecc)
         else (-1, data, read_ecc))"

section \<open>The code over any number of bytes\<close>

record yaffs_ECCOther =
  colParity :: u8
  lineParity :: u32
  lineParityPrime :: u32

definition yaffs_ECCCalculateOther :: "u8 list \<Rightarrow> nat \<Rightarrow> yaffs_ECCOther" where
  "yaffs_ECCCalculateOther data nBytes =
     (let (col_parity, line_parity, line_parity_prime) = ecc_loop 0 (take nBytes data) (0, 0, 0)
      in \<lparr>colParity = drop_bit 2 col_parity AND 0x3f, lineParity = line_parity,
          lineParityPrime = line_parity_prime\<rparr>)"

definition yaffs_ECCCorrectOther ::
    "u8 list \<Rightarrow> nat \<Rightarrow> yaffs_ECCOther \<Rightarrow> yaffs_ECCOther \<Rightarrow> int \<times> u8 list \<times> yaffs_ECCOther" where
  "yaffs_ECCCorrectOther data nBytes read_ecc test_ecc =
     (let cDelta = colParity read_ecc XOR colParity test_ecc;
          lDelta = lineParity read_ecc XOR lineParity test_ecc;
          lDeltaPrime = lineParityPrime read_ecc XOR lineParityPrime test_ecc
      in if (ucast cDelta OR lDelta OR lDeltaPrime) = 0 then (0, data, read_ecc)
         else if lDelta = NOT lDeltaPrime \<and> ((cDelta XOR drop_bit 1 cDelta) AND 0x15) = 0x15
         then (let bit = or_if (cDelta AND 0x02 \<noteq> 0) 0x01 (or_if (cDelta AND 0x08 \<noteq> 0) 0x02
                           (or_if (cDelta AND 0x20 \<noteq> 0) (0x04 :: u32) 0))
               in if nBytes \<le> unat lDelta then (-1, data, read_ecc)
                  else (1, data[unat lDelta := data ! unat lDelta XOR push_bit (unat bit) 1], read_ecc))
         else if yaffs_CountBits32 lDelta + yaffs_CountBits32 lDeltaPrime + yaffs_CountBits cDelta = 1
         then (1, data, test_ecc)
         else (-1, data, read_ecc))"

section \<open>The table is linear\<close>

declare count_bits_loop.simps [simp del]

lemma count_bits_loop: "count_bits_loop r x = r + int (pop_count x)"
proof (induction r x rule: count_bits_loop.induct)
  case (1 r x)
  then show ?case
    by (auto simp: count_bits_loop.simps [of r x] pop_count_step [of x] low_bit_test)
qed

lemma CountBits_pop_count [simp]:
  "yaffs_CountBits x = int (pop_count x)"
  "yaffs_CountBits32 y = int (pop_count y)"
  by (simp_all add: yaffs_CountBits_def yaffs_CountBits32_def count_bits_loop)

lemma bit_or_if [simp]: "bit (or_if c m t) n \<longleftrightarrow> bit t n \<or> (c \<and> bit m n)"
  by (auto simp: or_if_def bit_simps)

definition par4 :: "bool \<Rightarrow> bool \<Rightarrow> bool \<Rightarrow> bool \<Rightarrow> bool" where
  "par4 a b c d = (((a \<noteq> b) \<noteq> c) \<noteq> d)"

lemma par4_xor:
  "par4 (a \<noteq> a') (b \<noteq> b') (c \<noteq> c') (d \<noteq> d') = (par4 a b c d \<noteq> par4 a' b' c' d')"
  unfolding par4_def by (cases a; cases b; cases c; cases d; cases a'; cases b'; cases c'; cases d'; simp)

lemma bit_entry:
  "bit (entry x) 1 = False"
  "bit (entry x) 0 = (par4 (bit x 7) (bit x 5) (bit x 3) (bit x 1) \<noteq>
                      par4 (bit x 6) (bit x 4) (bit x 2) (bit x 0))"
  "bit (entry x) 2 = par4 (bit x 6) (bit x 4) (bit x 2) (bit x 0)"
  "bit (entry x) 3 = par4 (bit x 7) (bit x 5) (bit x 3) (bit x 1)"
  "bit (entry x) 4 = par4 (bit x 5) (bit x 4) (bit x 1) (bit x 0)"
  "bit (entry x) 5 = par4 (bit x 7) (bit x 6) (bit x 3) (bit x 2)"
  "bit (entry x) 6 = par4 (bit x 3) (bit x 2) (bit x 1) (bit x 0)"
  "bit (entry x) 7 = par4 (bit x 7) (bit x 6) (bit x 5) (bit x 4)"
  unfolding entry_def Let_def mask_tests par4_def by simp_all

lemma entry_xor [linear_simps]: "entry (a XOR b) = entry a XOR entry b"
  unfolding u8_eq_iff bit_xor_iff bit_entry par4_xor by (intro conjI; (rule refl | blast))

lemma column_parity_table_eq: "column_parity_table = map (\<lambda>n. entry (word_of_nat n)) [0..<256]"
  unfolding column_parity_table_def by (simp add: upt_256 entry_def or_if_def)

lemma column_parity_lookup: "column_parity_table ! unat d = entry d"
proof -
  have "unat d < 256" using unsigned_less [of d] by simp
  then show ?thesis by (simp add: column_parity_table_eq)
qed

lemma entry_powers:
  "entry 1 = 0x55" "entry 2 = 0x59" "entry 4 = 0x65" "entry 8 = 0x69"
  "entry 16 = 0x95" "entry 32 = 0x99" "entry 64 = 0xa5" "entry 128 = 0xa9"
  by (simp_all add: entry_def or_if_def)

text \<open>
  A single bit touches exactly one of each pair of column parities, and which one spells
  its position.
\<close>

lemma entry_single:
  assumes "k < 8"
  shows "bit (entry (push_bit k 1)) 0"
    and "bit (entry (push_bit k 1)) 7 = bit k 2" and "bit (entry (push_bit k 1)) 6 = (\<not> bit k 2)"
    and "bit (entry (push_bit k 1)) 5 = bit k 1" and "bit (entry (push_bit k 1)) 4 = (\<not> bit k 1)"
    and "bit (entry (push_bit k 1)) 3 = bit k 0" and "bit (entry (push_bit k 1)) 2 = (\<not> bit k 0)"
proof -
  have "k = 0 \<or> k = 1 \<or> k = 2 \<or> k = 3 \<or> k = 4 \<or> k = 5 \<or> k = 6 \<or> k = 7"
    using assms by auto
  then show "bit (entry (push_bit k 1)) 0"
    and "bit (entry (push_bit k 1)) 7 = bit k 2" and "bit (entry (push_bit k 1)) 6 = (\<not> bit k 2)"
    and "bit (entry (push_bit k 1)) 5 = bit k 1" and "bit (entry (push_bit k 1)) 4 = (\<not> bit k 1)"
    and "bit (entry (push_bit k 1)) 3 = bit k 0" and "bit (entry (push_bit k 1)) 2 = (\<not> bit k 0)"
    by (elim disjE; simp add: bit_entry par4_def bit_simps)+
qed

section \<open>A flipped bit in the loop\<close>

definition xor3 :: "u8 \<times> 'a::len word \<times> 'a word \<Rightarrow> u8 \<times> 'a word \<times> 'a word \<Rightarrow> u8 \<times> 'a word \<times> 'a word" where
  "xor3 s t = (fst s XOR fst t, fst (snd s) XOR fst (snd t), snd (snd s) XOR snd (snd t))"

lemma ecc_loop_xor3: "ecc_loop i data (xor3 s t) = xor3 (ecc_loop i data s) t"
proof (induction i data s rule: ecc_loop.induct)
  case (2 i d data c l l')
  obtain a b b' where t: "t = (a, b, b')" by (cases t)
  have swap: "(x XOR y) XOR z = (x XOR z) XOR y" for x y z :: "'b::len word"
    by (simp add: xor.assoc xor.commute xor.left_commute)
  show ?case
    using 2 [OF refl] by (cases "column_parity_table ! unat d AND 1 = 0")
      (simp_all add: t xor3_def Let_def swap [of _ a] swap [of _ b] swap [of _ b'])
qed simp

lemma ecc_loop_flip:
  assumes "j < length data" and "k < 8"
  shows "ecc_loop i (flip_bit_at j k data) s =
    xor3 (ecc_loop i data s) (entry (push_bit k 1), word_of_nat (i + j), NOT (word_of_nat (i + j)))"
  using assms(1)
proof (induction data arbitrary: i j s)
  case (Cons d data)
  obtain c l l' where s: "s = (c, l, l')" by (cases s)
  show ?case
  proof (cases j)
    case 0
    have "bit (entry (push_bit k 1)) 0" using assms(2) by (rule entry_single)
    then have odd: "bit (entry (d XOR push_bit k 1)) 0 = (\<not> bit (entry d) 0)"
      by (simp add: linear_simps bit_xor_iff del: push_bit_of_1)
    show ?thesis
      using odd by (simp add: 0 s flip_bit_at_def Let_def column_parity_lookup low_bit_test
          linear_simps xor.assoc flip: ecc_loop_xor3 del: push_bit_of_1)
        (auto simp: xor3_def xor.assoc xor.left_commute xor.commute)
  next
    case (Suc m)
    with Cons show ?thesis
      by (simp add: s flip_bit_at_def Let_def add.assoc)
  qed
qed simp

section \<open>The packed code, bit by bit\<close>

lemma bit_ecc_high:
  "bit (ecc_high l l') 7 = bit l 7" "bit (ecc_high l l') 6 = bit l' 7"
  "bit (ecc_high l l') 5 = bit l 6" "bit (ecc_high l l') 4 = bit l' 6"
  "bit (ecc_high l l') 3 = bit l 5" "bit (ecc_high l l') 2 = bit l' 5"
  "bit (ecc_high l l') 1 = bit l 4" "bit (ecc_high l l') 0 = bit l' 4"
  unfolding ecc_high_def Let_def mask_tests by simp_all

lemma bit_ecc_low:
  "bit (ecc_low l l') 7 = bit l 3" "bit (ecc_low l l') 6 = bit l' 3"
  "bit (ecc_low l l') 5 = bit l 2" "bit (ecc_low l l') 4 = bit l' 2"
  "bit (ecc_low l l') 3 = bit l 1" "bit (ecc_low l l') 2 = bit l' 1"
  "bit (ecc_low l l') 1 = bit l 0" "bit (ecc_low l l') 0 = bit l' 0"
  unfolding ecc_low_def Let_def mask_tests by simp_all

lemma bit_NOT_u8: "bit (NOT (x :: u8)) n \<longleftrightarrow> n < 8 \<and> \<not> bit x n"
  by (simp add: bit_not_iff)

lemma ecc_pack_delta:
  "NOT (ecc_low l l') XOR NOT (ecc_low (l XOR y) (l' XOR y')) = ecc_low y y'"
  "NOT (ecc_high l l') XOR NOT (ecc_high (l XOR y) (l' XOR y')) = ecc_high y y'"
  "(NOT c OR 3) XOR (NOT (c XOR x) OR 3) = x AND 0xfc" for c x :: u8
  unfolding u8_eq_iff bit_xor_iff bit_or_iff bit_and_iff bit_NOT_u8 bit_ecc_low bit_ecc_high
  by auto

lemma ecc_byte_address_pack: "ecc_byte_address (ecc_low y y') (ecc_high y y') = y"
  unfolding ecc_byte_address_def Let_def mask_tests
  by (subst u8_eq_iff) (simp add: bit_ecc_low bit_ecc_high bit_ecc_low(7) [simplified] bit_ecc_high(7) [simplified])

lemma ecc_bit_address_single: "k < 8 \<Longrightarrow> unat (ecc_bit_address (entry (push_bit k 1) AND 0xfc)) = k"
proof -
  assume "k < 8"
  then have "k = 0 \<or> k = 1 \<or> k = 2 \<or> k = 3 \<or> k = 4 \<or> k = 5 \<or> k = 6 \<or> k = 7"
    by auto
  then show ?thesis
    by (elim disjE; simp add: ecc_bit_address_def or_if_def entry_powers)
qed

text \<open>How the correction depends on what changed in the column and line parities.\<close>

lemma ECCCalculate_loop:
  "length data = 256 \<Longrightarrow> ecc_loop 0 data (0, 0, 0) = (c, l, l') \<Longrightarrow>
     yaffs_ECCCalculate data = (NOT (ecc_low l l'), NOT (ecc_high l l'), NOT c OR 3)"
  by (simp add: yaffs_ECCCalculate_def)

lemma ECCCorrect_delta:
  assumes "length data = 256" and "length raw = 256"
    and "ecc_loop 0 raw (0, 0, 0) = xor3 (ecc_loop 0 data (0, 0, 0)) (x, y, y')"
  shows "yaffs_ECCCorrect raw (yaffs_ECCCalculate data) (yaffs_ECCCalculate raw) =
    (let d0 = ecc_low y y'; d1 = ecc_high y y'; d2 = x AND 0xfc
     in if (d0 OR d1 OR d2) = 0 then (0, raw, yaffs_ECCCalculate data)
        else if ((d0 XOR drop_bit 1 d0) AND 0x55) = 0x55 \<and> ((d1 XOR drop_bit 1 d1) AND 0x55) = 0x55 \<and>
                ((d2 XOR drop_bit 1 d2) AND 0x54) = 0x54
        then (1, flip_bit_at (unat y) (unat (ecc_bit_address d2)) raw, yaffs_ECCCalculate data)
        else if pop_count d0 + pop_count d1 + pop_count d2 = 1 then (1, raw, yaffs_ECCCalculate raw)
        else (-1, raw, yaffs_ECCCalculate data))"
proof -
  obtain c and l l' :: u8 where loop: "ecc_loop 0 data (0, 0, 0) = (c, l, l')"
    by (metis prod_cases3)
  then have raw: "ecc_loop 0 raw (0, 0, 0) = (c XOR x, l XOR y, l' XOR y')"
    using assms(3) by (simp add: xor3_def)
  show ?thesis
    unfolding ECCCalculate_loop [OF assms(1) loop] ECCCalculate_loop [OF assms(2) raw]
      yaffs_ECCCorrect_def
    by (simp only: Let_def case_prod_conv ecc_pack_delta ecc_byte_address_pack flip_bit_at_def
        CountBits_pop_count flip: of_nat_add) simp
qed

lemma nat_eq_bits3: "k < 8 \<Longrightarrow> m < 8 \<Longrightarrow> k \<noteq> m \<Longrightarrow> bit k 0 \<noteq> bit m 0 \<or> bit k 1 \<noteq> bit m 1 \<or> bit k 2 \<noteq> bit m 2"
  for k m :: nat
proof -
  have *: "n = 4 * of_bool (bit n 2) + 2 * of_bool (bit n 1) + of_bool (bit n 0)" if "n < 8" for n :: nat
  proof -
    have "n = 0 \<or> n = 1 \<or> n = 2 \<or> n = 3 \<or> n = 4 \<or> n = 5 \<or> n = 6 \<or> n = 7" using that by auto
    then show ?thesis by (elim disjE; simp add: bit_0)
  qed
  define f :: "nat \<Rightarrow> nat" where "f n = 4 * of_bool (bit n 2) + 2 * of_bool (bit n 1) + of_bool (bit n 0)" for n
  show "bit k 0 \<noteq> bit m 0 \<or> bit k 1 \<noteq> bit m 1 \<or> bit k 2 \<noteq> bit m 2" if "k < 8" "m < 8" "k \<noteq> m"
  proof (rule ccontr)
    assume "\<not> ?thesis"
    then have "f k = f m" by (simp add: f_def)
    with that * [of k] * [of m] show False unfolding f_def by presburger
  qed
qed

lemma ecc_pack_count: "y \<noteq> 0 \<Longrightarrow> 2 \<le> pop_count (ecc_low y y) + pop_count (ecc_high y y)"
proof -
  have two: "2 \<le> pop_count w" if "bit w m" "bit w n" "m \<noteq> n" for w :: u8 and m n
    using that by (rule pop_count_two_bits)
  assume "y \<noteq> 0"
  then consider "bit y 0" | "bit y 1" | "bit y 2" | "bit y 3" | "bit y 4" | "bit y 5" | "bit y 6" | "bit y 7"
    unfolding u8_eq_iff by auto
  then show ?thesis
  proof cases
    case 1 then have "2 \<le> pop_count (ecc_low y y)" by (intro two [of _ 1 0]) (simp_all only: bit_ecc_low)
    then show ?thesis by simp
  next
    case 2 then have "2 \<le> pop_count (ecc_low y y)" by (intro two [of _ 3 2]) (simp_all only: bit_ecc_low)
    then show ?thesis by simp
  next
    case 3 then have "2 \<le> pop_count (ecc_low y y)" by (intro two [of _ 5 4]) (simp_all only: bit_ecc_low)
    then show ?thesis by simp
  next
    case 4 then have "2 \<le> pop_count (ecc_low y y)" by (intro two [of _ 7 6]) (simp_all only: bit_ecc_low)
    then show ?thesis by simp
  next
    case 5 then have "2 \<le> pop_count (ecc_high y y)" by (intro two [of _ 1 0]) (simp_all only: bit_ecc_high)
    then show ?thesis by simp
  next
    case 6 then have "2 \<le> pop_count (ecc_high y y)" by (intro two [of _ 3 2]) (simp_all only: bit_ecc_high)
    then show ?thesis by simp
  next
    case 7 then have "2 \<le> pop_count (ecc_high y y)" by (intro two [of _ 5 4]) (simp_all only: bit_ecc_high)
    then show ?thesis by simp
  next
    case 8 then have "2 \<le> pop_count (ecc_high y y)" by (intro two [of _ 7 6]) (simp_all only: bit_ecc_high)
    then show ?thesis by simp
  qed
qed

section \<open>The 256-byte code meets its contract\<close>

lemma xor3_assoc: "xor3 (xor3 s t) u = xor3 s (xor3 t u)"
  by (simp add: xor3_def xor.assoc)

lemma ECCCorrect_clean:
  "length data = 256 \<Longrightarrow>
     yaffs_ECCCorrect data (yaffs_ECCCalculate data) (yaffs_ECCCalculate data) =
       (0, data, yaffs_ECCCalculate data)"
  by (simp add: yaffs_ECCCorrect_def Let_def split: prod.splits)

lemma ECCCorrect_one:
  assumes "length data = 256" and "j < 256" and "k < 8" and raw: "raw = flip_bit_at j k data"
  shows "yaffs_ECCCorrect raw (yaffs_ECCCalculate data) (yaffs_ECCCalculate raw) =
    (1, data, yaffs_ECCCalculate data)"
proof -
  define y :: u8 where "y = word_of_nat j"
  have y: "unat y = j" using assms(2) by (simp add: y_def unat_of_nat)
  have loop: "ecc_loop 0 raw (0, 0, 0) =
      xor3 (ecc_loop 0 data (0, 0, 0)) (entry (push_bit k 1), y, NOT y)"
    using ecc_loop_flip [of j data k 0 "(0, 0, 0)"] assms by (simp add: y_def)
  have pairs: "((ecc_low y (NOT y) XOR drop_bit 1 (ecc_low y (NOT y))) AND 0x55) = 0x55"
    "((ecc_high y (NOT y) XOR drop_bit 1 (ecc_high y (NOT y))) AND 0x55) = 0x55"
    "(((entry (push_bit k 1) AND 0xfc) XOR drop_bit 1 (entry (push_bit k 1) AND 0xfc)) AND 0x54) = 0x54"
    unfolding even_odd_pairs bit_ecc_low bit_ecc_high bit_NOT_u8 bit_and_iff entry_single [OF assms(3)]
    by simp_all
  have "entry (push_bit k 1) AND 0xfc \<noteq> 0"
    using entry_single(2,3) [OF assms(3)] unfolding u8_eq_iff bit_and_iff by auto
  then have nz: "(ecc_low y (NOT y) OR ecc_high y (NOT y) OR entry (push_bit k 1) AND 0xfc) \<noteq> 0"
    by (simp add: or_eq_0_iff)
  have len: "length raw = 256" using assms by simp
  show ?thesis
    unfolding ECCCorrect_delta [OF assms(1) len loop] Let_def
    using nz pairs ecc_bit_address_single [OF assms(3)] raw y
    by (simp del: push_bit_of_1)
qed

lemma ECCCorrect_two:
  assumes "length data = 256" and "j < 256" and "k < 8" and "i < 256" and "m < 8"
    and diff: "(j, k) \<noteq> (i, m)" and raw: "raw = flip_bit_at i m (flip_bit_at j k data)"
  shows "yaffs_ECCCorrect raw (yaffs_ECCCalculate data) (yaffs_ECCCalculate raw) =
    (-1, raw, yaffs_ECCCalculate data)"
proof -
  define y :: u8 where "y = word_of_nat j XOR word_of_nat i"
  define d2 where "d2 = (entry (push_bit k 1) XOR entry (push_bit m 1)) AND 0xfc"
  have loop: "ecc_loop 0 raw (0, 0, 0) =
      xor3 (ecc_loop 0 data (0, 0, 0)) (entry (push_bit k 1) XOR entry (push_bit m 1), y, y)"
    using assms by (simp add: ecc_loop_flip xor3_assoc y_def del: push_bit_of_1) (simp add: xor3_def)
  have d2: "bit d2 7 = (bit k 2 \<noteq> bit m 2)" "bit d2 6 = (bit k 2 \<noteq> bit m 2)"
    "bit d2 5 = (bit k 1 \<noteq> bit m 1)" "bit d2 4 = (bit k 1 \<noteq> bit m 1)"
    "bit d2 3 = (bit k 0 \<noteq> bit m 0)" "bit d2 2 = (bit k 0 \<noteq> bit m 0)"
    unfolding d2_def bit_and_iff bit_xor_iff entry_single [OF assms(3)] entry_single [OF assms(5)]
    by auto
  have single: "((d2 XOR drop_bit 1 d2) AND 0x54) \<noteq> 0x54"
    unfolding even_odd_pairs d2 by simp
  have count: "2 \<le> pop_count (ecc_low y y) + pop_count (ecc_high y y) + pop_count d2"
  proof (cases "j = i")
    case True
    with diff assms(3,5) have "bit k 0 \<noteq> bit m 0 \<or> bit k 1 \<noteq> bit m 1 \<or> bit k 2 \<noteq> bit m 2"
      by (intro nat_eq_bits3) auto
    then have "bit d2 3 \<and> bit d2 2 \<or> bit d2 5 \<and> bit d2 4 \<or> bit d2 7 \<and> bit d2 6"
      unfolding d2 by blast
    then have "2 \<le> pop_count d2"
      using pop_count_two_bits [of d2 3 2] pop_count_two_bits [of d2 5 4] pop_count_two_bits [of d2 7 6]
      by auto
    then show ?thesis by simp
  next
    case False
    have "y \<noteq> 0"
    proof
      assume "y = 0"
      then have "(word_of_nat j :: u8) = word_of_nat i" by (simp add: y_def)
      then have "unat (word_of_nat j :: u8) = unat (word_of_nat i :: u8)" by (rule arg_cong)
      with False assms(2,4) show False by (simp add: unat_of_nat)
    qed
    then show ?thesis using ecc_pack_count [of y] by simp
  qed
  have nz: "(ecc_low y y OR ecc_high y y OR d2) \<noteq> 0"
    using count by (auto simp: or_eq_0_iff)
  have len: "length raw = 256" using assms by simp
  show ?thesis
    unfolding ECCCorrect_delta [OF assms(1) len loop] Let_def d2_def [symmetric]
    using nz single count by simp
qed

lemma ECCCorrect_ecc_bit:
  assumes "length data = 256" and "yaffs_ECCCalculate data = (r0, r1, r2)" and "n < 8"
    and "read_ecc \<in> {(r0 XOR push_bit n 1, r1, r2), (r0, r1 XOR push_bit n 1, r2), (r0, r1, r2 XOR push_bit n 1)}"
  shows "yaffs_ECCCorrect data read_ecc (yaffs_ECCCalculate data) = (1, data, yaffs_ECCCalculate data)"
proof -
  have x: "(a XOR b) XOR a = b" for a b :: u8
    by (simp add: xor.commute)
  have nz: "(push_bit n 1 :: u8) \<noteq> 0"
    using assms(3) by (auto dest: arg_cong [where f = "\<lambda>w. bit w n"] simp: bit_simps)
  have z: "((0 :: u8) XOR drop_bit 1 0) AND 0x55 \<noteq> 0x55" by simp
  from assms(4) show ?thesis
    using nz assms(3) unfolding yaffs_ECCCorrect_def assms(2)
    by (auto simp: Let_def x or_eq_0_iff simp del: push_bit_of_1)
qed

interpretation yaffs_ecc: sec_code 256 yaffs_ECCCalculate yaffs_ECCCorrect
  by unfold_locales ((rule ECCCorrect_clean ECCCorrect_one ECCCorrect_two; assumption)+)

section \<open>The code over any number of bytes\<close>

lemma ECCCorrectOther_delta:
  assumes "length data = n" and "length raw = n"
    and "ecc_loop 0 raw (0, 0, 0) = xor3 (ecc_loop 0 data (0, 0, 0)) (x, y, y' :: u32)"
  shows "yaffs_ECCCorrectOther raw n (yaffs_ECCCalculateOther data n) (yaffs_ECCCalculateOther raw n) =
    (let c = drop_bit 2 x AND 0x3f
     in if (ucast c OR y OR y') = 0 then (0, raw, yaffs_ECCCalculateOther data n)
        else if y = NOT y' \<and> ((c XOR drop_bit 1 c) AND 0x15) = 0x15
        then (if n \<le> unat y then (-1, raw, yaffs_ECCCalculateOther data n)
              else (1, flip_bit_at (unat y)
                     (unat (or_if (c AND 0x02 \<noteq> 0) 0x01 (or_if (c AND 0x08 \<noteq> 0) 0x02
                           (or_if (c AND 0x20 \<noteq> 0) (0x04 :: u32) 0)))) raw,
                    yaffs_ECCCalculateOther data n))
        else if pop_count y + pop_count y' + pop_count c = 1 then (1, raw, yaffs_ECCCalculateOther raw n)
        else (-1, raw, yaffs_ECCCalculateOther data n))"
proof -
  obtain c and l l' :: u32 where loop: "ecc_loop 0 data (0, 0, 0) = (c, l, l')"
    by (metis prod_cases3)
  then have raw: "ecc_loop 0 raw (0, 0, 0) = (c XOR x, l XOR y, l' XOR y')"
    using assms(3) by (simp add: xor3_def)
  have "(drop_bit 2 c AND 0x3f) XOR (drop_bit 2 (c XOR x) AND 0x3f) = drop_bit 2 x AND 0x3f"
    by (rule bit_word_eqI) (auto simp: bit_simps)
  then show ?thesis
    unfolding yaffs_ECCCorrectOther_def yaffs_ECCCalculateOther_def
    using assms(1,2) loop raw
    by (simp only: Let_def case_prod_conv take_all order.refl yaffs_ECCOther.select_convs
        xor_cancel_left flip_bit_at_def CountBits_pop_count flip: of_nat_add) simp
qed

lemma other_bit_address:
  assumes "k < 8" and c: "c = drop_bit 2 (entry (push_bit k 1)) AND 0x3f"
  shows "unat (or_if (c AND 0x02 \<noteq> 0) 0x01 (or_if (c AND 0x08 \<noteq> 0) 0x02
            (or_if (c AND 0x20 \<noteq> 0) (0x04 :: u32) 0))) = k"
    and "((c XOR drop_bit 1 c) AND 0x15) = 0x15"
proof -
  have "k = 0 \<or> k = 1 \<or> k = 2 \<or> k = 3 \<or> k = 4 \<or> k = 5 \<or> k = 6 \<or> k = 7"
    using assms(1) by auto
  then show "unat (or_if (c AND 0x02 \<noteq> 0) 0x01 (or_if (c AND 0x08 \<noteq> 0) 0x02
            (or_if (c AND 0x20 \<noteq> 0) (0x04 :: u32) 0))) = k"
    and "((c XOR drop_bit 1 c) AND 0x15) = 0x15"
    unfolding c by (elim disjE; simp add: or_if_def entry_powers)+
qed

lemma ECCCorrectOther_clean:
  "length data = n \<Longrightarrow>
     yaffs_ECCCorrectOther data n (yaffs_ECCCalculateOther data n) (yaffs_ECCCalculateOther data n) =
       (0, data, yaffs_ECCCalculateOther data n)"
  by (simp add: yaffs_ECCCorrectOther_def Let_def)

lemma ECCCorrectOther_one:
  assumes "length data = n" and "n \<le> 2 ^ 32" and "j < n" and "k < 8" and raw: "raw = flip_bit_at j k data"
  shows "yaffs_ECCCorrectOther raw n (yaffs_ECCCalculateOther data n) (yaffs_ECCCalculateOther raw n) =
    (1, data, yaffs_ECCCalculateOther data n)"
proof -
  define y :: u32 where "y = word_of_nat j"
  define c where "c = drop_bit 2 (entry (push_bit k 1)) AND 0x3f"
  have y: "unat y = j" using assms(2,3) by (simp add: y_def unat_of_nat)
  have loop: "ecc_loop 0 raw (0, 0, 0) =
      xor3 (ecc_loop 0 data (0, 0, 0)) (entry (push_bit k 1), y, NOT y)"
    using ecc_loop_flip [of j data k 0 "(0, 0, 0)"] assms by (simp add: y_def)
  have "bit (ucast c OR y OR NOT y) 0" by (simp add: bit_simps)
  then have nz: "(ucast c OR y OR NOT y) \<noteq> 0" by auto
  have len: "length raw = n" using assms by simp
  show ?thesis
    unfolding ECCCorrectOther_delta [OF assms(1) len loop] Let_def c_def [symmetric]
    using nz other_bit_address [OF assms(4) c_def] raw y assms(3)
    by (simp del: push_bit_of_1)
qed

lemma ECCCorrectOther_two:
  assumes "length data = n" and "n \<le> 2 ^ 32" and "j < n" and "k < 8" and "i < n" and "m < 8"
    and diff: "(j, k) \<noteq> (i, m)" and raw: "raw = flip_bit_at i m (flip_bit_at j k data)"
  shows "yaffs_ECCCorrectOther raw n (yaffs_ECCCalculateOther data n) (yaffs_ECCCalculateOther raw n) =
    (-1, raw, yaffs_ECCCalculateOther data n)"
proof -
  define y :: u32 where "y = word_of_nat j XOR word_of_nat i"
  define c where "c = drop_bit 2 (entry (push_bit k 1) XOR entry (push_bit m 1)) AND 0x3f"
  have loop: "ecc_loop 0 raw (0, 0, 0) =
      xor3 (ecc_loop 0 data (0, 0, 0)) (entry (push_bit k 1) XOR entry (push_bit m 1), y, y)"
    using assms by (simp add: ecc_loop_flip xor3_assoc y_def del: push_bit_of_1) (simp add: xor3_def)
  have c: "bit c n = (n < 6 \<and> bit (entry (push_bit k 1) XOR entry (push_bit m 1)) (n + 2))" for n
  proof -
    have "bit (0x3f :: u8) n \<longleftrightarrow> n < 6"
      using bit_mask_iff [of 6 n, where 'a = u8] by (auto simp: mask_eq_exp_minus_1)
    then show ?thesis by (auto simp: c_def bit_simps add.commute)
  qed
  have c_bits: "bit c 5 = (bit k 2 \<noteq> bit m 2)" "bit c 4 = (bit k 2 \<noteq> bit m 2)"
    "bit c 3 = (bit k 1 \<noteq> bit m 1)" "bit c 2 = (bit k 1 \<noteq> bit m 1)"
    "bit c 1 = (bit k 0 \<noteq> bit m 0)" "bit c 0 = (bit k 0 \<noteq> bit m 0)"
    unfolding c using entry_single [OF assms(4)] entry_single [OF assms(6)]
    by (simp_all add: bit_xor_iff del: push_bit_of_1 flip: numeral_3_eq_3 numeral_2_eq_2)
  have single: "y \<noteq> NOT y"
    by (auto dest: arg_cong [where f = "\<lambda>w. bit w 0"] simp: bit_not_iff)
  have count: "2 \<le> pop_count y + pop_count y + pop_count c"
  proof (cases "j = i")
    case True
    with diff assms(4,6) have "bit k 0 \<noteq> bit m 0 \<or> bit k 1 \<noteq> bit m 1 \<or> bit k 2 \<noteq> bit m 2"
      by (intro nat_eq_bits3) auto
    then have "bit c 1 \<and> bit c 0 \<or> bit c 3 \<and> bit c 2 \<or> bit c 5 \<and> bit c 4"
      unfolding c_bits by blast
    then have "2 \<le> pop_count c"
      using pop_count_two_bits [of c 1 0] pop_count_two_bits [of c 3 2] pop_count_two_bits [of c 5 4]
      by auto
    then show ?thesis by simp
  next
    case False
    have "y \<noteq> 0"
    proof
      assume "y = 0"
      then have "(word_of_nat j :: u32) = word_of_nat i" by (simp add: y_def)
      then have "unat (word_of_nat j :: u32) = unat (word_of_nat i :: u32)" by (rule arg_cong)
      with False assms(2,3,5) show False by (simp add: unat_of_nat)
    qed
    then have "pop_count y \<noteq> 0" by simp
    then show ?thesis by linarith
  qed
  have nz: "(ucast c OR y OR y) \<noteq> 0"
  proof
    assume "(ucast c OR y OR y) = 0"
    then have "y = 0" and "(ucast c :: u32) = 0" by (simp_all add: or_eq_0_iff)
    then have "y = 0" and "c = 0" using ucast_u8_inj [of c 0] by simp_all
    with count show False by simp
  qed
  have len: "length raw = n" using assms by simp
  show ?thesis
    unfolding ECCCorrectOther_delta [OF assms(1) len loop] Let_def c_def [symmetric]
    using nz single count by simp
qed

text \<open>The packed tags part is sixteen bytes.\<close>

interpretation tags_ecc: sec_code 16 "\<lambda>d. yaffs_ECCCalculateOther d 16" "\<lambda>d. yaffs_ECCCorrectOther d 16"
  by unfold_locales
    ((rule ECCCorrectOther_clean ECCCorrectOther_one ECCCorrectOther_two; (assumption | simp))+)

section \<open>Correctness of the codes\<close>

text \<open>
  The table in yaffs_ecc.c is what its generator gen-ecc.c prints: entry n holds the column
  parities of the byte n.
\<close>
theorem column_parity_table_generated:
  "column_parity_table = map (\<lambda>n. entry (word_of_nat n)) [0..<256]"
  by (rule column_parity_table_eq)

text \<open>
  C11: If at most one bit of a 256-byte block flips between writing and reading, then correcting
  the block read against the code stored with it restores the block written, and the result
  code tells whether anything was corrected.
\<close>
theorem yaffs_ECC_corrects_one_bit:
  assumes "length data = 256" and "one_bit_apart raw data"
  shows "case yaffs_ECCCorrect raw (yaffs_ECCCalculate data) (yaffs_ECCCalculate raw) of
    (result, data', _) \<Rightarrow> data' = data \<and> result = (if raw = data then 0 else 1)"
  using yaffs_ecc.correct_one_bit_apart [OF assms] yaffs_ecc.correct_zero_iff [OF assms]
  by (auto split: prod.splits)

theorem yaffs_ECC_corrects_one_bit_witness:
  "case yaffs_ECCCorrect (flip_bit_at 77 5 (replicate 256 0xa5))
          (yaffs_ECCCalculate (replicate 256 0xa5)) (yaffs_ECCCalculate (flip_bit_at 77 5 (replicate 256 0xa5))) of
    (result, data', _) \<Rightarrow> data' = replicate 256 0xa5 \<and>
      result = (if flip_bit_at 77 5 (replicate 256 0xa5) = replicate 256 0xa5 then 0 else 1)"
  by (rule yaffs_ECC_corrects_one_bit) (simp_all add: one_bit_apart_flip)

text \<open>
  C12: Two flipped bits in a block, in the same byte or in different ones, are reported
  as unrecoverable and the block is left as it was read.
\<close>
theorem yaffs_ECC_detects_two_bits:
  assumes "length data = 256" and "j < 256" and "k < 8" and "i < 256" and "m < 8" and "(j, k) \<noteq> (i, m)"
  shows "yaffs_ECCCorrect (flip_bit_at i m (flip_bit_at j k data)) (yaffs_ECCCalculate data)
           (yaffs_ECCCalculate (flip_bit_at i m (flip_bit_at j k data))) =
         (-1, flip_bit_at i m (flip_bit_at j k data), yaffs_ECCCalculate data)"
  using yaffs_ecc.correct_two [OF assms refl] .

theorem yaffs_ECC_detects_two_bits_witness:
  "yaffs_ECCCorrect (flip_bit_at 3 2 (flip_bit_at 200 7 (replicate 256 0))) (yaffs_ECCCalculate (replicate 256 0))
     (yaffs_ECCCalculate (flip_bit_at 3 2 (flip_bit_at 200 7 (replicate 256 0)))) =
   (-1, flip_bit_at 3 2 (flip_bit_at 200 7 (replicate 256 0)), yaffs_ECCCalculate (replicate 256 0))"
  by (rule yaffs_ECC_detects_two_bits) simp_all

text \<open>
  C13: A single flipped bit in the stored code itself, in any of its three bytes, leaves the
  data alone, is reported as corrected and replaces the stored code by the one calculated.
\<close>
theorem yaffs_ECC_corrects_code_bit:
  assumes "length data = 256" and "yaffs_ECCCalculate data = (r0, r1, r2)" and "n < 8"
    and "read_ecc \<in> {(r0 XOR push_bit n 1, r1, r2), (r0, r1 XOR push_bit n 1, r2), (r0, r1, r2 XOR push_bit n 1)}"
  shows "yaffs_ECCCorrect data read_ecc (yaffs_ECCCalculate data) = (1, data, yaffs_ECCCalculate data)"
  using assms by (rule ECCCorrect_ecc_bit)

lemma ecc_loop_zeros [simp]: "ecc_loop i (replicate n 0) s = s"
  by (induction n arbitrary: i s) (auto simp: column_parity_table_def)

theorem yaffs_ECC_corrects_code_bit_witness:
  "yaffs_ECCCorrect (replicate 256 0) (0xff, 0x7f, 0xff) (yaffs_ECCCalculate (replicate 256 0)) =
     (1, replicate 256 0, yaffs_ECCCalculate (replicate 256 0))"
proof (rule yaffs_ECC_corrects_code_bit [where n = 7 and ?r0.0 = "0xff" and ?r1.0 = "0xff" and ?r2.0 = "0xff"])
  show "yaffs_ECCCalculate (replicate 256 0) = (0xff, 0xff, 0xff)"
    by (simp add: yaffs_ECCCalculate_def ecc_low_def ecc_high_def or_if_def)
qed simp_all

end
