(* ===== verification/NandEcc.thy ===== *)
theory NandEcc
  imports YaffsEcc
begin

text \<open>
  The software ECC of the U-Boot NAND driver, drivers/nand/nand_ecc.c. It uses another table
  and another bit layout than yaffs_ecc.c, but stores the same three bytes in another
  order; so it inherits the contract of the YAFFS code.
\<close>

section \<open>The code\<close>

definition nand_ecc_precalc_table :: "u8 list" where
  "nand_ecc_precalc_table = [
     0x00, 0x55, 0x56, 0x03, 0x59, 0x0c, 0x0f, 0x5a, 0x5a, 0x0f, 0x0c, 0x59, 0x03, 0x56, 0x55, 0x00,
     0x65, 0x30, 0x33, 0x66, 0x3c, 0x69, 0x6a, 0x3f, 0x3f, 0x6a, 0x69, 0x3c, 0x66, 0x33, 0x30, 0x65,
     0x66, 0x33, 0x30, 0x65, 0x3f, 0x6a, 0x69, 0x3c, 0x3c, 0x69, 0x6a, 0x3f, 0x65, 0x30, 0x33, 0x66,
     0x03, 0x56, 0x55, 0x00, 0x5a, 0x0f, 0x0c, 0x59, 0x59, 0x0c, 0x0f, 0x5a, 0x00, 0x55, 0x56, 0x03,
     0x69, 0x3c, 0x3f, 0x6a, 0x30, 0x65, 0x66, 0x33, 0x33, 0x66, 0x65, 0x30, 0x6a, 0x3f, 0x3c, 0x69,
     0x0c, 0x59, 0x5a, 0x0f, 0x55, 0x00, 0x03, 0x56, 0x56, 0x03, 0x00, 0x55, 0x0f, 0x5a, 0x59, 0x0c,
     0x0f, 0x5a, 0x59, 0x0c, 0x56, 0x03, 0x00, 0x55, 0x55, 0x00, 0x03, 0x56, 0x0c, 0x59, 0x5a, 0x0f,
     0x6a, 0x3f, 0x3c, 0x69, 0x33, 0x66, 0x65, 0x30, 0x30, 0x65, 0x66, 0x33, 0x69, 0x3c, 0x3f, 0x6a,
     0x6a, 0x3f, 0x3c, 0x69, 0x33, 0x66, 0x65, 0x30, 0x30, 0x65, 0x66, 0x33, 0x69, 0x3c, 0x3f, 0x6a,
     0x0f, 0x5a, 0x59, 0x0c, 0x56, 0x03, 0x00, 0x55, 0x55, 0x00, 0x03, 0x56, 0x0c, 0x59, 0x5a, 0x0f,
     0x0c, 0x59, 0x5a, 0x0f, 0x55, 0x00, 0x03, 0x56, 0x56, 0x03, 0x00, 0x55, 0x0f, 0x5a, 0x59, 0x0c,
     0x69, 0x3c, 0x3f, 0x6a, 0x30, 0x65, 0x66, 0x33, 0x33, 0x66, 0x65, 0x30, 0x6a, 0x3f, 0x3c, 0x69,
     0x03, 0x56, 0x55, 0x00, 0x5a, 0x0f, 0x0c, 0x59, 0x59, 0x0c, 0x0f, 0x5a, 0x00, 0x55, 0x56, 0x03,
     0x66, 0x33, 0x30, 0x65, 0x3f, 0x6a, 0x69, 0x3c, 0x3c, 0x69, 0x6a, 0x3f, 0x65, 0x30, 0x33, 0x66,
     0x65, 0x30, 0x33, 0x66, 0x3c, 0x69, 0x6a, 0x3f, 0x3f, 0x6a, 0x69, 0x3c, 0x66, 0x33, 0x30, 0x65,
     0x00, 0x55, 0x56, 0x03, 0x59, 0x0c, 0x0f, 0x5a, 0x5a, 0x0f, 0x0c, 0x59, 0x03, 0x56, 0x55, 0x00]"

definition nand_trans_step :: "u8 \<Rightarrow> u8 \<Rightarrow> u8 \<times> u8 \<times> u8 \<Rightarrow> u8 \<times> u8 \<times> u8" where
  "nand_trans_step reg2 reg3 s =
     (let (a, b, tmp) = s;
          tmp = or_if (reg3 AND a \<noteq> 0) b tmp;
          b = drop_bit 1 b;
          tmp = or_if (reg2 AND a \<noteq> 0) b tmp;
          b = drop_bit 1 b;
          a = drop_bit 1 a
      in (a, b, tmp))"

definition nand_trans_result :: "u8 \<Rightarrow> u8 \<Rightarrow> u8 \<times> u8" where
  "nand_trans_result reg2 reg3 =
     (let (a, b, tmp1) = (nand_trans_step reg2 reg3 ^^ 4) (0x80, 0x80, 0);
          (a, b, tmp2) = (nand_trans_step reg2 reg3 ^^ 4) (a, 0x80, 0)
      in (tmp1, tmp2))"

fun nand_ecc_loop :: "nat \<Rightarrow> u8 list \<Rightarrow> u8 \<times> u8 \<times> u8 \<Rightarrow> u8 \<times> u8 \<times> u8" where
  "nand_ecc_loop j [] regs = regs"
| "nand_ecc_loop j (d # dat) (reg1, reg2, reg3) =
     (let idx = nand_ecc_precalc_table ! unat d in
      nand_ecc_loop (Suc j) dat
        (reg1 XOR (idx AND 0x3f),
         if idx AND 0x40 \<noteq> 0 then reg2 XOR NOT (word_of_nat j) else reg2,
         if idx AND 0x40 \<noteq> 0 then reg3 XOR word_of_nat j else reg3))"

definition nand_calculate_ecc :: "u8 list \<Rightarrow> ecc3" where
  "nand_calculate_ecc dat =
     (let (reg1, reg2, reg3) = nand_ecc_loop 0 (take 256 dat) (0, 0, 0);
          (c0, c1) = nand_trans_result reg2 reg3
      in (NOT c0, NOT c1, push_bit 2 (NOT reg1) OR 0x03))"

definition nand_addr_step :: "u8 \<Rightarrow> u8 \<times> u8 \<times> u8 \<Rightarrow> u8 \<times> u8 \<times> u8" where
  "nand_addr_step d s =
     (let (c, a, add) = s in (drop_bit 2 c, drop_bit 1 a, or_if (d AND c \<noteq> 0) a add))"

definition nand_error_address :: "u8 \<Rightarrow> u8 \<Rightarrow> u8 \<Rightarrow> u8 \<times> u8" where
  "nand_error_address d1 d2 d3 =
     (let (c, a, add) = (nand_addr_step d1 ^^ 4) (0x80, 0x80, 0);
          (c, a, add) = (nand_addr_step d2 ^^ 4) (0x80, a, add);
          (c, b, bit) = (nand_addr_step d3 ^^ 3) (0x80, 0x04, 0)
      in (add, bit))"

definition nand_correct_data :: "u8 list \<Rightarrow> ecc3 \<Rightarrow> ecc3 \<Rightarrow> int \<times> u8 list \<times> ecc3" where
  "nand_correct_data dat read_ecc calc_ecc =
     (let (r0, r1, r2) = read_ecc; (k0, k1, k2) = calc_ecc;
          d1 = k0 XOR r0; d2 = k1 XOR r1; d3 = k2 XOR r2
      in if (d1 OR d2 OR d3) = 0 then (0, dat, read_ecc)
         else
           (let a = (d1 XOR drop_bit 1 d1) AND 0x55;
                b = (d2 XOR drop_bit 1 d2) AND 0x55;
                c = (d3 XOR drop_bit 1 d3) AND 0x54
            in if a = 0x55 \<and> b = 0x55 \<and> c = 0x54
               then (let (add, bit) = nand_error_address d1 d2 d3
                     in (1, dat[unat add := dat ! unat add XOR push_bit (unat bit) 1], read_ecc))
               else (let i = count_bits_loop (count_bits_loop (count_bits_loop 0 d1) d2) d3
                     in if i = 1 then (2, dat, calc_ecc) else (-1, dat, read_ecc))))"

section \<open>Against the YAFFS code\<close>

definition swap01 :: "ecc3 \<Rightarrow> ecc3" where
  "swap01 e = (case e of (a, b, c) \<Rightarrow> (b, a, c))"

lemma nand_table_eq:
  "nand_ecc_precalc_table = map (\<lambda>e. drop_bit 2 e OR (if bit e 0 then 0x40 else 0)) column_parity_table"
  by (simp add: nand_ecc_precalc_table_def column_parity_table_def)

lemma nand_table_lookup:
  "nand_ecc_precalc_table ! unat d AND 0x3f = drop_bit 2 (entry d)"
  "nand_ecc_precalc_table ! unat d AND 0x40 \<noteq> 0 \<longleftrightarrow> bit (entry d) 0"
proof -
  have "unat d < length column_parity_table"
    using unsigned_less [of d] by (simp add: column_parity_table_eq)
  then have e: "nand_ecc_precalc_table ! unat d =
      drop_bit 2 (entry d) OR (if bit (entry d) 0 then 0x40 else 0)"
    by (simp add: nand_table_eq column_parity_lookup)
  show "nand_ecc_precalc_table ! unat d AND 0x3f = drop_bit 2 (entry d)"
    unfolding e u8_eq_iff bit_and_iff bit_or_iff bit_drop_bit_eq by (auto dest: bit_imp_le_length)
  show "nand_ecc_precalc_table ! unat d AND 0x40 \<noteq> 0 \<longleftrightarrow> bit (entry d) 0"
    unfolding e mask_tests bit_or_iff bit_drop_bit_eq by (auto dest: bit_imp_le_length)
qed

lemma nand_loop_eq:
  "nand_ecc_loop j dat (drop_bit 2 c, l', l) =
     (case ecc_loop j dat (c, l, l') of (c, l, l') \<Rightarrow> (drop_bit 2 c, l', l))"
proof (induction dat arbitrary: j c l l')
  case (Cons d dat)
  then show ?case
    by (simp add: Let_def nand_table_lookup column_parity_lookup low_bit_test
        flip: drop_bit_xor split del: if_split)
qed simp

lemma nand_trans_eq: "nand_trans_result reg2 reg3 = (ecc_high reg3 reg2, ecc_low reg3 reg2)"
  by (simp add: nand_trans_result_def nand_trans_step_def funpow_4 ecc_high_def ecc_low_def)

lemma nand_calc_swapped: "nand_calculate_ecc dat = swap01 (yaffs_ECCCalculate dat)"
proof -
  obtain c and l l' :: u8 where loop: "ecc_loop 0 (take 256 dat) (0, 0, 0) = (c, l, l')"
    by (metis prod_cases3)
  have "push_bit 2 (NOT (drop_bit 2 c)) OR 3 = NOT c OR 3"
    unfolding u8_eq_iff by (auto simp: bit_simps simp flip: numeral_3_eq_3 numeral_2_eq_2)
  then show ?thesis
    using nand_loop_eq [of 0 "take 256 dat" 0 0 0] loop
    by (simp add: nand_calculate_ecc_def yaffs_ECCCalculate_def nand_trans_eq swap01_def)
qed

text \<open>The corrections agree; the driver distinguishes a damaged code by the result 2.\<close>

lemma nand_addr_eq: "nand_error_address d1 d2 d3 = (ecc_byte_address d2 d1, ecc_bit_address d3)"
  by (simp add: nand_error_address_def nand_addr_step_def funpow_4 funpow_3 ecc_byte_address_def
      ecc_bit_address_def Let_def)

lemma nand_correct_swapped:
  assumes "yaffs_ECCCorrect dat r t = (code, dat', r')"
  shows "nand_correct_data dat (swap01 r) (swap01 t) =
     (if code = 1 \<and> r' \<noteq> r then 2 else code, dat', swap01 r')"
proof -
  obtain r0 r1 r2 where r: "r = (r0, r1, r2)" by (cases r)
  obtain t0 t1 t2 where t: "t = (t0, t1, t2)" by (cases t)
  define d0 d1 d2 where "d0 = r0 XOR t0" and "d1 = r1 XOR t1" and "d2 = r2 XOR t2"
  have d: "t0 XOR r0 = d0" "t1 XOR r1 = d1" "t2 XOR r2 = d2"
    by (simp_all add: d0_def d1_def d2_def xor.commute)
  have or: "(d1 OR d0 OR d2) = (d0 OR d1 OR d2)" by (simp add: or.left_commute)
  have eq: "t = r \<longleftrightarrow> (d0 OR d1 OR d2) = 0"
    by (auto simp: r t d0_def d1_def d2_def or_eq_0_iff)
  show ?thesis
    using assms eq unfolding nand_correct_data_def yaffs_ECCCorrect_def r t swap01_def
    by (auto simp: Let_def nand_addr_eq count_bits_loop d or add.commute
        simp flip: d0_def d1_def d2_def split: if_splits)
qed

lemma nand_correct_clean:
  "length data = 256 \<Longrightarrow>
     nand_correct_data data (nand_calculate_ecc data) (nand_calculate_ecc data) =
       (0, data, nand_calculate_ecc data)"
  unfolding nand_calc_swapped using nand_correct_swapped [OF ECCCorrect_clean] by simp

lemma nand_correct_one:
  "\<lbrakk>length data = 256; j < 256; k < 8; raw = flip_bit_at j k data\<rbrakk> \<Longrightarrow>
     nand_correct_data raw (nand_calculate_ecc data) (nand_calculate_ecc raw) =
       (1, data, nand_calculate_ecc data)"
  unfolding nand_calc_swapped by (frule (3) ECCCorrect_one) (simp add: nand_correct_swapped)

lemma nand_correct_two:
  "\<lbrakk>length data = 256; j < 256; k < 8; i < 256; m < 8; (j, k) \<noteq> (i, m);
    raw = flip_bit_at i m (flip_bit_at j k data)\<rbrakk> \<Longrightarrow>
     nand_correct_data raw (nand_calculate_ecc data) (nand_calculate_ecc raw) =
       (-1, raw, nand_calculate_ecc data)"
  unfolding nand_calc_swapped by (frule (6) ECCCorrect_two) (simp only: nand_correct_swapped, simp)

interpretation nand_ecc: sec_code 256 nand_calculate_ecc nand_correct_data
  by unfold_locales ((rule nand_correct_clean nand_correct_one nand_correct_two; assumption)+)

section \<open>Correctness of the driver's code\<close>

text \<open>
  C15: The U-Boot driver and YAFFS compute the same three code bytes for every block, with the
  first two swapped, so data written by one can be checked by the other with the bytes
  exchanged.
\<close>
theorem nand_ecc_is_yaffs_ecc_swapped:
  "nand_calculate_ecc dat = (case yaffs_ECCCalculate dat of (e0, e1, e2) \<Rightarrow> (e1, e0, e2))"
  by (simp add: nand_calc_swapped swap01_def)

text \<open>
  C16: nand_correct_data restores a block in which one bit flipped, whatever the block and the bit,
  and with a second flipped bit anywhere it reports an uncorrectable error and leaves the block
  as it was read.
\<close>
theorem nand_correct_data_sound:
  assumes "length data = 256" and "j < 256" and "k < 8" and "raw = flip_bit_at j k data"
    and "i < 256" and "m < 8" and "(j, k) \<noteq> (i, m)" and "raw2 = flip_bit_at i m raw"
  shows "nand_correct_data raw (nand_calculate_ecc data) (nand_calculate_ecc raw) =
           (1, data, nand_calculate_ecc data) \<and>
         nand_correct_data raw2 (nand_calculate_ecc data) (nand_calculate_ecc raw2) =
           (-1, raw2, nand_calculate_ecc data)"
  using assms nand_ecc.correct_one [of data j k] nand_ecc.correct_two [of data j k i m] by simp

theorem nand_correct_data_sound_witness:
  "nand_correct_data (flip_bit_at 255 0 (replicate 256 7)) (nand_calculate_ecc (replicate 256 7))
       (nand_calculate_ecc (flip_bit_at 255 0 (replicate 256 7))) =
     (1, replicate 256 7, nand_calculate_ecc (replicate 256 7)) \<and>
   nand_correct_data (flip_bit_at 255 1 (flip_bit_at 255 0 (replicate 256 7)))
       (nand_calculate_ecc (replicate 256 7))
       (nand_calculate_ecc (flip_bit_at 255 1 (flip_bit_at 255 0 (replicate 256 7)))) =
     (-1, flip_bit_at 255 1 (flip_bit_at 255 0 (replicate 256 7)), nand_calculate_ecc (replicate 256 7))"
  by (rule nand_correct_data_sound [OF _ _ _ refl _ _ _ refl]) simp_all

end
