(* ===== verification/PackedTags.thy ===== *)
theory PackedTags
  imports YaffsEcc
begin

text \<open>
  The tags YAFFS stores in the spare area of every chunk: the in-memory structure, the YAFFS1
  bit-field packing (yaffs_packedtags1.c), the YAFFS2 packing with its extra header
  information and ECC (yaffs_packedtags2.c) and the validity markers (yaffs_tagsvalidity.c).
\<close>

section \<open>The tags in memory\<close>

datatype yaffs_ECCResult =
  YAFFS_ECC_RESULT_UNKNOWN | YAFFS_ECC_RESULT_NO_ERROR | YAFFS_ECC_RESULT_FIXED | YAFFS_ECC_RESULT_UNFIXED

text \<open>
  The object type is an enumeration, but unpacking assigns it four arbitrary bits, so it is kept
  as an integer.
\<close>

definition YAFFS_OBJECT_TYPE_FILE :: u32 where "YAFFS_OBJECT_TYPE_FILE = 1"
definition YAFFS_OBJECT_TYPE_HARDLINK :: u32 where "YAFFS_OBJECT_TYPE_HARDLINK = 4"

record yaffs_ExtendedTags =
  validMarker0 :: u32
  chunkUsed :: u32
  objectId :: u32
  chunkId :: u32
  byteCount :: u32
  eccResult :: yaffs_ECCResult
  blockBad :: u32
  chunkDeleted :: u32
  serialNumber :: u32
  sequenceNumber :: u32
  extraHeaderInfoAvailable :: u32
  extraParentObjectId :: u32
  extraIsShrinkHeader :: u32
  extraShadows :: u32
  extraObjectType :: u32
  extraFileLength :: u32
  extraEquivalentObjectId :: u32
  validMarker1 :: u32

text \<open>Clearing the structure with memset.\<close>

definition zero_tags :: yaffs_ExtendedTags where
  "zero_tags = \<lparr>validMarker0 = 0, chunkUsed = 0, objectId = 0, chunkId = 0, byteCount = 0,
     eccResult = YAFFS_ECC_RESULT_UNKNOWN, blockBad = 0, chunkDeleted = 0, serialNumber = 0,
     sequenceNumber = 0, extraHeaderInfoAvailable = 0, extraParentObjectId = 0,
     extraIsShrinkHeader = 0, extraShadows = 0, extraObjectType = 0, extraFileLength = 0,
     extraEquivalentObjectId = 0, validMarker1 = 0\<rparr>"

definition yaffs_InitialiseTags :: "yaffs_ExtendedTags \<Rightarrow> yaffs_ExtendedTags" where
  "yaffs_InitialiseTags tags = zero_tags\<lparr>validMarker0 := 0xAAAAAAAA, validMarker1 := 0x55555555\<rparr>"

definition yaffs_ValidateTags :: "yaffs_ExtendedTags \<Rightarrow> bool" where
  "yaffs_ValidateTags tags \<longleftrightarrow> validMarker0 tags = 0xAAAAAAAA \<and> validMarker1 tags = 0x55555555"

section \<open>YAFFS1 packing\<close>

record yaffs_PackedTags1 =
  p1_chunkId :: "20 word"
  p1_serialNumber :: "2 word"
  p1_byteCount :: "10 word"
  p1_objectId :: "18 word"
  p1_ecc :: "12 word"
  p1_deleted :: "1 word"
  p1_unusedStuff :: "1 word"
  p1_shouldBeFF :: u32

definition yaffs_PackTags1 :: "yaffs_ExtendedTags \<Rightarrow> yaffs_PackedTags1" where
  "yaffs_PackTags1 t =
     \<lparr>p1_chunkId = ucast (chunkId t), p1_serialNumber = ucast (serialNumber t),
      p1_byteCount = ucast (byteCount t), p1_objectId = ucast (objectId t), p1_ecc = 0,
      p1_deleted = (if chunkDeleted t \<noteq> 0 then 0 else 1), p1_unusedStuff = 0,
      p1_shouldBeFF = 0xFFFFFFFF\<rparr>"

text \<open>The comparison of the twelve bytes with 0xff: every bit field is all ones.\<close>

definition packed1_allFF :: "yaffs_PackedTags1 \<Rightarrow> bool" where
  "packed1_allFF pt \<longleftrightarrow> p1_chunkId pt = -1 \<and> p1_serialNumber pt = -1 \<and> p1_byteCount pt = -1 \<and>
     p1_objectId pt = -1 \<and> p1_ecc pt = -1 \<and> p1_deleted pt = -1 \<and> p1_unusedStuff pt = -1 \<and>
     p1_shouldBeFF pt = -1"

definition yaffs_UnpackTags1 :: "yaffs_ExtendedTags \<Rightarrow> yaffs_PackedTags1 \<Rightarrow> yaffs_ExtendedTags" where
  "yaffs_UnpackTags1 t pt =
     (if \<not> packed1_allFF pt then
        t\<lparr>blockBad := (if p1_shouldBeFF pt \<noteq> 0xFFFFFFFF then 1 else 0), chunkUsed := 1,
          objectId := ucast (p1_objectId pt), chunkId := ucast (p1_chunkId pt),
          byteCount := ucast (p1_byteCount pt), eccResult := YAFFS_ECC_RESULT_NO_ERROR,
          chunkDeleted := (if p1_deleted pt \<noteq> 0 then 0 else 1),
          serialNumber := ucast (p1_serialNumber pt)\<rparr>
      else zero_tags)"

section \<open>YAFFS2 packing\<close>

record yaffs_PackedTags2TagsPart =
  p2_sequenceNumber :: u32
  p2_objectId :: u32
  p2_chunkId :: u32
  p2_byteCount :: u32

record yaffs_PackedTags2 =
  p2_t :: yaffs_PackedTags2TagsPart
  p2_ecc :: yaffs_ECCOther

definition EXTRA_HEADER_INFO_FLAG :: u32 where "EXTRA_HEADER_INFO_FLAG = 0x80000000"
definition EXTRA_SHRINK_FLAG :: u32 where "EXTRA_SHRINK_FLAG = 0x40000000"
definition EXTRA_SHADOWS_FLAG :: u32 where "EXTRA_SHADOWS_FLAG = 0x20000000"
definition ALL_EXTRA_FLAGS :: u32 where "ALL_EXTRA_FLAGS = 0xF0000000"
definition EXTRA_OBJECT_TYPE_MASK :: u32 where "EXTRA_OBJECT_TYPE_MASK = push_bit 28 0x0F"

text \<open>The structure seen through the unsigned char pointer, and back.\<close>

definition tagsPart_bytes :: "yaffs_PackedTags2TagsPart \<Rightarrow> u8 list" where
  "tagsPart_bytes p = le32 (p2_sequenceNumber p) @ le32 (p2_objectId p) @ le32 (p2_chunkId p) @
     le32 (p2_byteCount p)"

definition tagsPart_of_bytes :: "u8 list \<Rightarrow> yaffs_PackedTags2TagsPart" where
  "tagsPart_of_bytes bs = \<lparr>p2_sequenceNumber = of_le32 (take 4 bs),
     p2_objectId = of_le32 (take 4 (drop 4 bs)), p2_chunkId = of_le32 (take 4 (drop 8 bs)),
     p2_byteCount = of_le32 (take 4 (drop 12 bs))\<rparr>"

definition packTags2TagsPart :: "yaffs_ExtendedTags \<Rightarrow> yaffs_PackedTags2TagsPart" where
  "packTags2TagsPart t =
     (let p = \<lparr>p2_sequenceNumber = sequenceNumber t, p2_objectId = objectId t,
               p2_chunkId = chunkId t, p2_byteCount = byteCount t\<rparr>
      in if chunkId t = 0 \<and> extraHeaderInfoAvailable t \<noteq> 0 then
           (let cid = EXTRA_HEADER_INFO_FLAG OR extraParentObjectId t;
                cid = (if extraIsShrinkHeader t \<noteq> 0 then cid OR EXTRA_SHRINK_FLAG else cid);
                cid = (if extraShadows t \<noteq> 0 then cid OR EXTRA_SHADOWS_FLAG else cid);
                oid = (objectId t AND NOT EXTRA_OBJECT_TYPE_MASK) OR push_bit 28 (extraObjectType t)
            in p\<lparr>p2_chunkId := cid, p2_objectId := oid,
                 p2_byteCount :=
                   (if extraObjectType t = YAFFS_OBJECT_TYPE_HARDLINK then extraEquivalentObjectId t
                    else if extraObjectType t = YAFFS_OBJECT_TYPE_FILE then extraFileLength t
                    else 0)\<rparr>)
         else p)"

definition yaffs_PackTags2 :: "yaffs_ExtendedTags \<Rightarrow> yaffs_PackedTags2" where
  "yaffs_PackTags2 t =
     (let p = packTags2TagsPart t
      in \<lparr>p2_t = p, p2_ecc = yaffs_ECCCalculateOther (tagsPart_bytes p) 16\<rparr>)"

text \<open>The fields read from the (corrected) packed part.\<close>

definition unpackTags2Fields :: "yaffs_ExtendedTags \<Rightarrow> yaffs_PackedTags2TagsPart \<Rightarrow> yaffs_ExtendedTags" where
  "unpackTags2Fields t p =
     (let t = t\<lparr>blockBad := 0, chunkUsed := 1, objectId := p2_objectId p, chunkId := p2_chunkId p,
                byteCount := p2_byteCount p, chunkDeleted := 0, serialNumber := 0,
                sequenceNumber := p2_sequenceNumber p\<rparr>
      in if p2_chunkId p AND EXTRA_HEADER_INFO_FLAG \<noteq> 0 then
           (let t = t\<lparr>chunkId := 0, byteCount := 0, extraHeaderInfoAvailable := 1,
                      extraParentObjectId := p2_chunkId p AND NOT ALL_EXTRA_FLAGS,
                      extraIsShrinkHeader := (if p2_chunkId p AND EXTRA_SHRINK_FLAG \<noteq> 0 then 1 else 0),
                      extraShadows := (if p2_chunkId p AND EXTRA_SHADOWS_FLAG \<noteq> 0 then 1 else 0),
                      extraObjectType := drop_bit 28 (p2_objectId p),
                      objectId := p2_objectId p AND NOT EXTRA_OBJECT_TYPE_MASK\<rparr>
            in if extraObjectType t = YAFFS_OBJECT_TYPE_HARDLINK
               then t\<lparr>extraEquivalentObjectId := p2_byteCount p\<rparr>
               else t\<lparr>extraFileLength := p2_byteCount p\<rparr>)
         else t)"

definition yaffs_UnpackTags2 :: "yaffs_PackedTags2 \<Rightarrow> yaffs_ExtendedTags \<times> yaffs_PackedTags2" where
  "yaffs_UnpackTags2 pt =
     (let t = yaffs_InitialiseTags zero_tags
      in if p2_sequenceNumber (p2_t pt) \<noteq> 0xFFFFFFFF then
           (let bytes = tagsPart_bytes (p2_t pt);
                ecc = yaffs_ECCCalculateOther bytes 16;
                (result, bytes, stored) = yaffs_ECCCorrectOther bytes 16 (p2_ecc pt) ecc;
                pt = \<lparr>p2_t = tagsPart_of_bytes bytes, p2_ecc = stored\<rparr>;
                t = t\<lparr>eccResult := (if result = 0 then YAFFS_ECC_RESULT_NO_ERROR
                                     else if result = 1 then YAFFS_ECC_RESULT_FIXED
                                     else if result = -1 then YAFFS_ECC_RESULT_UNFIXED
                                     else YAFFS_ECC_RESULT_UNKNOWN)\<rparr>
            in (unpackTags2Fields t (p2_t pt), pt))
         else (t, pt))"

section \<open>Bytes of the packed part\<close>

lemma length_tagsPart_bytes [simp]: "length (tagsPart_bytes p) = 16"
  by (simp add: tagsPart_bytes_def)

lemma tagsPart_roundtrip [simp]: "tagsPart_of_bytes (tagsPart_bytes p) = p"
  by (simp add: tagsPart_of_bytes_def tagsPart_bytes_def)


lemma tagsPart_bytes_roundtrip [simp]: "length bs = 16 \<Longrightarrow> tagsPart_bytes (tagsPart_of_bytes bs) = bs"
proof -
  assume len: "length bs = 16"
  have glue: "take 4 (drop n bs) @ drop (4 + n) bs = drop n bs" for n
    by (metis append_take_drop_id drop_drop)
  from len have "tagsPart_bytes (tagsPart_of_bytes bs) =
      take 4 (drop 0 bs) @ take 4 (drop 4 bs) @ take 4 (drop 8 bs) @ drop 12 bs"
    by (simp add: tagsPart_of_bytes_def tagsPart_bytes_def)
  also have "\<dots> = bs" using glue [of 8] glue [of 4] glue [of 0] by simp
  finally show ?thesis .
qed

lemma byte_of_flip:
  "m < 32 \<Longrightarrow> (ucast (drop_bit n (w XOR push_bit m 1)) :: u8) =
     ucast (drop_bit n w) XOR (if n \<le> m \<and> m < n + 8 then push_bit (m - n) 1 else 0)" for w :: u32
  by (rule bit_word_eqI) (auto simp: bit_simps)

lemma of_le32_flip:
  assumes "j < 4" and "k < 8"
  shows "of_le32 (flip_bit_at j k (le32 w)) = w XOR push_bit (8 * j + k) 1"
proof -
  have "j = 0 \<or> j = 1 \<or> j = 2 \<or> j = 3" using assms(1) by auto
  then have "flip_bit_at j k (le32 w) = le32 (w XOR push_bit (8 * j + k) 1)"
    using assms(2) byte_of_flip [of "8 * j + k" 0 w] byte_of_flip [of "8 * j + k" 8 w]
      byte_of_flip [of "8 * j + k" 16 w] byte_of_flip [of "8 * j + k" 24 w]
    unfolding flip_bit_at_def le32_def by (elim disjE) (simp_all del: push_bit_of_1)
  then show ?thesis by simp
qed

section \<open>The extra header information\<close>

lemma extra_masks_shift:
  "ALL_EXTRA_FLAGS = push_bit 28 (mask 4)" "EXTRA_OBJECT_TYPE_MASK = push_bit 28 (mask 4)"
  "EXTRA_HEADER_INFO_FLAG = push_bit 31 1" "EXTRA_SHRINK_FLAG = push_bit 30 1"
  "EXTRA_SHADOWS_FLAG = push_bit 29 1"
  by (simp_all add: ALL_EXTRA_FLAGS_def EXTRA_OBJECT_TYPE_MASK_def EXTRA_HEADER_INFO_FLAG_def
      EXTRA_SHRINK_FLAG_def EXTRA_SHADOWS_FLAG_def mask_numeral)

lemma bit_extra_masks:
  "bit ALL_EXTRA_FLAGS n \<longleftrightarrow> 28 \<le> n \<and> n < 32"
  "bit EXTRA_OBJECT_TYPE_MASK n \<longleftrightarrow> 28 \<le> n \<and> n < 32"
  "bit EXTRA_HEADER_INFO_FLAG n \<longleftrightarrow> n = 31" "bit EXTRA_SHRINK_FLAG n \<longleftrightarrow> n = 30"
  "bit EXTRA_SHADOWS_FLAG n \<longleftrightarrow> n = 29"
  unfolding extra_masks_shift bit_push_bit_iff bit_mask_iff bit_1_iff by auto

lemma extra_flag_tests:
  "x AND EXTRA_HEADER_INFO_FLAG \<noteq> 0 \<longleftrightarrow> bit x 31"
  "x AND EXTRA_SHRINK_FLAG \<noteq> 0 \<longleftrightarrow> bit x 30"
  "x AND EXTRA_SHADOWS_FLAG \<noteq> 0 \<longleftrightarrow> bit x 29"
  using and_exp_test [of 31 x] and_exp_test [of 30 x] and_exp_test [of 29 x]
  by (simp_all add: EXTRA_HEADER_INFO_FLAG_def EXTRA_SHRINK_FLAG_def EXTRA_SHADOWS_FLAG_def)

lemma small_bits:
  fixes x :: u32
  assumes "x < 2 ^ n" and "bit x m"
  shows "m < n"
proof -
  have "n < 32"
  proof (rule ccontr)
    assume "\<not> n < 32"
    then have "(2 ^ n :: u32) = 0" by (simp add: exp_eq_zero_iff)
    with assms(1) show False by simp
  qed
  have "unat (2 ^ n :: u32) = 2 ^ n"
    using unat_of_nat [of "2 ^ n", where 'a = 32] power_strict_increasing [OF \<open>n < 32\<close>, of "2 :: nat"]
    by simp
  then have "unat x < 2 ^ n" using assms(1) by (simp add: word_less_nat_alt)
  then have "take_bit n (unat x) = unat x" by (rule take_bit_nat_eq_self)
  moreover have "bit (unat x) m" using assms(2) by (simp add: bit_unsigned_iff)
  ultimately show ?thesis by (metis bit_take_bit_iff)
qed

lemma ucast_fit: "x < 2 ^ LENGTH('a) \<Longrightarrow> (ucast (ucast x :: 'a::len word) :: u32) = x"
  by (rule bit_word_eqI) (auto simp: bit_simps dest: small_bits)

lemma extra_pack_bits:
  assumes "parent < 2 ^ 28" and "oid < 2 ^ 28" and "ty < 2 ^ 4"
    and cid: "cid = (let c = EXTRA_HEADER_INFO_FLAG OR parent;
               c = (if sh then c OR EXTRA_SHRINK_FLAG else c)
           in if sd then c OR EXTRA_SHADOWS_FLAG else c)"
    and o2: "o2 = (oid AND NOT EXTRA_OBJECT_TYPE_MASK) OR push_bit 28 ty"
  shows "bit cid 31" "bit cid 30 = sh" "bit cid 29 = sd" "cid AND NOT ALL_EXTRA_FLAGS = parent"
    "drop_bit 28 o2 = ty" "o2 AND NOT EXTRA_OBJECT_TYPE_MASK = oid"
proof -
  note small = small_bits [OF assms(1)] small_bits [OF assms(2)] small_bits [OF assms(3)]
  have c: "bit cid n \<longleftrightarrow> n = 31 \<or> bit parent n \<or> sh \<and> n = 30 \<or> sd \<and> n = 29" for n
    unfolding cid Let_def by (auto simp: bit_or_iff bit_extra_masks)
  have o: "bit o2 n \<longleftrightarrow> bit oid n \<or> 28 \<le> n \<and> n < 32 \<and> bit ty (n - 28)" for n
    unfolding o2 using small(2) by (fastforce simp: bit_simps bit_extra_masks)
  show "bit cid 31" "bit cid 30 = sh" "bit cid 29 = sd"
    unfolding c using small(1) by fastforce+
  show "cid AND NOT ALL_EXTRA_FLAGS = parent"
    by (rule bit_word_eqI) (use small(1) in \<open>fastforce simp: bit_and_iff bit_not_iff bit_extra_masks c\<close>)
  show "drop_bit 28 o2 = ty"
    by (rule bit_word_eqI) (use small(2,3) in \<open>fastforce simp: bit_drop_bit_eq o\<close>)
  show "o2 AND NOT EXTRA_OBJECT_TYPE_MASK = oid"
    by (rule bit_word_eqI) (use small(2) in \<open>fastforce simp: bit_and_iff bit_not_iff bit_extra_masks o\<close>)
qed

section \<open>Unpacking what was packed\<close>

text \<open>The tags a reader gets for a data chunk and for an object header.\<close>

definition data_tags :: "yaffs_ExtendedTags \<Rightarrow> yaffs_ExtendedTags" where
  "data_tags t = (yaffs_InitialiseTags zero_tags)\<lparr>chunkUsed := 1, objectId := objectId t, chunkId := chunkId t,
     byteCount := byteCount t, sequenceNumber := sequenceNumber t, eccResult := YAFFS_ECC_RESULT_NO_ERROR\<rparr>"

definition header_tags :: "yaffs_ExtendedTags \<Rightarrow> yaffs_ExtendedTags" where
  "header_tags t = (yaffs_InitialiseTags zero_tags)\<lparr>chunkUsed := 1, objectId := objectId t,
     sequenceNumber := sequenceNumber t, eccResult := YAFFS_ECC_RESULT_NO_ERROR,
     extraHeaderInfoAvailable := 1, extraParentObjectId := extraParentObjectId t,
     extraIsShrinkHeader := of_bool (extraIsShrinkHeader t \<noteq> 0), extraShadows := of_bool (extraShadows t \<noteq> 0),
     extraObjectType := extraObjectType t,
     extraFileLength := (if extraObjectType t = YAFFS_OBJECT_TYPE_FILE then extraFileLength t else 0),
     extraEquivalentObjectId :=
       (if extraObjectType t = YAFFS_OBJECT_TYPE_HARDLINK then extraEquivalentObjectId t else 0)\<rparr>"

lemmas tags_defs = data_tags_def header_tags_def yaffs_InitialiseTags_def zero_tags_def unpackTags2Fields_def
  YAFFS_OBJECT_TYPE_FILE_def YAFFS_OBJECT_TYPE_HARDLINK_def

lemma unpack_clean:
  "sequenceNumber t \<noteq> 0xFFFFFFFF \<Longrightarrow>
     yaffs_UnpackTags2 (yaffs_PackTags2 t) =
       (unpackTags2Fields ((yaffs_InitialiseTags zero_tags)\<lparr>eccResult := YAFFS_ECC_RESULT_NO_ERROR\<rparr>)
          (packTags2TagsPart t), yaffs_PackTags2 t)"
  by (simp add: yaffs_UnpackTags2_def yaffs_PackTags2_def Let_def ECCCorrectOther_clean)
    (simp add: packTags2TagsPart_def Let_def)

lemma unpack_data_fields:
  assumes "chunkId t \<noteq> 0 \<or> extraHeaderInfoAvailable t = 0" and "\<not> bit (chunkId t) 31"
  shows "unpackTags2Fields ((yaffs_InitialiseTags zero_tags)\<lparr>eccResult := YAFFS_ECC_RESULT_NO_ERROR\<rparr>)
    (packTags2TagsPart t) = data_tags t"
  using assms by (auto simp: packTags2TagsPart_def Let_def extra_flag_tests tags_defs)

lemma unpack_header_fields:
  assumes "chunkId t = 0" and "extraHeaderInfoAvailable t \<noteq> 0"
    and "extraParentObjectId t < 2 ^ 28" and "objectId t < 2 ^ 28" and "extraObjectType t < 2 ^ 4"
  shows "unpackTags2Fields ((yaffs_InitialiseTags zero_tags)\<lparr>eccResult := YAFFS_ECC_RESULT_NO_ERROR\<rparr>)
    (packTags2TagsPart t) = header_tags t"
proof -
  define cid where "cid = (let c = EXTRA_HEADER_INFO_FLAG OR extraParentObjectId t;
      c = (if extraIsShrinkHeader t \<noteq> 0 then c OR EXTRA_SHRINK_FLAG else c)
    in if extraShadows t \<noteq> 0 then c OR EXTRA_SHADOWS_FLAG else c)"
  define oid where "oid = (objectId t AND NOT EXTRA_OBJECT_TYPE_MASK) OR push_bit 28 (extraObjectType t)"
  note bits = extra_pack_bits [OF assms(3-5) cid_def oid_def]
  have "packTags2TagsPart t = \<lparr>p2_sequenceNumber = sequenceNumber t, p2_objectId = oid, p2_chunkId = cid,
      p2_byteCount = (if extraObjectType t = YAFFS_OBJECT_TYPE_HARDLINK then extraEquivalentObjectId t
                    else if extraObjectType t = YAFFS_OBJECT_TYPE_FILE then extraFileLength t else 0)\<rparr>"
    using assms(1,2) unfolding packTags2TagsPart_def cid_def oid_def by (simp add: Let_def)
  then show ?thesis
    unfolding unpackTags2Fields_def Let_def extra_flag_tests
    by (simp add: bits tags_defs)
qed

section \<open>One flipped bit in the packed tags\<close>

lemma p2_sequenceNumber_pack [simp]: "p2_sequenceNumber (packTags2TagsPart t) = sequenceNumber t"
  by (simp add: packTags2TagsPart_def Let_def)

lemma flipped_sequence:
  assumes "j < 16" and "k < 8" and "2 \<le> pop_count (NOT (p2_sequenceNumber p))"
  shows "p2_sequenceNumber (tagsPart_of_bytes (flip_bit_at j k (tagsPart_bytes p))) \<noteq> 0xFFFFFFFF"
proof
  assume a: "p2_sequenceNumber (tagsPart_of_bytes (flip_bit_at j k (tagsPart_bytes p))) = 0xFFFFFFFF"
  show False
  proof (cases "j < 4")
    case True
    then have "take 4 (flip_bit_at j k (tagsPart_bytes p)) = flip_bit_at j k (le32 (p2_sequenceNumber p))"
      by (simp add: flip_bit_at_def tagsPart_bytes_def take_update_swap nth_append)
    with a True assms(2) have "p2_sequenceNumber p XOR push_bit (8 * j + k) 1 = -1"
      by (simp add: tagsPart_of_bytes_def of_le32_flip del: push_bit_of_1)
    then have "NOT (p2_sequenceNumber p) = push_bit (8 * j + k) 1"
      by (metis bit.xor_cancel_right xor.commute xor_cancel_left bit.xor_def)
    then have "pop_count (NOT (p2_sequenceNumber p)) = 1"
      using True assms(2) by (simp only:) (rule pop_count_exp, simp)
    with assms(3) show False by simp
  next
    case False
    then have "take 4 (flip_bit_at j k (tagsPart_bytes p)) = le32 (p2_sequenceNumber p)"
      by (simp add: flip_bit_at_def take_update_swap list_update_beyond) (simp add: tagsPart_bytes_def)
    with a have "p2_sequenceNumber p = -1" by (simp add: tagsPart_of_bytes_def)
    with assms(3) show False by simp
  qed
qed

lemma unpack_flipped:
  assumes "j < 16" and "k < 8" and "2 \<le> pop_count (NOT (sequenceNumber t))"
    and pt: "pt = (yaffs_PackTags2 t)\<lparr>p2_t := tagsPart_of_bytes (flip_bit_at j k (tagsPart_bytes (packTags2TagsPart t)))\<rparr>"
  shows "yaffs_UnpackTags2 pt = ((fst (yaffs_UnpackTags2 (yaffs_PackTags2 t)))\<lparr>eccResult := YAFFS_ECC_RESULT_FIXED\<rparr>,
    yaffs_PackTags2 t)"
proof -
  define raw where "raw = flip_bit_at j k (tagsPart_bytes (packTags2TagsPart t))"
  have seq: "p2_sequenceNumber (tagsPart_of_bytes raw) \<noteq> 0xFFFFFFFF"
    unfolding raw_def using assms by (intro flipped_sequence) simp_all
  have repair: "yaffs_ECCCorrectOther raw 16 (yaffs_ECCCalculateOther (tagsPart_bytes (packTags2TagsPart t)) 16)
      (yaffs_ECCCalculateOther raw 16) =
      (1, tagsPart_bytes (packTags2TagsPart t), yaffs_ECCCalculateOther (tagsPart_bytes (packTags2TagsPart t)) 16)"
    using tags_ecc.correct_one [OF _ assms(1,2) raw_def] by simp
  have "sequenceNumber t \<noteq> 0xFFFFFFFF"
    using assms(3) unfolding word_minus_one_32 [symmetric] by auto
  then have clean: "fst (yaffs_UnpackTags2 (yaffs_PackTags2 t)) =
      unpackTags2Fields ((yaffs_InitialiseTags zero_tags)\<lparr>eccResult := YAFFS_ECC_RESULT_NO_ERROR\<rparr>) (packTags2TagsPart t)"
    by (simp add: unpack_clean)
  have frame: "(unpackTags2Fields (u\<lparr>eccResult := r\<rparr>) p) = (unpackTags2Fields u p)\<lparr>eccResult := r\<rparr>" for u r p
    by (simp add: unpackTags2Fields_def Let_def)
  show ?thesis
    unfolding clean pt using seq repair
    by (simp add: yaffs_UnpackTags2_def yaffs_PackTags2_def Let_def flip: raw_def) (simp add: frame raw_def)
qed

section \<open>Correctness of the packings\<close>

text \<open>
  C17: YAFFS2 tags survive a write and a read. The tags of a data chunk come back with their
  object, chunk, byte count and sequence number, and an object header also with its parent,
  flags, type and length or link target; the reader sees no ECC error and valid markers.
\<close>
theorem PackTags2_roundtrip:
  assumes "sequenceNumber t \<noteq> 0xFFFFFFFF"
    and "if chunkId t = 0 \<and> extraHeaderInfoAvailable t \<noteq> 0
         then extraParentObjectId t < 2 ^ 28 \<and> objectId t < 2 ^ 28 \<and> extraObjectType t < 2 ^ 4
         else \<not> bit (chunkId t) 31"
  shows "fst (yaffs_UnpackTags2 (yaffs_PackTags2 t)) =
    (if chunkId t = 0 \<and> extraHeaderInfoAvailable t \<noteq> 0 then header_tags t else data_tags t) \<and>
    yaffs_ValidateTags (fst (yaffs_UnpackTags2 (yaffs_PackTags2 t)))"
proof -
  have "yaffs_ValidateTags (header_tags t)" "yaffs_ValidateTags (data_tags t)"
    by (simp_all add: yaffs_ValidateTags_def tags_defs)
  then show ?thesis
    using assms by (auto simp: unpack_clean unpack_data_fields unpack_header_fields split: if_splits)
qed

theorem PackTags2_roundtrip_witness:
  "let t = zero_tags\<lparr>objectId := 257, sequenceNumber := 0x1000, extraHeaderInfoAvailable := 1,
             extraParentObjectId := 1, extraShadows := 1, extraObjectType := 1, extraFileLength := 4096\<rparr>
   in fst (yaffs_UnpackTags2 (yaffs_PackTags2 t)) =
        (if chunkId t = 0 \<and> extraHeaderInfoAvailable t \<noteq> 0 then header_tags t else data_tags t) \<and>
      yaffs_ValidateTags (fst (yaffs_UnpackTags2 (yaffs_PackTags2 t)))"
  unfolding Let_def by (rule PackTags2_roundtrip) (simp_all add: zero_tags_def)

text \<open>
  A single flipped bit anywhere in the sixteen bytes of packed tags is repaired on
  unpacking: the reader gets the tags of the clean copy, marked as fixed, provided the
  sequence number is at least two bits away from the all-ones value of an erased chunk.
\<close>
theorem UnpackTags2_repairs_one_bit:
  assumes "j < 16" and "k < 8" and "2 \<le> pop_count (NOT (sequenceNumber t))"
  shows "fst (yaffs_UnpackTags2 ((yaffs_PackTags2 t)\<lparr>p2_t :=
             tagsPart_of_bytes (flip_bit_at j k (tagsPart_bytes (packTags2TagsPart t)))\<rparr>)) =
         (fst (yaffs_UnpackTags2 (yaffs_PackTags2 t)))\<lparr>eccResult := YAFFS_ECC_RESULT_FIXED\<rparr>"
  using unpack_flipped [OF assms refl] by simp

theorem UnpackTags2_repairs_one_bit_witness:
  "fst (yaffs_UnpackTags2 ((yaffs_PackTags2 (zero_tags\<lparr>sequenceNumber := 0x1000\<rparr>))\<lparr>p2_t :=
       tagsPart_of_bytes (flip_bit_at 9 3 (tagsPart_bytes (packTags2TagsPart (zero_tags\<lparr>sequenceNumber := 0x1000\<rparr>))))\<rparr>)) =
   (fst (yaffs_UnpackTags2 (yaffs_PackTags2 (zero_tags\<lparr>sequenceNumber := 0x1000\<rparr>))))\<lparr>eccResult := YAFFS_ECC_RESULT_FIXED\<rparr>"
proof (rule UnpackTags2_repairs_one_bit)
  show "2 \<le> pop_count (NOT (sequenceNumber (zero_tags\<lparr>sequenceNumber := 0x1000\<rparr>)))"
    by (rule pop_count_two_bits [of _ 0 1]) (simp_all add: bit_not_iff)
qed simp_all

text \<open>
  The proviso is needed. For the legal sequence number 0x7FFFFFFF the flip of one bit of
  the stored tags makes the chunk read as unused, because the test for an erased chunk precedes
  the correction.
\<close>
theorem UnpackTags2_loses_chunk:
  "chunkUsed (fst (yaffs_UnpackTags2 ((yaffs_PackTags2 (zero_tags\<lparr>sequenceNumber := 0x7FFFFFFF\<rparr>))\<lparr>p2_t :=
      tagsPart_of_bytes (flip_bit_at 3 7 (tagsPart_bytes (packTags2TagsPart (zero_tags\<lparr>sequenceNumber := 0x7FFFFFFF\<rparr>))))\<rparr>))) = 0 \<and>
   chunkUsed (fst (yaffs_UnpackTags2 (yaffs_PackTags2 (zero_tags\<lparr>sequenceNumber := 0x7FFFFFFF\<rparr>)))) = 1"
proof -
  let ?p = "packTags2TagsPart (zero_tags\<lparr>sequenceNumber := 0x7FFFFFFF\<rparr>)"
  have "take 4 (flip_bit_at 3 7 (tagsPart_bytes ?p)) = flip_bit_at 3 7 (le32 0x7FFFFFFF)"
    by (simp add: flip_bit_at_def tagsPart_bytes_def take_update_swap nth_append)
  then have "p2_sequenceNumber (tagsPart_of_bytes (flip_bit_at 3 7 (tagsPart_bytes ?p))) = 0xFFFFFFFF"
    using of_le32_flip [of 3 7 "0x7FFFFFFF"] by (simp add: tagsPart_of_bytes_def)
  then show ?thesis
    by (simp add: unpack_clean) (simp add: yaffs_UnpackTags2_def Let_def tags_defs)
qed

text \<open>
  YAFFS1 tags survive packing into bit fields when the fields fit their widths, and
  packed tags are never mistaken for an erased spare area.
\<close>
theorem PackTags1_roundtrip:
  assumes "chunkId t < 2 ^ 20" and "serialNumber t < 2 ^ 2" and "byteCount t < 2 ^ 10" and "objectId t < 2 ^ 18"
    and "chunkDeleted t \<le> 1"
  shows "yaffs_UnpackTags1 u (yaffs_PackTags1 t) =
    u\<lparr>blockBad := 0, chunkUsed := 1, objectId := objectId t, chunkId := chunkId t, byteCount := byteCount t,
      eccResult := YAFFS_ECC_RESULT_NO_ERROR, chunkDeleted := chunkDeleted t, serialNumber := serialNumber t\<rparr>"
proof -
  have del: "chunkDeleted t = 0 \<or> chunkDeleted t = 1"
    using assms(5) by (metis word_gt_0 word_le_sub1 le_less word_less_1)
  have "\<not> packed1_allFF (yaffs_PackTags1 t)"
    by (simp add: packed1_allFF_def yaffs_PackTags1_def)
  with del show ?thesis
    using ucast_fit [where 'a = 20, of "chunkId t"] ucast_fit [where 'a = 2, of "serialNumber t"]
      ucast_fit [where 'a = 10, of "byteCount t"] ucast_fit [where 'a = 18, of "objectId t"] assms
    by (auto simp: yaffs_UnpackTags1_def yaffs_PackTags1_def)
qed

theorem PackTags1_roundtrip_witness:
  "yaffs_UnpackTags1 zero_tags (yaffs_PackTags1 (zero_tags\<lparr>chunkId := 77, serialNumber := 3, byteCount := 512,
     objectId := 257, chunkDeleted := 1\<rparr>)) =
   zero_tags\<lparr>blockBad := 0, chunkUsed := 1, objectId := 257, chunkId := 77, byteCount := 512,
     eccResult := YAFFS_ECC_RESULT_NO_ERROR, chunkDeleted := 1, serialNumber := 3\<rparr>"
  using PackTags1_roundtrip [of "zero_tags\<lparr>chunkId := 77, serialNumber := 3, byteCount := 512,
     objectId := 257, chunkDeleted := 1\<rparr>" zero_tags] by simp

end
