(* ===== verification/YaffsDevice.thy ===== *)
theory YaffsDevice
  imports PackedTags "HOL-Library.Monad_Syntax"
begin

text \<open>
  The run-time state YAFFS keeps for a mounted device (yaffs_guts.h): the block information, the
  device structure with its driver entry points, and access to the block table. C operations on
  the device are functions from a device to an option: the value None is an access outside an
  array or a call through a null pointer, which C leaves undefined. Counters are integers; the
  ten-bit signed and three-bit unsigned fields of the block information keep their width.
\<close>

section \<open>ECC results in the order of the enumeration\<close>

fun ecc_rank :: "yaffs_ECCResult \<Rightarrow> nat" where
  "ecc_rank YAFFS_ECC_RESULT_UNKNOWN = 0"
| "ecc_rank YAFFS_ECC_RESULT_NO_ERROR = 1"
| "ecc_rank YAFFS_ECC_RESULT_FIXED = 2"
| "ecc_rank YAFFS_ECC_RESULT_UNFIXED = 3"

lemma ecc_rank_inj: "ecc_rank a = ecc_rank b \<longleftrightarrow> a = b"
  by (cases a; cases b) simp_all

instantiation yaffs_ECCResult :: linorder
begin

definition less_eq_yaffs_ECCResult :: "yaffs_ECCResult \<Rightarrow> yaffs_ECCResult \<Rightarrow> bool" where
  "a \<le> b \<longleftrightarrow> ecc_rank a \<le> ecc_rank b"

definition less_yaffs_ECCResult :: "yaffs_ECCResult \<Rightarrow> yaffs_ECCResult \<Rightarrow> bool" where
  "a < b \<longleftrightarrow> ecc_rank a < ecc_rank b"

instance
  by standard (auto simp: less_eq_yaffs_ECCResult_def less_yaffs_ECCResult_def ecc_rank_inj)

end

section \<open>Blocks\<close>

datatype yaffs_BlockState =
    YAFFS_BLOCK_STATE_UNKNOWN | YAFFS_BLOCK_STATE_SCANNING | YAFFS_BLOCK_STATE_NEEDS_SCANNING
  | YAFFS_BLOCK_STATE_EMPTY | YAFFS_BLOCK_STATE_ALLOCATING | YAFFS_BLOCK_STATE_FULL
  | YAFFS_BLOCK_STATE_DIRTY | YAFFS_BLOCK_STATE_CHECKPOINT | YAFFS_BLOCK_STATE_COLLECTING
  | YAFFS_BLOCK_STATE_DEAD

text \<open>Stores into a signed ten-bit field.\<close>

definition s10 :: "int \<Rightarrow> int" where
  "s10 x = (x + 512) mod 1024 - 512"

record yaffs_BlockInfo =
  softDeletions :: int
  pagesInUse :: int
  blockState :: yaffs_BlockState
  needsRetiring :: bool
  skipErasedCheck :: bool
  gcPrioritise :: bool
  chunkErrorStrikes :: "3 word"
  hasShrinkHeader :: bool
  bi_sequenceNumber :: u32

definition zero_blockInfo :: yaffs_BlockInfo where
  "zero_blockInfo = \<lparr>softDeletions = 0, pagesInUse = 0, blockState = YAFFS_BLOCK_STATE_UNKNOWN,
     needsRetiring = False, skipErasedCheck = False, gcPrioritise = False, chunkErrorStrikes = 0,
     hasShrinkHeader = False, bi_sequenceNumber = 0\<rparr>"

section \<open>The spare area of YAFFS1\<close>

record yaffs_Spare =
  tagByte0 :: u8
  tagByte1 :: u8
  tagByte2 :: u8
  tagByte3 :: u8
  pageStatus :: u8
  blockStatus :: u8
  tagByte4 :: u8
  tagByte5 :: u8
  ecc1 :: ecc3
  tagByte6 :: u8
  tagByte7 :: u8
  ecc2 :: ecc3

text \<open>The structure handed to a driver that does its own ECC.\<close>

record yaffs_NANDSpare =
  nspare_spare :: yaffs_Spare
  eccres1 :: int
  eccres2 :: int

definition zero_nspare :: yaffs_NANDSpare where
  "zero_nspare = \<lparr>nspare_spare = \<lparr>tagByte0 = 0, tagByte1 = 0, tagByte2 = 0, tagByte3 = 0, pageStatus = 0,
     blockStatus = 0, tagByte4 = 0, tagByte5 = 0, ecc1 = (0, 0, 0), tagByte6 = 0, tagByte7 = 0, ecc2 = (0, 0, 0)\<rparr>,
     eccres1 = 0, eccres2 = 0\<rparr>"

section \<open>The device\<close>

definition YAFFS_OK :: int where "YAFFS_OK = 1"
definition YAFFS_FAIL :: int where "YAFFS_FAIL = 0"

record yaffs_TempBuffer =
  buffer :: nat
  line :: int
  maxLine :: int

record yaffs_ChunkCache =
  cc_object :: "nat option"
  cc_chunkId :: int
  lastUse :: int
  dirty :: bool
  nBytes :: int
  locked :: bool
  cc_data :: "u8 list"

text \<open>
  The driver entry points act on the driver's own context (genericDevice), whose type is the
  parameter of the device. A buffer argument is None for a null pointer. The chunk-sized working
  buffers live in a small heap indexed by address, and the allocator hands out fresh addresses.
  The global variables yaffs_traceMask and yaffs_wr_attempts are kept with the device, and so is
  what automatic variables hold that the C code uses before it has set all of their fields
  (the stack fields): the theorems hold for any value of these. The list of spare tnodes is
  represented by its length, the list of allocated groups of tnodes by their sizes, and ymalloc
  holds the answers of the system's allocator to the requests for tnodes to come.
\<close>

record 'f yaffs_Device =
  nDataBytesPerChunk :: int
  nChunksPerBlock :: int
  startBlock :: int
  endBlock :: int
  nReservedBlocks :: int
  nShortOpCaches :: int
  useNANDECC :: bool
  genericDevice :: 'f
  writeChunkToNAND :: "('f \<Rightarrow> int \<Rightarrow> u8 list option \<Rightarrow> yaffs_Spare \<Rightarrow> int \<times> 'f) option"
  readChunkFromNAND :: "('f \<Rightarrow> int \<Rightarrow> u8 list option \<Rightarrow> yaffs_NANDSpare \<Rightarrow>
    int \<times> u8 list option \<times> yaffs_NANDSpare \<times> 'f) option"
  eraseBlockInNAND :: "('f \<Rightarrow> int \<Rightarrow> int \<times> 'f) option"
  writeChunkWithTagsToNAND :: "('f \<Rightarrow> int \<Rightarrow> u8 list option \<Rightarrow> yaffs_ExtendedTags \<Rightarrow> int \<times> 'f) option"
  readChunkWithTagsFromNAND :: "('f \<Rightarrow> int \<Rightarrow> u8 list option \<Rightarrow> yaffs_ExtendedTags \<Rightarrow>
    int \<times> u8 list option \<times> yaffs_ExtendedTags \<times> 'f) option"
  markNANDBlockBad :: "('f \<Rightarrow> int \<Rightarrow> int \<times> 'f) option"
  initialiseNAND :: "('f \<Rightarrow> int \<times> 'f) option"
  queryNANDBlock :: "('f \<Rightarrow> int \<Rightarrow> int \<times> yaffs_BlockState \<times> u32 \<times> 'f) option"
  isYaffs2 :: bool
  wideTnodesDisabled :: bool
  isMounted :: bool
  chunkGroupBits :: nat
  chunkGroupSize :: int
  tnodeWidth :: u32
  tnodeMask :: u32
  crumbMask :: u32
  crumbShift :: nat
  crumbsPerChunk :: u32
  chunkShift :: nat
  chunkMask :: u32
  isCheckpointed :: bool
  internalStartBlock :: int
  internalEndBlock :: int
  blockOffset :: int
  chunkOffset :: int
  checkpointPageSequence :: int
  checkpointByteCount :: int
  checkpointByteOffset :: int
  checkpointBuffer :: "u8 list option"
  checkpointOpenForWrite :: bool
  blocksInCheckpoint :: int
  checkpointCurrentChunk :: int
  checkpointCurrentBlock :: int
  checkpointNextBlock :: int
  checkpointBlockList :: "int list"
  checkpointMaxBlocks :: int
  checkpointSum :: u32
  checkpointXor :: u32
  nCheckpointBlocksRequired :: int
  blockInfo :: "yaffs_BlockInfo list"
  chunkBits :: "u8 list"
  chunkBitmapStride :: int
  nErasedBlocks :: int
  allocationBlock :: int
  allocationPage :: int
  allocationBlockFinder :: int
  nTnodesCreated :: int
  freeTnodes :: nat
  nFreeTnodes :: int
  allocatedTnodeList :: "nat list"
  nObjectsCreated :: int
  nFreeObjects :: int
  nFreeChunks :: int
  currentDirtyChecker :: int
  nonAggressiveSkip :: int
  nPageWrites :: int
  nPageReads :: int
  nBlockErasures :: int
  nErasureFailures :: int
  nRetriedWrites :: int
  nRetiredBlocks :: int
  eccFixed :: int
  eccUnfixed :: int
  tagsEccFixed :: int
  tagsEccUnfixed :: int
  nDeletions :: int
  nUnmarkedDeletions :: int
  hasPendingPrioritisedGCs :: bool
  srCache :: "yaffs_ChunkCache list"
  nDeletedFiles :: int
  tempBuffer :: "yaffs_TempBuffer list"
  maxTemp :: int
  unmanagedTempAllocations :: int
  unmanagedTempDeallocations :: int
  dev_sequenceNumber :: u32
  oldestDirtySequence :: u32
  yaffs_traceMask :: u32
  yaffs_wr_attempts :: u32
  heap :: "nat \<Rightarrow> u8 list"
  nextAddress :: nat
  ymalloc :: "bool list"
  stackTags :: "64 word"
  stackSpare :: yaffs_NANDSpare
  stackSpare1 :: yaffs_NANDSpare
  stackEccResult :: yaffs_ECCResult
  stackExtTags :: yaffs_ExtendedTags

text \<open>A device structure cleared to zero, as the static ones are at startup.\<close>

definition zero_device :: "'f \<Rightarrow> 'f yaffs_Device" where
  "zero_device f = \<lparr>nDataBytesPerChunk = 0, nChunksPerBlock = 0, startBlock = 0, endBlock = 0,
     nReservedBlocks = 0, nShortOpCaches = 0, useNANDECC = False, genericDevice = f,
     writeChunkToNAND = None, readChunkFromNAND = None, eraseBlockInNAND = None,
     writeChunkWithTagsToNAND = None, readChunkWithTagsFromNAND = None, markNANDBlockBad = None,
     initialiseNAND = None,
     queryNANDBlock = None, isYaffs2 = False, wideTnodesDisabled = False, isMounted = False,
     chunkGroupBits = 0, chunkGroupSize = 0, tnodeWidth = 0, tnodeMask = 0, crumbMask = 0, crumbShift = 0,
     crumbsPerChunk = 0, chunkShift = 0, chunkMask = 0, isCheckpointed = False,
     internalStartBlock = 0, internalEndBlock = 0, blockOffset = 0, chunkOffset = 0,
     checkpointPageSequence = 0, checkpointByteCount = 0, checkpointByteOffset = 0,
     checkpointBuffer = None, checkpointOpenForWrite = False, blocksInCheckpoint = 0,
     checkpointCurrentChunk = 0, checkpointCurrentBlock = 0, checkpointNextBlock = 0,
     checkpointBlockList = [], checkpointMaxBlocks = 0, checkpointSum = 0, checkpointXor = 0,
     nCheckpointBlocksRequired = 0, blockInfo = [], chunkBits = [], chunkBitmapStride = 0,
     nErasedBlocks = 0, allocationBlock = 0, allocationPage = 0, allocationBlockFinder = 0,
     nTnodesCreated = 0, freeTnodes = 0, nFreeTnodes = 0, allocatedTnodeList = [], nObjectsCreated = 0, nFreeObjects = 0, nFreeChunks = 0,
     currentDirtyChecker = 0, nonAggressiveSkip = 0, nPageWrites = 0, nPageReads = 0,
     nBlockErasures = 0, nErasureFailures = 0, nRetriedWrites = 0, nRetiredBlocks = 0,
     eccFixed = 0, eccUnfixed = 0, tagsEccFixed = 0, tagsEccUnfixed = 0, nDeletions = 0,
     nUnmarkedDeletions = 0, hasPendingPrioritisedGCs = False, srCache = [], nDeletedFiles = 0,
     tempBuffer = [], maxTemp = 0, unmanagedTempAllocations = 0, unmanagedTempDeallocations = 0,
     dev_sequenceNumber = 0, oldestDirtySequence = 0, yaffs_traceMask = 0, yaffs_wr_attempts = 0,
     heap = \<lambda>_. [], nextAddress = 0, ymalloc = [],
     stackTags = 0, stackSpare = zero_nspare, stackSpare1 = zero_nspare,
     stackEccResult = YAFFS_ECC_RESULT_UNKNOWN, stackExtTags = zero_tags\<rparr>"

section \<open>The block table\<close>

text \<open>
  A block number outside the internal range trips YBUG, which only prints, and then indexes
  outside the table.
\<close>

definition yaffs_GetBlockInfo :: "'f yaffs_Device \<Rightarrow> int \<Rightarrow> yaffs_BlockInfo option" where
  "yaffs_GetBlockInfo dev blk =
     (if blk < internalStartBlock dev \<or> blk > internalEndBlock dev \<or>
         length (blockInfo dev) \<le> nat (blk - internalStartBlock dev) then None
      else Some (blockInfo dev ! nat (blk - internalStartBlock dev)))"

text \<open>A store through the pointer that yaffs_GetBlockInfo returned.\<close>

definition setBlockInfo :: "'f yaffs_Device \<Rightarrow> int \<Rightarrow> yaffs_BlockInfo \<Rightarrow> 'f yaffs_Device" where
  "setBlockInfo dev blk bi = dev\<lparr>blockInfo := (blockInfo dev)[nat (blk - internalStartBlock dev) := bi]\<rparr>"

definition yaffs_HandleChunkError :: "'f yaffs_Device \<Rightarrow> int \<Rightarrow> 'f yaffs_Device option" where
  "yaffs_HandleChunkError dev blk = do {
     bi \<leftarrow> yaffs_GetBlockInfo dev blk;
     Some (if \<not> gcPrioritise bi then
       (let strikes = chunkErrorStrikes bi + 1
        in setBlockInfo (dev\<lparr>hasPendingPrioritisedGCs := True\<rparr>) blk
             (bi\<lparr>gcPrioritise := True, chunkErrorStrikes := strikes,
                 needsRetiring := (if strikes > 3 then True else needsRetiring bi)\<rparr>))
      else dev)
   }"

lemma GetBlockInfo_frame:
  "blockInfo d' = blockInfo d \<Longrightarrow> internalStartBlock d' = internalStartBlock d \<Longrightarrow>
   internalEndBlock d' = internalEndBlock d \<Longrightarrow> yaffs_GetBlockInfo d' b = yaffs_GetBlockInfo d b"
  by (simp add: yaffs_GetBlockInfo_def)

lemma GetBlockInfo_set [simp]:
  "yaffs_GetBlockInfo dev blk = Some b \<Longrightarrow>
     yaffs_GetBlockInfo (setBlockInfo dev blk bi) c = (if c = blk then Some bi else yaffs_GetBlockInfo dev c)"
  by (auto simp: yaffs_GetBlockInfo_def setBlockInfo_def nth_list_update split: if_splits)

lemma s10_id [simp]: "-512 \<le> x \<Longrightarrow> x < 512 \<Longrightarrow> s10 x = x"
  by (simp add: s10_def)

end
