(* ===== verification/TagsCompat.thy ===== *)
theory TagsCompat
  imports YaffsDevice
begin

text \<open>
  The YAFFS1 layer (yaffs_tagscompat.c): the eight tag bytes with their twelve-bit ECC, the
  spare area, and reading and writing chunks through a driver that knows only pages and spare
  areas. The tags union is a 64-bit word: byte i of the union is bits 8 i to 8 i + 7, and the bit
  fields lie in it from the least significant bit on.
\<close>

section \<open>Tags and their ECC\<close>

type_synonym yaffs_Tags = "64 word"

definition tags_chunkId :: "yaffs_Tags \<Rightarrow> u32" where
  "tags_chunkId t = ucast (take_bit 20 t)"

definition tags_serialNumber :: "yaffs_Tags \<Rightarrow> u32" where
  "tags_serialNumber t = ucast (take_bit 2 (drop_bit 20 t))"

definition tags_byteCount :: "yaffs_Tags \<Rightarrow> u32" where
  "tags_byteCount t = ucast (take_bit 10 (drop_bit 22 t))"

definition tags_objectId :: "yaffs_Tags \<Rightarrow> u32" where
  "tags_objectId t = ucast (take_bit 18 (drop_bit 32 t))"

definition tags_ecc :: "yaffs_Tags \<Rightarrow> u32" where
  "tags_ecc t = ucast (take_bit 12 (drop_bit 50 t))"

text \<open>Assignment to a bit field of the given position and width.\<close>

definition put_field :: "nat \<Rightarrow> nat \<Rightarrow> u32 \<Rightarrow> yaffs_Tags \<Rightarrow> yaffs_Tags" where
  "put_field pos width v t = (t AND NOT (push_bit pos (mask width))) OR push_bit pos (take_bit width (ucast v))"

definition tags_byte :: "yaffs_Tags \<Rightarrow> nat \<Rightarrow> u8" where
  "tags_byte t i = ucast (drop_bit (8 * i) t)"

definition tags_of_bytes :: "u8 list \<Rightarrow> yaffs_Tags" where
  "tags_of_bytes bs = foldr (\<lambda>b t. ucast b OR push_bit 8 t) bs 0"

definition tags_ecc_step :: "u8 \<Rightarrow> nat \<Rightarrow> u32 \<times> u32 \<Rightarrow> u32 \<times> u32" where
  "tags_ecc_step b j = (\<lambda>(bit, ecc). (bit + 1, if b AND push_bit j 1 \<noteq> 0 then ecc XOR (bit + 1) else ecc))"

definition yaffs_CalcTagsECC :: "yaffs_Tags \<Rightarrow> yaffs_Tags" where
  "yaffs_CalcTagsECC tags =
     (let tags = put_field 50 12 0 tags;
          (bit, ecc) = fold (\<lambda>i. fold (tags_ecc_step (tags_byte tags i)) [0..<8]) [0..<8] (0, 0)
      in put_field 50 12 ecc tags)"

definition yaffs_CheckECCOnTags :: "yaffs_Tags \<Rightarrow> int \<times> yaffs_Tags" where
  "yaffs_CheckECCOnTags tags =
     (let ecc = tags_ecc tags;
          tags = yaffs_CalcTagsECC tags;
          ecc = ecc XOR tags_ecc tags
      in if ecc \<noteq> 0 \<and> ecc \<le> 64 then
           (let n = unat (ecc - 1)
            in (1, yaffs_CalcTagsECC (tags XOR push_bit (8 * (n div 8) + n mod 8) 1)))
         else if ecc \<noteq> 0 then (-1, tags)
         else (0, tags))"

section \<open>Spare areas and chunks\<close>

definition yaffs_countBitsTable :: "int list" where
  "yaffs_countBitsTable =
    [0, 1, 1, 2, 1, 2, 2, 3, 1, 2, 2, 3, 2, 3, 3, 4,
     1, 2, 2, 3, 2, 3, 3, 4, 2, 3, 3, 4, 3, 4, 4, 5,
     1, 2, 2, 3, 2, 3, 3, 4, 2, 3, 3, 4, 3, 4, 4, 5,
     2, 3, 3, 4, 3, 4, 4, 5, 3, 4, 4, 5, 4, 5, 5, 6,
     1, 2, 2, 3, 2, 3, 3, 4, 2, 3, 3, 4, 3, 4, 4, 5,
     2, 3, 3, 4, 3, 4, 4, 5, 3, 4, 4, 5, 4, 5, 5, 6,
     2, 3, 3, 4, 3, 4, 4, 5, 3, 4, 4, 5, 4, 5, 5, 6,
     3, 4, 4, 5, 4, 5, 5, 6, 4, 5, 5, 6, 5, 6, 6, 7,
     1, 2, 2, 3, 2, 3, 3, 4, 2, 3, 3, 4, 3, 4, 4, 5,
     2, 3, 3, 4, 3, 4, 4, 5, 3, 4, 4, 5, 4, 5, 5, 6,
     2, 3, 3, 4, 3, 4, 4, 5, 3, 4, 4, 5, 4, 5, 5, 6,
     3, 4, 4, 5, 4, 5, 5, 6, 4, 5, 5, 6, 5, 6, 6, 7,
     2, 3, 3, 4, 3, 4, 4, 5, 3, 4, 4, 5, 4, 5, 5, 6,
     3, 4, 4, 5, 4, 5, 5, 6, 4, 5, 5, 6, 5, 6, 6, 7,
     3, 4, 4, 5, 4, 5, 5, 6, 4, 5, 5, 6, 5, 6, 6, 7,
     4, 5, 5, 6, 5, 6, 6, 7, 5, 6, 6, 7, 6, 7, 7, 8]"

definition yaffs_CountBits_table :: "u8 \<Rightarrow> int" where
  "yaffs_CountBits_table x = yaffs_countBitsTable ! unat x"

definition yaffs_CalcECC :: "u8 list \<Rightarrow> yaffs_Spare \<Rightarrow> yaffs_Spare" where
  "yaffs_CalcECC data spare = spare\<lparr>ecc1 := yaffs_ECCCalculate data, ecc2 := yaffs_ECCCalculate (drop 256 data)\<rparr>"

definition yaffs_LoadTagsIntoSpare :: "yaffs_Spare \<Rightarrow> yaffs_Tags \<Rightarrow> yaffs_Spare" where
  "yaffs_LoadTagsIntoSpare spare tags =
     (let tu = yaffs_CalcTagsECC tags
      in spare\<lparr>tagByte0 := tags_byte tu 0, tagByte1 := tags_byte tu 1, tagByte2 := tags_byte tu 2,
               tagByte3 := tags_byte tu 3, tagByte4 := tags_byte tu 4, tagByte5 := tags_byte tu 5,
               tagByte6 := tags_byte tu 6, tagByte7 := tags_byte tu 7\<rparr>)"

definition yaffs_GetTagsFromSpare :: "'f yaffs_Device \<Rightarrow> yaffs_Spare \<Rightarrow> yaffs_Tags \<times> 'f yaffs_Device" where
  "yaffs_GetTagsFromSpare dev spare =
     (let (result, tags) = yaffs_CheckECCOnTags (tags_of_bytes
            [tagByte0 spare, tagByte1 spare, tagByte2 spare, tagByte3 spare,
             tagByte4 spare, tagByte5 spare, tagByte6 spare, tagByte7 spare])
      in (tags, if result > 0 then dev\<lparr>tagsEccFixed := tagsEccFixed dev + 1\<rparr>
                else if result < 0 then dev\<lparr>tagsEccUnfixed := tagsEccUnfixed dev + 1\<rparr>
                else dev))"

definition yaffs_SpareInitialise :: yaffs_Spare where
  "yaffs_SpareInitialise = \<lparr>tagByte0 = 0xFF, tagByte1 = 0xFF, tagByte2 = 0xFF, tagByte3 = 0xFF,
     pageStatus = 0xFF, blockStatus = 0xFF, tagByte4 = 0xFF, tagByte5 = 0xFF, ecc1 = (0xFF, 0xFF, 0xFF),
     tagByte6 = 0xFF, tagByte7 = 0xFF, ecc2 = (0xFF, 0xFF, 0xFF)\<rparr>"

definition yaffs_WriteChunkToNAND ::
    "'f yaffs_Device \<Rightarrow> int \<Rightarrow> u8 list option \<Rightarrow> yaffs_Spare \<Rightarrow> (int \<times> 'f yaffs_Device) option" where
  "yaffs_WriteChunkToNAND dev chunkInNAND data spare =
     (if chunkInNAND < startBlock dev * nChunksPerBlock dev then Some (YAFFS_FAIL, dev)
      else do {
        wr \<leftarrow> writeChunkToNAND dev;
        let (r, f) = wr (genericDevice dev) chunkInNAND data spare;
        Some (r, dev\<lparr>nPageWrites := nPageWrites dev + 1, genericDevice := f\<rparr>)
      })"

definition yaffs_HandleReadDataError :: "'f yaffs_Device \<Rightarrow> int \<Rightarrow> 'f yaffs_Device option" where
  "yaffs_HandleReadDataError dev chunkInNAND = do {
     let blockInNAND = chunkInNAND div nChunksPerBlock dev;
     bi \<leftarrow> yaffs_GetBlockInfo dev blockInNAND;
     Some (setBlockInfo dev blockInNAND (bi\<lparr>needsRetiring := True\<rparr>))
   }"

text \<open>The statistics of one half page, and the verdict over both.\<close>

definition count_ecc :: "int \<Rightarrow> 'f yaffs_Device \<Rightarrow> 'f yaffs_Device" where
  "count_ecc r dev = (if r > 0 then dev\<lparr>eccFixed := eccFixed dev + 1\<rparr>
     else if r < 0 then dev\<lparr>eccUnfixed := eccUnfixed dev + 1\<rparr> else dev)"

definition ecc_verdict :: "int \<Rightarrow> int \<Rightarrow> yaffs_ECCResult" where
  "ecc_verdict r1 r2 = (if r1 < 0 \<or> r2 < 0 then YAFFS_ECC_RESULT_UNFIXED
     else if r1 > 0 \<or> r2 > 0 then YAFFS_ECC_RESULT_FIXED else YAFFS_ECC_RESULT_NO_ERROR)"

text \<open>
  Every caller passes a spare area, so the branch for a null one is left out; the spare area goes
  to the driver as the head of the structure that also has room for the driver's own ECC results,
  and what both hold before the call is an argument. The result is the return value, the data buffer, the spare area, the ECC result (left as it was where the C
  code does not store one) and the device.
\<close>

definition yaffs_ReadChunkFromNAND ::
    "'f yaffs_Device \<Rightarrow> int \<Rightarrow> u8 list option \<Rightarrow> yaffs_NANDSpare \<Rightarrow> yaffs_ECCResult \<Rightarrow> bool \<Rightarrow>
     (int \<times> u8 list option \<times> yaffs_Spare \<times> yaffs_ECCResult \<times> 'f yaffs_Device) option" where
  "yaffs_ReadChunkFromNAND dev chunkInNAND data nspare0 eccRes doErrorCorrection =
     do {
      rd \<leftarrow> readChunkFromNAND dev;
      let (retVal, data, nspare, f) = rd (genericDevice dev) chunkInNAND data nspare0;
          spare = nspare_spare nspare;
          dev = dev\<lparr>nPageReads := nPageReads dev + 1, genericDevice := f\<rparr>
      in if \<not> useNANDECC dev then
           (case data of
              Some d \<Rightarrow>
                if doErrorCorrection then
                  (let (r1, d1, e1) = yaffs_ECCCorrect (take 256 d) (ecc1 spare) (yaffs_ECCCalculate d);
                       (r2, d2, e2) = yaffs_ECCCorrect (drop 256 d) (ecc2 spare) (yaffs_ECCCalculate (drop 256 d));
                       spare = spare\<lparr>ecc1 := e1, ecc2 := e2\<rparr>;
                       dev = count_ecc r2 (count_ecc r1 dev)
                   in do {
                        dev \<leftarrow> (if r1 \<noteq> 0 \<or> r2 \<noteq> 0 then yaffs_HandleReadDataError dev chunkInNAND else Some dev);
                        Some (retVal, Some (d1 @ d2), spare, ecc_verdict r1 r2, dev)
                      })
                else Some (retVal, data, spare, eccRes, dev)
            | None \<Rightarrow> Some (retVal, data, spare, eccRes, dev))
         else
           (if data \<noteq> None \<and> doErrorCorrection then
              (let r1 = eccres1 nspare; r2 = eccres2 nspare
               in do {
                    dev \<leftarrow> (if r1 \<noteq> 0 \<or> r2 \<noteq> 0 then yaffs_HandleReadDataError dev chunkInNAND else Some dev);
                    Some (retVal, data, spare, ecc_verdict r1 r2, dev)
                  })
            else Some (retVal, data, spare, eccRes, dev))
     }"

text \<open>
  The tags on the writing side and the spare area and ECC result on the reading side are
  automatic variables; what they hold before they are set comes from the stack.
\<close>

definition yaffs_TagsCompatabilityWriteChunkWithTagsToNAND ::
    "'f yaffs_Device \<Rightarrow> int \<Rightarrow> u8 list option \<Rightarrow> yaffs_ExtendedTags \<Rightarrow> (int \<times> 'f yaffs_Device) option" where
  "yaffs_TagsCompatabilityWriteChunkWithTagsToNAND dev chunkInNAND data eTags =
     (let spare = yaffs_SpareInitialise;
          spare = (if chunkDeleted eTags \<noteq> 0 then spare\<lparr>pageStatus := 0\<rparr>
            else (let tags = put_field 32 18 (objectId eTags) (stackTags dev);
                      tags = put_field 0 20 (chunkId eTags) tags;
                      tags = put_field 22 10 (byteCount eTags) tags;
                      tags = put_field 20 2 (serialNumber eTags) tags;
                      spare = (case data of Some d \<Rightarrow> if \<not> useNANDECC dev then yaffs_CalcECC d spare else spare
                               | None \<Rightarrow> spare)
                  in yaffs_LoadTagsIntoSpare spare tags))
      in yaffs_WriteChunkToNAND dev chunkInNAND data spare)"

definition yaffs_TagsCompatabilityReadChunkWithTagsFromNAND ::
    "'f yaffs_Device \<Rightarrow> int \<Rightarrow> u8 list option \<Rightarrow> yaffs_ExtendedTags \<Rightarrow>
     (int \<times> u8 list option \<times> yaffs_ExtendedTags \<times> 'f yaffs_Device) option" where
  "yaffs_TagsCompatabilityReadChunkWithTagsFromNAND dev chunkInNAND data eTags = do {
     (r, data, spare, ecc, dev) \<leftarrow> yaffs_ReadChunkFromNAND dev chunkInNAND data (stackSpare dev) (stackEccResult dev) True;
     if r \<noteq> 0 then
       (let eTags = eTags\<lparr>chunkDeleted := (if yaffs_CountBits_table (pageStatus spare) < 7 then 1 else 0),
              eccResult := ecc, blockBad := 0,
              chunkUsed := (if yaffs_SpareInitialise \<noteq> spare then 1 else 0)\<rparr>
        in if chunkUsed eTags \<noteq> 0 then
             (let (tags, dev) = yaffs_GetTagsFromSpare dev spare
              in Some (YAFFS_OK, data, eTags\<lparr>objectId := tags_objectId tags, chunkId := tags_chunkId tags,
                   byteCount := tags_byteCount tags, serialNumber := tags_serialNumber tags\<rparr>, dev))
           else Some (YAFFS_OK, data, eTags, dev))
     else Some (YAFFS_FAIL, data, eTags, dev)
   }"

definition yaffs_TagsCompatabilityMarkNANDBlockBad :: "'f yaffs_Device \<Rightarrow> int \<Rightarrow> (int \<times> 'f yaffs_Device) option" where
  "yaffs_TagsCompatabilityMarkNANDBlockBad dev blockInNAND = do {
     let spare = yaffs_SpareInitialise\<lparr>blockStatus := 0x59\<rparr>;
     (r, dev) \<leftarrow> yaffs_WriteChunkToNAND dev (blockInNAND * nChunksPerBlock dev) None spare;
     (r, dev) \<leftarrow> yaffs_WriteChunkToNAND dev (blockInNAND * nChunksPerBlock dev + 1) None spare;
     Some (YAFFS_OK, dev)
   }"

definition yaffs_TagsCompatabilityQueryNANDBlock ::
    "'f yaffs_Device \<Rightarrow> int \<Rightarrow>
     (int \<times> yaffs_BlockState \<times> u32 \<times> 'f yaffs_Device) option" where
  "yaffs_TagsCompatabilityQueryNANDBlock dev blockNo = do {
     (r, d, spare0, e, dev) \<leftarrow> yaffs_ReadChunkFromNAND dev (blockNo * nChunksPerBlock dev) None (stackSpare dev)
       (stackEccResult dev) True;
     (r, d, spare1, e, dev) \<leftarrow> yaffs_ReadChunkFromNAND dev (blockNo * nChunksPerBlock dev + 1) None (stackSpare1 dev)
       (stackEccResult dev) True;
     Some (YAFFS_OK,
       (if yaffs_CountBits_table (blockStatus spare0 AND blockStatus spare1) < 7 then YAFFS_BLOCK_STATE_DEAD
        else if yaffs_SpareInitialise = spare0 then YAFFS_BLOCK_STATE_EMPTY
        else YAFFS_BLOCK_STATE_NEEDS_SCANNING), 0, dev)
   }"

section \<open>The ECC is linear\<close>

lemma put_field_bit:
  "bit (put_field p w v t) n \<longleftrightarrow>
     (if p \<le> n \<and> n < p + w \<and> n < 64 then n - p < 32 \<and> bit v (n - p) else bit t n)"
  by (auto simp: put_field_def bit_simps dest: bit_imp_le_length)

text \<open>The exclusive or of the numbers, counted from one, of the bits below n that are set.\<close>

primrec tag_sum :: "yaffs_Tags \<Rightarrow> nat \<Rightarrow> u32" where
  "tag_sum t 0 = 0"
| "tag_sum t (Suc n) = tag_sum t n XOR (if bit t n then word_of_nat (Suc n) else 0)"

lemma tags_ecc_inner:
  "i < 8 \<Longrightarrow> m \<le> 8 \<Longrightarrow>
     fold (tags_ecc_step (tags_byte t i)) [0..<m] (word_of_nat (8 * i), tag_sum t (8 * i)) =
       (word_of_nat (8 * i + m), tag_sum t (8 * i + m))"
proof (induction m)
  case (Suc m)
  have "tags_byte t i AND push_bit m 1 \<noteq> 0 \<longleftrightarrow> bit t (8 * i + m)"
    using Suc.prems and_exp_test [where 'a = 8, of m "tags_byte t i"] by (simp add: tags_byte_def bit_simps)
  with Suc show ?case
    by (simp add: tags_ecc_step_def add.commute del: push_bit_of_1)
qed simp

lemma tags_ecc_outer:
  "k \<le> 8 \<Longrightarrow> fold (\<lambda>i. fold (tags_ecc_step (tags_byte t i)) [0..<8]) [0..<k] (0, 0) =
     (word_of_nat (8 * k), tag_sum t (8 * k))"
proof (induction k)
  case (Suc k)
  then show ?case
    using tags_ecc_inner [of k 8 t] by (simp add: add.commute del: upt_rec_numeral tag_sum.simps)
qed simp

definition clear_ecc :: "yaffs_Tags \<Rightarrow> yaffs_Tags" where
  "clear_ecc t = put_field 50 12 0 t"

lemma CalcTagsECC_eq: "yaffs_CalcTagsECC t = put_field 50 12 (tag_sum (clear_ecc t) 64) (clear_ecc t)"
  using tags_ecc_outer [of 8 "clear_ecc t"]
  by (simp add: yaffs_CalcTagsECC_def clear_ecc_def Let_def del: upt_rec_numeral)

lemma tag_sum_xor [linear_simps]: "tag_sum (a XOR b) n = tag_sum a n XOR tag_sum b n"
  by (induction n) (auto simp: bit_xor_iff ac_simps)

lemma tag_sum_0 [simp]: "tag_sum 0 n = 0"
  by (induction n) simp_all

lemma tag_sum_exp: "k < 64 \<Longrightarrow> tag_sum (push_bit k 1) n = (if k < n then word_of_nat (Suc k) else 0)"
  by (induction n) (auto simp: bit_push_bit_iff bit_1_iff less_Suc_eq simp del: push_bit_of_1)

lemma tag_sum_bits: "n \<le> 64 \<Longrightarrow> take_bit 7 (tag_sum t n) = tag_sum t n"
proof (induction n)
  case (Suc n)
  have "take_bit 7 (word_of_nat (Suc n) :: u32) = word_of_nat (Suc n)"
  proof (rule word_unat_eq_iff [THEN iffD2])
    have "(Suc n :: nat) < 2 ^ 7" using Suc.prems by simp
    then show "unat (take_bit 7 (word_of_nat (Suc n) :: u32)) = unat (word_of_nat (Suc n) :: u32)"
      using Suc.prems by (simp add: unsigned_take_bit_eq unat_of_nat take_bit_nat_eq_self del: of_nat_Suc)
  qed
  with Suc show ?case by (simp add: take_bit_xor del: of_nat_Suc)
qed simp

lemma tags_ecc_put: "tags_ecc (put_field 50 12 v t) = take_bit 12 v"
  by (rule bit_word_eqI) (auto simp: tags_ecc_def bit_simps put_field_bit)

lemma clear_ecc_put [simp]: "clear_ecc (put_field 50 12 v t) = clear_ecc t"
  by (rule bit_word_eqI) (auto simp: clear_ecc_def put_field_bit)

lemma clear_ecc_idem [simp]: "clear_ecc (clear_ecc t) = clear_ecc t"
  by (simp add: clear_ecc_def clear_ecc_put [unfolded clear_ecc_def])

lemma clear_ecc_xor [linear_simps]: "clear_ecc (a XOR b) = clear_ecc a XOR clear_ecc b"
  by (rule bit_word_eqI) (auto simp: clear_ecc_def put_field_bit bit_xor_iff)

lemma clear_ecc_exp: "clear_ecc (push_bit k 1) = (if 50 \<le> k \<and> k < 62 then 0 else push_bit k 1)"
  by (rule bit_word_eqI) (auto simp: clear_ecc_def put_field_bit bit_simps)

lemma clear_ecc_Calc [simp]: "clear_ecc (yaffs_CalcTagsECC t) = clear_ecc t"
  by (simp add: CalcTagsECC_eq)

lemma CalcTagsECC_clear [simp]: "yaffs_CalcTagsECC (clear_ecc t) = yaffs_CalcTagsECC t"
  by (simp add: CalcTagsECC_eq)

lemma CalcTagsECC_idem [simp]: "yaffs_CalcTagsECC (yaffs_CalcTagsECC t) = yaffs_CalcTagsECC t"
  by (metis CalcTagsECC_clear clear_ecc_Calc)

lemma tags_ecc_Calc: "tags_ecc (yaffs_CalcTagsECC t) = tag_sum (clear_ecc t) 64"
proof -
  have "take_bit 12 (take_bit 7 (tag_sum (clear_ecc t) 64)) = take_bit 7 (tag_sum (clear_ecc t) 64)"
    by (simp del: tag_sum.simps)
  then have "take_bit 12 (tag_sum (clear_ecc t) 64) = tag_sum (clear_ecc t) 64"
    by (simp only: tag_sum_bits [of 64 "clear_ecc t", OF order_refl])
  then show ?thesis by (simp only: CalcTagsECC_eq tags_ecc_put)
qed

lemma CheckECC_eq:
  "yaffs_CheckECCOnTags t =
     (let d = tags_ecc t XOR tag_sum (clear_ecc t) 64
      in if d \<noteq> 0 \<and> d \<le> 64 then (1, yaffs_CalcTagsECC (t XOR push_bit (unat (d - 1)) 1))
         else if d \<noteq> 0 then (-1, yaffs_CalcTagsECC t) else (0, yaffs_CalcTagsECC t))"
proof -
  have "yaffs_CalcTagsECC (yaffs_CalcTagsECC t XOR x) = yaffs_CalcTagsECC (t XOR x)" for x
    by (metis CalcTagsECC_clear clear_ecc_Calc clear_ecc_xor)
  then show ?thesis
    by (simp only: yaffs_CheckECCOnTags_def Let_def tags_ecc_Calc mult_div_mod_eq)
qed

lemma CheckECC_clean: "yaffs_CheckECCOnTags (yaffs_CalcTagsECC t) = (0, yaffs_CalcTagsECC t)"
  by (simp add: CheckECC_eq tags_ecc_Calc del: tag_sum.simps)

lemma tags_ecc_xor [linear_simps]: "tags_ecc (a XOR b) = tags_ecc a XOR tags_ecc b"
  by (rule bit_word_eqI) (auto simp: tags_ecc_def bit_simps)

lemma tags_ecc_exp: "k < 64 \<Longrightarrow> tags_ecc (push_bit k 1) = (if 50 \<le> k \<and> k < 62 then push_bit (k - 50) 1 else 0)"
  by (rule bit_word_eqI) (auto simp: tags_ecc_def bit_simps)

text \<open>The difference between the stored and the calculated ECC after the flip of bit k.\<close>

lemma flipped_delta:
  "k < 64 \<Longrightarrow>
     tags_ecc (yaffs_CalcTagsECC t XOR push_bit k 1) XOR tag_sum (clear_ecc (yaffs_CalcTagsECC t XOR push_bit k 1)) 64 =
       (if 50 \<le> k \<and> k < 62 then push_bit (k - 50) 1 else word_of_nat (Suc k))"
  by (auto simp: linear_simps tags_ecc_exp clear_ecc_exp tags_ecc_Calc tag_sum_exp ac_simps
      simp del: tag_sum.simps push_bit_of_1 of_nat_Suc)

lemma small_word_le: "n \<le> 64 \<Longrightarrow> word_of_nat n \<le> (64 :: u32)"
  by (simp add: word_le_nat_alt unat_of_nat)

lemma CheckECC_one_bit:
  assumes "k < 64" and "\<not> (50 \<le> k \<and> k < 62)"
  shows "yaffs_CheckECCOnTags (yaffs_CalcTagsECC t XOR push_bit k 1) = (1, yaffs_CalcTagsECC t)"
proof -
  have "word_of_nat (Suc k) \<noteq> (0 :: u32)"
    using assms(1) by (simp add: word_unat_eq_iff unat_of_nat del: of_nat_Suc)
  moreover have "unat (word_of_nat (Suc k) - 1 :: u32) = k" using assms(1) by (simp add: unat_of_nat)
  moreover have "word_of_nat (Suc k) \<le> (64 :: u32)" using assms(1) by (intro small_word_le) simp
  ultimately show ?thesis
    using assms flipped_delta [OF assms(1), of t] unfolding CheckECC_eq Let_def if_not_P [OF assms(2)]
    by (simp add: xor.assoc del: push_bit_of_1 of_nat_Suc)
qed

lemma CheckECC_ecc_bit:
  assumes "k < 7"
  shows "yaffs_CheckECCOnTags (yaffs_CalcTagsECC t XOR push_bit (50 + k) 1) =
    (1, yaffs_CalcTagsECC (t XOR push_bit (2 ^ k - 1) 1))"
proof -
  define d where "d = (push_bit k 1 :: u32)"
  have "k = 0 \<or> k = 1 \<or> k = 2 \<or> k = 3 \<or> k = 4 \<or> k = 5 \<or> k = 6" using assms by auto
  then have d: "d \<noteq> 0" "d \<le> 64" "unat (d - 1) = 2 ^ k - 1" unfolding d_def by (elim disjE; simp)+
  have "clear_ecc (yaffs_CalcTagsECC t XOR (push_bit (50 + k) 1 XOR y)) = clear_ecc (t XOR y)" for y
    using assms by (simp add: linear_simps clear_ecc_exp del: push_bit_of_1)
  then have "yaffs_CalcTagsECC (yaffs_CalcTagsECC t XOR (push_bit (50 + k) 1 XOR y)) = yaffs_CalcTagsECC (t XOR y)" for y
    by (metis CalcTagsECC_clear)
  then show ?thesis
    using assms d flipped_delta [of "50 + k" t] unfolding CheckECC_eq Let_def
    by (simp add: d_def [symmetric] xor.assoc del: push_bit_of_1)
qed

section \<open>Tags through the spare area\<close>

lemma of_bytes_tags:
  "tags_of_bytes [tags_byte t 0, tags_byte t 1, tags_byte t 2, tags_byte t 3,
     tags_byte t 4, tags_byte t 5, tags_byte t 6, tags_byte t 7] = t"
proof (rule bit_word_eqI)
  fix n assume "n < LENGTH(64)"
  then have "n < 8 * 8" by simp
  then obtain i j where n: "n = 8 * i + j" "i < 8" "j < 8"
    by (metis less_mult_imp_div_less mod_less_divisor mult.commute mult_div_mod_eq zero_less_numeral)
  have "i = 0 \<or> i = 1 \<or> i = 2 \<or> i = 3 \<or> i = 4 \<or> i = 5 \<or> i = 6 \<or> i = 7" using n(2) by auto
  then show "bit (tags_of_bytes [tags_byte t 0, tags_byte t 1, tags_byte t 2, tags_byte t 3,
     tags_byte t 4, tags_byte t 5, tags_byte t 6, tags_byte t 7]) n = bit t n"
    using n(3) unfolding n(1)
    by (elim disjE; simp add: tags_of_bytes_def tags_byte_def bit_simps)
qed

lemma take_bit_small: "x < 2 ^ n \<Longrightarrow> take_bit n x = x" for x :: u32
  by (rule bit_word_eqI) (auto simp: bit_simps dest: small_bits)

lemma field_Calc:
  "tags_chunkId (yaffs_CalcTagsECC t) = tags_chunkId t"
  "tags_serialNumber (yaffs_CalcTagsECC t) = tags_serialNumber t"
  "tags_byteCount (yaffs_CalcTagsECC t) = tags_byteCount t"
  "tags_objectId (yaffs_CalcTagsECC t) = tags_objectId t"
  by (rule bit_word_eqI; auto simp: CalcTagsECC_eq clear_ecc_def tags_chunkId_def tags_serialNumber_def
      tags_byteCount_def tags_objectId_def bit_simps put_field_bit simp del: tag_sum.simps)+

text \<open>The tags that the writer composes from the extended tags.\<close>

definition compat_tags :: "yaffs_ExtendedTags \<Rightarrow> yaffs_Tags \<Rightarrow> yaffs_Tags" where
  "compat_tags e t = put_field 20 2 (serialNumber e) (put_field 22 10 (byteCount e)
     (put_field 0 20 (chunkId e) (put_field 32 18 (objectId e) t)))"

lemma field_compat_tags:
  "tags_chunkId (compat_tags e t) = take_bit 20 (chunkId e)"
  "tags_serialNumber (compat_tags e t) = take_bit 2 (serialNumber e)"
  "tags_byteCount (compat_tags e t) = take_bit 10 (byteCount e)"
  "tags_objectId (compat_tags e t) = take_bit 18 (objectId e)"
  by (rule bit_word_eqI; auto simp: compat_tags_def tags_chunkId_def tags_serialNumber_def
      tags_byteCount_def tags_objectId_def bit_simps put_field_bit)+

lemma loaded_used: "yaffs_LoadTagsIntoSpare spare tags \<noteq> yaffs_SpareInitialise"
proof
  assume a: "yaffs_LoadTagsIntoSpare spare tags = yaffs_SpareInitialise"
  then have "tagByte7 (yaffs_LoadTagsIntoSpare spare tags) = 0xFF" by (simp add: yaffs_SpareInitialise_def)
  then have "bit (tags_byte (yaffs_CalcTagsECC tags) 7) 5"
    by (simp add: yaffs_LoadTagsIntoSpare_def Let_def)
  then have "bit (tags_ecc (yaffs_CalcTagsECC tags)) 11"
    by (simp add: tags_byte_def tags_ecc_def bit_simps)
  then have "bit (take_bit 7 (tag_sum (clear_ecc tags) 64)) 11"
    by (simp only: tags_ecc_Calc tag_sum_bits order_refl)
  then show False by (simp add: bit_simps del: tag_sum.simps)
qed

lemma GetTags_loaded:
  "yaffs_GetTagsFromSpare dev (yaffs_LoadTagsIntoSpare spare tags) = (yaffs_CalcTagsECC tags, dev)"
  using of_bytes_tags [of "yaffs_CalcTagsECC tags"] CheckECC_clean [of tags]
  by (simp add: yaffs_GetTagsFromSpare_def yaffs_LoadTagsIntoSpare_def Let_def)

section \<open>Writing and reading a chunk\<close>

text \<open>
  What the layer relies on from a page driver: a successful write is held by the flash, and a
  read of a held page returns its spare area and its data with at most one flipped bit in
  each half. A driver that corrects errors itself delivers the data exactly.
\<close>

definition delivers_exactly ::
    "('f \<Rightarrow> int \<Rightarrow> u8 list option \<Rightarrow> yaffs_NANDSpare \<Rightarrow> int \<times> u8 list option \<times> yaffs_NANDSpare \<times> 'f) \<Rightarrow>
     ('f \<Rightarrow> int \<Rightarrow> u8 list \<Rightarrow> yaffs_Spare \<Rightarrow> bool) \<Rightarrow> bool" where
  "delivers_exactly rd holds \<longleftrightarrow>
     (\<forall>f n data spare buf ns. 0 \<le> n \<longrightarrow> holds f n data spare \<longrightarrow> length data = 512 \<longrightarrow> length buf = 512 \<longrightarrow>
        (\<exists>ns' f'. rd f n (Some buf) ns = (1, Some data, ns', f') \<and> nspare_spare ns' = spare))"

locale page_driver =
  fixes wr :: "'f \<Rightarrow> int \<Rightarrow> u8 list option \<Rightarrow> yaffs_Spare \<Rightarrow> int \<times> 'f"
    and rd :: "'f \<Rightarrow> int \<Rightarrow> u8 list option \<Rightarrow> yaffs_NANDSpare \<Rightarrow> int \<times> u8 list option \<times> yaffs_NANDSpare \<times> 'f"
    and holds :: "'f \<Rightarrow> int \<Rightarrow> u8 list \<Rightarrow> yaffs_Spare \<Rightarrow> bool"
  assumes write_holds: "0 \<le> n \<Longrightarrow> wr f n (Some data) spare = (r, f') \<Longrightarrow> r \<noteq> 0 \<Longrightarrow> length data = 512 \<Longrightarrow>
      holds f' n data spare"
    and read_holds: "0 \<le> n \<Longrightarrow> holds f n data spare \<Longrightarrow> length data = 512 \<Longrightarrow> length buf = 512 \<Longrightarrow>
      \<exists>raw ns' f'. rd f n (Some buf) ns = (1, Some raw, ns', f') \<and>
        one_bit_apart (take 256 raw) (take 256 data) \<and> one_bit_apart (drop 256 raw) (drop 256 data) \<and>
        nspare_spare ns' = spare"
begin

lemma read_repairs:
  assumes "0 \<le> n" and "holds (genericDevice dev) n data spare" and "length data = 512"
    and "readChunkFromNAND dev = Some rd" and "\<not> useNANDECC dev"
    and "ecc1 spare = yaffs_ECCCalculate data" and "ecc2 spare = yaffs_ECCCalculate (drop 256 data)"
    and "yaffs_GetBlockInfo dev (n div nChunksPerBlock dev) = Some bi" and "length buf = 512"
  shows "\<exists>res dev'. yaffs_ReadChunkFromNAND dev n (Some buf) sp0 e0 True = Some (1, Some data, spare, res, dev') \<and>
    res \<in> {YAFFS_ECC_RESULT_NO_ERROR, YAFFS_ECC_RESULT_FIXED}"
proof -
  obtain raw ns' f' where r: "rd (genericDevice dev) n (Some buf) sp0 = (1, Some raw, ns', f')"
    and a: "one_bit_apart (take 256 raw) (take 256 data)" "one_bit_apart (drop 256 raw) (drop 256 data)"
      "nspare_spare ns' = spare"
    using read_holds [OF assms(1-3,9)] by blast
  have e: "yaffs_ECCCalculate (take 256 d) = yaffs_ECCCalculate d" for d by (simp add: yaffs_ECCCalculate_def)
  obtain r1 where c1: "yaffs_ECCCorrect (take 256 raw) (ecc1 spare) (yaffs_ECCCalculate raw) = (r1, take 256 data, ecc1 spare)"
      "r1 \<in> {0, 1}"
    using yaffs_ecc.correct_one_bit_apart [OF _ a(1)] assms(3,6) e by (auto simp: prod_eq_iff intro: that)
  obtain r2 where c2: "yaffs_ECCCorrect (drop 256 raw) (ecc2 spare) (yaffs_ECCCalculate (drop 256 raw)) =
      (r2, drop 256 data, ecc2 spare)"
      "r2 \<in> {0, 1}"
    using yaffs_ecc.correct_one_bit_apart [OF _ a(2)] assms(3,7) by (auto simp: prod_eq_iff intro: that)
  define dev1 where "dev1 = count_ecc r2 (count_ecc r1 (dev\<lparr>nPageReads := nPageReads dev + 1, genericDevice := f'\<rparr>))"
  have "yaffs_GetBlockInfo dev1 b = yaffs_GetBlockInfo dev b" "nChunksPerBlock dev1 = nChunksPerBlock dev" for b
    by (simp_all add: dev1_def count_ecc_def yaffs_GetBlockInfo_def)
  then obtain dev2 where "(if r1 \<noteq> 0 \<or> r2 \<noteq> 0 then yaffs_HandleReadDataError dev1 n else Some dev1) = Some dev2"
    using assms(8) by (cases "r1 \<noteq> 0 \<or> r2 \<noteq> 0") (simp_all add: yaffs_HandleReadDataError_def)
  then show ?thesis
    using r a(3) c1 c2 assms(4,5) unfolding dev1_def
    by (auto simp: yaffs_ReadChunkFromNAND_def Let_def ecc_verdict_def)
qed

text \<open>With the error correction done by the driver, its data is taken as it is and its verdict is passed on.\<close>

lemma read_trusts:
  assumes "0 \<le> n" and "holds (genericDevice dev) n data spare" and "length data = 512"
    and "readChunkFromNAND dev = Some rd" and "useNANDECC dev" and "delivers_exactly rd holds"
    and "yaffs_GetBlockInfo dev (n div nChunksPerBlock dev) = Some bi" and "length buf = 512"
  shows "\<exists>res dev'. yaffs_ReadChunkFromNAND dev n (Some buf) sp0 e0 True = Some (1, Some data, spare, res, dev')"
proof -
  obtain ns' f' where r: "rd (genericDevice dev) n (Some buf) sp0 = (1, Some data, ns', f')" "nspare_spare ns' = spare"
    using assms(1-3,6,8) unfolding delivers_exactly_def by blast
  define dev1 where "dev1 = dev\<lparr>nPageReads := nPageReads dev + 1, genericDevice := f'\<rparr>"
  have "yaffs_GetBlockInfo dev1 b = yaffs_GetBlockInfo dev b" "nChunksPerBlock dev1 = nChunksPerBlock dev" for b
    by (simp_all add: dev1_def yaffs_GetBlockInfo_def)
  then obtain dev2 where "(if eccres1 ns' \<noteq> 0 \<or> eccres2 ns' \<noteq> 0 then yaffs_HandleReadDataError dev1 n else Some dev1) = Some dev2"
    using assms(7) by (cases "eccres1 ns' \<noteq> 0 \<or> eccres2 ns' \<noteq> 0") (simp_all add: yaffs_HandleReadDataError_def)
  then show ?thesis using r assms(4,5) unfolding dev1_def by (auto simp: yaffs_ReadChunkFromNAND_def Let_def)
qed

lemma write_read:
  assumes "writeChunkToNAND dev = Some wr" and "readChunkFromNAND dev = Some rd"
    and "0 \<le> n" and "length data = 512" and exact: "useNANDECC dev \<Longrightarrow> delivers_exactly rd holds" and "chunkDeleted e = 0"
    and "chunkId e < 2 ^ 20" "serialNumber e < 2 ^ 2" "byteCount e < 2 ^ 10" "objectId e < 2 ^ 18"
    and "yaffs_GetBlockInfo dev (n div nChunksPerBlock dev) = Some bi"
    and w: "yaffs_TagsCompatabilityWriteChunkWithTagsToNAND dev n (Some data) e = Some (r, dev')" "r \<noteq> 0" and buf: "length buf = 512"
  shows "\<exists>res dev''. yaffs_TagsCompatabilityReadChunkWithTagsFromNAND dev' n (Some buf) u =
      Some (YAFFS_OK, Some data, u\<lparr>chunkDeleted := 0, eccResult := res, blockBad := 0, chunkUsed := 1,
        objectId := objectId e, chunkId := chunkId e, byteCount := byteCount e, serialNumber := serialNumber e\<rparr>, dev'') \<and>
      (\<not> useNANDECC dev \<longrightarrow> res \<in> {YAFFS_ECC_RESULT_NO_ERROR, YAFFS_ECC_RESULT_FIXED})"
proof -
  define spare where "spare = yaffs_LoadTagsIntoSpare (if useNANDECC dev then yaffs_SpareInitialise else yaffs_CalcECC data yaffs_SpareInitialise)
    (compat_tags e (stackTags dev))"
  have W: "yaffs_WriteChunkToNAND dev n (Some data) spare = Some (r, dev')"
    using w(1) assms(6)
    by (simp add: yaffs_TagsCompatabilityWriteChunkWithTagsToNAND_def Let_def spare_def compat_tags_def split: if_splits)
  then obtain f' where f': "wr (genericDevice dev) n (Some data) spare = (r, f')"
    and dev': "dev' = dev\<lparr>nPageWrites := nPageWrites dev + 1, genericDevice := f'\<rparr>"
    using w(2) assms(1)
    by (auto simp: yaffs_WriteChunkToNAND_def YAFFS_FAIL_def split: if_splits prod.splits bind_splits)
  have h: "holds (genericDevice dev') n data spare"
    using write_holds [OF assms(3) f' w(2) assms(4)] by (simp add: dev')
  have sp: "\<not> useNANDECC dev \<Longrightarrow> ecc1 spare = yaffs_ECCCalculate data" "\<not> useNANDECC dev \<Longrightarrow> ecc2 spare = yaffs_ECCCalculate (drop 256 data)"
    "pageStatus spare = 0xFF"
    by (simp_all add: spare_def yaffs_LoadTagsIntoSpare_def yaffs_CalcECC_def yaffs_SpareInitialise_def Let_def)
  have d: "yaffs_GetBlockInfo dev' (n div nChunksPerBlock dev') = Some bi" "readChunkFromNAND dev' = Some rd" "useNANDECC dev' = useNANDECC dev"
    using assms(2,11) GetBlockInfo_frame [of dev' dev] by (simp_all add: dev')
  have "\<exists>res dev''. yaffs_ReadChunkFromNAND dev' n (Some buf) (stackSpare dev') (stackEccResult dev') True = Some (1, Some data, spare, res, dev'') \<and>
      (\<not> useNANDECC dev \<longrightarrow> res \<in> {YAFFS_ECC_RESULT_NO_ERROR, YAFFS_ECC_RESULT_FIXED})"
  proof (cases "useNANDECC dev")
    case True
    with read_trusts [OF assms(3) h assms(4) d(2) _ exact d(1) buf] d(3) show ?thesis by blast
  next
    case False
    with read_repairs [OF assms(3) h assms(4) d(2) _ sp(1,2) d(1) buf] d(3) show ?thesis by blast
  qed
  then obtain res dev'' where R: "yaffs_ReadChunkFromNAND dev' n (Some buf) (stackSpare dev') (stackEccResult dev') True =
      Some (1, Some data, spare, res, dev'')"
    "\<not> useNANDECC dev \<longrightarrow> res \<in> {YAFFS_ECC_RESULT_NO_ERROR, YAFFS_ECC_RESULT_FIXED}" by blast
  have used: "yaffs_SpareInitialise \<noteq> spare" using loaded_used spare_def by metis
  have "\<not> yaffs_CountBits_table (pageStatus spare) < 7"
    by (simp add: sp(3) yaffs_CountBits_table_def yaffs_countBitsTable_def)
  moreover have "take_bit 20 (chunkId e) = chunkId e" "take_bit 2 (serialNumber e) = serialNumber e"
    "take_bit 10 (byteCount e) = byteCount e" "take_bit 18 (objectId e) = objectId e"
    using assms(7-10) by (simp_all only: take_bit_small)
  ultimately show ?thesis
    using R used by (intro exI [of _ res] exI [of _ dev'']) (simp add: yaffs_TagsCompatabilityReadChunkWithTagsFromNAND_def Let_def spare_def GetTags_loaded
        field_Calc field_compat_tags)
qed

end

section \<open>Properties of the layer\<close>

text \<open>
  C19: The tags ECC of YAFFS1 repairs a flip of any bit of the eight tag bytes outside the ECC
  field itself, and leaves undamaged tags alone.
\<close>
theorem CheckECCOnTags_repairs:
  assumes "k < 64" and "k \<notin> {50..61}"
  shows "yaffs_CheckECCOnTags (yaffs_CalcTagsECC t XOR push_bit k 1) = (1, yaffs_CalcTagsECC t) \<and>
    yaffs_CheckECCOnTags (yaffs_CalcTagsECC t) = (0, yaffs_CalcTagsECC t)"
  using assms by (intro conjI CheckECC_one_bit CheckECC_clean) auto

theorem CheckECCOnTags_repairs_witness:
  "yaffs_CheckECCOnTags (yaffs_CalcTagsECC 0x00010100200007 XOR push_bit 35 1) = (1, yaffs_CalcTagsECC 0x00010100200007) \<and>
   yaffs_CheckECCOnTags (yaffs_CalcTagsECC 0x00010100200007) = (0, yaffs_CalcTagsECC 0x00010100200007)"
  by (rule CheckECCOnTags_repairs) simp_all

text \<open>
  C20: A flip of one of the five low bits of the stored ECC is not recognised as an error of the
  ECC: the code flips a sound bit of the chunk number instead, and reports a repair.
\<close>
theorem CheckECCOnTags_damages:
  assumes "k < 5"
  shows "\<exists>t'. yaffs_CheckECCOnTags (yaffs_CalcTagsECC t XOR push_bit (50 + k) 1) = (1, t') \<and>
    tags_chunkId t' = tags_chunkId t XOR push_bit (2 ^ k - 1) 1"
proof (intro exI conjI)
  show "yaffs_CheckECCOnTags (yaffs_CalcTagsECC t XOR push_bit (50 + k) 1) = (1, yaffs_CalcTagsECC (t XOR push_bit (2 ^ k - 1) 1))"
    using assms by (intro CheckECC_ecc_bit) simp
  have "(2 ^ k :: nat) \<le> 2 ^ 4" using assms by (intro power_increasing) auto
  then show "tags_chunkId (yaffs_CalcTagsECC (t XOR push_bit (2 ^ k - 1) 1)) = tags_chunkId t XOR push_bit (2 ^ k - 1) 1"
    unfolding field_Calc by (intro bit_word_eqI) (auto simp: tags_chunkId_def bit_simps)
qed

theorem CheckECCOnTags_damages_witness:
  "\<exists>t'. yaffs_CheckECCOnTags (yaffs_CalcTagsECC 7 XOR push_bit (50 + 3) 1) = (1, t') \<and>
    tags_chunkId t' = tags_chunkId 7 XOR push_bit (2 ^ 3 - 1) 1"
  by (rule CheckECCOnTags_damages) simp

end
