(* ===== verification/FileEmul.thy ===== *)
theory FileEmul
  imports TagsCompat
begin

text \<open>
  The NAND emulation in a file (direct/yaffs_fileem.c), a page driver for the YAFFS1 layer. The
  file is a list of bytes, opened by the first call. The host is a parameter: whether it opens the file,
  and how many bytes a write at an offset accepts (negative for an error). The bytes that are
  accepted replace bytes of the file and extend it, with zeros in a gap; a read gives the bytes that are there.
\<close>

record yflash_Device =
  contents :: "u8 list"
  nBlocks :: int
  handle :: int
  initialised :: bool
  host_open :: int
  host_write :: "nat \<Rightarrow> nat \<Rightarrow> int"

definition file_write :: "u8 list \<Rightarrow> nat \<Rightarrow> u8 list \<Rightarrow> u8 list" where
  "file_write c off bs = take off (c @ replicate (off - length c) 0) @ bs @ drop (off + length bs) c"

definition file_read :: "u8 list \<Rightarrow> nat \<Rightarrow> nat \<Rightarrow> u8 list" where
  "file_read c off n = take n (drop off c)"

text \<open>Writing and reading at an offset, with the number of bytes as the first result.\<close>

definition fd_write :: "yflash_Device \<Rightarrow> nat \<Rightarrow> u8 list \<Rightarrow> int \<times> yflash_Device" where
  "fd_write fd off bs =
     (if handle fd < 0 then (-1, fd)
      else (let written = min (host_write fd off (length bs)) (int (length bs))
            in (written, if written > 0 then fd\<lparr>contents := file_write (contents fd) off (take (nat written) bs)\<rparr> else fd)))"

definition fd_read :: "yflash_Device \<Rightarrow> nat \<Rightarrow> nat \<Rightarrow> int \<times> u8 list" where
  "fd_read fd off n = (if handle fd < 0 then (-1, []) else (let got = file_read (contents fd) off n in (int (length got), got)))"

text \<open>
  The sequential writes of pages of 0xff bytes: the file position moves on by what was written. Creating the file
  stops at the first incomplete page, erasing a block goes on.
\<close>

fun create_pages :: "nat \<Rightarrow> nat \<Rightarrow> yflash_Device \<Rightarrow> int \<times> yflash_Device" where
  "create_pages 0 pos fd = (1, fd)"
| "create_pages (Suc k) pos fd =
     (let (written, fd) = fd_write fd pos (replicate 528 0xff)
      in if written \<noteq> 528 then (YAFFS_FAIL, fd) else create_pages k (pos + 528) fd)"

fun erase_pages :: "nat \<Rightarrow> nat \<Rightarrow> yflash_Device \<Rightarrow> yflash_Device" where
  "erase_pages 0 pos fd = fd"
| "erase_pages (Suc k) pos fd =
     (let (written, fd) = fd_write fd pos (replicate 528 0xff) in erase_pages k (pos + nat written) fd)"

definition SIZE_IN_MB :: nat where
  "SIZE_IN_MB = 16"

definition CheckInit :: "yflash_Device \<Rightarrow> int \<times> yflash_Device" where
  "CheckInit filedisk =
     (if initialised filedisk then (YAFFS_OK, filedisk)
      else (let filedisk = filedisk\<lparr>initialised := True, nBlocks := int (SIZE_IN_MB * 1024 * 1024) div (16 * 1024),
                  handle := host_open filedisk\<rparr>
            in if handle filedisk < 0 then (YAFFS_FAIL, filedisk)
               else if length (contents filedisk) < SIZE_IN_MB * 1024 * 1024 then
                 create_pages (SIZE_IN_MB * 1024 * 1024 div 512) 0 filedisk
               else (1, filedisk)))"

text \<open>The sixteen bytes of a spare area in memory, and back.\<close>

definition spare_bytes :: "yaffs_Spare \<Rightarrow> u8 list" where
  "spare_bytes s = [tagByte0 s, tagByte1 s, tagByte2 s, tagByte3 s, pageStatus s, blockStatus s,
     tagByte4 s, tagByte5 s, fst (ecc1 s), fst (snd (ecc1 s)), snd (snd (ecc1 s)), tagByte6 s, tagByte7 s,
     fst (ecc2 s), fst (snd (ecc2 s)), snd (snd (ecc2 s))]"

definition spare_of_bytes :: "u8 list \<Rightarrow> yaffs_Spare" where
  "spare_of_bytes b = \<lparr>tagByte0 = b ! 0, tagByte1 = b ! 1, tagByte2 = b ! 2, tagByte3 = b ! 3,
     pageStatus = b ! 4, blockStatus = b ! 5, tagByte4 = b ! 6, tagByte5 = b ! 7,
     ecc1 = (b ! 8, b ! 9, b ! 10), tagByte6 = b ! 11, tagByte7 = b ! 12, ecc2 = (b ! 13, b ! 14, b ! 15)\<rparr>"

text \<open>
  The page driver. The result of the check is not looked at; a file that is not open fails in the writes and
  reads. The layer above always passes a spare area, and a page of 512 bytes or no data. Reading fills the spare
  area only: the driver's own ECC results behind it are left as they were.
\<close>

definition yflash_WriteChunkToNAND ::
    "yflash_Device \<Rightarrow> int \<Rightarrow> u8 list option \<Rightarrow> yaffs_Spare \<Rightarrow> int \<times> yflash_Device" where
  "yflash_WriteChunkToNAND filedisk chunkInNAND data spare =
     (let (ok, filedisk) = CheckInit filedisk;
          (failed, filedisk) = (case data of
            Some d \<Rightarrow> (let (written, fd) = fd_write filedisk (nat (chunkInNAND * 528)) (take 512 d) in (written \<noteq> 512, fd))
          | None \<Rightarrow> (False, filedisk))
      in if failed then (YAFFS_FAIL, filedisk)
         else (let (written, filedisk) = fd_write filedisk (nat (chunkInNAND * 528 + 512)) (spare_bytes spare)
               in (if written \<noteq> 16 then YAFFS_FAIL else YAFFS_OK, filedisk)))"

definition yflash_ReadChunkFromNAND ::
    "yflash_Device \<Rightarrow> int \<Rightarrow> u8 list option \<Rightarrow> yaffs_NANDSpare \<Rightarrow>
     int \<times> u8 list option \<times> yaffs_NANDSpare \<times> yflash_Device" where
  "yflash_ReadChunkFromNAND filedisk chunkInNAND data nspare =
     (let (ok, filedisk) = CheckInit filedisk;
          (nread, got) = fd_read filedisk (nat (chunkInNAND * 528)) 512;
          data' = map_option (\<lambda>d. got @ drop (length got) d) data
      in if data \<noteq> None \<and> nread \<noteq> 512 then (YAFFS_FAIL, data', nspare, filedisk)
         else (let (nread2, got2) = fd_read filedisk (nat (chunkInNAND * 528 + 512)) 16;
                   nspare' = nspare\<lparr>nspare_spare :=
                     spare_of_bytes (got2 @ drop (length got2) (spare_bytes (nspare_spare nspare)))\<rparr>
               in (if nread2 \<noteq> 16 then YAFFS_FAIL else YAFFS_OK, data', nspare', filedisk)))"

definition yflash_EraseBlockInNAND :: "yflash_Device \<Rightarrow> int \<Rightarrow> int \<times> yflash_Device" where
  "yflash_EraseBlockInNAND filedisk blockNumber =
     (let (ok, filedisk) = CheckInit filedisk
      in if blockNumber < 0 \<or> blockNumber \<ge> nBlocks filedisk then (YAFFS_FAIL, filedisk)
         else (YAFFS_OK, erase_pages 32 (nat (blockNumber * 32 * 528)) filedisk))"

text \<open>The emulation claims to correct errors itself, which saves the layer above its ECC.\<close>

definition yflash_InitialiseNAND :: "'f yaffs_Device \<Rightarrow> int \<times> 'f yaffs_Device" where
  "yflash_InitialiseNAND dev = (YAFFS_OK, dev\<lparr>useNANDECC := True\<rparr>)"

section \<open>The emulation is a page driver\<close>

lemma spare_roundtrip [simp]: "spare_of_bytes (spare_bytes s) = s"
  by (simp add: spare_bytes_def spare_of_bytes_def)

lemma length_spare_bytes [simp]: "length (spare_bytes s) = 16"
  by (simp add: spare_bytes_def)

lemma file_read_write: "file_read (file_write c off bs) off (length bs) = bs"
  by (simp add: file_read_def file_write_def)

lemma file_read_write_before:
  "off + n \<le> off2 \<Longrightarrow> off + n \<le> length c \<Longrightarrow> file_read (file_write c off2 bs) off n = file_read c off n"
  by (auto simp: file_read_def file_write_def drop_take)

lemma length_file_write: "length (file_write c off bs) = max (length c) (off + length bs)"
  by (simp add: file_write_def)

lemma fd_write_full:
  assumes "fd_write fd off bs = (w, fd')" and "w = int (length bs)" and "bs \<noteq> []"
  shows "0 \<le> handle fd" and "fd' = fd\<lparr>contents := file_write (contents fd) off bs\<rparr>"
  using assms by (auto simp: fd_write_def Let_def min_def split: if_splits)

lemma create_pages_state:
  "create_pages k pos fd = (r, fd') \<Longrightarrow> initialised fd' = initialised fd \<and> handle fd' = handle fd"
proof (induction k arbitrary: pos fd)
  case (Suc k)
  obtain w fd1 where 1: "fd_write fd pos (replicate 528 0xff) = (w, fd1)" by (cases "fd_write fd pos (replicate 528 0xff)")
  then have "initialised fd1 = initialised fd" "handle fd1 = handle fd" by (auto simp: fd_write_def Let_def split: if_splits)
  with Suc.prems Suc.IH [of "pos + 528" fd1] show ?case by (simp add: 1 split: if_splits)
qed simp

lemma CheckInit_done: "CheckInit fd = (r, fd') \<Longrightarrow> initialised fd'"
  by (auto simp: CheckInit_def Let_def split: if_splits dest!: create_pages_state)

definition yflash_holds :: "yflash_Device \<Rightarrow> int \<Rightarrow> u8 list \<Rightarrow> yaffs_Spare \<Rightarrow> bool" where
  "yflash_holds fd n data spare \<longleftrightarrow> initialised fd \<and> 0 \<le> handle fd \<and> file_read (contents fd) (nat (n * 528)) 512 = data \<and>
     file_read (contents fd) (nat (n * 528 + 512)) 16 = spare_bytes spare"

lemma yflash_write_holds:
  assumes "0 \<le> n" and "yflash_WriteChunkToNAND f n (Some data) spare = (r, f')" and "r \<noteq> 0" and "length data = 512"
  shows "yflash_holds f' n data spare"
proof -
  obtain ok f1 where 1: "CheckInit f = (ok, f1)" by (cases "CheckInit f")
  obtain w2 f2 where 2: "fd_write f1 (nat (n * 528)) data = (w2, f2)" by (cases "fd_write f1 (nat (n * 528)) data")
  obtain w3 f3 where 3: "fd_write f2 (nat (n * 528 + 512)) (spare_bytes spare) = (w3, f3)"
    by (cases "fd_write f2 (nat (n * 528 + 512)) (spare_bytes spare)")
  have w: "w2 = 512" "w3 = 16" "f' = f3"
    using assms(2-4) by (auto simp: yflash_WriteChunkToNAND_def 1 2 3 Let_def YAFFS_FAIL_def split: if_splits)
  have ne: "data \<noteq> []" "spare_bytes spare \<noteq> []" using assms(4) by (auto simp: spare_bytes_def)
  have f2: "0 \<le> handle f1" "f2 = f1\<lparr>contents := file_write (contents f1) (nat (n * 528)) data\<rparr>"
    using fd_write_full [OF 2 _ ne(1)] w(1) assms(4) by simp_all
  have f3: "f3 = f2\<lparr>contents := file_write (contents f2) (nat (n * 528 + 512)) (spare_bytes spare)\<rparr>"
    using fd_write_full(2) [OF 3 _ ne(2)] w(2) by simp
  show ?thesis
    using file_read_write [of "contents f1" "nat (n * 528)" data] file_read_write [of "contents f2" "nat (n * 528 + 512)" "spare_bytes spare"]
      assms(1,4) CheckInit_done [OF 1] f2(1)
    by (simp add: yflash_holds_def w(3) f3 f2(2) file_read_write_before length_file_write nat_add_distrib)
qed

lemma yflash_delivers: "delivers_exactly yflash_ReadChunkFromNAND yflash_holds"
  by (auto simp: delivers_exactly_def yflash_ReadChunkFromNAND_def CheckInit_def fd_read_def yflash_holds_def Let_def YAFFS_OK_def)

interpretation yflash: page_driver yflash_WriteChunkToNAND yflash_ReadChunkFromNAND yflash_holds
proof
  fix n :: int and f data spare r f'
  assume "0 \<le> n" "yflash_WriteChunkToNAND f n (Some data) spare = (r, f')" "r \<noteq> 0" "length data = 512"
  then show "yflash_holds f' n data spare" by (rule yflash_write_holds)
next
  fix n :: int and f data spare buf ns
  assume "0 \<le> n" "yflash_holds f n data spare" "length data = 512" "length (buf :: u8 list) = 512"
  then show "\<exists>raw ns' f'. yflash_ReadChunkFromNAND f n (Some buf) ns = (1, Some raw, ns', f') \<and>
        one_bit_apart (take 256 raw) (take 256 data) \<and> one_bit_apart (drop 256 raw) (drop 256 data) \<and>
        nspare_spare ns' = spare"
    using yflash_delivers unfolding delivers_exactly_def one_bit_apart_def by blast
qed

text \<open>
  C21: A chunk written through the YAFFS1 layer and read back through it gives the same data and
  tags. With the software ECC this holds even when the flash flips one bit in each half of the page: the ECC
  repairs the data, and the result says that no error is left. When the driver says that it corrects errors
  itself, as the file emulation does, it has to deliver the data exactly, and the layer then adds no error of its own.
\<close>
theorem TagsCompat_write_read:
  assumes "page_driver wr rd holds" and "writeChunkToNAND dev = Some wr" and "readChunkFromNAND dev = Some rd"
    and "0 \<le> n" and "length data = 512" and "useNANDECC dev \<Longrightarrow> delivers_exactly rd holds" and "chunkDeleted e = 0"
    and "chunkId e < 2 ^ 20" "serialNumber e < 2 ^ 2" "byteCount e < 2 ^ 10" "objectId e < 2 ^ 18"
    and "yaffs_GetBlockInfo dev (n div nChunksPerBlock dev) = Some bi"
    and "yaffs_TagsCompatabilityWriteChunkWithTagsToNAND dev n (Some data) e = Some (r, dev')" "r \<noteq> 0" and "length buf = 512"
  shows "\<exists>res dev''. yaffs_TagsCompatabilityReadChunkWithTagsFromNAND dev' n (Some buf) u =
      Some (YAFFS_OK, Some data, u\<lparr>chunkDeleted := 0, eccResult := res, blockBad := 0, chunkUsed := 1,
        objectId := objectId e, chunkId := chunkId e, byteCount := byteCount e, serialNumber := serialNumber e\<rparr>, dev'') \<and>
      (\<not> useNANDECC dev \<longrightarrow> res \<in> {YAFFS_ECC_RESULT_NO_ERROR, YAFFS_ECC_RESULT_FIXED})"
  by (rule page_driver.write_read [OF assms])

text \<open>A device over an open emulation file, with one block of 32 chunks, as the initialisation of the emulation leaves it.\<close>

definition yflash_test_device :: "yflash_Device yaffs_Device" where
  "yflash_test_device = snd (yflash_InitialiseNAND ((zero_device \<lparr>contents = [], nBlocks = 1024, handle = 3, initialised = True,
       host_open = 3, host_write = \<lambda>off n. int n\<rparr>)\<lparr>nChunksPerBlock := 32,
     writeChunkToNAND := Some yflash_WriteChunkToNAND, readChunkFromNAND := Some yflash_ReadChunkFromNAND,
     internalEndBlock := 0, blockInfo := [zero_blockInfo]\<rparr>))"

theorem TagsCompat_write_read_witness:
  "\<exists>r dev'. useNANDECC yflash_test_device \<and>
    yaffs_TagsCompatabilityWriteChunkWithTagsToNAND yflash_test_device 5 (Some (replicate 512 0xA5))
      (zero_tags\<lparr>objectId := 257, chunkId := 3, byteCount := 512\<rparr>) = Some (r, dev') \<and>
   (\<exists>res dev''. yaffs_TagsCompatabilityReadChunkWithTagsFromNAND dev' 5 (Some (replicate 512 0)) zero_tags =
      Some (YAFFS_OK, Some (replicate 512 0xA5), zero_tags\<lparr>chunkDeleted := 0, eccResult := res, blockBad := 0, chunkUsed := 1,
        objectId := 257, chunkId := 3, byteCount := 512, serialNumber := 0\<rparr>, dev''))"
proof -
  let ?e = "zero_tags\<lparr>objectId := 257, chunkId := 3, byteCount := 512\<rparr>"
  have u: "useNANDECC yflash_test_device" by (simp add: yflash_test_device_def yflash_InitialiseNAND_def)
  obtain dev' where w: "yaffs_TagsCompatabilityWriteChunkWithTagsToNAND yflash_test_device 5 (Some (replicate 512 0xA5)) ?e =
      Some (YAFFS_OK, dev')"
    by (simp add: yaffs_TagsCompatabilityWriteChunkWithTagsToNAND_def yaffs_WriteChunkToNAND_def yflash_test_device_def yflash_InitialiseNAND_def
        zero_device_def zero_tags_def Let_def yflash_WriteChunkToNAND_def CheckInit_def fd_write_def)
  have "\<exists>res dev''. yaffs_TagsCompatabilityReadChunkWithTagsFromNAND dev' 5 (Some (replicate 512 0)) zero_tags =
      Some (YAFFS_OK, Some (replicate 512 0xA5), zero_tags\<lparr>chunkDeleted := 0, eccResult := res, blockBad := 0, chunkUsed := 1,
        objectId := objectId ?e, chunkId := chunkId ?e, byteCount := byteCount ?e, serialNumber := serialNumber ?e\<rparr>, dev'') \<and>
      (\<not> useNANDECC yflash_test_device \<longrightarrow> res \<in> {YAFFS_ECC_RESULT_NO_ERROR, YAFFS_ECC_RESULT_FIXED})"
    by (rule TagsCompat_write_read [OF yflash.page_driver_axioms _ _ _ _ yflash_delivers _ _ _ _ _ _ w])
      (simp_all add: yflash_test_device_def yflash_InitialiseNAND_def zero_device_def zero_tags_def YAFFS_OK_def yaffs_GetBlockInfo_def)
  with w u show ?thesis by (simp add: zero_tags_def)
qed

text \<open>
  The ECC results that the layer then looks at are those of its automatic variable, since the emulation does not store any: with
  something else than zeros there, a sound page is taken for a damaged one and its block is marked for retirement.
\<close>

lemma yflash_ecc_results_kept:
  "yflash_ReadChunkFromNAND f n data ns = (r, d, ns', f') \<Longrightarrow> eccres1 ns' = eccres1 ns \<and> eccres2 ns' = eccres2 ns"
  by (auto simp: yflash_ReadChunkFromNAND_def Let_def split: prod.splits if_splits)

end
