(* ===== verification/LinkedLists.thy ===== *)
theory LinkedLists
  imports Prelude "HOL-Library.Monad_Syntax"
begin

text \<open>
  The doubly linked lists of devextras.h. A list is a ring of list heads threaded through the structures it
  links; the store maps the address of a list head to its two pointers. An address outside
  the store (a null pointer, or a pointer to something that is not a list head) gives None.
  A ring through a head represents the sequence of the other nodes on it.
\<close>

record 'p list_head =
  nxt :: 'p
  prv :: 'p

type_synonym 'p list_store = "'p \<rightharpoonup> 'p list_head"

section \<open>The operations\<close>

definition next_of :: "'p list_store \<Rightarrow> 'p \<Rightarrow> 'p option" where
  "next_of s p = map_option nxt (s p)"

definition prev_of :: "'p list_store \<Rightarrow> 'p \<Rightarrow> 'p option" where
  "prev_of s p = map_option prv (s p)"

definition set_next :: "'p \<Rightarrow> 'p \<Rightarrow> 'p list_store \<Rightarrow> 'p list_store option" where
  "set_next p q s = map_option (\<lambda>h. s(p \<mapsto> h\<lparr>nxt := q\<rparr>)) (s p)"

definition set_prev :: "'p \<Rightarrow> 'p \<Rightarrow> 'p list_store \<Rightarrow> 'p list_store option" where
  "set_prev p q s = map_option (\<lambda>h. s(p \<mapsto> h\<lparr>prv := q\<rparr>)) (s p)"

definition INIT_LIST_HEAD :: "'p \<Rightarrow> 'p list_store \<Rightarrow> 'p list_store option" where
  "INIT_LIST_HEAD p s = do { s \<leftarrow> set_next p p s; set_prev p p s }"

definition list_add_between :: "'p \<Rightarrow> 'p \<Rightarrow> 'p \<Rightarrow> 'p list_store \<Rightarrow> 'p list_store option" where
  "list_add_between new prev next s = do {
     s \<leftarrow> set_prev next new s;
     s \<leftarrow> set_next new next s;
     s \<leftarrow> set_prev new prev s;
     set_next prev new s
   }"

definition list_add :: "'p \<Rightarrow> 'p \<Rightarrow> 'p list_store \<Rightarrow> 'p list_store option" where
  "list_add new head s = do { next \<leftarrow> next_of s head; list_add_between new head next s }"

definition list_add_tail :: "'p \<Rightarrow> 'p \<Rightarrow> 'p list_store \<Rightarrow> 'p list_store option" where
  "list_add_tail new head s = do { prev \<leftarrow> prev_of s head; list_add_between new prev head s }"

definition list_del_between :: "'p \<Rightarrow> 'p \<Rightarrow> 'p list_store \<Rightarrow> 'p list_store option" where
  "list_del_between prev next s = do { s \<leftarrow> set_prev next prev s; set_next prev next s }"

definition list_del :: "'p \<Rightarrow> 'p list_store \<Rightarrow> 'p list_store option" where
  "list_del entry s = do {
     prev \<leftarrow> prev_of s entry;
     next \<leftarrow> next_of s entry;
     list_del_between prev next s
   }"

definition list_del_init :: "'p \<Rightarrow> 'p list_store \<Rightarrow> 'p list_store option" where
  "list_del_init entry s = do { s \<leftarrow> list_del entry s; INIT_LIST_HEAD entry s }"

definition list_empty :: "'p \<Rightarrow> 'p list_store \<Rightarrow> bool option" where
  "list_empty head s = do { next \<leftarrow> next_of s head; Some (next = head) }"

definition list_splice :: "'p \<Rightarrow> 'p \<Rightarrow> 'p list_store \<Rightarrow> 'p list_store option" where
  "list_splice list head s = do {
     first \<leftarrow> next_of s list;
     if first \<noteq> list then do {
       last \<leftarrow> prev_of s list;
       at \<leftarrow> next_of s head;
       s \<leftarrow> set_prev first head s;
       s \<leftarrow> set_next head first s;
       s \<leftarrow> set_next last at s;
       set_prev at last s
     } else Some s
   }"

text \<open>
  list_for_each from the node pos on, for a body that works on a state and goes on (None) or leaves the
  loop with a result. The pointer to the next node is read after the body has run. A ring that does
  not come back to the head is not left: the value is then None.
\<close>

partial_function (option) list_search ::
    "('st \<Rightarrow> 'p list_store) \<Rightarrow> 'p \<Rightarrow> ('p \<Rightarrow> 'st \<Rightarrow> ('r option \<times> 'st) option) \<Rightarrow> 'p \<Rightarrow> 'st \<Rightarrow> ('r option \<times> 'st) option" where
  "list_search lk head body pos st =
     (if pos = head then Some (None, st)
      else do {
        (r, st) \<leftarrow> body pos st;
        if r \<noteq> None then Some (r, st)
        else do { next \<leftarrow> next_of (lk st) pos; list_search lk head body next st }
      })"

definition list_for_each ::
    "('st \<Rightarrow> 'p list_store) \<Rightarrow> 'p \<Rightarrow> ('p \<Rightarrow> 'st \<Rightarrow> ('r option \<times> 'st) option) \<Rightarrow> 'st \<Rightarrow> ('r option \<times> 'st) option" where
  "list_for_each lk head body st = do { pos \<leftarrow> next_of (lk st) head; list_search lk head body pos st }"

section \<open>Rings\<close>

fun links :: "'p list_store \<Rightarrow> 'p \<Rightarrow> 'p list \<Rightarrow> bool" where
  "links s p [] = True"
| "links s p (q # qs) = (next_of s p = Some q \<and> prev_of s q = Some p \<and> links s q qs)"

definition ring :: "'p list_store \<Rightarrow> 'p \<Rightarrow> 'p list \<Rightarrow> bool" where
  "ring s h xs \<longleftrightarrow> links s h (xs @ [h]) \<and> distinct (h # xs)"

lemma next_of_upd [simp]:
  "next_of (s(p \<mapsto> h)) = (next_of s)(p := Some (nxt h))" "prev_of (s(p \<mapsto> h)) = (prev_of s)(p := Some (prv h))"
  by (simp_all add: next_of_def prev_of_def fun_eq_iff)

text \<open>Setting a pointer succeeds on a node and changes nothing but that pointer.\<close>

lemma set_next_spec:
  assumes "p \<in> dom s"
  obtains s' where "set_next p q s = Some s'" "dom s' = dom s" "next_of s' = (next_of s)(p := Some q)" "prev_of s' = prev_of s"
proof -
  obtain h where h: "s p = Some h" using assms by blast
  then have "(prev_of s)(p := Some (prv h)) = prev_of s" by (simp add: prev_of_def fun_upd_idem)
  with h show thesis using that [of "s(p \<mapsto> h\<lparr>nxt := q\<rparr>)"] by (simp add: set_next_def insert_absorb domI)
qed

lemma set_prev_spec:
  assumes "p \<in> dom s"
  obtains s' where "set_prev p q s = Some s'" "dom s' = dom s" "prev_of s' = (prev_of s)(p := Some q)" "next_of s' = next_of s"
proof -
  obtain h where h: "s p = Some h" using assms by blast
  then have "(next_of s)(p := Some (nxt h)) = next_of s" by (simp add: next_of_def fun_upd_idem)
  with h show thesis using that [of "s(p \<mapsto> h\<lparr>prv := q\<rparr>)"] by (simp add: set_prev_def insert_absorb domI)
qed

lemma next_of_dom: "next_of s p = Some q \<Longrightarrow> p \<in> dom s"
  by (auto simp: next_of_def)

lemma prev_of_dom: "prev_of s p = Some q \<Longrightarrow> p \<in> dom s"
  by (auto simp: prev_of_def)

lemma dom_prev_of: "p \<in> dom s \<Longrightarrow> \<exists>q. prev_of s p = Some q"
  by (auto simp: prev_of_def)

lemma links_frame:
  assumes "\<And>x. x \<in> set (p # butlast qs) \<Longrightarrow> next_of s' x = next_of s x" and "\<And>x. x \<in> set qs \<Longrightarrow> prev_of s' x = prev_of s x"
  shows "links s' p qs = links s p qs"
  using assms
proof (induction qs arbitrary: p)
  case (Cons q qs)
  show ?case
  proof (cases qs)
    case (Cons r rs)
    with Cons.IH [of q] Cons.prems show ?thesis by simp
  qed (use Cons.prems in simp)
qed simp

lemma links_append: "links s p (xs @ y # ys) \<longleftrightarrow> links s p (xs @ [y]) \<and> links s y ys"
  by (induction xs arbitrary: p) auto

lemma links_dom: "links s p qs \<Longrightarrow> qs \<noteq> [] \<Longrightarrow> insert p (set qs) \<subseteq> dom s"
proof (induction qs arbitrary: p)
  case (Cons q qs)
  then show ?case using next_of_dom [of s p q] prev_of_dom [of s q p] by (cases qs) auto
qed simp

lemma ring_dom: "ring s h xs \<Longrightarrow> insert h (set xs) \<subseteq> dom s"
  using links_dom [of s h "xs @ [h]"] by (auto simp: ring_def)

lemma ring_empty_iff: "ring s h xs \<Longrightarrow> list_empty h s = Some (xs = [])"
  by (cases xs) (auto simp: ring_def list_empty_def)

text \<open>A ring does not see changes of other nodes.\<close>

lemma ring_frame:
  assumes "ring s h xs" and "\<And>x. x \<in> insert h (set xs) \<Longrightarrow> next_of s' x = next_of s x \<and> prev_of s' x = prev_of s x"
  shows "ring s' h xs"
proof -
  have "links s' h (xs @ [h]) = links s h (xs @ [h])" using assms(2) by (intro links_frame) auto
  with assms(1) show ?thesis by (simp add: ring_def)
qed

section \<open>The operations on the sequence\<close>

definition changed :: "'p set \<Rightarrow> 'p list_store \<Rightarrow> 'p list_store \<Rightarrow> bool" where
  "changed A s s' \<longleftrightarrow> dom s' = dom s \<and> (\<forall>x. x \<notin> A \<longrightarrow> next_of s' x = next_of s x \<and> prev_of s' x = prev_of s x)"

lemma changed_ring:
  assumes "changed A s s'" and "ring s h xs" and "insert h (set xs) \<inter> A = {}"
  shows "ring s' h xs"
proof (rule ring_frame [OF assms(2)])
  fix x assume "x \<in> insert h (set xs)"
  then have "x \<notin> A" using assms(3) by blast
  then show "next_of s' x = next_of s x \<and> prev_of s' x = prev_of s x" using assms(1) by (simp add: changed_def)
qed

lemma INIT_LIST_HEAD_ring:
  assumes "p \<in> dom s"
  shows "\<exists>s'. INIT_LIST_HEAD p s = Some s' \<and> ring s' p [] \<and> changed {p} s s'"
proof -
  obtain s1 where 1: "set_next p p s = Some s1" "dom s1 = dom s" "next_of s1 = (next_of s)(p := Some p)" "prev_of s1 = prev_of s"
    using set_next_spec [OF assms] by blast
  obtain s2 where "set_prev p p s1 = Some s2" "dom s2 = dom s" "prev_of s2 = (prev_of s)(p := Some p)" "next_of s2 = (next_of s)(p := Some p)"
    using set_prev_spec [of p s1 p] assms 1 by metis
  with 1(1) show ?thesis by (simp add: INIT_LIST_HEAD_def ring_def changed_def)
qed

lemma list_add_between_links:
  assumes "n \<in> dom s" "new \<in> dom s" "p \<in> dom s"
  obtains s' where "list_add_between new p n s = Some s'" "dom s' = dom s"
    "next_of s' = (next_of s)(new := Some n, p := Some new)" "prev_of s' = (prev_of s)(n := Some new, new := Some p)"
proof -
  obtain s1 where 1: "set_prev n new s = Some s1" "dom s1 = dom s" "prev_of s1 = (prev_of s)(n := Some new)" "next_of s1 = next_of s"
    using set_prev_spec [OF assms(1)] by blast
  obtain s2 where 2: "set_next new n s1 = Some s2" "dom s2 = dom s1" "next_of s2 = (next_of s1)(new := Some n)" "prev_of s2 = prev_of s1"
    using set_next_spec [of new s1 n] assms(2) unfolding 1(2) by blast
  obtain s3 where 3: "set_prev new p s2 = Some s3" "dom s3 = dom s2" "prev_of s3 = (prev_of s2)(new := Some p)" "next_of s3 = next_of s2"
    using set_prev_spec [of new s2 p] assms(2) unfolding 2(2) 1(2) by blast
  obtain s4 where "set_next p new s3 = Some s4" "dom s4 = dom s3" "next_of s4 = (next_of s3)(p := Some new)" "prev_of s4 = prev_of s3"
    using set_next_spec [of p s3 new] assms(3) unfolding 3(2) 2(2) 1(2) by blast
  with 1 2 3 that show thesis by (simp add: list_add_between_def)
qed

text \<open>The first node of a ring (or its head), with the rest of the way back to the head.\<close>

lemma ring_first:
  assumes "ring s h xs"
  obtains n rest where "xs @ [h] = n # rest" "next_of s h = Some n" "links s n rest" "n \<in> dom s"
    "n \<in> insert h (set xs)" "\<And>x. x \<in> set rest \<Longrightarrow> x \<noteq> n \<and> x \<in> insert h (set xs)"
    "\<And>x. rest \<noteq> [] \<Longrightarrow> x \<in> set (n # butlast rest) \<Longrightarrow> x \<noteq> h \<and> x \<in> set xs"
proof (cases xs)
  case Nil
  then show thesis using that [of h "[]"] assms ring_dom [OF assms] by (simp add: ring_def)
next
  case (Cons a as)
  then have "links s h (a # as @ [h])" "h \<noteq> a" "h \<notin> set as" "a \<notin> set as" using assms by (auto simp: ring_def)
  then show thesis using that [of a "as @ [h]"] Cons ring_dom [OF assms] by auto
qed

lemma list_add_ring:
  assumes "ring s h xs" and "new \<in> dom s" and "new \<notin> insert h (set xs)"
  shows "\<exists>s'. list_add new h s = Some s' \<and> ring s' h (new # xs) \<and> changed (insert new (insert h (set xs))) s s'"
proof -
  obtain n rest where n: "xs @ [h] = n # rest" "next_of s h = Some n" "links s n rest" "n \<in> dom s" "n \<in> insert h (set xs)"
    and rest: "\<And>x. x \<in> set rest \<Longrightarrow> x \<noteq> n \<and> x \<in> insert h (set xs)"
      "\<And>x. rest \<noteq> [] \<Longrightarrow> x \<in> set (n # butlast rest) \<Longrightarrow> x \<noteq> h \<and> x \<in> set xs"
    using ring_first [OF assms(1)] by metis
  have "h \<in> dom s" using ring_dom [OF assms(1)] by simp
  then obtain s' where s': "list_add_between new h n s = Some s'" "dom s' = dom s"
    "next_of s' = (next_of s)(new := Some n, h := Some new)" "prev_of s' = (prev_of s)(n := Some new, new := Some h)"
    using list_add_between_links [OF n(4) assms(2)] by metis
  have neq: "new \<noteq> h" "new \<noteq> n" "new \<notin> set xs" using assms(3) n(5) by auto
  have "links s' n rest"
  proof (cases "rest = []")
    case False
    have "links s' n rest = links s n rest"
    proof (rule links_frame)
      show "next_of s' x = next_of s x" if "x \<in> set (n # butlast rest)" for x
        using rest(2) [OF False that] neq by (auto simp: s'(3))
      show "prev_of s' x = prev_of s x" if "x \<in> set rest" for x
        using rest(1) [OF that] neq by (auto simp: s'(4))
    qed
    then show ?thesis using n(3) by simp
  qed simp
  then have "links s' h (new # xs @ [h])" unfolding n(1) using neq by (simp add: s'(3,4))
  then have "ring s' h (new # xs)" using assms(1) neq by (simp add: ring_def)
  moreover have "changed (insert new (insert h (set xs))) s s'"
    using n(5) by (auto simp: changed_def s'(2-4))
  ultimately show ?thesis using s'(1) n(2) by (simp add: list_add_def)
qed

lemma links_last:
  "links s h (as @ [n]) \<longleftrightarrow> links s h as \<and> next_of s (last (h # as)) = Some n \<and> prev_of s n = Some (last (h # as))"
  by (induction as arbitrary: h) auto

lemma list_add_tail_ring:
  assumes "ring s h xs" and "new \<in> dom s" and "new \<notin> insert h (set xs)"
  shows "\<exists>s'. list_add_tail new h s = Some s' \<and> ring s' h (xs @ [new]) \<and> changed (insert new (insert h (set xs))) s s'"
proof -
  define p where "p = last (h # xs)"
  have l: "links s h xs" "next_of s p = Some h" "prev_of s h = Some p" "distinct (h # xs)"
    using assms(1) unfolding ring_def links_last p_def by simp_all
  have p_mem: "p \<in> insert h (set xs)" unfolding p_def by auto
  then have d: "p \<in> dom s" "h \<in> dom s" using ring_dom [OF assms(1)] by auto
  obtain s' where s': "list_add_between new p h s = Some s'" "dom s' = dom s"
    "next_of s' = (next_of s)(new := Some h, p := Some new)" "prev_of s' = (prev_of s)(h := Some new, new := Some p)"
    using list_add_between_links [OF d(2) assms(2) d(1)] by metis
  have neq: "new \<noteq> h" "new \<noteq> p" "new \<notin> set xs" using assms(3) p_mem by auto
  have "links s' h xs"
  proof (cases "xs = []")
    case False
    then have "xs = butlast xs @ [p]" by (simp add: p_def)
    then have "distinct (h # butlast xs @ [p])" using l(4) by metis
    then have "p \<notin> set (h # butlast xs)" by auto
    then have "links s' h xs = links s h xs"
      using l(4) neq by (intro links_frame) (auto simp: s'(3,4) dest: in_set_butlastD)
    then show ?thesis using l(1) by simp
  qed simp
  then have "links s' h ((xs @ [new]) @ [h])"
    unfolding links_last [of s' h "xs @ [new]"] links_last [of s' h xs] p_def [symmetric] using neq by (simp add: s'(3,4))
  then have "ring s' h (xs @ [new])" using l(4) neq by (simp add: ring_def)
  moreover have "changed (insert new (insert h (set xs))) s s'" using p_mem by (auto simp: changed_def s'(2-4))
  ultimately show ?thesis using s'(1) l(3) by (simp add: list_add_tail_def)
qed

lemma list_del_between_links:
  assumes "n \<in> dom s" "p \<in> dom s"
  obtains s' where "list_del_between p n s = Some s'" "dom s' = dom s"
    "next_of s' = (next_of s)(p := Some n)" "prev_of s' = (prev_of s)(n := Some p)"
proof -
  obtain s1 where 1: "set_prev n p s = Some s1" "dom s1 = dom s" "prev_of s1 = (prev_of s)(n := Some p)" "next_of s1 = next_of s"
    using set_prev_spec [OF assms(1)] by blast
  obtain s2 where "set_next p n s1 = Some s2" "dom s2 = dom s1" "next_of s2 = (next_of s1)(p := Some n)" "prev_of s2 = prev_of s1"
    using set_next_spec [of p s1 n] assms(2) unfolding 1(2) by blast
  with 1 that show thesis by (simp add: list_del_between_def)
qed

lemma list_del_ring:
  assumes "ring s h (as @ e # bs)"
  shows "\<exists>s'. list_del e s = Some s' \<and> ring s' h (as @ bs) \<and> changed (insert h (set (as @ bs))) s s'"
proof -
  define p where "p = last (h # as)"
  obtain n rest where n: "bs @ [h] = n # rest" by (cases bs) auto
  have all: "links s h (as @ e # n # rest)" using assms n by (simp add: ring_def)
  have l: "links s h as" "prev_of s e = Some p" "next_of s e = Some n" "links s n rest"
    using all unfolding links_append [of s h as e "n # rest"] links_last [of s h as e] p_def by simp_all
  have d: "insert h (set (as @ e # bs)) \<subseteq> dom s" by (rule ring_dom [OF assms])
  have dist: "distinct (h # as @ e # bs)" using assms by (simp add: ring_def)
  have n_mem: "n \<in> insert h (set bs)" using n by (cases bs) auto
  have p_mem: "p \<in> insert h (set as)" unfolding p_def by auto
  have nd: "n \<in> dom s" and pd: "p \<in> dom s" using subsetD [OF d, of n] subsetD [OF d, of p] n_mem p_mem by auto
  obtain s' where s': "list_del_between p n s = Some s'" "dom s' = dom s"
    "next_of s' = (next_of s)(p := Some n)" "prev_of s' = (prev_of s)(n := Some p)"
    using list_del_between_links [OF nd pd] by metis
  have "links s' n rest"
  proof (cases bs)
    case (Cons b bs')
    then have r: "rest = bs' @ [h]" "n = b" using n by auto
    have "links s' n rest = links s n rest"
      using dist Cons p_mem by (intro links_frame) (auto simp: r s'(3,4))
    then show ?thesis using l(4) by simp
  qed (use n in auto)
  moreover have "links s' h as"
  proof (cases "as = []")
    case False
    then have "as = butlast as @ [p]" by (simp add: p_def)
    then have "distinct (h # butlast as @ [p])" using dist by (metis append_Cons distinct_append)
    then have "p \<notin> set (h # butlast as)" by auto
    then have "links s' h as = links s h as"
      using dist n_mem by (intro links_frame) (auto simp: s'(3,4))
    then show ?thesis using l(1) by simp
  qed simp
  ultimately have "links s' h (as @ n # rest)"
    unfolding links_append [of s' h as n rest] links_last [of s' h as n] p_def [symmetric] by (simp add: s'(3,4))
  then have "ring s' h (as @ bs)" using dist n by (simp add: ring_def)
  moreover have "changed (insert h (set (as @ bs))) s s'"
    using n_mem p_mem by (auto simp: changed_def s'(2-4))
  ultimately show ?thesis using s'(1) l(2,3) by (simp add: list_del_def)
qed

lemma list_del_init_ring:
  assumes "ring s h (as @ e # bs)"
  shows "\<exists>s'. list_del_init e s = Some s' \<and> ring s' h (as @ bs) \<and> ring s' e [] \<and> changed (insert h (set (as @ e # bs))) s s'"
proof -
  obtain s1 where 1: "list_del e s = Some s1" "ring s1 h (as @ bs)" "changed (insert h (set (as @ bs))) s s1"
    using list_del_ring [OF assms] by metis
  have "e \<in> dom s" using ring_dom [OF assms] by simp
  then have "e \<in> dom s1" using 1(3) by (simp add: changed_def)
  then obtain s2 where 2: "INIT_LIST_HEAD e s1 = Some s2" "ring s2 e []" "changed {e} s1 s2" using INIT_LIST_HEAD_ring by metis
  have "insert h (set (as @ bs)) \<inter> {e} = {}" using assms by (auto simp: ring_def)
  then have "ring s2 h (as @ bs)" by (rule changed_ring [OF 2(3) 1(2)])
  moreover have "changed (insert h (set (as @ e # bs))) s s2" using 1(3) 2(3) by (simp add: changed_def)
  ultimately show ?thesis using 1(1) 2(1,2) by (simp add: list_del_init_def)
qed

lemma list_del_init_self:
  assumes "ring s e []"
  shows "\<exists>s'. list_del_init e s = Some s' \<and> ring s' e [] \<and> changed {e} s s'"
proof -
  have "next_of s e = Some e" "prev_of s e = Some e" "e \<in> dom s" using assms ring_dom [OF assms] by (simp_all add: ring_def)
  then obtain s1 where 1: "list_del e s = Some s1" "dom s1 = dom s" "next_of s1 = (next_of s)(e := Some e)" "prev_of s1 = (prev_of s)(e := Some e)"
    using list_del_between_links [of e s e] by (auto simp: list_del_def)
  then obtain s2 where "INIT_LIST_HEAD e s1 = Some s2" "ring s2 e []" "changed {e} s1 s2"
    using INIT_LIST_HEAD_ring [of e s1] \<open>e \<in> dom s\<close> by auto
  with 1 show ?thesis by (auto simp: list_del_init_def changed_def)
qed

lemma ring_prev:
  assumes "ring s h xs" and "x \<in> insert h (set xs)"
  shows "\<exists>y\<in>insert h (set xs). prev_of s x = Some y"
proof -
  have "x \<in> set qs \<Longrightarrow> links s p qs \<Longrightarrow> \<exists>y\<in>insert p (set (butlast qs)). prev_of s x = Some y" for p qs
  proof (induction qs arbitrary: p)
    case (Cons q qs)
    show ?case
    proof (cases "x \<in> set qs")
      case True
      then have "qs \<noteq> []" by auto
      with Cons.IH [OF True, of q] Cons.prems show ?thesis by auto
    next
      case False
      with Cons.prems show ?thesis by auto
    qed
  qed simp
  from this [of "xs @ [h]" h] show ?thesis using assms by (simp add: ring_def)
qed

text \<open>A node on a ring is not empty as a list of its own.\<close>

lemma ring_member:
  assumes "ring s h xs" and "x \<in> set xs"
  shows "list_empty x s = Some False"
proof -
  obtain as bs where xs: "xs = as @ x # bs" using assms(2) by (metis split_list)
  then have r: "links s h (as @ x # bs @ [h])" "distinct (h # as @ x # bs)" using assms(1) by (simp_all add: ring_def)
  then have "next_of s x = Some (hd (bs @ [h]))" unfolding links_append [of s h as x "bs @ [h]"] by (cases bs) auto
  moreover have "hd (bs @ [h]) \<noteq> x" using r(2) by (cases bs) auto
  ultimately show ?thesis by (simp add: list_empty_def)
qed

lemma ring_alone: "ring s x [] \<Longrightarrow> ring s h xs \<Longrightarrow> x \<notin> set xs"
  using ring_member [of s h xs x] ring_empty_iff [of s x "[]"] by auto

text \<open>Going through a ring visits its nodes in order, if the body leaves the pointers alone.\<close>

fun visit :: "('p \<Rightarrow> 'st \<Rightarrow> ('r option \<times> 'st) option) \<Rightarrow> 'p list \<Rightarrow> 'st \<Rightarrow> ('r option \<times> 'st) option" where
  "visit body [] st = Some (None, st)"
| "visit body (x # xs) st = do { (r, st) \<leftarrow> body x st; if r \<noteq> None then Some (r, st) else visit body xs st }"

lemma list_for_each_ring:
  assumes "ring (lk st) h xs" and "\<And>x st r st'. x \<in> set xs \<Longrightarrow> body x st = Some (r, st') \<Longrightarrow> lk st' = lk st"
  shows "list_for_each lk h body st = visit body xs st"
proof -
  have "links (lk st) p (ys @ [h]) \<Longrightarrow> h \<notin> set ys \<Longrightarrow> set ys \<subseteq> set xs \<Longrightarrow>
      (do { pos \<leftarrow> next_of (lk st) p; list_search lk h body pos st }) = visit body ys st" for p ys
  proof (induction ys arbitrary: p st)
    case (Cons y ys)
    have "list_search lk h body y st = do { (r, st) \<leftarrow> body y st; if r \<noteq> None then Some (r, st)
        else do { pos \<leftarrow> next_of (lk st) y; list_search lk h body pos st } }"
      using Cons.prems by (subst list_search.simps) auto
    moreover have "(do { pos \<leftarrow> next_of (lk st') y; list_search lk h body pos st' }) = visit body ys st'"
      if "body y st = Some (r, st')" for r st'
      using Cons.IH [of st' y] Cons.prems assms(2) [OF _ that] by simp
    ultimately show ?case using Cons.prems by (auto intro!: Option.bind_cong split: if_splits)
  qed (simp add: list_search.simps)
  with assms(1) show ?thesis by (simp add: ring_def list_for_each_def)
qed

section \<open>Lists as sequences\<close>

text \<open>
  C37: The operations on list heads implement sequences. On a ring that represents a sequence, list_add puts
  a node at its front and list_add_tail at its end, list_del_init takes one node out and leaves it as an
  empty list of its own, and list_empty tells whether the sequence is empty; and a ring elsewhere keeps
  its sequence.
\<close>

theorem list_heads_refine:
  assumes "ring s h xs" and "new \<in> dom s" and "new \<notin> insert h (set xs)"
  shows "(\<exists>s'. list_add new h s = Some s' \<and> ring s' h (new # xs) \<and>
      (\<forall>g ys. ring s g ys \<and> insert g (set ys) \<inter> insert new (insert h (set xs)) = {} \<longrightarrow> ring s' g ys)) \<and>
    (\<exists>s'. list_add_tail new h s = Some s' \<and> ring s' h (xs @ [new])) \<and>
    (\<forall>as e bs. xs = as @ e # bs \<longrightarrow> (\<exists>s'. list_del_init e s = Some s' \<and> ring s' h (as @ bs) \<and> ring s' e [] \<and>
      (\<forall>g ys. ring s g ys \<and> insert g (set ys) \<inter> insert h (set xs) = {} \<longrightarrow> ring s' g ys))) \<and>
    list_empty h s = Some (xs = [])"
proof (intro conjI allI impI)
  obtain s' where 1: "list_add new h s = Some s'" "ring s' h (new # xs)" "changed (insert new (insert h (set xs))) s s'"
    using list_add_ring [OF assms] by blast
  then show "\<exists>s'. list_add new h s = Some s' \<and> ring s' h (new # xs) \<and>
      (\<forall>g ys. ring s g ys \<and> insert g (set ys) \<inter> insert new (insert h (set xs)) = {} \<longrightarrow> ring s' g ys)"
    using changed_ring [OF 1(3)] by blast
  show "\<exists>s'. list_add_tail new h s = Some s' \<and> ring s' h (xs @ [new])" using list_add_tail_ring [OF assms] by blast
  show "list_empty h s = Some (xs = [])" by (rule ring_empty_iff [OF assms(1)])
  fix as e bs assume xs: "xs = as @ e # bs"
  obtain s' where 2: "list_del_init e s = Some s'" "ring s' h (as @ bs)" "ring s' e []" "changed (insert h (set xs)) s s'"
    using list_del_init_ring [of s h as e bs] assms(1) unfolding xs by blast
  then show "\<exists>s'. list_del_init e s = Some s' \<and> ring s' h (as @ bs) \<and> ring s' e [] \<and>
      (\<forall>g ys. ring s g ys \<and> insert g (set ys) \<inter> insert h (set xs) = {} \<longrightarrow> ring s' g ys)"
    using changed_ring [OF 2(4)] by blast
qed

theorem list_heads_refine_witness:
  "\<exists>s'. list_add (2 :: nat) 1 [1 \<mapsto> \<lparr>nxt = 3, prv = 3\<rparr>, 2 \<mapsto> \<lparr>nxt = 0, prv = 0\<rparr>, 3 \<mapsto> \<lparr>nxt = 1, prv = 1\<rparr>] = Some s' \<and> ring s' 1 [2, 3]"
proof -
  let ?s = "[1 \<mapsto> \<lparr>nxt = 3, prv = 3\<rparr>, 2 \<mapsto> \<lparr>nxt = 0, prv = 0\<rparr>, 3 \<mapsto> \<lparr>nxt = 1, prv = 1\<rparr>] :: nat list_store"
  have "ring ?s 1 [3]" by (simp add: ring_def)
  from list_heads_refine [OF this, of 2] show ?thesis by auto
qed

end
