(* ===== verification/TnodeBits.thy ===== *)
theory TnodeBits
  imports YaffsDevice
begin

unbundle bit_operations_syntax

text \<open>
  The entries of a level 0 tnode (yaffs_guts.c): sixteen bit fields of the width dev->tnodeWidth packed
  into 32-bit words, of which one may span two words. None stands for an access outside the node.
\<close>

definition YAFFS_TNODES_LEVEL0_MASK :: u32 where "YAFFS_TNODES_LEVEL0_MASK = 0xF"

definition yaffs_PutLevel0Tnode :: "'f yaffs_Device \<Rightarrow> u32 list \<Rightarrow> u32 \<Rightarrow> u32 \<Rightarrow> u32 list option" where
  "yaffs_PutLevel0Tnode dev wmap pos val =
     (let pos = pos AND YAFFS_TNODES_LEVEL0_MASK;
          val = drop_bit (chunkGroupBits dev) val;
          bitInMap = pos * tnodeWidth dev;
          wordInMap = unat (bitInMap div 32);
          bitInWord = bitInMap AND (32 - 1);
          mask = push_bit (unat bitInWord) (tnodeMask dev)
      in if wordInMap \<ge> length wmap then None
         else
           (let wmap = wmap[wordInMap := wmap ! wordInMap AND NOT mask];
                wmap = wmap[wordInMap := wmap ! wordInMap OR (mask AND push_bit (unat bitInWord) val)]
            in if tnodeWidth dev > 32 - bitInWord then
                 (let bitInWord = 32 - bitInWord;
                      wordInMap = wordInMap + 1;
                      mask = drop_bit (unat bitInWord) (tnodeMask dev)
                  in if wordInMap \<ge> length wmap then None
                     else
                       (let wmap = wmap[wordInMap := wmap ! wordInMap AND NOT mask]
                        in Some (wmap[wordInMap := wmap ! wordInMap OR (mask AND drop_bit (unat bitInWord) val)])))
               else Some wmap))"

definition yaffs_GetChunkGroupBase :: "'f yaffs_Device \<Rightarrow> u32 list \<Rightarrow> u32 \<Rightarrow> u32 option" where
  "yaffs_GetChunkGroupBase dev wmap pos =
     (let pos = pos AND YAFFS_TNODES_LEVEL0_MASK;
          bitInMap = pos * tnodeWidth dev;
          wordInMap = unat (bitInMap div 32);
          bitInWord = bitInMap AND (32 - 1)
      in if wordInMap \<ge> length wmap then None
         else do {
           let val = drop_bit (unat bitInWord) (wmap ! wordInMap);
           val \<leftarrow> (if tnodeWidth dev > 32 - bitInWord then
                    (let bitInWord = 32 - bitInWord; wordInMap = wordInMap + 1
                     in if wordInMap \<ge> length wmap then None else Some (val OR push_bit (unat bitInWord) (wmap ! wordInMap)))
                  else Some val);
           Some (push_bit (chunkGroupBits dev) (val AND tnodeMask dev))
         })"

section \<open>The fields as bits\<close>

text \<open>The widths the code sets up: even, at least 16, and small enough for the mask to be computed.\<close>

definition width_ok :: "'f yaffs_Device \<Rightarrow> bool" where
  "width_ok dev \<longleftrightarrow> even (unat (tnodeWidth dev)) \<and> 16 \<le> unat (tnodeWidth dev) \<and> unat (tnodeWidth dev) < 32 \<and>
     tnodeMask dev = mask (unat (tnodeWidth dev)) \<and> chunkGroupBits dev < 32"

abbreviation width :: "'f yaffs_Device \<Rightarrow> nat" where
  "width dev \<equiv> unat (tnodeWidth dev)"

definition map_bit :: "u32 list \<Rightarrow> nat \<Rightarrow> bool" where
  "map_bit wmap k = bit (wmap ! (k div 32)) (k mod 32)"

definition slot :: "u32 \<Rightarrow> nat" where
  "slot pos = unat (pos AND YAFFS_TNODES_LEVEL0_MASK)"

lemma slot_less: "slot pos < 16"
proof -
  have "pos AND YAFFS_TNODES_LEVEL0_MASK = take_bit 4 pos"
    by (simp add: YAFFS_TNODES_LEVEL0_MASK_def take_bit_eq_mask mask_numeral)
  moreover have "take_bit 4 (unat pos) < 2 ^ 4" by (rule take_bit_nat_less_exp)
  ultimately show ?thesis by (simp add: slot_def unsigned_take_bit_eq)
qed

lemma slot_position:
  assumes "width_ok dev"
  shows "unat ((pos AND YAFFS_TNODES_LEVEL0_MASK) * tnodeWidth dev div 32) = slot pos * width dev div 32"
    "unat ((pos AND YAFFS_TNODES_LEVEL0_MASK) * tnodeWidth dev AND 31) = slot pos * width dev mod 32"
    "tnodeWidth dev > 32 - ((pos AND YAFFS_TNODES_LEVEL0_MASK) * tnodeWidth dev AND 31) \<longleftrightarrow>
       width dev > 32 - slot pos * width dev mod 32"
    "unat (32 - ((pos AND YAFFS_TNODES_LEVEL0_MASK) * tnodeWidth dev AND 31)) = 32 - slot pos * width dev mod 32"
proof -
  let ?b = "(pos AND YAFFS_TNODES_LEVEL0_MASK) * tnodeWidth dev"
  have "slot pos * width dev < 16 * 32"
    using slot_less [of pos] assms by (intro mult_strict_mono) (auto simp: width_ok_def)
  then have b: "unat ?b = slot pos * width dev" by (simp add: slot_def unat_word_ariths)
  then show "unat (?b div 32) = slot pos * width dev div 32" by (simp add: unat_div)
  have m: "?b AND 31 = take_bit 5 ?b" by (simp add: take_bit_eq_mask mask_numeral)
  then show u: "unat (?b AND 31) = slot pos * width dev mod 32"
    by (simp add: take_bit_eq_mod unat_mod b)
  show s: "unat (32 - (?b AND 31)) = 32 - slot pos * width dev mod 32"
    by (subst unat_sub) (simp_all add: u word_le_nat_alt)
  show "tnodeWidth dev > 32 - (?b AND 31) \<longleftrightarrow> width dev > 32 - slot pos * width dev mod 32"
    by (simp add: word_less_nat_alt s)
qed

text \<open>A node has room for sixteen fields.\<close>

definition roomy :: "'f yaffs_Device \<Rightarrow> u32 list \<Rightarrow> bool" where
  "roomy dev wmap \<longleftrightarrow> 16 * width dev \<le> 32 * length wmap"

lemma slot_room:
  assumes "width_ok dev" and "roomy dev wmap"
  shows "slot pos * width dev + width dev \<le> 32 * length wmap" "slot pos * width dev div 32 < length wmap"
    "width dev > 32 - slot pos * width dev mod 32 \<Longrightarrow> Suc (slot pos * width dev div 32) < length wmap"
proof -
  have "(slot pos + 1) * width dev \<le> 16 * width dev" using slot_less [of pos] by (intro mult_right_mono) simp_all
  then show a: "slot pos * width dev + width dev \<le> 32 * length wmap" using assms(2) unfolding roomy_def add_mult_distrib by linarith
  have "width dev > 0" using assms(1) by (simp add: width_ok_def)
  then show "slot pos * width dev div 32 < length wmap" using a by (simp add: less_mult_imp_div_less)
  assume "width dev > 32 - slot pos * width dev mod 32"
  moreover have "slot pos * width dev = 32 * (slot pos * width dev div 32) + slot pos * width dev mod 32" by simp
  ultimately show "Suc (slot pos * width dev div 32) < length wmap" using a by linarith
qed

lemma GetChunkGroupBase_bits:
  assumes "width_ok dev" and "roomy dev wmap"
  shows "\<exists>v. yaffs_GetChunkGroupBase dev wmap pos = Some (push_bit (chunkGroupBits dev) v) \<and>
    (\<forall>j. bit v j \<longleftrightarrow> j < width dev \<and> map_bit wmap (slot pos * width dev + j))"
proof -
  define n where "n = slot pos * width dev"
  define q r where "q = n div 32" and "r = n mod 32"
  have nq: "n = 32 * q + r" "r < 32" by (simp_all add: q_def r_def)
  have w: "width dev < 32" "tnodeMask dev = mask (width dev)" using assms(1) by (simp_all add: width_ok_def)
  have div: "(n + j) div 32 = (if r + j < 32 then q else Suc q) \<and> (n + j) mod 32 = (if r + j < 32 then r + j else r + j - 32)"
    if "j < width dev" for j
    using that nq w by (auto simp: nq(1) add.assoc mod_if [of "r + j"] div_if [of 32 "r + j"])
  define v where "v = (drop_bit r (wmap ! q) OR (if width dev > 32 - r then push_bit (32 - r) (wmap ! Suc q) else 0)) AND mask (width dev)"
  have "yaffs_GetChunkGroupBase dev wmap pos = Some (push_bit (chunkGroupBits dev) v)"
    using slot_room [OF assms, of pos] slot_position [OF assms(1), of pos] w(2)
    by (auto simp: yaffs_GetChunkGroupBase_def v_def n_def q_def r_def Let_def)
  moreover have "bit v j \<longleftrightarrow> j < width dev \<and> map_bit wmap (n + j)" for j
  proof (cases "j < width dev")
    case True
    have b: "bit v j \<longleftrightarrow> bit (wmap ! q) (r + j) \<or> (32 - r \<le> j \<and> bit (wmap ! Suc q) (j - (32 - r)))"
      using True w(1) by (auto simp: v_def bit_and_iff bit_or_iff bit_mask_iff bit_drop_bit_eq bit_push_bit_iff)
    show ?thesis
    proof (cases "r + j < 32")
      case lo: True
      then have "\<not> 32 - r \<le> j" by simp
      then show ?thesis using True lo b div [of j] by (simp add: map_bit_def)
    next
      case False
      then have "\<not> bit (wmap ! q) (r + j)" "j - (32 - r) = r + j - 32" "32 - r \<le> j" using nq(2) by (auto dest: bit_imp_le_length)
      then show ?thesis using True False b div [of j] by (simp add: map_bit_def)
    qed
  qed (simp add: v_def bit_and_iff bit_mask_iff)
  ultimately show ?thesis unfolding n_def by blast
qed

lemma PutLevel0Tnode_bits:
  assumes "width_ok dev" and "roomy dev wmap"
  shows "\<exists>wmap'. yaffs_PutLevel0Tnode dev wmap pos val = Some wmap' \<and> length wmap' = length wmap \<and>
    (\<forall>k < 32 * length wmap. map_bit wmap' k \<longleftrightarrow>
      (if slot pos * width dev \<le> k \<and> k < slot pos * width dev + width dev
       then bit (drop_bit (chunkGroupBits dev) val) (k - slot pos * width dev) else map_bit wmap k))"
proof -
  define n where "n = slot pos * width dev"
  define q r v where "q = n div 32" and "r = n mod 32" and "v = drop_bit (chunkGroupBits dev) val"
  have nq: "n = 32 * q + r" "r < 32" by (simp_all add: q_def r_def)
  have w: "width dev < 32" "tnodeMask dev = mask (width dev)" using assms(1) by (simp_all add: width_ok_def)
  note room = slot_room [OF assms, of pos, folded n_def, folded q_def r_def]
  define lo where "lo = (wmap ! q AND NOT (push_bit r (mask (width dev)))) OR (push_bit r (mask (width dev)) AND push_bit r v)"
  define hi where "hi = (wmap ! Suc q AND NOT (drop_bit (32 - r) (mask (width dev)))) OR (drop_bit (32 - r) (mask (width dev)) AND drop_bit (32 - r) v)"
  define wmap' where "wmap' = (if width dev > 32 - r then wmap[q := lo, Suc q := hi] else wmap[q := lo])"
  have put: "yaffs_PutLevel0Tnode dev wmap pos val = Some wmap'"
    using slot_room [OF assms, of pos] slot_position [OF assms(1), of pos] w(2)
    by (auto simp: yaffs_PutLevel0Tnode_def wmap'_def lo_def hi_def n_def q_def r_def v_def Let_def)
  have lo: "bit lo i \<longleftrightarrow> (if r \<le> i \<and> i < r + width dev then bit v (i - r) else bit (wmap ! q) i)" if "i < 32" for i
    using that w(1) by (auto simp: lo_def bit_simps)
  have hi: "bit hi i \<longleftrightarrow> (if i + (32 - r) < width dev then bit v (i + (32 - r)) else bit (wmap ! Suc q) i)" if "i < 32" for i
    using that w(1) by (auto simp: hi_def bit_simps add.commute)
  have "map_bit wmap' k \<longleftrightarrow> (if n \<le> k \<and> k < n + width dev then bit v (k - n) else map_bit wmap k)" if k: "k < 32 * length wmap" for k
  proof -
    define i j where "i = k div 32" and "j = k mod 32"
    have kk: "k = 32 * i + j" "j < 32" "i < length wmap" using k by (simp_all add: i_def j_def less_mult_imp_div_less mult.commute)
    consider "i = q" | "i = Suc q" | "i < q" | "i > Suc q" by linarith
    then show ?thesis
    proof cases
      case 1
      then have "wmap' ! i = lo" using room(2) by (simp add: wmap'_def)
      moreover have "(n \<le> k \<and> k < n + width dev) = (r \<le> j \<and> j < r + width dev)" "k - n = j - r" using 1 kk nq by auto
      ultimately show ?thesis using lo [OF kk(2)] 1 by (simp add: map_bit_def flip: i_def j_def)
    next
      case 2
      have "(n \<le> k \<and> k < n + width dev) = (j + (32 - r) < width dev)" "k - n = j + (32 - r)" using 2 kk nq by auto
      moreover have "wmap' ! i = (if width dev > 32 - r then hi else wmap ! Suc q)" using 2 room(3) by (simp add: wmap'_def)
      ultimately show ?thesis using hi [OF kk(2)] 2 by (auto simp: map_bit_def simp flip: i_def j_def)
    next
      case 3
      then have "\<not> n \<le> k" "wmap' ! i = wmap ! i" using kk nq by (auto simp: wmap'_def)
      then show ?thesis by (simp add: map_bit_def flip: i_def j_def)
    next
      case 4
      then have "\<not> k < n + width dev" "wmap' ! i = wmap ! i" using kk nq w(1) by (auto simp: wmap'_def)
      then show ?thesis by (simp add: map_bit_def flip: i_def j_def)
    qed
  qed
  moreover have "length wmap' = length wmap" by (simp add: wmap'_def)
  ultimately show ?thesis using put unfolding n_def v_def by blast
qed

section \<open>Reading and writing entries\<close>

text \<open>The entry of a slot, as the group of chunks it names.\<close>

definition entry_at :: "'f yaffs_Device \<Rightarrow> u32 list \<Rightarrow> nat \<Rightarrow> u32" where
  "entry_at dev wmap p = push_bit (chunkGroupBits dev) (horner_sum of_bool 2 (map (\<lambda>j. map_bit wmap (p * width dev + j)) [0..<width dev]))"

text \<open>The part of a chunk number that an entry keeps.\<close>

definition group_base :: "'f yaffs_Device \<Rightarrow> u32 \<Rightarrow> u32" where
  "group_base dev val = push_bit (chunkGroupBits dev) (take_bit (width dev) (drop_bit (chunkGroupBits dev) val))"

lemma GetChunkGroupBase_entry:
  assumes "width_ok dev" and "roomy dev wmap"
  shows "yaffs_GetChunkGroupBase dev wmap pos = Some (entry_at dev wmap (slot pos))"
proof -
  obtain v where v: "yaffs_GetChunkGroupBase dev wmap pos = Some (push_bit (chunkGroupBits dev) v)"
    "\<And>j. bit v j \<longleftrightarrow> j < width dev \<and> map_bit wmap (slot pos * width dev + j)"
    using GetChunkGroupBase_bits [OF assms] by blast
  have "v = horner_sum of_bool 2 (map (\<lambda>j. map_bit wmap (slot pos * width dev + j)) [0..<width dev])"
    by (rule bit_word_eqI) (auto simp: v(2) bit_horner_sum_bit_word_iff)
  with v(1) show ?thesis by (simp add: entry_at_def)
qed

lemma slots_apart:
  assumes "p \<noteq> (q :: nat)" and "j < w"
  shows "\<not> (q * w \<le> p * w + j \<and> p * w + j < q * w + w)"
proof (cases "p < q")
  case True
  then have "Suc p * w \<le> q * w" by (intro mult_right_mono) simp_all
  with assms(2) show ?thesis by simp
next
  case False
  with assms(1) have "Suc q * w \<le> p * w" by (intro mult_right_mono) simp_all
  then show ?thesis by simp
qed

lemma slot_in_map:
  assumes "roomy dev wmap" and "p < 16" and "j < width dev"
  shows "p * width dev + j < 32 * length wmap"
proof -
  have "Suc p * width dev \<le> 16 * width dev" using assms(2) by (intro mult_right_mono) simp_all
  with assms(1,3) show ?thesis unfolding roomy_def mult_Suc by linarith
qed

lemma PutLevel0Tnode_entry:
  assumes "width_ok dev" and "roomy dev wmap"
  shows "\<exists>wmap'. yaffs_PutLevel0Tnode dev wmap pos val = Some wmap' \<and> length wmap' = length wmap \<and>
    (\<forall>p < 16. entry_at dev wmap' p = (if p = slot pos then group_base dev val else entry_at dev wmap p))"
proof -
  obtain wmap' where m: "yaffs_PutLevel0Tnode dev wmap pos val = Some wmap'" "length wmap' = length wmap"
    "\<And>k. k < 32 * length wmap \<Longrightarrow> map_bit wmap' k \<longleftrightarrow>
      (if slot pos * width dev \<le> k \<and> k < slot pos * width dev + width dev
       then bit (drop_bit (chunkGroupBits dev) val) (k - slot pos * width dev) else map_bit wmap k)"
    using PutLevel0Tnode_bits [OF assms] by blast
  note in_map = slot_in_map [OF assms(2)]
  have "entry_at dev wmap' p = (if p = slot pos then group_base dev val else entry_at dev wmap p)" if p: "p < 16" for p
  proof (cases "p = slot pos")
    case True
    have "horner_sum of_bool 2 (map (\<lambda>j. map_bit wmap' (p * width dev + j)) [0..<width dev]) =
        take_bit (width dev) (drop_bit (chunkGroupBits dev) val)"
      by (rule bit_word_eqI) (use m(3) in_map [OF p] True in \<open>auto simp: bit_horner_sum_bit_word_iff bit_take_bit_iff\<close>)
    then show ?thesis using True by (simp add: entry_at_def group_base_def)
  next
    case False
    then have "map_bit wmap' (p * width dev + j) = map_bit wmap (p * width dev + j)" if "j < width dev" for j
      using slots_apart [OF False that] m(3) [OF in_map [OF p that]] by auto
    then have "map (\<lambda>j. map_bit wmap' (p * width dev + j)) [0..<width dev] = map (\<lambda>j. map_bit wmap (p * width dev + j)) [0..<width dev]"
      by (intro map_cong) simp_all
    with False show ?thesis unfolding entry_at_def by presburger
  qed
  with m(1,2) show ?thesis by blast
qed

end
