(* ===== verification/Tnode.thy ===== *)
theory Tnode
  imports TnodeBits
begin

text \<open>
  The tree of tnodes that leads from a position in a file to its chunk (yaffs_guts.c). The union of C is
  a data type: a pointer is null or leads to a node that is used for sixteen packed entries or for
  eight pointers. Pointers take four bytes, as on the ARM boards. The value None stands for the use
  of a null pointer, or of a node as the other member of the union.
\<close>

section \<open>Nodes\<close>

definition YAFFS_NTNODES_LEVEL0 :: nat where "YAFFS_NTNODES_LEVEL0 = 16"
definition YAFFS_TNODES_LEVEL0_BITS :: nat where "YAFFS_TNODES_LEVEL0_BITS = 4"
definition YAFFS_NTNODES_INTERNAL :: nat where "YAFFS_NTNODES_INTERNAL = YAFFS_NTNODES_LEVEL0 div 2"
definition YAFFS_TNODES_INTERNAL_BITS :: nat where "YAFFS_TNODES_INTERNAL_BITS = YAFFS_TNODES_LEVEL0_BITS - 1"
definition YAFFS_TNODES_INTERNAL_MASK :: u32 where "YAFFS_TNODES_INTERNAL_MASK = 7"
definition YAFFS_TNODES_MAX_LEVEL :: int where "YAFFS_TNODES_MAX_LEVEL = 6"
definition YAFFS_MAX_CHUNK_ID :: u32 where "YAFFS_MAX_CHUNK_ID = 0x000FFFFF"
definition YAFFS_ALLOCATION_NTNODES :: nat where "YAFFS_ALLOCATION_NTNODES = 100"

lemmas tnode_constants = YAFFS_NTNODES_LEVEL0_def YAFFS_TNODES_LEVEL0_BITS_def YAFFS_NTNODES_INTERNAL_def
  YAFFS_TNODES_INTERNAL_BITS_def YAFFS_TNODES_INTERNAL_MASK_def YAFFS_TNODES_MAX_LEVEL_def YAFFS_MAX_CHUNK_ID_def

datatype yaffs_Tnode = Null | Level0 "u32 list" | Internal "yaffs_Tnode list"

record yaffs_FileStructure =
  fileSize :: u32
  scannedFileSize :: u32
  shrinkSize :: u32
  topLevel :: int
  top :: yaffs_Tnode

text \<open>The size of a node in words of 32 bits, and a node cleared to zero for the level it is used at.\<close>

definition tnode_words :: "'f yaffs_Device \<Rightarrow> nat" where
  "tnode_words dev =
     (let tnodeSize = unat (tnodeWidth dev) * YAFFS_NTNODES_LEVEL0 div 8;
          sizeof_Tnode = 4 * YAFFS_NTNODES_INTERNAL
      in (if tnodeSize < sizeof_Tnode then sizeof_Tnode else tnodeSize) div 4)"

definition clean_tnode :: "'f yaffs_Device \<Rightarrow> nat \<Rightarrow> yaffs_Tnode" where
  "clean_tnode dev level =
     (if level = 0 then Level0 (replicate (tnode_words dev) 0) else Internal (replicate YAFFS_NTNODES_INTERNAL Null))"

section \<open>Allocation\<close>

text \<open>The next answer of the allocator; without one it fails.\<close>

definition yMalloc :: "'f yaffs_Device \<Rightarrow> bool \<times> 'f yaffs_Device" where
  "yMalloc dev = (case ymalloc dev of [] \<Rightarrow> (False, dev) | ok # oks \<Rightarrow> (ok, dev\<lparr>ymalloc := oks\<rparr>))"

definition yaffs_CreateTnodes :: "'f yaffs_Device \<Rightarrow> nat \<Rightarrow> int \<times> 'f yaffs_Device" where
  "yaffs_CreateTnodes dev nTnodes =
     (if nTnodes < 1 then (YAFFS_OK, dev)
      else
        (let (newTnodes, dev) = yMalloc dev
         in if \<not> newTnodes then (YAFFS_FAIL, dev)
            else
              (let dev = dev\<lparr>freeTnodes := nTnodes + freeTnodes dev\<rparr>;
                   dev = dev\<lparr>nFreeTnodes := nFreeTnodes dev + int nTnodes, nTnodesCreated := nTnodesCreated dev + int nTnodes\<rparr>;
                   (tnl, dev) = yMalloc dev
               in if \<not> tnl then (YAFFS_FAIL, dev)
                  else (YAFFS_OK, dev\<lparr>allocatedTnodeList := nTnodes # allocatedTnodeList dev\<rparr>))))"

definition yaffs_GetTnodeRaw :: "'f yaffs_Device \<Rightarrow> bool \<times> 'f yaffs_Device" where
  "yaffs_GetTnodeRaw dev =
     (let dev = (if freeTnodes dev = 0 then snd (yaffs_CreateTnodes dev YAFFS_ALLOCATION_NTNODES) else dev);
          (tn, dev) = (if freeTnodes dev \<noteq> 0 then (True, dev\<lparr>freeTnodes := freeTnodes dev - 1, nFreeTnodes := nFreeTnodes dev - 1\<rparr>)
                       else (False, dev))
      in (tn, dev\<lparr>nCheckpointBlocksRequired := 0\<rparr>))"

definition yaffs_GetTnode :: "'f yaffs_Device \<Rightarrow> nat \<Rightarrow> yaffs_Tnode \<times> 'f yaffs_Device" where
  "yaffs_GetTnode dev level =
     (let (tn, dev) = yaffs_GetTnodeRaw dev in (if tn then clean_tnode dev level else Null, dev))"

definition yaffs_FreeTnode :: "'f yaffs_Device \<Rightarrow> yaffs_Tnode \<Rightarrow> 'f yaffs_Device" where
  "yaffs_FreeTnode dev tn =
     (let dev = (if tn \<noteq> Null then dev\<lparr>freeTnodes := freeTnodes dev + 1, nFreeTnodes := nFreeTnodes dev + 1\<rparr> else dev)
      in dev\<lparr>nCheckpointBlocksRequired := 0\<rparr>)"

definition yaffs_DeinitialiseTnodes :: "'f yaffs_Device \<Rightarrow> 'f yaffs_Device" where
  "yaffs_DeinitialiseTnodes dev = dev\<lparr>allocatedTnodeList := [], freeTnodes := 0, nFreeTnodes := 0\<rparr>"

definition yaffs_InitialiseTnodes :: "'f yaffs_Device \<Rightarrow> 'f yaffs_Device" where
  "yaffs_InitialiseTnodes dev = dev\<lparr>allocatedTnodeList := [], freeTnodes := 0, nFreeTnodes := 0, nTnodesCreated := 0\<rparr>"

section \<open>Finding and adding level 0 nodes\<close>

function tallness :: "u32 \<Rightarrow> nat" where
  "tallness x = (if x \<noteq> 0 then Suc (tallness (drop_bit YAFFS_TNODES_INTERNAL_BITS x)) else 0)"
  by pat_completeness auto
termination
proof (relation "measure unat")
  fix x :: u32
  assume "x \<noteq> 0"
  then have "unat x > 0" by (simp add: unat_gt_0)
  then show "(drop_bit YAFFS_TNODES_INTERNAL_BITS x, x) \<in> measure unat"
    by (simp add: drop_bit_eq_div tnode_constants unat_div)
qed simp

declare tallness.simps [simp del]

definition requiredTallness :: "u32 \<Rightarrow> nat" where
  "requiredTallness chunk = tallness (drop_bit YAFFS_TNODES_LEVEL0_BITS chunk)"

text \<open>The pointer taken from a node at a level above 0.\<close>

definition branch :: "u32 \<Rightarrow> nat \<Rightarrow> nat" where
  "branch chunk level =
     unat (drop_bit (YAFFS_TNODES_LEVEL0_BITS + (level - 1) * YAFFS_TNODES_INTERNAL_BITS) chunk AND YAFFS_TNODES_INTERNAL_MASK)"

fun find_down :: "u32 \<Rightarrow> nat \<Rightarrow> yaffs_Tnode \<Rightarrow> yaffs_Tnode option" where
  "find_down chunk 0 tn = Some tn"
| "find_down chunk (Suc level) Null = Some Null"
| "find_down chunk (Suc level) (Internal ch) =
     (if branch chunk (Suc level) < length ch then find_down chunk level (ch ! branch chunk (Suc level)) else None)"
| "find_down chunk (Suc level) (Level0 wmap) = None"

definition yaffs_FindLevel0Tnode :: "'f yaffs_Device \<Rightarrow> yaffs_FileStructure \<Rightarrow> u32 \<Rightarrow> yaffs_Tnode option" where
  "yaffs_FindLevel0Tnode dev fStruct chunk =
     (if topLevel fStruct < 0 \<or> topLevel fStruct > YAFFS_TNODES_MAX_LEVEL then Some Null
      else if chunk > YAFFS_MAX_CHUNK_ID then Some Null
      else if int (requiredTallness chunk) > topLevel fStruct then Some Null
      else find_down chunk (nat (topLevel fStruct)) (top fStruct))"

text \<open>A store through the pointer to a level 0 node that was found: its new contents are put in its place.\<close>

fun store_down :: "u32 \<Rightarrow> nat \<Rightarrow> yaffs_Tnode \<Rightarrow> yaffs_Tnode \<Rightarrow> yaffs_Tnode" where
  "store_down chunk 0 tn new = new"
| "store_down chunk (Suc level) (Internal ch) new =
     Internal (ch[branch chunk (Suc level) := store_down chunk level (ch ! branch chunk (Suc level)) new])"
| "store_down chunk (Suc level) tn new = tn"

text \<open>Make the tree taller by n levels.\<close>

fun grow :: "nat \<Rightarrow> yaffs_Tnode \<Rightarrow> 'f yaffs_Device \<Rightarrow> yaffs_Tnode \<times> 'f yaffs_Device" where
  "grow 0 tp dev = (tp, dev)"
| "grow (Suc n) tp dev =
     (case yaffs_GetTnode dev 1 of
        (Internal ch, dev) \<Rightarrow> grow n (Internal (ch[0 := tp])) dev
      | (_, dev) \<Rightarrow> grow n tp dev)"

text \<open>
  The way down from a level, adding the nodes that are missing; at level 1 the passed node replaces the
  one below. The result has the changed node, the level 0 node reached and the device.
\<close>

fun add_down ::
    "u32 \<Rightarrow> yaffs_Tnode \<Rightarrow> nat \<Rightarrow> yaffs_Tnode \<Rightarrow> 'f yaffs_Device \<Rightarrow> (yaffs_Tnode \<times> yaffs_Tnode \<times> 'f yaffs_Device) option" where
  "add_down chunk passedTn 0 tn dev = Some (tn, tn, dev)"
| "add_down chunk passedTn (Suc l) Null dev = Some (Null, Null, dev)"
| "add_down chunk passedTn (Suc l) (Internal ch) dev =
     (let x = branch chunk (Suc l)
      in if x \<ge> length ch then None
         else
           (let (child, dev) =
              (if l > 0 \<and> ch ! x = Null then yaffs_GetTnode dev l
               else if l = 0 then
                 (if passedTn \<noteq> Null then (passedTn, if ch ! x \<noteq> Null then yaffs_FreeTnode dev (ch ! x) else dev)
                  else if ch ! x = Null then yaffs_GetTnode dev 0
                  else (ch ! x, dev))
               else (ch ! x, dev))
            in do {
              (child, tn, dev) \<leftarrow> add_down chunk passedTn l child dev;
              Some (Internal (ch[x := child]), tn, dev)
            }))"
| "add_down chunk passedTn (Suc l) (Level0 wmap) dev = None"

definition yaffs_AddOrFindLevel0Tnode ::
    "'f yaffs_Device \<Rightarrow> yaffs_FileStructure \<Rightarrow> u32 \<Rightarrow> yaffs_Tnode \<Rightarrow>
     (yaffs_Tnode \<times> yaffs_FileStructure \<times> 'f yaffs_Device) option" where
  "yaffs_AddOrFindLevel0Tnode dev fStruct chunk passedTn =
     (if topLevel fStruct < 0 \<or> topLevel fStruct > YAFFS_TNODES_MAX_LEVEL then Some (Null, fStruct, dev)
      else if chunk > YAFFS_MAX_CHUNK_ID then Some (Null, fStruct, dev)
      else
        (let required = int (requiredTallness chunk);
             (fStruct, dev) =
               (if required > topLevel fStruct then
                  (let (tp, dev) = grow (nat (required - topLevel fStruct)) (top fStruct) dev
                   in (fStruct\<lparr>top := tp, topLevel := required\<rparr>, dev))
                else (fStruct, dev))
         in if topLevel fStruct > 0 then do {
              (tp, tn, dev) \<leftarrow> add_down chunk passedTn (nat (topLevel fStruct)) (top fStruct) dev;
              Some (tn, fStruct\<lparr>top := tp\<rparr>, dev)
            }
            else if passedTn \<noteq> Null then
              (case (top fStruct, passedTn) of
                 (Level0 old, Level0 new) \<Rightarrow>
                   (let n = unat (tnodeWidth dev) * YAFFS_NTNODES_LEVEL0 div 8 div 4;
                        tn = Level0 (take n new @ drop n old)
                    in Some (tn, fStruct\<lparr>top := tn\<rparr>, yaffs_FreeTnode dev passedTn))
               | _ \<Rightarrow> None)
            else Some (top fStruct, fStruct, dev)))"

section \<open>Pruning\<close>

text \<open>
  Whether the pointer at a position of a node is not null. A level 0 node is read here as if it held
  pointers, so the test looks at one word of its entries.
\<close>

fun internal_set :: "yaffs_Tnode \<Rightarrow> nat \<Rightarrow> bool option" where
  "internal_set Null i = None"
| "internal_set (Level0 wmap) i = (if i < length wmap then Some (wmap ! i \<noteq> 0) else None)"
| "internal_set (Internal ch) i = (if i < length ch then Some (ch ! i \<noteq> Null) else None)"

text \<open>The number of pointers that are not null among the positions given.\<close>

fun count_set :: "yaffs_Tnode \<Rightarrow> nat list \<Rightarrow> nat option" where
  "count_set tn [] = Some 0"
| "count_set tn (i # is) = do { b \<leftarrow> internal_set tn i; n \<leftarrow> count_set tn is; Some (of_bool b + n) }"

text \<open>The loop over the pointers of a node above level 0 from position i on, each pruned by the function given.\<close>

fun prune_children ::
    "(yaffs_Tnode \<Rightarrow> bool \<Rightarrow> 'd \<Rightarrow> (yaffs_Tnode \<times> 'd) option) \<Rightarrow> bool \<Rightarrow> nat \<Rightarrow> yaffs_Tnode list \<Rightarrow> 'd \<Rightarrow> (yaffs_Tnode list \<times> 'd) option" where
  "prune_children worker del0 i [] dev = Some ([], dev)"
| "prune_children worker del0 i (c # cs) dev = do {
     (c, dev) \<leftarrow> (if c \<noteq> Null then worker c (if i = 0 then del0 else True) dev else Some (c, dev));
     (cs, dev) \<leftarrow> prune_children worker del0 (i + 1) cs dev;
     Some (c # cs, dev)
   }"

definition prune_end :: "bool \<Rightarrow> yaffs_Tnode \<Rightarrow> 'f yaffs_Device \<Rightarrow> (yaffs_Tnode \<times> 'f yaffs_Device) option" where
  "prune_end del0 tn dev = do {
     hasData \<leftarrow> count_set tn [0..<YAFFS_NTNODES_INTERNAL];
     Some (if hasData = 0 \<and> del0 then (Null, yaffs_FreeTnode dev tn) else (tn, dev))
   }"

primrec yaffs_PruneWorker :: "nat \<Rightarrow> yaffs_Tnode \<Rightarrow> bool \<Rightarrow> 'f yaffs_Device \<Rightarrow> (yaffs_Tnode \<times> 'f yaffs_Device) option" where
  "yaffs_PruneWorker 0 tn del0 dev = (if tn = Null then Some (tn, dev) else prune_end del0 tn dev)"
| "yaffs_PruneWorker (Suc level) tn del0 dev =
     (case tn of
        Null \<Rightarrow> Some (tn, dev)
      | Level0 wmap \<Rightarrow> None
      | Internal ch \<Rightarrow> do {
          (ch, dev) \<leftarrow> prune_children (yaffs_PruneWorker level) del0 0 ch dev;
          prune_end del0 (Internal ch) dev
        })"

text \<open>Trim the top while only its first pointer is in use.\<close>

fun trim :: "nat \<Rightarrow> yaffs_Tnode \<Rightarrow> 'f yaffs_Device \<Rightarrow> (nat \<times> yaffs_Tnode \<times> 'f yaffs_Device) option" where
  "trim 0 tp dev = Some (0, tp, dev)"
| "trim (Suc level) tp dev = do {
     hasData \<leftarrow> count_set tp [1..<YAFFS_NTNODES_INTERNAL];
     if hasData = 0 then
       (case tp of
          Internal ch \<Rightarrow> if ch = [] then None else trim level (ch ! 0) (yaffs_FreeTnode dev tp)
        | _ \<Rightarrow> None)
     else Some (Suc level, tp, dev)
   }"

definition yaffs_PruneFileStructure ::
    "'f yaffs_Device \<Rightarrow> yaffs_FileStructure \<Rightarrow> (int \<times> yaffs_FileStructure \<times> 'f yaffs_Device) option" where
  "yaffs_PruneFileStructure dev fStruct =
     (if topLevel fStruct > 0 then do {
        (tp, dev) \<leftarrow> yaffs_PruneWorker (nat (topLevel fStruct)) (top fStruct) False dev;
        (level, tp, dev) \<leftarrow> trim (nat (topLevel fStruct)) tp dev;
        Some (YAFFS_OK, fStruct\<lparr>top := tp, topLevel := int level\<rparr>, dev)
      }
      else Some (YAFFS_OK, fStruct, dev))"

end
