(* ===== verification/NandIf.thy ===== *)
theory NandIf
  imports TagsCompat
begin

text \<open>
  The NAND interface of YAFFS (yaffs_nand.c): block and chunk numbers are realigned by the
  device's offsets, and each operation goes to the driver's own entry point or, where there is
  none, to the YAFFS1 compatibility layer. A correctable or uncorrectable ECC result of a read
  strikes the block that was read. Also the temporary buffers that callers read chunks into
  (yaffs_guts.c).
\<close>

section \<open>The interface\<close>

definition yaffs_ReadChunkWithTagsFromNAND ::
    "'f yaffs_Device \<Rightarrow> int \<Rightarrow> u8 list option \<Rightarrow> yaffs_ExtendedTags \<Rightarrow>
     (int \<times> u8 list option \<times> yaffs_ExtendedTags \<times> 'f yaffs_Device) option" where
  "yaffs_ReadChunkWithTagsFromNAND dev chunkInNAND buf tags = do {
     let realignedChunkInNAND = chunkInNAND - chunkOffset dev;
     (result, buf, tags, dev) \<leftarrow>
       (case readChunkWithTagsFromNAND dev of
          Some rd \<Rightarrow> (let (r, b, t, f) = rd (genericDevice dev) realignedChunkInNAND buf tags
                      in Some (r, b, t, dev\<lparr>genericDevice := f\<rparr>))
        | None \<Rightarrow> yaffs_TagsCompatabilityReadChunkWithTagsFromNAND dev realignedChunkInNAND buf tags);
     dev \<leftarrow> (if eccResult tags > YAFFS_ECC_RESULT_NO_ERROR
             then yaffs_HandleChunkError dev (chunkInNAND div nChunksPerBlock dev) else Some dev);
     Some (result, buf, tags, dev)
   }"

text \<open>The tags are updated in place, so they are part of the result.\<close>

definition yaffs_WriteChunkWithTagsToNAND ::
    "'f yaffs_Device \<Rightarrow> int \<Rightarrow> u8 list option \<Rightarrow> yaffs_ExtendedTags \<Rightarrow>
     (int \<times> yaffs_ExtendedTags \<times> 'f yaffs_Device) option" where
  "yaffs_WriteChunkWithTagsToNAND dev chunkInNAND buf tags = do {
     let chunkInNAND = chunkInNAND - chunkOffset dev;
     let tags = tags\<lparr>sequenceNumber := dev_sequenceNumber dev, chunkUsed := 1\<rparr>;
     (r, dev) \<leftarrow>
       (case writeChunkWithTagsToNAND dev of
          Some wr \<Rightarrow> (let (r, f) = wr (genericDevice dev) chunkInNAND buf tags
                      in Some (r, dev\<lparr>genericDevice := f\<rparr>))
        | None \<Rightarrow> yaffs_TagsCompatabilityWriteChunkWithTagsToNAND dev chunkInNAND buf tags);
     Some (r, tags, dev)
   }"

definition yaffs_MarkBlockBad :: "'f yaffs_Device \<Rightarrow> int \<Rightarrow> (int \<times> 'f yaffs_Device) option" where
  "yaffs_MarkBlockBad dev blockNo =
     (let blockNo = blockNo - blockOffset dev
      in case markNANDBlockBad dev of
           Some mb \<Rightarrow> (let (r, f) = mb (genericDevice dev) blockNo in Some (r, dev\<lparr>genericDevice := f\<rparr>))
         | None \<Rightarrow> yaffs_TagsCompatabilityMarkNANDBlockBad dev blockNo)"

definition yaffs_QueryInitialBlockState ::
    "'f yaffs_Device \<Rightarrow> int \<Rightarrow> (int \<times> yaffs_BlockState \<times> u32 \<times> 'f yaffs_Device) option" where
  "yaffs_QueryInitialBlockState dev blockNo =
     (let blockNo = blockNo - blockOffset dev
      in case queryNANDBlock dev of
           Some q \<Rightarrow> (let (r, s, n, f) = q (genericDevice dev) blockNo in Some (r, s, n, dev\<lparr>genericDevice := f\<rparr>))
         | None \<Rightarrow> yaffs_TagsCompatabilityQueryNANDBlock dev blockNo)"

definition yaffs_EraseBlockInNAND :: "'f yaffs_Device \<Rightarrow> int \<Rightarrow> (int \<times> 'f yaffs_Device) option" where
  "yaffs_EraseBlockInNAND dev blockInNAND = do {
     let blockInNAND = blockInNAND - blockOffset dev;
     let dev = dev\<lparr>nBlockErasures := nBlockErasures dev + 1\<rparr>;
     er \<leftarrow> eraseBlockInNAND dev;
     let (result, f) = er (genericDevice dev) blockInNAND;
     Some (result, dev\<lparr>genericDevice := f\<rparr>)
   }"

definition yaffs_InitialiseNAND :: "'f yaffs_Device \<Rightarrow> (int \<times> 'f yaffs_Device) option" where
  "yaffs_InitialiseNAND dev = do {
     ini \<leftarrow> initialiseNAND dev;
     let (r, f) = ini (genericDevice dev);
     Some (r, dev\<lparr>genericDevice := f\<rparr>)
   }"

section \<open>Temporary buffers\<close>

definition YAFFS_N_TEMP_BUFFERS :: nat where "YAFFS_N_TEMP_BUFFERS = 4"

text \<open>
  The allocator hands out the next unused address; the argument tells for each request whether
  it succeeds (a null pointer is address zero).
\<close>

fun initTempBuffers_loop :: "bool list \<Rightarrow> 'f yaffs_Device \<Rightarrow> nat \<times> 'f yaffs_Device" where
  "initTempBuffers_loop [] dev = (1, dev)"
| "initTempBuffers_loop (ok # oks) dev =
     (let i = YAFFS_N_TEMP_BUFFERS - length (ok # oks);
          buf = (if ok then nextAddress dev else 0);
          dev = dev\<lparr>tempBuffer := (tempBuffer dev)[i := (tempBuffer dev ! i)\<lparr>line := 0, buffer := buf\<rparr>],
                    nextAddress := Suc (nextAddress dev)\<rparr>
      in if buf = 0 then (0, dev) else if oks = [] then (buf, dev) else initTempBuffers_loop oks dev)"

definition yaffs_InitialiseTempBuffers :: "bool list \<Rightarrow> 'f yaffs_Device \<Rightarrow> int \<times> 'f yaffs_Device" where
  "yaffs_InitialiseTempBuffers oks dev =
     (let dev = dev\<lparr>tempBuffer := replicate YAFFS_N_TEMP_BUFFERS \<lparr>buffer = 0, line = 0, maxLine = 0\<rparr>\<rparr>;
          (buf, dev) = initTempBuffers_loop (take YAFFS_N_TEMP_BUFFERS oks) dev
      in (if buf \<noteq> 0 then YAFFS_OK else YAFFS_FAIL, dev))"

fun free_index :: "yaffs_TempBuffer list \<Rightarrow> nat option" where
  "free_index [] = None"
| "free_index (t # ts) = (if line t = 0 then Some 0 else map_option Suc (free_index ts))"

definition yaffs_GetTempBuffer :: "'f yaffs_Device \<Rightarrow> int \<Rightarrow> nat \<times> 'f yaffs_Device" where
  "yaffs_GetTempBuffer dev lineNo =
     (case free_index (tempBuffer dev) of
        Some i \<Rightarrow>
          (let tb = (tempBuffer dev)[i := (tempBuffer dev ! i)\<lparr>line := lineNo\<rparr>]
           in (buffer (tb ! i),
               if int (i + 1) > maxTemp dev then
                 dev\<lparr>maxTemp := int (i + 1),
                     tempBuffer := map (\<lambda>t. t\<lparr>maxLine := line t\<rparr>) (take (i + 1) tb) @ drop (i + 1) tb\<rparr>
               else dev\<lparr>tempBuffer := tb\<rparr>))
      | None \<Rightarrow>
          (nextAddress dev,
           dev\<lparr>unmanagedTempAllocations := unmanagedTempAllocations dev + 1,
               nextAddress := Suc (nextAddress dev)\<rparr>))"

fun buffer_index :: "nat \<Rightarrow> yaffs_TempBuffer list \<Rightarrow> nat option" where
  "buffer_index b [] = None"
| "buffer_index b (t # ts) = (if buffer t = b then Some 0 else map_option Suc (buffer_index b ts))"

definition yaffs_ReleaseTempBuffer :: "'f yaffs_Device \<Rightarrow> nat \<Rightarrow> 'f yaffs_Device" where
  "yaffs_ReleaseTempBuffer dev buf =
     (case buffer_index buf (tempBuffer dev) of
        Some i \<Rightarrow> dev\<lparr>tempBuffer := (tempBuffer dev)[i := (tempBuffer dev ! i)\<lparr>line := 0\<rparr>]\<rparr>
      | None \<Rightarrow>
          if buf \<noteq> 0 then dev\<lparr>unmanagedTempDeallocations := unmanagedTempDeallocations dev + 1\<rparr> else dev)"

section \<open>Checking that a chunk is erased\<close>

text \<open>A read past the end of the buffer is undefined.\<close>

fun yaffs_CheckFF :: "u8 list \<Rightarrow> nat \<Rightarrow> bool option" where
  "yaffs_CheckFF buf 0 = Some True"
| "yaffs_CheckFF [] (Suc n) = None"
| "yaffs_CheckFF (b # buf) (Suc n) = (if b \<noteq> 0xFF then Some False else yaffs_CheckFF buf n)"

lemma CheckFF_total: "n \<le> length buf \<Longrightarrow> \<exists>ff. yaffs_CheckFF buf n = Some ff"
  by (induction buf n rule: yaffs_CheckFF.induct) auto

definition yaffs_CheckChunkErased :: "'f yaffs_Device \<Rightarrow> int \<Rightarrow> (int \<times> 'f yaffs_Device) option" where
  "yaffs_CheckChunkErased dev chunkInNAND = do {
     let (data, dev) = yaffs_GetTempBuffer dev 896;
     (result, buf, tags, dev) \<leftarrow> yaffs_ReadChunkWithTagsFromNAND dev chunkInNAND (Some (heap dev data)) (stackExtTags dev);
     let content = (case buf of Some b \<Rightarrow> b | None \<Rightarrow> heap dev data);
     let dev = dev\<lparr>heap :=(heap dev)(data := content)\<rparr>;
     let retval = (if eccResult tags > YAFFS_ECC_RESULT_NO_ERROR then YAFFS_FAIL else YAFFS_OK);
     ff \<leftarrow> yaffs_CheckFF content (nat (nDataBytesPerChunk dev));
     let retval = (if \<not> ff \<or> chunkUsed tags \<noteq> 0
                   then YAFFS_FAIL else retval);
     Some (retval, yaffs_ReleaseTempBuffer dev data)
   }"

end
