(* ===== verification/Checkpoint.thy ===== *)
theory Checkpoint
  imports NandIf
begin

text \<open>
  The checkpoint stream (yaffs_checkptrw.c): erasing the checkpoint blocks, opening the stream
  for writing or reading, moving bytes through the chunk buffer with running checksums,
  and closing; and the invalidation of a checkpoint (yaffs_guts.c).
\<close>

definition YAFFS_SEQUENCE_CHECKPOINT_DATA :: u32 where "YAFFS_SEQUENCE_CHECKPOINT_DATA = 0x21"

definition yaffs_CheckpointSpaceOk :: "'f yaffs_Device \<Rightarrow> bool" where
  "yaffs_CheckpointSpaceOk dev \<longleftrightarrow> \<not> nErasedBlocks dev - nReservedBlocks dev \<le> 0"

definition checkpointErase_step :: "int \<Rightarrow> 'f yaffs_Device \<Rightarrow> 'f yaffs_Device option" where
  "checkpointErase_step i dev = do {
     bi \<leftarrow> yaffs_GetBlockInfo dev i;
     if blockState bi = YAFFS_BLOCK_STATE_CHECKPOINT then do {
       er \<leftarrow> eraseBlockInNAND dev;
       let (r, f) = er (genericDevice dev) (i - blockOffset dev);
       let dev = dev\<lparr>genericDevice := f\<rparr>;
       if r \<noteq> 0 then
         Some ((setBlockInfo dev i (bi\<lparr>blockState := YAFFS_BLOCK_STATE_EMPTY\<rparr>))
           \<lparr>nErasedBlocks := nErasedBlocks dev + 1, nFreeChunks := nFreeChunks dev + nChunksPerBlock dev\<rparr>)
       else do {
         mb \<leftarrow> markNANDBlockBad dev;
         let (r, f) = mb (genericDevice dev) i;
         Some (setBlockInfo (dev\<lparr>genericDevice := f\<rparr>) i (bi\<lparr>blockState := YAFFS_BLOCK_STATE_DEAD\<rparr>))
       }
     } else Some dev
   }"

fun checkpointErase_loop :: "int list \<Rightarrow> 'f yaffs_Device \<Rightarrow> 'f yaffs_Device option" where
  "checkpointErase_loop [] dev = Some dev"
| "checkpointErase_loop (i # is) dev = do { dev \<leftarrow> checkpointErase_step i dev; checkpointErase_loop is dev }"

definition yaffs_CheckpointErase :: "'f yaffs_Device \<Rightarrow> (int \<times> 'f yaffs_Device) option" where
  "yaffs_CheckpointErase dev =
     (if eraseBlockInNAND dev = None then Some (0, dev)
      else do {
        dev \<leftarrow> checkpointErase_loop [internalStartBlock dev..internalEndBlock dev] dev;
        Some (1, dev\<lparr>blocksInCheckpoint := 0\<rparr>)
      })"

fun nextErased_loop :: "int list \<Rightarrow> 'f yaffs_Device \<Rightarrow> 'f yaffs_Device option" where
  "nextErased_loop [] dev = Some (dev\<lparr>checkpointNextBlock := -1, checkpointCurrentBlock := -1\<rparr>)"
| "nextErased_loop (i # is) dev = do {
     bi \<leftarrow> yaffs_GetBlockInfo dev i;
     if blockState bi = YAFFS_BLOCK_STATE_EMPTY
     then Some (dev\<lparr>checkpointNextBlock := i + 1, checkpointCurrentBlock := i\<rparr>)
     else nextErased_loop is dev
   }"

definition yaffs_CheckpointFindNextErasedBlock :: "'f yaffs_Device \<Rightarrow> 'f yaffs_Device option" where
  "yaffs_CheckpointFindNextErasedBlock dev =
     (if checkpointNextBlock dev \<ge> 0 \<and> checkpointNextBlock dev \<le> internalEndBlock dev \<and>
         nErasedBlocks dev - nReservedBlocks dev > 0
      then nextErased_loop [checkpointNextBlock dev..internalEndBlock dev] dev
      else nextErased_loop [] dev)"

fun nextCheckpoint_loop :: "int list \<Rightarrow> yaffs_ExtendedTags \<Rightarrow> 'f yaffs_Device \<Rightarrow> 'f yaffs_Device option" where
  "nextCheckpoint_loop [] tags dev = Some (dev\<lparr>checkpointNextBlock := -1, checkpointCurrentBlock := -1\<rparr>)"
| "nextCheckpoint_loop (i # is) tags dev = do {
     rd \<leftarrow> readChunkWithTagsFromNAND dev;
     let (r, b, tags, f) = rd (genericDevice dev) (i * nChunksPerBlock dev - chunkOffset dev) None tags;
     let dev = dev\<lparr>genericDevice := f\<rparr>;
     if sequenceNumber tags = YAFFS_SEQUENCE_CHECKPOINT_DATA then
       (if 0 \<le> blocksInCheckpoint dev \<and> nat (blocksInCheckpoint dev) < length (checkpointBlockList dev) then
          Some (dev\<lparr>checkpointNextBlock := sint (objectId tags), checkpointCurrentBlock := i,
            checkpointBlockList := (checkpointBlockList dev)[nat (blocksInCheckpoint dev) := i],
            blocksInCheckpoint := blocksInCheckpoint dev + 1\<rparr>)
        else None)
     else nextCheckpoint_loop is tags dev
   }"

definition yaffs_CheckpointFindNextCheckpointBlock :: "'f yaffs_Device \<Rightarrow> 'f yaffs_Device option" where
  "yaffs_CheckpointFindNextCheckpointBlock dev =
     (if blocksInCheckpoint dev < checkpointMaxBlocks dev
      then nextCheckpoint_loop [checkpointNextBlock dev..internalEndBlock dev] (stackExtTags dev) dev
      else nextCheckpoint_loop [] (stackExtTags dev) dev)"

text \<open>
  The allocation of the buffer succeeds or not by the first argument; a buffer fresh from the
  allocator that is opened for reading holds the given bytes.
\<close>

definition yaffs_CheckpointOpen ::
    "u8 list option \<Rightarrow> 'f yaffs_Device \<Rightarrow> bool \<Rightarrow> (int \<times> 'f yaffs_Device) option" where
  "yaffs_CheckpointOpen fresh dev forWriting =
     (if writeChunkWithTagsToNAND dev = None \<or> readChunkWithTagsFromNAND dev = None \<or>
         eraseBlockInNAND dev = None \<or> markNANDBlockBad dev = None then Some (0, dev)
      else if forWriting \<and> \<not> yaffs_CheckpointSpaceOk dev then Some (0, dev)
      else (let dev = (if checkpointBuffer dev = None then dev\<lparr>checkpointBuffer := fresh\<rparr> else dev)
            in if checkpointBuffer dev = None then Some (0, dev)
               else (let dev = dev\<lparr>checkpointPageSequence := 0, checkpointOpenForWrite := forWriting,
                       checkpointByteCount := 0, checkpointSum := 0, checkpointXor := 0,
                       checkpointCurrentBlock := -1, checkpointCurrentChunk := -1,
                       checkpointNextBlock := internalStartBlock dev\<rparr>
                     in if forWriting then
                          yaffs_CheckpointErase (dev\<lparr>checkpointBuffer := Some (replicate (nat (nDataBytesPerChunk dev)) 0),
                            checkpointByteOffset := 0\<rparr>)
                        else (let maxBlocks = (internalEndBlock dev - internalStartBlock dev) div 16 + 2
                              in Some (1, dev\<lparr>checkpointByteOffset := nDataBytesPerChunk dev, blocksInCheckpoint := 0,
                                   checkpointMaxBlocks := maxBlocks,
                                   checkpointBlockList := replicate (nat maxBlocks) (-1)\<rparr>)))))"

definition yaffs_GetCheckpointSum :: "'f yaffs_Device \<Rightarrow> u32" where
  "yaffs_GetCheckpointSum dev = push_bit 8 (checkpointSum dev) OR (checkpointXor dev AND 0xFF)"

definition yaffs_CheckpointFlushBuffer :: "'f yaffs_Device \<Rightarrow> (int \<times> 'f yaffs_Device) option" where
  "yaffs_CheckpointFlushBuffer dev = do {
     dev \<leftarrow> (if checkpointCurrentBlock dev < 0
             then map_option (\<lambda>d. d\<lparr>checkpointCurrentChunk := 0\<rparr>) (yaffs_CheckpointFindNextErasedBlock dev)
             else Some dev);
     if checkpointCurrentBlock dev < 0 then Some (0, dev)
     else do {
       let tags = (stackExtTags dev)\<lparr>chunkDeleted := 0, objectId := word_of_int (checkpointNextBlock dev),
             chunkId := word_of_int (checkpointPageSequence dev + 1),
             sequenceNumber := YAFFS_SEQUENCE_CHECKPOINT_DATA,
             byteCount := word_of_int (nDataBytesPerChunk dev)\<rparr>;
       dev \<leftarrow> (if checkpointCurrentChunk dev = 0 then do {
                 bi \<leftarrow> yaffs_GetBlockInfo dev (checkpointCurrentBlock dev);
                 Some ((setBlockInfo dev (checkpointCurrentBlock dev) (bi\<lparr>blockState := YAFFS_BLOCK_STATE_CHECKPOINT\<rparr>))
                   \<lparr>blocksInCheckpoint := blocksInCheckpoint dev + 1\<rparr>)
               } else Some dev);
       let chunk = checkpointCurrentBlock dev * nChunksPerBlock dev + checkpointCurrentChunk dev;
       wr \<leftarrow> writeChunkWithTagsToNAND dev;
       let (r, f) = wr (genericDevice dev) (chunk - chunkOffset dev) (checkpointBuffer dev) tags;
       let dev = dev\<lparr>genericDevice := f, checkpointByteOffset := 0,
             checkpointPageSequence := checkpointPageSequence dev + 1,
             checkpointCurrentChunk := checkpointCurrentChunk dev + 1\<rparr>;
       let dev = (if checkpointCurrentChunk dev \<ge> nChunksPerBlock dev
             then dev\<lparr>checkpointCurrentChunk := 0, checkpointCurrentBlock := -1\<rparr> else dev);
       Some (1, dev\<lparr>checkpointBuffer := Some (replicate (nat (nDataBytesPerChunk dev)) 0)\<rparr>)
     }
   }"

fun checkpointWrite_loop :: "u8 list \<Rightarrow> int \<Rightarrow> 'f yaffs_Device \<Rightarrow> (int \<times> 'f yaffs_Device) option" where
  "checkpointWrite_loop [] i dev = Some (i, dev)"
| "checkpointWrite_loop (b # bs) i dev = do {
     buf \<leftarrow> checkpointBuffer dev;
     let off = checkpointByteOffset dev;
     if 0 \<le> off \<and> nat off < length buf then do {
       let dev = dev\<lparr>checkpointBuffer := Some (buf[nat off := b]),
             checkpointSum := checkpointSum dev + ucast b, checkpointXor := checkpointXor dev XOR ucast b,
             checkpointByteOffset := off + 1, checkpointByteCount := checkpointByteCount dev + 1\<rparr>;
       (ok, dev) \<leftarrow> (if checkpointByteOffset dev < 0 \<or> checkpointByteOffset dev \<ge> nDataBytesPerChunk dev
                     then yaffs_CheckpointFlushBuffer dev else Some (1, dev));
       if ok \<noteq> 0 then checkpointWrite_loop bs (i + 1) dev else Some (i + 1, dev)
     } else None
   }"

definition yaffs_CheckpointWrite :: "'f yaffs_Device \<Rightarrow> u8 list \<Rightarrow> (int \<times> 'f yaffs_Device) option" where
  "yaffs_CheckpointWrite dev data =
     (if checkpointBuffer dev = None then Some (0, dev)
      else if \<not> checkpointOpenForWrite dev then Some (-1, dev)
      else checkpointWrite_loop data 0 dev)"

text \<open>One refill of the buffer while reading: the flag says whether reading can go on.\<close>

definition checkpointRefill ::
    "yaffs_ExtendedTags \<Rightarrow> 'f yaffs_Device \<Rightarrow> (bool \<times> yaffs_ExtendedTags \<times> 'f yaffs_Device) option" where
  "checkpointRefill tags dev = do {
     dev \<leftarrow> (if checkpointCurrentBlock dev < 0
             then map_option (\<lambda>d. d\<lparr>checkpointCurrentChunk := 0\<rparr>) (yaffs_CheckpointFindNextCheckpointBlock dev)
             else Some dev);
     if checkpointCurrentBlock dev < 0 then Some (False, tags, dev)
     else do {
       let chunk = checkpointCurrentBlock dev * nChunksPerBlock dev + checkpointCurrentChunk dev;
       rd \<leftarrow> readChunkWithTagsFromNAND dev;
       let (r, b, tags, f) = rd (genericDevice dev) (chunk - chunkOffset dev) (checkpointBuffer dev) tags;
       let ok = \<not> (chunkId tags \<noteq> word_of_int (checkpointPageSequence dev + 1) \<or>
                   sequenceNumber tags \<noteq> YAFFS_SEQUENCE_CHECKPOINT_DATA);
       let dev = dev\<lparr>genericDevice := f, checkpointBuffer := b, checkpointByteOffset := 0,
             checkpointPageSequence := checkpointPageSequence dev + 1,
             checkpointCurrentChunk := checkpointCurrentChunk dev + 1\<rparr>;
       let dev = (if checkpointCurrentChunk dev \<ge> nChunksPerBlock dev then dev\<lparr>checkpointCurrentBlock := -1\<rparr> else dev);
       Some (ok, tags, dev)
     }
   }"

text \<open>The loop of yaffs_CheckpointRead over the bytes still wanted; the result lists the bytes read.\<close>

fun checkpointRead_loop ::
    "nat \<Rightarrow> yaffs_ExtendedTags \<Rightarrow> u8 list \<Rightarrow> 'f yaffs_Device \<Rightarrow> (u8 list \<times> 'f yaffs_Device) option" where
  "checkpointRead_loop 0 tags acc dev = Some (acc, dev)"
| "checkpointRead_loop (Suc n) tags acc dev = do {
     (ok, tags, dev) \<leftarrow> (if checkpointByteOffset dev < 0 \<or> checkpointByteOffset dev \<ge> nDataBytesPerChunk dev
                         then checkpointRefill tags dev else Some (True, tags, dev));
     if ok then do {
       buf \<leftarrow> checkpointBuffer dev;
       let off = checkpointByteOffset dev;
       if 0 \<le> off \<and> nat off < length buf then
         (let b = buf ! nat off
          in checkpointRead_loop n tags (acc @ [b])
               (dev\<lparr>checkpointSum := checkpointSum dev + ucast b, checkpointXor := checkpointXor dev XOR ucast b,
                    checkpointByteOffset := off + 1, checkpointByteCount := checkpointByteCount dev + 1\<rparr>))
       else None
     } else Some (acc, dev)
   }"

definition yaffs_CheckpointRead :: "'f yaffs_Device \<Rightarrow> nat \<Rightarrow> (int \<times> u8 list \<times> 'f yaffs_Device) option" where
  "yaffs_CheckpointRead dev n =
     (if checkpointBuffer dev = None then Some (0, [], dev)
      else if checkpointOpenForWrite dev then Some (-1, [], dev)
      else map_option (\<lambda>(bs, dev). (int (length bs), bs, dev)) (checkpointRead_loop n (stackExtTags dev) [] dev))"

fun closeList_loop :: "int list \<Rightarrow> 'f yaffs_Device \<Rightarrow> 'f yaffs_Device option" where
  "closeList_loop [] dev = Some dev"
| "closeList_loop (b # bs) dev =
     (if b \<ge> 0 then do {
        bi \<leftarrow> yaffs_GetBlockInfo dev b;
        closeList_loop bs (if blockState bi = YAFFS_BLOCK_STATE_EMPTY
          then setBlockInfo dev b (bi\<lparr>blockState := YAFFS_BLOCK_STATE_CHECKPOINT\<rparr>) else dev)
      } else Some dev)"

definition yaffs_CheckpointClose :: "'f yaffs_Device \<Rightarrow> (int \<times> 'f yaffs_Device) option" where
  "yaffs_CheckpointClose dev = do {
     dev \<leftarrow> (if checkpointOpenForWrite dev then
               (if checkpointByteOffset dev \<noteq> 0 then map_option snd (yaffs_CheckpointFlushBuffer dev) else Some dev)
             else map_option (\<lambda>d. d\<lparr>checkpointBlockList := []\<rparr>)
                    (closeList_loop (take (nat (blocksInCheckpoint dev)) (checkpointBlockList dev)) dev));
     let dev = dev\<lparr>nFreeChunks := nFreeChunks dev - blocksInCheckpoint dev * nChunksPerBlock dev,
           nErasedBlocks := nErasedBlocks dev - blocksInCheckpoint dev\<rparr>;
     Some (if checkpointBuffer dev \<noteq> None then (1, dev\<lparr>checkpointBuffer := None\<rparr>) else (0, dev))
   }"

definition yaffs_CheckpointInvalidateStream :: "'f yaffs_Device \<Rightarrow> (int \<times> 'f yaffs_Device) option" where
  "yaffs_CheckpointInvalidateStream dev =
     (if \<not> yaffs_CheckpointSpaceOk dev then Some (0, dev) else yaffs_CheckpointErase dev)"

text \<open>The notification of the superblock has no effect on the device.\<close>

definition yaffs_InvalidateCheckpoint :: "'f yaffs_Device \<Rightarrow> 'f yaffs_Device option" where
  "yaffs_InvalidateCheckpoint dev =
     (if isCheckpointed dev \<or> blocksInCheckpoint dev > 0
      then map_option snd (yaffs_CheckpointInvalidateStream (dev\<lparr>isCheckpointed := False\<rparr>))
      else Some dev)"

end
