(* ===== verification/BlockManager.thy ===== *)
theory BlockManager
  imports Checkpoint
begin

text \<open>
  Block management and page allocation (yaffs_guts.c): the bitmap of chunks in use, the run-time
  verification of the block table, finding a block to allocate from or to garbage collect, allocating and
  deleting chunks, erasing and retiring blocks, and the accounting of free space.
\<close>

section \<open>The chunk bitmap\<close>

text \<open>The position of a block's bits in the bitmap.\<close>

definition yaffs_BlockBits :: "'f yaffs_Device \<Rightarrow> int \<Rightarrow> nat option" where
  "yaffs_BlockBits dev blk =
     (if blk < internalStartBlock dev \<or> blk > internalEndBlock dev then None
      else Some (nat (chunkBitmapStride dev * (blk - internalStartBlock dev))))"

definition yaffs_VerifyChunkBitId :: "'f yaffs_Device \<Rightarrow> int \<Rightarrow> int \<Rightarrow> unit option" where
  "yaffs_VerifyChunkBitId dev blk chunk =
     (if blk < internalStartBlock dev \<or> blk > internalEndBlock dev \<or> chunk < 0 \<or> chunk \<ge> nChunksPerBlock dev
      then None else Some ())"

definition yaffs_ClearChunkBits :: "'f yaffs_Device \<Rightarrow> int \<Rightarrow> 'f yaffs_Device option" where
  "yaffs_ClearChunkBits dev blk = do {
     blkBits \<leftarrow> yaffs_BlockBits dev blk;
     let n = nat (chunkBitmapStride dev);
     Some (dev\<lparr>chunkBits := take blkBits (chunkBits dev) @ replicate n 0 @ drop (blkBits + n) (chunkBits dev)\<rparr>)
   }"

definition yaffs_ClearChunkBit :: "'f yaffs_Device \<Rightarrow> int \<Rightarrow> int \<Rightarrow> 'f yaffs_Device option" where
  "yaffs_ClearChunkBit dev blk chunk = do {
     blkBits \<leftarrow> yaffs_BlockBits dev blk;
     yaffs_VerifyChunkBitId dev blk chunk;
     let i = blkBits + nat (chunk div 8);
     Some (dev\<lparr>chunkBits := (chunkBits dev)[i := chunkBits dev ! i AND NOT (push_bit (nat (chunk mod 8)) 1)]\<rparr>)
   }"

definition yaffs_SetChunkBit :: "'f yaffs_Device \<Rightarrow> int \<Rightarrow> int \<Rightarrow> 'f yaffs_Device option" where
  "yaffs_SetChunkBit dev blk chunk = do {
     blkBits \<leftarrow> yaffs_BlockBits dev blk;
     yaffs_VerifyChunkBitId dev blk chunk;
     let i = blkBits + nat (chunk div 8);
     Some (dev\<lparr>chunkBits := (chunkBits dev)[i := chunkBits dev ! i OR push_bit (nat (chunk mod 8)) 1]\<rparr>)
   }"

definition yaffs_CheckChunkBit :: "'f yaffs_Device \<Rightarrow> int \<Rightarrow> int \<Rightarrow> bool option" where
  "yaffs_CheckChunkBit dev blk chunk = do {
     blkBits \<leftarrow> yaffs_BlockBits dev blk;
     yaffs_VerifyChunkBitId dev blk chunk;
     Some (chunkBits dev ! (blkBits + nat (chunk div 8)) AND push_bit (nat (chunk mod 8)) 1 \<noteq> 0)
   }"

definition yaffs_StillSomeChunkBits :: "'f yaffs_Device \<Rightarrow> int \<Rightarrow> bool option" where
  "yaffs_StillSomeChunkBits dev blk = do {
     blkBits \<leftarrow> yaffs_BlockBits dev blk;
     Some (list_ex (\<lambda>b. b \<noteq> 0) (take (nat (chunkBitmapStride dev)) (drop blkBits (chunkBits dev))))
   }"

definition yaffs_CountChunkBits :: "'f yaffs_Device \<Rightarrow> int \<Rightarrow> int option" where
  "yaffs_CountChunkBits dev blk = do {
     blkBits \<leftarrow> yaffs_BlockBits dev blk;
     Some (fold (\<lambda>b n. count_bits_loop n b) (take (nat (chunkBitmapStride dev)) (drop blkBits (chunkBits dev))) 0)
   }"

section \<open>Run-time verification\<close>

definition YAFFS_TRACE_ERASE :: u32 where "YAFFS_TRACE_ERASE = 0x00000020"
definition YAFFS_TRACE_VERIFY :: u32 where "YAFFS_TRACE_VERIFY = 0x00010000"
definition YAFFS_TRACE_VERIFY_FULL :: u32 where "YAFFS_TRACE_VERIFY_FULL = 0x00040000"
definition YAFFS_LOWEST_SEQUENCE_NUMBER :: u32 where "YAFFS_LOWEST_SEQUENCE_NUMBER = 0x00001000"

definition yaffs_SkipVerification :: "'f yaffs_Device \<Rightarrow> bool" where
  "yaffs_SkipVerification dev \<longleftrightarrow> (yaffs_traceMask dev AND (YAFFS_TRACE_VERIFY OR YAFFS_TRACE_VERIFY_FULL)) = 0"

text \<open>The messages of the verifier; the verifier only prints.\<close>

datatype complaint =
    BadRunState int | IllegalValues int | InconsistentBits int | SuspectSequence int
  | TooManyAllocating | CheckpointCountWrong | ErasedCountWrong | TooManyCollecting

definition yaffs_VerifyBlock :: "'f yaffs_Device \<Rightarrow> yaffs_BlockInfo \<Rightarrow> int \<Rightarrow> complaint list option" where
  "yaffs_VerifyBlock dev bi n =
     (if yaffs_SkipVerification dev then Some []
      else do {
        let actuallyUsed = pagesInUse bi - softDeletions bi;
        inUse \<leftarrow> yaffs_CountChunkBits dev n;
        Some ((if blockState bi \<in> {YAFFS_BLOCK_STATE_UNKNOWN, YAFFS_BLOCK_STATE_SCANNING, YAFFS_BLOCK_STATE_NEEDS_SCANNING}
               then [BadRunState n] else []) @
              (if pagesInUse bi < 0 \<or> pagesInUse bi > nChunksPerBlock dev \<or>
                  softDeletions bi < 0 \<or> softDeletions bi > nChunksPerBlock dev \<or>
                  actuallyUsed < 0 \<or> actuallyUsed > nChunksPerBlock dev then [IllegalValues n] else []) @
              (if inUse \<noteq> pagesInUse bi then [InconsistentBits n] else []) @
              (if isYaffs2 dev \<and> blockState bi \<in> {YAFFS_BLOCK_STATE_ALLOCATING, YAFFS_BLOCK_STATE_FULL} \<and>
                  (bi_sequenceNumber bi < YAFFS_LOWEST_SEQUENCE_NUMBER \<or> bi_sequenceNumber bi > 10000000)
               then [SuspectSequence n] else []))
      })"

definition nBlocksPerState :: "'f yaffs_Device \<Rightarrow> yaffs_BlockState \<Rightarrow> int" where
  "nBlocksPerState dev s = int (length (filter (\<lambda>bi. blockState bi = s) (blockInfo dev)))"

fun verifyBlocks_loop :: "int list \<Rightarrow> 'f yaffs_Device \<Rightarrow> complaint list option" where
  "verifyBlocks_loop [] dev = Some []"
| "verifyBlocks_loop (i # is) dev = do {
     bi \<leftarrow> yaffs_GetBlockInfo dev i;
     c \<leftarrow> yaffs_VerifyBlock dev bi i;
     cs \<leftarrow> verifyBlocks_loop is dev;
     Some (c @ cs)
   }"

definition yaffs_VerifyBlocks :: "'f yaffs_Device \<Rightarrow> complaint list option" where
  "yaffs_VerifyBlocks dev =
     (if yaffs_SkipVerification dev then Some []
      else do {
        cs \<leftarrow> verifyBlocks_loop [internalStartBlock dev..internalEndBlock dev] dev;
        Some (cs @
          (if nBlocksPerState dev YAFFS_BLOCK_STATE_ALLOCATING > 1 then [TooManyAllocating] else []) @
          (if blocksInCheckpoint dev \<noteq> nBlocksPerState dev YAFFS_BLOCK_STATE_CHECKPOINT then [CheckpointCountWrong] else []) @
          (if nErasedBlocks dev \<noteq> nBlocksPerState dev YAFFS_BLOCK_STATE_EMPTY then [ErasedCountWrong] else []) @
          (if nBlocksPerState dev YAFFS_BLOCK_STATE_COLLECTING > 1 then [TooManyCollecting] else []))
      })"

section \<open>Retiring, erasing and initialising blocks\<close>

definition yaffs_RetireBlock :: "'f yaffs_Device \<Rightarrow> int \<Rightarrow> 'f yaffs_Device option" where
  "yaffs_RetireBlock dev blockInNAND = do {
     dev \<leftarrow> yaffs_InvalidateCheckpoint dev;
     (r, dev) \<leftarrow> yaffs_MarkBlockBad dev blockInNAND;
     bi \<leftarrow> yaffs_GetBlockInfo dev blockInNAND;
     Some ((setBlockInfo dev blockInNAND (bi\<lparr>blockState := YAFFS_BLOCK_STATE_DEAD, gcPrioritise := False, needsRetiring := False\<rparr>))
       \<lparr>nRetiredBlocks := nRetiredBlocks dev + 1\<rparr>)
   }"

text \<open>The memory for the tables is allocated or not, at the first or the second try.\<close>

definition yaffs_InitialiseBlocks :: "bool \<Rightarrow> bool \<Rightarrow> 'f yaffs_Device \<Rightarrow> int \<times> 'f yaffs_Device" where
  "yaffs_InitialiseBlocks gotInfo gotBits dev =
     (let nBlocks = internalEndBlock dev - internalStartBlock dev + 1;
          dev = dev\<lparr>blockInfo := [], chunkBits := [], allocationBlock := -1\<rparr>;
          dev = (if gotInfo then dev\<lparr>chunkBitmapStride := (nChunksPerBlock dev + 7) div 8\<rparr> else dev)
      in if gotInfo \<and> gotBits then
           (YAFFS_OK, dev\<lparr>blockInfo := replicate (nat nBlocks) zero_blockInfo,
              chunkBits := replicate (nat (chunkBitmapStride dev * nBlocks)) 0\<rparr>)
         else (YAFFS_FAIL, dev))"

text \<open>The check after an erasure only prints, but its reads count and may strike the block.\<close>

fun checkErased_loop :: "int list \<Rightarrow> 'f yaffs_Device \<Rightarrow> 'f yaffs_Device option" where
  "checkErased_loop [] dev = Some dev"
| "checkErased_loop (c # cs) dev = do { (r, dev) \<leftarrow> yaffs_CheckChunkErased dev c; checkErased_loop cs dev }"

definition yaffs_BlockBecameDirty :: "'f yaffs_Device \<Rightarrow> int \<Rightarrow> 'f yaffs_Device option" where
  "yaffs_BlockBecameDirty dev blockNo = do {
     bi \<leftarrow> yaffs_GetBlockInfo dev blockNo;
     let dev = setBlockInfo dev blockNo (bi\<lparr>blockState := YAFFS_BLOCK_STATE_DIRTY\<rparr>);
     (erasedOk, dev) \<leftarrow>
       (if \<not> needsRetiring bi then do {
          dev \<leftarrow> yaffs_InvalidateCheckpoint dev;
          (r, dev) \<leftarrow> yaffs_EraseBlockInNAND dev blockNo;
          Some (r, if r = 0 then dev\<lparr>nErasureFailures := nErasureFailures dev + 1\<rparr> else dev)
        } else Some (0, dev));
     dev \<leftarrow> (if erasedOk \<noteq> 0 \<and> ((yaffs_traceMask dev AND YAFFS_TRACE_ERASE) \<noteq> 0 \<or> \<not> yaffs_SkipVerification dev)
             then checkErased_loop [blockNo * nChunksPerBlock dev..blockNo * nChunksPerBlock dev + nChunksPerBlock dev - 1] dev
             else Some dev);
     if erasedOk \<noteq> 0 then do {
       bi \<leftarrow> yaffs_GetBlockInfo dev blockNo;
       let dev = (setBlockInfo dev blockNo (bi\<lparr>blockState := YAFFS_BLOCK_STATE_EMPTY, pagesInUse := 0, softDeletions := 0,
                    hasShrinkHeader := False, skipErasedCheck := True, gcPrioritise := False\<rparr>))
                 \<lparr>nErasedBlocks := nErasedBlocks dev + 1\<rparr>;
       yaffs_ClearChunkBits dev blockNo
     } else
       yaffs_RetireBlock (dev\<lparr>nFreeChunks := nFreeChunks dev - nChunksPerBlock dev\<rparr>) blockNo
   }"

section \<open>Choosing a block for garbage collection\<close>

definition YAFFS_PASSIVE_GC_CHUNKS :: int where "YAFFS_PASSIVE_GC_CHUNKS = 2"

fun oldestDirty_loop :: "int list \<Rightarrow> u32 \<Rightarrow> 'f yaffs_Device \<Rightarrow> u32 option" where
  "oldestDirty_loop [] seq dev = Some seq"
| "oldestDirty_loop (i # is) seq dev = do {
     b \<leftarrow> yaffs_GetBlockInfo dev i;
     oldestDirty_loop is (if blockState b = YAFFS_BLOCK_STATE_FULL \<and>
         pagesInUse b - softDeletions b < nChunksPerBlock dev \<and> bi_sequenceNumber b < seq
       then bi_sequenceNumber b else seq) dev
   }"

definition yaffs_BlockNotDisqualifiedFromGC :: "'f yaffs_Device \<Rightarrow> yaffs_BlockInfo \<Rightarrow> (bool \<times> 'f yaffs_Device) option" where
  "yaffs_BlockNotDisqualifiedFromGC dev bi =
     (if \<not> isYaffs2 dev then Some (True, dev)
      else if \<not> hasShrinkHeader bi then Some (True, dev)
      else do {
        dev \<leftarrow> (if oldestDirtySequence dev = 0 then do {
                  seq \<leftarrow> oldestDirty_loop [internalStartBlock dev..internalEndBlock dev] (dev_sequenceNumber dev) dev;
                  Some (dev\<lparr>oldestDirtySequence := seq\<rparr>)
                } else Some dev);
        Some (bi_sequenceNumber bi \<le> oldestDirtySequence dev, dev)
      })"

text \<open>
  The search for a block with pending prioritised collection: whether one exists, and the block
  chosen with its pages in use.
\<close>

fun prioritised_loop :: "int list \<Rightarrow> bool \<Rightarrow> 'f yaffs_Device \<Rightarrow> (bool \<times> (int \<times> int) option \<times> 'f yaffs_Device) option" where
  "prioritised_loop [] pending dev = Some (pending, None, dev)"
| "prioritised_loop (i # is) pending dev = do {
     bi \<leftarrow> yaffs_GetBlockInfo dev i;
     if gcPrioritise bi then
       (if blockState bi = YAFFS_BLOCK_STATE_FULL then do {
          (ok, dev) \<leftarrow> yaffs_BlockNotDisqualifiedFromGC dev bi;
          if ok then Some (True, Some (i, pagesInUse bi - softDeletions bi), dev)
          else prioritised_loop is True dev
        } else prioritised_loop is True dev)
     else prioritised_loop is pending dev
   }"

text \<open>The search for the dirtiest block: n steps on from block b.\<close>

fun dirtiest_loop :: "nat \<Rightarrow> int \<Rightarrow> int \<Rightarrow> int \<Rightarrow> 'f yaffs_Device \<Rightarrow> (int \<times> int \<times> 'f yaffs_Device) option" where
  "dirtiest_loop 0 b dirtiest pages dev = Some (b, dirtiest, dev)"
| "dirtiest_loop (Suc n) b dirtiest pages dev =
     (if \<not> pages > 0 then Some (b, dirtiest, dev)
      else do {
        let b = b + 1;
        let b = (if b < internalStartBlock dev \<or> b > internalEndBlock dev then internalStartBlock dev else b);
        bi \<leftarrow> yaffs_GetBlockInfo dev b;
        if blockState bi = YAFFS_BLOCK_STATE_FULL \<and> pagesInUse bi - softDeletions bi < pages then do {
          (ok, dev) \<leftarrow> yaffs_BlockNotDisqualifiedFromGC dev bi;
          if ok then dirtiest_loop n b b (pagesInUse bi - softDeletions bi) dev
          else dirtiest_loop n b dirtiest pages dev
        } else dirtiest_loop n b dirtiest pages dev
      })"

definition yaffs_FindBlockForGarbageCollection :: "'f yaffs_Device \<Rightarrow> bool \<Rightarrow> (int \<times> 'f yaffs_Device) option" where
  "yaffs_FindBlockForGarbageCollection dev aggressive = do {
     let b = currentDirtyChecker dev;
     (pending, found, dev) \<leftarrow>
       (if hasPendingPrioritisedGCs dev then do {
          (pending, found, dev) \<leftarrow> prioritised_loop [internalStartBlock dev..internalEndBlock dev - 1] False dev;
          Some (pending, found, if \<not> pending then dev\<lparr>hasPendingPrioritisedGCs := False\<rparr> else dev)
        } else Some (False, None, dev));
     let aggressive = (aggressive \<or> found \<noteq> None);
     let dev = dev\<lparr>nonAggressiveSkip := nonAggressiveSkip dev - 1\<rparr>;
     if \<not> aggressive \<and> nonAggressiveSkip dev > 0 then Some (-1, dev)
     else do {
       let nBlocks = internalEndBlock dev - internalStartBlock dev + 1;
       let iterations = (if aggressive then nBlocks else min (nBlocks div 16) 200);
       (b, dirtiest, dev) \<leftarrow>
         (case found of
            Some (i, pages) \<Rightarrow> Some (b, i, dev)
          | None \<Rightarrow> dirtiest_loop (nat (iterations + 1)) b (-1)
              (if aggressive then nChunksPerBlock dev else YAFFS_PASSIVE_GC_CHUNKS + 1) dev);
       let dev = dev\<lparr>currentDirtyChecker := b, oldestDirtySequence := 0\<rparr>;
       Some (dirtiest, if dirtiest > 0 then dev\<lparr>nonAggressiveSkip := 4\<rparr> else dev)
     }
   }"

section \<open>Allocation\<close>

fun findBlock_loop :: "nat \<Rightarrow> 'f yaffs_Device \<Rightarrow> (int \<times> 'f yaffs_Device) option" where
  "findBlock_loop 0 dev = Some (-1, dev)"
| "findBlock_loop (Suc n) dev = do {
     let finder = allocationBlockFinder dev + 1;
     let finder = (if finder < internalStartBlock dev \<or> finder > internalEndBlock dev then internalStartBlock dev else finder);
     let dev = dev\<lparr>allocationBlockFinder := finder\<rparr>;
     bi \<leftarrow> yaffs_GetBlockInfo dev finder;
     if blockState bi = YAFFS_BLOCK_STATE_EMPTY then
       (let seq = dev_sequenceNumber dev + 1
        in Some (finder, (setBlockInfo dev finder (bi\<lparr>blockState := YAFFS_BLOCK_STATE_ALLOCATING, bi_sequenceNumber := seq\<rparr>))
             \<lparr>dev_sequenceNumber := seq, nErasedBlocks := nErasedBlocks dev - 1\<rparr>))
     else findBlock_loop n dev
   }"

definition yaffs_FindBlockForAllocation :: "'f yaffs_Device \<Rightarrow> (int \<times> 'f yaffs_Device) option" where
  "yaffs_FindBlockForAllocation dev =
     (if nErasedBlocks dev < 1 then Some (-1, dev)
      else findBlock_loop (nat (internalEndBlock dev - internalStartBlock dev + 1)) dev)"

text \<open>
  Sizes of the structures in the checkpoint on a 32-bit target: yaffs_Tnode 32 bytes,
  yaffs_CheckpointValidity 16, yaffs_CheckpointDevice 40, yaffs_BlockInfo 8 and
  yaffs_CheckpointObject 28.
\<close>

definition sizeof_Tnode :: int where "sizeof_Tnode = 32"
definition sizeof_CheckpointValidity :: int where "sizeof_CheckpointValidity = 16"
definition sizeof_CheckpointDevice :: int where "sizeof_CheckpointDevice = 40"
definition sizeof_BlockInfo :: int where "sizeof_BlockInfo = 8"
definition sizeof_CheckpointObject :: int where "sizeof_CheckpointObject = 28"

definition yaffs_CalcCheckpointBlocksRequired :: "'f yaffs_Device \<Rightarrow> int \<times> 'f yaffs_Device" where
  "yaffs_CalcCheckpointBlocksRequired dev =
     (if nCheckpointBlocksRequired dev = 0 then
        (let devBlocks = endBlock dev - startBlock dev + 1;
             tnodeSize = uint (tnodeWidth dev * 16) div 8;
             tnodeSize = (if tnodeSize < sizeof_Tnode then sizeof_Tnode else tnodeSize);
             nBytes = sizeof_CheckpointValidity + sizeof_CheckpointDevice + devBlocks * sizeof_BlockInfo +
               devBlocks * chunkBitmapStride dev +
               (sizeof_CheckpointObject + 4) * (nObjectsCreated dev - nFreeObjects dev) +
               (tnodeSize + 4) * (nTnodesCreated dev - nFreeTnodes dev) + sizeof_CheckpointValidity + 4;
             nBlocks = nBytes div (nDataBytesPerChunk dev * nChunksPerBlock dev) + 3
         in (nBlocks, dev\<lparr>nCheckpointBlocksRequired := nBlocks\<rparr>))
      else (nCheckpointBlocksRequired dev, dev))"

definition yaffs_CheckSpaceForAllocation :: "'f yaffs_Device \<Rightarrow> bool \<times> 'f yaffs_Device" where
  "yaffs_CheckSpaceForAllocation dev =
     (let (required, dev) = yaffs_CalcCheckpointBlocksRequired dev;
          checkpointBlocks = required - blocksInCheckpoint dev;
          checkpointBlocks = (if checkpointBlocks < 0 then 0 else checkpointBlocks);
          reservedChunks = (nReservedBlocks dev + checkpointBlocks) * nChunksPerBlock dev
      in (nFreeChunks dev > reservedChunks, dev))"

text \<open>The page is taken from the allocating block, which becomes full with its last page.\<close>

definition takePage :: "'f yaffs_Device \<Rightarrow> (int \<times> int \<times> 'f yaffs_Device) option" where
  "takePage dev = do {
     let blk = allocationBlock dev;
     bi \<leftarrow> yaffs_GetBlockInfo dev blk;
     let retVal = blk * nChunksPerBlock dev + allocationPage dev;
     let dev = setBlockInfo dev blk (bi\<lparr>pagesInUse := s10 (pagesInUse bi + 1)\<rparr>);
     dev \<leftarrow> yaffs_SetChunkBit dev blk (allocationPage dev);
     let dev = dev\<lparr>allocationPage := allocationPage dev + 1, nFreeChunks := nFreeChunks dev - 1\<rparr>;
     if allocationPage dev \<ge> nChunksPerBlock dev then do {
       bi \<leftarrow> yaffs_GetBlockInfo dev blk;
       Some (retVal, blk, (setBlockInfo dev blk (bi\<lparr>blockState := YAFFS_BLOCK_STATE_FULL\<rparr>))\<lparr>allocationBlock := -1\<rparr>)
     } else Some (retVal, blk, dev)
   }"

text \<open>The result is the chunk, the block it lies in (blockUsedPtr) and the device.\<close>

definition yaffs_AllocateChunk :: "'f yaffs_Device \<Rightarrow> bool \<Rightarrow> (int \<times> int \<times> 'f yaffs_Device) option" where
  "yaffs_AllocateChunk dev useReserve = do {
     dev \<leftarrow> (if allocationBlock dev < 0 then
               map_option (\<lambda>(b, d). d\<lparr>allocationBlock := b, allocationPage := 0\<rparr>) (yaffs_FindBlockForAllocation dev)
             else Some dev);
     let (spaceOk, dev) = (if useReserve then (True, dev) else yaffs_CheckSpaceForAllocation dev);
     if \<not> spaceOk then Some (-1, -1, dev)
     else if allocationBlock dev \<ge> 0 then takePage dev
     else Some (-1, -1, dev)
   }"

definition yaffs_GetErasedChunks :: "'f yaffs_Device \<Rightarrow> int" where
  "yaffs_GetErasedChunks dev =
     (let n = nErasedBlocks dev * nChunksPerBlock dev
      in if allocationBlock dev > 0 then n + (nChunksPerBlock dev - allocationPage dev) else n)"

section \<open>Deletion and free space\<close>

text \<open>Writing the deletion mark, and pulling the page out of the management area.\<close>

definition markDeleted :: "'f yaffs_Device \<Rightarrow> int \<Rightarrow> yaffs_BlockInfo \<Rightarrow> bool \<Rightarrow> 'f yaffs_Device option" where
  "markDeleted dev chunk bi markNAND =
     (if markNAND \<and> blockState bi \<noteq> YAFFS_BLOCK_STATE_COLLECTING \<and> \<not> isYaffs2 dev then do {
        (r, tags, dev) \<leftarrow> yaffs_WriteChunkWithTagsToNAND dev chunk None
          ((yaffs_InitialiseTags (stackExtTags dev))\<lparr>chunkDeleted := 1\<rparr>);
        Some dev
      } else Some (dev\<lparr>nUnmarkedDeletions := nUnmarkedDeletions dev + 1\<rparr>))"

definition removePage :: "'f yaffs_Device \<Rightarrow> int \<Rightarrow> int \<Rightarrow> yaffs_BlockInfo \<Rightarrow> 'f yaffs_Device option" where
  "removePage dev block page bi =
     (if blockState bi \<in> {YAFFS_BLOCK_STATE_ALLOCATING, YAFFS_BLOCK_STATE_FULL,
         YAFFS_BLOCK_STATE_NEEDS_SCANNING, YAFFS_BLOCK_STATE_COLLECTING} then do {
        let dev = dev\<lparr>nFreeChunks := nFreeChunks dev + 1\<rparr>;
        dev \<leftarrow> yaffs_ClearChunkBit dev block page;
        let bi = bi\<lparr>pagesInUse := s10 (pagesInUse bi - 1)\<rparr>;
        let dev = setBlockInfo dev block bi;
        if pagesInUse bi = 0 \<and> \<not> hasShrinkHeader bi \<and> blockState bi \<noteq> YAFFS_BLOCK_STATE_ALLOCATING \<and>
           blockState bi \<noteq> YAFFS_BLOCK_STATE_NEEDS_SCANNING
        then yaffs_BlockBecameDirty dev block else Some dev
      } else Some dev)"

definition yaffs_DeleteChunk :: "'f yaffs_Device \<Rightarrow> int \<Rightarrow> bool \<Rightarrow> 'f yaffs_Device option" where
  "yaffs_DeleteChunk dev chunk markNAND =
     (if chunk \<le> 0 then Some dev
      else do {
        let dev = dev\<lparr>nDeletions := nDeletions dev + 1\<rparr>;
        let block = chunk div nChunksPerBlock dev;
        let page = chunk mod nChunksPerBlock dev;
        inUse \<leftarrow> yaffs_CheckChunkBit dev block page;
        bi \<leftarrow> yaffs_GetBlockInfo dev block;
        dev \<leftarrow> markDeleted dev chunk bi markNAND;
        removePage dev block page bi
      })"

definition yaffs_SoftDeleteChunk :: "'f yaffs_Device \<Rightarrow> int \<Rightarrow> 'f yaffs_Device option" where
  "yaffs_SoftDeleteChunk dev chunk = do {
     let blk = chunk div nChunksPerBlock dev;
     theBlock \<leftarrow> yaffs_GetBlockInfo dev blk;
     Some ((setBlockInfo dev blk (theBlock\<lparr>softDeletions := s10 (softDeletions theBlock + 1)\<rparr>))
       \<lparr>nFreeChunks := nFreeChunks dev + 1\<rparr>)
   }"

definition yaffs_HandleWriteChunkError :: "'f yaffs_Device \<Rightarrow> int \<Rightarrow> int \<Rightarrow> 'f yaffs_Device option" where
  "yaffs_HandleWriteChunkError dev chunkInNAND erasedOk = do {
     let blockInNAND = chunkInNAND div nChunksPerBlock dev;
     dev \<leftarrow> yaffs_HandleChunkError dev blockInNAND;
     bi \<leftarrow> yaffs_GetBlockInfo dev blockInNAND;
     let dev = (if erasedOk \<noteq> 0 then setBlockInfo dev blockInNAND (bi\<lparr>needsRetiring := True\<rparr>) else dev);
     yaffs_DeleteChunk dev chunkInNAND True
   }"

definition counts_free :: "yaffs_BlockState \<Rightarrow> bool" where
  "counts_free s \<longleftrightarrow> s \<in> {YAFFS_BLOCK_STATE_EMPTY, YAFFS_BLOCK_STATE_ALLOCATING,
     YAFFS_BLOCK_STATE_COLLECTING, YAFFS_BLOCK_STATE_FULL}"

fun countFree_loop :: "int list \<Rightarrow> int \<Rightarrow> 'f yaffs_Device \<Rightarrow> int option" where
  "countFree_loop [] nFree dev = Some nFree"
| "countFree_loop (b # bs) nFree dev = do {
     blk \<leftarrow> yaffs_GetBlockInfo dev b;
     countFree_loop bs (if counts_free (blockState blk)
       then nFree + (nChunksPerBlock dev - pagesInUse blk + softDeletions blk) else nFree) dev
   }"

definition yaffs_CountFreeChunks :: "'f yaffs_Device \<Rightarrow> int option" where
  "yaffs_CountFreeChunks dev = countFree_loop [internalStartBlock dev..internalEndBlock dev] 0 dev"

definition yaffs_GetNumberOfFreeChunks :: "'f yaffs_Device \<Rightarrow> int \<times> 'f yaffs_Device" where
  "yaffs_GetNumberOfFreeChunks dev =
     (let nFree = nFreeChunks dev + nDeletedFiles dev;
          nDirtyCacheChunks = int (length (filter dirty (take (nat (nShortOpCaches dev)) (srCache dev))));
          nFree = nFree - nDirtyCacheChunks - (nReservedBlocks dev + 1) * nChunksPerBlock dev;
          (required, dev) = yaffs_CalcCheckpointBlocksRequired dev;
          blocksForCheckpoint = required - blocksInCheckpoint dev;
          blocksForCheckpoint = (if blocksForCheckpoint < 0 then 0 else blocksForCheckpoint);
          nFree = nFree - blocksForCheckpoint * nChunksPerBlock dev
      in (if nFree < 0 then 0 else nFree, dev))"

text \<open>
  The start of yaffs_GarbageCollectBlock: the block goes into collection and its soft deletions are
  taken off the free chunks.
\<close>

definition startCollecting :: "'f yaffs_Device \<Rightarrow> int \<Rightarrow> 'f yaffs_Device option" where
  "startCollecting dev block = do {
     bi \<leftarrow> yaffs_GetBlockInfo dev block;
     Some ((setBlockInfo dev block (bi\<lparr>blockState := YAFFS_BLOCK_STATE_COLLECTING, hasShrinkHeader := False\<rparr>))
       \<lparr>nFreeChunks := nFreeChunks dev - softDeletions bi\<rparr>)
   }"

section \<open>Writing a new chunk\<close>

text \<open>
  The loop that allocates chunks until one is written. The fuel bounds the iterations, and running
  out of it gives None. The result is the last chunk, the attempts, the outcome
  of the last write, the tags and the device.
\<close>

fun writeNewChunk_loop ::
    "nat \<Rightarrow> u8 list \<Rightarrow> bool \<Rightarrow> int \<Rightarrow> int \<Rightarrow> yaffs_ExtendedTags \<Rightarrow> 'f yaffs_Device \<Rightarrow>
     (int \<times> int \<times> int \<times> yaffs_ExtendedTags \<times> 'f yaffs_Device) option" where
  "writeNewChunk_loop 0 data useReserve attempts writeOk tags dev = None"
| "writeNewChunk_loop (Suc fuel) data useReserve attempts writeOk tags dev = do {
     let again = (\<lambda>chunk attempts writeOk tags dev.
           if writeOk \<noteq> YAFFS_OK \<and> (yaffs_wr_attempts dev = 0 \<or> attempts \<le> uint (yaffs_wr_attempts dev))
           then writeNewChunk_loop fuel data useReserve attempts writeOk tags dev
           else Some (chunk, attempts, writeOk, tags, dev));
     (chunk, blk, dev) \<leftarrow> yaffs_AllocateChunk dev useReserve;
     if chunk < 0 then Some (chunk, attempts, writeOk, tags, dev)
     else do {
       bi \<leftarrow> yaffs_GetBlockInfo dev blk;
       if gcPrioritise bi then do {
         dev \<leftarrow> yaffs_DeleteChunk dev chunk True;
         again chunk attempts writeOk tags dev
       } else do {
         let attempts = attempts + 1;
         (erasedOk, go, dev) \<leftarrow>
           (if \<not> skipErasedCheck bi then do {
              (erasedOk, dev) \<leftarrow> yaffs_CheckChunkErased dev chunk;
              if erasedOk \<noteq> YAFFS_OK then Some (erasedOk, False, dev)
              else do {
                bi \<leftarrow> yaffs_GetBlockInfo dev blk;
                Some (erasedOk, True, setBlockInfo dev blk (bi\<lparr>skipErasedCheck := True\<rparr>))
              }
            } else Some (0, True, dev));
         if \<not> go then again chunk attempts writeOk tags dev
         else do {
           (writeOk, tags, dev) \<leftarrow> yaffs_WriteChunkWithTagsToNAND dev chunk (Some data) tags;
           if writeOk \<noteq> YAFFS_OK then do {
             dev \<leftarrow> yaffs_HandleWriteChunkError dev chunk erasedOk;
             again chunk attempts writeOk tags dev
           } else again chunk attempts writeOk tags dev
         }
       }
     }
   }"

definition yaffs_WriteNewChunkWithTagsToNAND ::
    "nat \<Rightarrow> 'f yaffs_Device \<Rightarrow> u8 list \<Rightarrow> yaffs_ExtendedTags \<Rightarrow> bool \<Rightarrow>
     (int \<times> yaffs_ExtendedTags \<times> 'f yaffs_Device) option" where
  "yaffs_WriteNewChunkWithTagsToNAND fuel dev data tags useReserve = do {
     dev \<leftarrow> yaffs_InvalidateCheckpoint dev;
     (chunk, attempts, writeOk, tags, dev) \<leftarrow> writeNewChunk_loop fuel data useReserve 0 0 tags dev;
     let chunk = (if writeOk = 0 then -1 else chunk);
     let dev = (if attempts > 1 then dev\<lparr>nRetriedWrites := nRetriedWrites dev + (attempts - 1)\<rparr> else dev);
     Some (chunk, tags, dev)
   }"

end
