(* ===== verification/FileChunks.thy ===== *)
theory FileChunks
  imports Tnode BlockManager "HOL-Library.Signed_Division"
begin

text \<open>
  The chunks of a file (yaffs_guts.c): finding the chunk of a position through the tree of tnodes and the
  tags on the flash, putting a new chunk into the tree, taking chunks out of it when a file
  shrinks, and deleting all chunks of a file at once or one by one. An object is the part of
  yaffs_Object that these functions use; objects of other kinds have no file structure.
\<close>

datatype object_type = UNKNOWN | FILE | SYMLINK | DIRECTORY | HARDLINK | SPECIAL

text \<open>
  An object: a file, directory or link. Its four list heads (hashLink, hardLinks, siblings and, for directories,
  children) lie in the store of lists, and pointers to objects are numbers with 0 for the null pointer.
  The members of the union of variants are separate fields, of which an object uses those of its type.
\<close>

record yaffs_Object =
  ob_objectId :: u32
  variantType :: object_type
  nDataChunks :: int
  fileVariant :: yaffs_FileStructure
  ob_deleted :: bool
  softDeleted :: bool
  unlinked :: bool
  fake :: bool
  renameAllowed :: bool
  unlinkAllowed :: bool
  ob_dirty :: bool
  ob_valid :: bool
  lazyLoaded :: bool
  serial :: u8
  nameSum :: "16 word"
  parent :: nat
  headerChunk :: int
  yst_mode :: u32
  shortName :: "u8 list"
  ob_inUse :: u32
  yst_uid :: u32
  yst_gid :: u32
  yst_atime :: u32
  yst_mtime :: u32
  yst_ctime :: u32
  yst_rdev :: u32
  symLinkAlias :: "u8 list option"
  equivalentObject :: nat
  ob_equivalentObjectId :: u32

definition zero_object :: yaffs_Object where
  "zero_object = \<lparr>ob_objectId = 0, variantType = UNKNOWN, nDataChunks = 0,
     fileVariant = \<lparr>fileSize = 0, scannedFileSize = 0, shrinkSize = 0, topLevel = 0, top = Null\<rparr>,
     ob_deleted = False, softDeleted = False, unlinked = False, fake = False, renameAllowed = False, unlinkAllowed = False,
     ob_dirty = False, ob_valid = False, lazyLoaded = False, serial = 0, nameSum = 0, parent = 0, headerChunk = 0,
     yst_mode = 0, shortName = [], ob_inUse = 0, yst_uid = 0, yst_gid = 0, yst_atime = 0, yst_mtime = 0, yst_ctime = 0,
     yst_rdev = 0, symLinkAlias = None, equivalentObject = 0, ob_equivalentObjectId = 0\<rparr>"

definition yaffs_TagsMatch :: "yaffs_ExtendedTags \<Rightarrow> u32 \<Rightarrow> int \<Rightarrow> bool" where
  "yaffs_TagsMatch tags obj chunkInObject \<longleftrightarrow>
     chunkId tags = word_of_int chunkInObject \<and> objectId tags = obj \<and> chunkDeleted tags = 0"

section \<open>Finding\<close>

text \<open>At most n chunks from theChunk on are looked at; the result has the chunk or -1, and the tags as they were left.\<close>

fun findChunk_loop ::
    "nat \<Rightarrow> u32 \<Rightarrow> int \<Rightarrow> int \<Rightarrow> yaffs_ExtendedTags \<Rightarrow> 'f yaffs_Device \<Rightarrow> (int \<times> yaffs_ExtendedTags \<times> 'f yaffs_Device) option" where
  "findChunk_loop 0 obj chunkInInode theChunk tags dev = Some (-1, tags, dev)"
| "findChunk_loop (Suc n) obj chunkInInode theChunk tags dev =
     (if theChunk = 0 then Some (-1, tags, dev)
      else do {
        inUse \<leftarrow> yaffs_CheckChunkBit dev (theChunk div nChunksPerBlock dev) (theChunk mod nChunksPerBlock dev);
        if inUse then do {
          (r, buf, tags, dev) \<leftarrow> yaffs_ReadChunkWithTagsFromNAND dev theChunk None tags;
          if yaffs_TagsMatch tags obj chunkInInode then Some (theChunk, tags, dev)
          else findChunk_loop n obj chunkInInode (theChunk + 1) tags dev
        } else findChunk_loop n obj chunkInInode (theChunk + 1) tags dev
      })"

definition yaffs_FindChunkInGroup ::
    "'f yaffs_Device \<Rightarrow> int \<Rightarrow> yaffs_ExtendedTags \<Rightarrow> u32 \<Rightarrow> int \<Rightarrow> (int \<times> yaffs_ExtendedTags \<times> 'f yaffs_Device) option" where
  "yaffs_FindChunkInGroup dev theChunk tags obj chunkInInode =
     findChunk_loop (nat (chunkGroupSize dev)) obj chunkInInode theChunk tags dev"

text \<open>Without tags of the caller, local ones are used, which hold what the stack held.\<close>

definition yaffs_FindChunkInFile ::
    "yaffs_Object \<Rightarrow> int \<Rightarrow> yaffs_ExtendedTags option \<Rightarrow> 'f yaffs_Device \<Rightarrow>
     (int \<times> yaffs_ExtendedTags option \<times> 'f yaffs_Device) option" where
  "yaffs_FindChunkInFile obj chunkInInode tags dev = do {
     let local = (case tags of None \<Rightarrow> stackExtTags dev | Some t \<Rightarrow> t);
     tn \<leftarrow> yaffs_FindLevel0Tnode dev (fileVariant obj) (word_of_int chunkInInode);
     (case tn of
        Null \<Rightarrow> Some (-1, tags, dev)
      | Internal ch \<Rightarrow> None
      | Level0 wmap \<Rightarrow> do {
          theChunk \<leftarrow> yaffs_GetChunkGroupBase dev wmap (word_of_int chunkInInode);
          (r, t, dev) \<leftarrow> yaffs_FindChunkInGroup dev (sint theChunk) local (ob_objectId obj) chunkInInode;
          Some (r, map_option (\<lambda>_. t) tags, dev)
        })
   }"

text \<open>A store to the entry of a position whose level 0 node was found.\<close>

definition store_entry :: "'f yaffs_Device \<Rightarrow> yaffs_FileStructure \<Rightarrow> u32 \<Rightarrow> u32 list \<Rightarrow> u32 \<Rightarrow> yaffs_FileStructure option" where
  "store_entry dev fStruct chunk wmap val = do {
     wmap \<leftarrow> yaffs_PutLevel0Tnode dev wmap chunk val;
     Some (fStruct\<lparr>top := store_down chunk (nat (topLevel fStruct)) (top fStruct) (Level0 wmap)\<rparr>)
   }"

definition yaffs_FindAndDeleteChunkInFile ::
    "yaffs_Object \<Rightarrow> int \<Rightarrow> yaffs_ExtendedTags option \<Rightarrow> 'f yaffs_Device \<Rightarrow>
     (int \<times> yaffs_ExtendedTags option \<times> yaffs_Object \<times> 'f yaffs_Device) option" where
  "yaffs_FindAndDeleteChunkInFile obj chunkInInode tags dev = do {
     let local = (case tags of None \<Rightarrow> stackExtTags dev | Some t \<Rightarrow> t);
     tn \<leftarrow> yaffs_FindLevel0Tnode dev (fileVariant obj) (word_of_int chunkInInode);
     (case tn of
        Null \<Rightarrow> Some (-1, tags, obj, dev)
      | Internal ch \<Rightarrow> None
      | Level0 wmap \<Rightarrow> do {
          theChunk \<leftarrow> yaffs_GetChunkGroupBase dev wmap (word_of_int chunkInInode);
          (r, t, dev) \<leftarrow> yaffs_FindChunkInGroup dev (sint theChunk) local (ob_objectId obj) chunkInInode;
          fs \<leftarrow> (if r \<noteq> -1 then store_entry dev (fileVariant obj) (word_of_int chunkInInode) wmap 0 else Some (fileVariant obj));
          Some (r, map_option (\<lambda>_. t) tags, obj\<lparr>fileVariant := fs\<rparr>, dev)
        })
   }"

section \<open>Putting a chunk into a file\<close>

text \<open>
  What a scan does with a position that has a chunk already: the chunk found there, and whether the new one
  is used. Chunks that are not used are deleted.
\<close>

definition scanDuplicate ::
    "yaffs_Object \<Rightarrow> int \<Rightarrow> int \<Rightarrow> int \<Rightarrow> int \<Rightarrow> 'f yaffs_Device \<Rightarrow> (int \<times> bool \<times> 'f yaffs_Device) option" where
  "scanDuplicate obj chunkInInode chunkInNAND inScan existingChunk dev = do {
     (existingChunk, newTags, existingTags, dev) \<leftarrow>
       (if inScan > 0 then do {
          (r, buf, newTags, dev) \<leftarrow> yaffs_ReadChunkWithTagsFromNAND dev chunkInNAND None (stackExtTags dev);
          (existing, tags, dev) \<leftarrow> yaffs_FindChunkInFile obj chunkInInode (Some (stackExtTags dev)) dev;
          Some (existing, newTags, the tags, dev)
        } else Some (existingChunk, stackExtTags dev, stackExtTags dev, dev));
     if inScan > 0 \<and> (isYaffs2 dev \<or> existingChunk \<le> 0 \<or> (serialNumber existingTags + 1) AND 3 = serialNumber newTags) then do {
       dev \<leftarrow> yaffs_DeleteChunk dev existingChunk True;
       Some (existingChunk, True, dev)
     } else do {
       dev \<leftarrow> yaffs_DeleteChunk dev chunkInNAND True;
       Some (existingChunk, False, dev)
     }
   }"

definition yaffs_PutChunkIntoFile ::
    "yaffs_Object \<Rightarrow> int \<Rightarrow> int \<Rightarrow> int \<Rightarrow> 'f yaffs_Device \<Rightarrow> (int \<times> yaffs_Object \<times> 'f yaffs_Device) option" where
  "yaffs_PutChunkIntoFile obj chunkInInode chunkInNAND inScan dev =
     (if variantType obj \<noteq> FILE then do {
        dev \<leftarrow> yaffs_DeleteChunk dev chunkInNAND True;
        Some (YAFFS_OK, obj, dev)
      } else do {
        let chunk = word_of_int chunkInInode;
        (tn, fs, dev) \<leftarrow> yaffs_AddOrFindLevel0Tnode dev (fileVariant obj) chunk Null;
        let obj = obj\<lparr>fileVariant := fs\<rparr>;
        (case tn of
           Null \<Rightarrow> Some (YAFFS_FAIL, obj, dev)
         | Internal ch \<Rightarrow> None
         | Level0 wmap \<Rightarrow> do {
             existing \<leftarrow> yaffs_GetChunkGroupBase dev wmap chunk;
             let existingChunk = sint existing;
             (existingChunk, useNew, dev) \<leftarrow>
               (if inScan \<noteq> 0 \<and> existingChunk \<noteq> 0 then scanDuplicate obj chunkInInode chunkInNAND inScan existingChunk dev
                else Some (existingChunk, True, dev));
             if \<not> useNew then Some (YAFFS_OK, obj, dev)
             else do {
               let obj = (if existingChunk = 0 then obj\<lparr>nDataChunks := nDataChunks obj + 1\<rparr> else obj);
               fs \<leftarrow> store_entry dev fs chunk wmap (word_of_int chunkInNAND);
               Some (YAFFS_OK, obj\<lparr>fileVariant := fs\<rparr>, dev)
             }
           })
      })"

definition yaffs_ReadChunkDataFromObject ::
    "yaffs_Object \<Rightarrow> int \<Rightarrow> u8 list \<Rightarrow> 'f yaffs_Device \<Rightarrow> (int \<times> u8 list \<times> 'f yaffs_Device) option" where
  "yaffs_ReadChunkDataFromObject obj chunkInInode buf dev = do {
     (chunkInNAND, t, dev) \<leftarrow> yaffs_FindChunkInFile obj chunkInInode None dev;
     if chunkInNAND \<ge> 0 then do {
       (r, buf, t, dev) \<leftarrow> yaffs_ReadChunkWithTagsFromNAND dev chunkInNAND (Some buf) (stackExtTags dev);
       Some (r, the buf, dev)
     } else Some (0, replicate (nat (nDataBytesPerChunk dev)) 0 @ drop (nat (nDataBytesPerChunk dev)) buf, dev)
   }"

section \<open>Shrinking\<close>

fun pruneResized_loop :: "int list \<Rightarrow> yaffs_Object \<Rightarrow> 'f yaffs_Device \<Rightarrow> (yaffs_Object \<times> 'f yaffs_Device) option" where
  "pruneResized_loop [] obj dev = Some (obj, dev)"
| "pruneResized_loop (i # is) obj dev = do {
     (chunk, t, obj, dev) \<leftarrow> yaffs_FindAndDeleteChunkInFile obj i None dev;
     (obj, dev) \<leftarrow>
       (if chunk > 0 \<and> \<not> (chunk < internalStartBlock dev * nChunksPerBlock dev \<or>
            chunk \<ge> (internalEndBlock dev + 1) * nChunksPerBlock dev) then do {
          dev \<leftarrow> yaffs_DeleteChunk dev chunk True;
          Some (obj\<lparr>nDataChunks := nDataChunks obj - 1\<rparr>, dev)
        } else Some (obj, dev));
     pruneResized_loop is obj dev
   }"

definition yaffs_PruneResizedChunks :: "yaffs_Object \<Rightarrow> int \<Rightarrow> 'f yaffs_Device \<Rightarrow> (yaffs_Object \<times> 'f yaffs_Device) option" where
  "yaffs_PruneResizedChunks obj newSize dev =
     (let oldFileSize = sint (fileSize (fileVariant obj));
          lastDel = 1 + (oldFileSize - 1) sdiv nDataBytesPerChunk dev;
          startDel = 1 + (newSize + nDataBytesPerChunk dev - 1) sdiv nDataBytesPerChunk dev
      in pruneResized_loop (rev [startDel..lastDel]) obj dev)"

section \<open>Deleting whole files\<close>

text \<open>
  What the deletion of a tree changes besides the tree: the number of data chunks of the file, the limit
  on the chunks to delete (None for a null pointer) and the device.
\<close>

type_synonym 'f deletion = "int \<times> int option \<times> 'f yaffs_Device"

text \<open>The entries of a level 0 node from the last one on; the result tells whether all were looked at.\<close>

fun delete_entries ::
    "u32 \<Rightarrow> int \<Rightarrow> nat list \<Rightarrow> yaffs_ExtendedTags \<Rightarrow> u32 list \<Rightarrow> 'f deletion \<Rightarrow> (bool \<times> u32 list \<times> 'f deletion) option" where
  "delete_entries obj offs [] tags wmap st = Some (True, wmap, st)"
| "delete_entries obj offs (i # is) tags wmap (n, limit, dev) = do {
     base \<leftarrow> yaffs_GetChunkGroupBase dev wmap (of_nat i);
     let theChunk = sint base;
     if theChunk \<noteq> 0 then do {
       let chunkInInode = offs * 2 ^ YAFFS_TNODES_LEVEL0_BITS + int i;
       (foundChunk, tags, dev) \<leftarrow> yaffs_FindChunkInGroup dev theChunk tags obj chunkInInode;
       (n, limit, hitLimit, dev) \<leftarrow>
         (if foundChunk > 0 then do {
            dev \<leftarrow> yaffs_DeleteChunk dev foundChunk True;
            Some (n - 1, map_option (\<lambda>l. l - 1) limit, (case limit of Some l \<Rightarrow> l - 1 \<le> 0 | None \<Rightarrow> False), dev)
          } else Some (n, limit, False, dev));
       wmap \<leftarrow> yaffs_PutLevel0Tnode dev wmap (of_nat i) 0;
       if hitLimit then Some (is = [], wmap, n, limit, dev)
       else delete_entries obj offs is tags wmap (n, limit, dev)
     } else delete_entries obj offs is tags wmap (n, limit, dev)
   }"

text \<open>The pointers of a node from the last one on, each deleted by the function given.\<close>

fun delete_children ::
    "(yaffs_Tnode \<Rightarrow> int \<Rightarrow> 'f deletion \<Rightarrow> (bool \<times> yaffs_Tnode \<times> 'f deletion) option) \<Rightarrow> int \<Rightarrow> nat list \<Rightarrow> yaffs_Tnode list \<Rightarrow>
     'f deletion \<Rightarrow> (bool \<times> yaffs_Tnode list \<times> 'f deletion) option" where
  "delete_children worker offs [] ch st = Some (True, ch, st)"
| "delete_children worker offs (i # is) ch (n, limit, dev) =
     (if i \<ge> length ch then None
      else if ch ! i = Null then delete_children worker offs is ch (n, limit, dev)
      else do {
        (allDone, child, n, limit, dev) \<leftarrow>
          (if (case limit of Some l \<Rightarrow> l < 0 | None \<Rightarrow> False) then Some (False, ch ! i, n, limit, dev)
           else worker (ch ! i) (offs * 2 ^ YAFFS_TNODES_INTERNAL_BITS + int i) (n, limit, dev));
        if allDone then delete_children worker offs is (ch[i := Null]) (n, limit, yaffs_FreeTnode dev child)
        else Some (False, ch[i := child], n, limit, dev)
      })"

primrec yaffs_DeleteWorker ::
    "u32 \<Rightarrow> nat \<Rightarrow> yaffs_Tnode \<Rightarrow> int \<Rightarrow> 'f deletion \<Rightarrow> (bool \<times> yaffs_Tnode \<times> 'f deletion) option" where
  "yaffs_DeleteWorker obj 0 tn offs st =
     (case tn of
        Null \<Rightarrow> Some (True, tn, st)
      | Internal ch \<Rightarrow> None
      | Level0 wmap \<Rightarrow> do {
          (done, wmap, st) \<leftarrow> delete_entries obj offs (rev [0..<YAFFS_NTNODES_LEVEL0]) (stackExtTags (snd (snd st))) wmap st;
          Some (done, Level0 wmap, st)
        })"
| "yaffs_DeleteWorker obj (Suc level) tn offs st =
     (case tn of
        Null \<Rightarrow> Some (True, tn, st)
      | Level0 wmap \<Rightarrow> None
      | Internal ch \<Rightarrow> do {
          (done, ch, st) \<leftarrow> delete_children (yaffs_DeleteWorker obj level) offs (rev [0..<YAFFS_NTNODES_INTERNAL]) ch st;
          Some (done, Internal ch, st)
        })"

fun soft_delete_entries :: "nat list \<Rightarrow> u32 list \<Rightarrow> 'f yaffs_Device \<Rightarrow> (u32 list \<times> 'f yaffs_Device) option" where
  "soft_delete_entries [] wmap dev = Some (wmap, dev)"
| "soft_delete_entries (i # is) wmap dev = do {
     base \<leftarrow> yaffs_GetChunkGroupBase dev wmap (of_nat i);
     let theChunk = sint base;
     if theChunk \<noteq> 0 then do {
       dev \<leftarrow> yaffs_SoftDeleteChunk dev theChunk;
       wmap \<leftarrow> yaffs_PutLevel0Tnode dev wmap (of_nat i) 0;
       soft_delete_entries is wmap dev
     } else soft_delete_entries is wmap dev
   }"

fun soft_delete_children ::
    "(yaffs_Tnode \<Rightarrow> 'f yaffs_Device \<Rightarrow> (bool \<times> yaffs_Tnode \<times> 'f yaffs_Device) option) \<Rightarrow> nat list \<Rightarrow> yaffs_Tnode list \<Rightarrow>
     'f yaffs_Device \<Rightarrow> (bool \<times> yaffs_Tnode list \<times> 'f yaffs_Device) option" where
  "soft_delete_children worker [] ch dev = Some (True, ch, dev)"
| "soft_delete_children worker (i # is) ch dev =
     (if i \<ge> length ch then None
      else if ch ! i = Null then soft_delete_children worker is ch dev
      else do {
        (allDone, child, dev) \<leftarrow> worker (ch ! i) dev;
        if allDone then soft_delete_children worker is (ch[i := Null]) (yaffs_FreeTnode dev child)
        else Some (False, ch[i := child], dev)
      })"

primrec yaffs_SoftDeleteWorker :: "nat \<Rightarrow> yaffs_Tnode \<Rightarrow> 'f yaffs_Device \<Rightarrow> (bool \<times> yaffs_Tnode \<times> 'f yaffs_Device) option" where
  "yaffs_SoftDeleteWorker 0 tn dev =
     (case tn of
        Null \<Rightarrow> Some (True, tn, dev)
      | Internal ch \<Rightarrow> None
      | Level0 wmap \<Rightarrow> do {
          (wmap, dev) \<leftarrow> soft_delete_entries (rev [0..<YAFFS_NTNODES_LEVEL0]) wmap dev;
          Some (True, Level0 wmap, dev)
        })"
| "yaffs_SoftDeleteWorker (Suc level) tn dev =
     (case tn of
        Null \<Rightarrow> Some (True, tn, dev)
      | Level0 wmap \<Rightarrow> None
      | Internal ch \<Rightarrow> do {
          (done, ch, dev) \<leftarrow> soft_delete_children (yaffs_SoftDeleteWorker level) (rev [0..<YAFFS_NTNODES_INTERNAL]) ch dev;
          Some (done, Internal ch, dev)
        })"

end
