(* ===== verification/Objects.thy ===== *)
theory Objects
  imports LinkedLists FileChunks
begin

text \<open>
  The objects of a device (yaffs_guts.c): the stock of free objects, the hash table that finds an object by
  its number, object numbers, creation, and the children of directories. The system is the
  device with the parts of yaffs_Device that concern objects, the objects in memory and the store of
  their list heads.
\<close>

datatype list_ptr = NULL | ObjectAt nat | HashLink nat | HardLinks nat | Siblings nat | Children nat | Bucket nat

record 'f yaffs_System =
  device :: "'f yaffs_Device"
  objects :: "nat \<rightharpoonup> yaffs_Object"
  lists :: "list_ptr list_store"
  bucketCount :: "int list"
  freeObjects :: nat
  allocatedObjectList :: "(nat \<times> nat) list"
  nextObject :: nat
  rootDir :: nat
  lostNFoundDir :: nat
  unlinkedDir :: nat
  deletedDir :: nat
  nUnlinkedFiles :: int
  niceBucket :: nat
  currentTime :: u32
  isDoingGC :: bool
  gcCleanupList :: "u32 list"
  nGCCopies :: int
  garbageCollections :: int
  passiveGarbageCollections :: int
  srLastUse :: int
  cacheHits :: int

definition YAFFS_ALLOCATION_NOBJECTS :: nat where "YAFFS_ALLOCATION_NOBJECTS = 100"
definition YAFFS_NOBJECT_BUCKETS :: nat where "YAFFS_NOBJECT_BUCKETS = 256"
definition YAFFS_OBJECTID_ROOT :: u32 where "YAFFS_OBJECTID_ROOT = 1"
definition YAFFS_OBJECTID_LOSTNFOUND :: u32 where "YAFFS_OBJECTID_LOSTNFOUND = 2"
definition YAFFS_OBJECTID_UNLINKED :: u32 where "YAFFS_OBJECTID_UNLINKED = 3"
definition YAFFS_OBJECTID_DELETED :: u32 where "YAFFS_OBJECTID_DELETED = 4"
definition YAFFS_MAX_NAME_LENGTH :: nat where "YAFFS_MAX_NAME_LENGTH = 255"
definition YAFFS_MAX_ALIAS_LENGTH :: nat where "YAFFS_MAX_ALIAS_LENGTH = 159"
definition YAFFS_SHORT_NAME_LENGTH :: nat where "YAFFS_SHORT_NAME_LENGTH = 15"

section \<open>Access\<close>

text \<open>A change of the fields of an object, of the list heads, and of the device.\<close>

definition upd_object :: "nat \<Rightarrow> (yaffs_Object \<Rightarrow> yaffs_Object) \<Rightarrow> 'f yaffs_System \<Rightarrow> 'f yaffs_System option" where
  "upd_object a f s = do { ob \<leftarrow> objects s a; Some (s\<lparr>objects := (objects s)(a \<mapsto> f ob)\<rparr>) }"

definition upd_lists :: "(list_ptr list_store \<Rightarrow> list_ptr list_store option) \<Rightarrow> 'f yaffs_System \<Rightarrow> 'f yaffs_System option" where
  "upd_lists f s = do { l \<leftarrow> f (lists s); Some (s\<lparr>lists := l\<rparr>) }"

definition upd_device :: "('f yaffs_Device \<Rightarrow> 'f yaffs_Device option) \<Rightarrow> 'f yaffs_System \<Rightarrow> 'f yaffs_System option" where
  "upd_device f s = do { d \<leftarrow> f (device s); Some (s\<lparr>device := d\<rparr>) }"

text \<open>The casts between pointers to objects and to list heads.\<close>

definition to_list_ptr :: "nat \<Rightarrow> list_ptr" where
  "to_list_ptr a = (if a = 0 then NULL else ObjectAt a)"

definition to_object_ptr :: "list_ptr \<Rightarrow> nat option" where
  "to_object_ptr p = (case p of NULL \<Rightarrow> Some 0 | ObjectAt a \<Rightarrow> Some a | _ \<Rightarrow> None)"

definition null_head :: "list_ptr list_head" where
  "null_head = \<lparr>nxt = NULL, prv = NULL\<rparr>"

text \<open>The four list heads of an object, cleared to zero.\<close>

definition zero_heads :: "nat \<Rightarrow> list_ptr list_store \<Rightarrow> list_ptr list_store" where
  "zero_heads a l = l(HashLink a \<mapsto> null_head, HardLinks a \<mapsto> null_head, Siblings a \<mapsto> null_head, Children a \<mapsto> null_head)"

section \<open>The free objects\<close>

text \<open>
  n fresh objects from address a on, hooked together; the last one points to the one given. What fresh memory
  holds is not read before it is cleared.
\<close>

fun hook_objects :: "nat \<Rightarrow> nat \<Rightarrow> nat \<Rightarrow> 'f yaffs_System \<Rightarrow> 'f yaffs_System" where
  "hook_objects 0 a tail s = s"
| "hook_objects (Suc n) a tail s = hook_objects n (a + 1) tail
     (s\<lparr>objects := (objects s)(a \<mapsto> zero_object),
        lists := (zero_heads a (lists s))(Siblings a \<mapsto> \<lparr>nxt = to_list_ptr (if n = 0 then tail else a + 1), prv = NULL\<rparr>)\<rparr>)"

definition yaffs_CreateFreeObjects :: "nat \<Rightarrow> 'f yaffs_System \<Rightarrow> int \<times> 'f yaffs_System" where
  "yaffs_CreateFreeObjects nObjects s =
     (if nObjects < 1 then (YAFFS_OK, s)
      else
        (let (newObjects, d) = yMalloc (device s);
             (list, d) = yMalloc d;
             s = s\<lparr>device := d\<rparr>
         in if \<not> newObjects \<or> \<not> list then (YAFFS_FAIL, s)
            else
              (let a = nextObject s;
                   s = hook_objects nObjects a (freeObjects s) s;
                   d = device s
               in (YAFFS_OK, s\<lparr>nextObject := a + nObjects, freeObjects := a,
                     device := d\<lparr>nFreeObjects := nFreeObjects d + int nObjects, nObjectsCreated := nObjectsCreated d + int nObjects\<rparr>,
                     allocatedObjectList := (a, nObjects) # allocatedObjectList s\<rparr>))))"

section \<open>Directories\<close>

text \<open>
  The callback removeObjectCallback of the layer above works on that layer's directory searches only and
  is left out.
\<close>

definition yaffs_RemoveObjectFromDirectory :: "nat \<Rightarrow> 'f yaffs_System \<Rightarrow> 'f yaffs_System option" where
  "yaffs_RemoveObjectFromDirectory obj s = do {
     s \<leftarrow> upd_lists (list_del_init (Siblings obj)) s;
     upd_object obj (\<lambda>ob. ob\<lparr>parent := 0\<rparr>) s
   }"

definition yaffs_AddObjectToDirectory :: "nat \<Rightarrow> nat \<Rightarrow> 'f yaffs_System \<Rightarrow> 'f yaffs_System option" where
  "yaffs_AddObjectToDirectory directory obj s = do {
     dir \<leftarrow> objects s directory;
     prev \<leftarrow> prev_of (lists s) (Siblings obj);
     s \<leftarrow> (if prev = NULL then upd_lists (INIT_LIST_HEAD (Siblings obj)) s
           else do {
             e \<leftarrow> list_empty (Siblings obj) (lists s);
             if \<not> e then yaffs_RemoveObjectFromDirectory obj s else Some s
           });
     s \<leftarrow> upd_lists (list_add (Siblings obj) (Children directory)) s;
     s \<leftarrow> upd_object obj (\<lambda>ob. ob\<lparr>parent := directory\<rparr>) s;
     if directory = unlinkedDir s \<or> directory = deletedDir s then do {
       s \<leftarrow> upd_object obj (\<lambda>ob. ob\<lparr>unlinked := True, renameAllowed := False\<rparr>) s;
       Some (s\<lparr>nUnlinkedFiles := nUnlinkedFiles s + 1\<rparr>)
     } else Some s
   }"

section \<open>Allocating and freeing\<close>

text \<open>The address of a clean object, 0 if there is none.\<close>

definition takeObject :: "'f yaffs_System \<Rightarrow> (nat \<times> 'f yaffs_System) option" where
  "takeObject s = do {
     let tn = freeObjects s;
     next \<leftarrow> next_of (lists s) (Siblings tn);
     next \<leftarrow> to_object_ptr next;
     let d = device s;
     let s = s\<lparr>freeObjects := next, device := d\<lparr>nFreeObjects := nFreeObjects d - 1\<rparr>,
               objects := (objects s)(tn \<mapsto> zero_object\<lparr>headerChunk := -1, variantType := UNKNOWN\<rparr>),
               lists := zero_heads tn (lists s)\<rparr>;
     s \<leftarrow> upd_lists (INIT_LIST_HEAD (HardLinks tn)) s;
     s \<leftarrow> upd_lists (INIT_LIST_HEAD (HashLink tn)) s;
     s \<leftarrow> upd_lists (INIT_LIST_HEAD (Siblings tn)) s;
     s \<leftarrow> (if lostNFoundDir s \<noteq> 0 then yaffs_AddObjectToDirectory (lostNFoundDir s) tn s else Some s);
     Some (tn, s)
   }"

definition yaffs_AllocateEmptyObject :: "'f yaffs_System \<Rightarrow> (nat \<times> 'f yaffs_System) option" where
  "yaffs_AllocateEmptyObject s = do {
     let s = (if freeObjects s = 0 then snd (yaffs_CreateFreeObjects YAFFS_ALLOCATION_NOBJECTS s) else s);
     (tn, s) \<leftarrow> (if freeObjects s \<noteq> 0 then takeObject s else Some (0, s));
     Some (tn, s\<lparr>device := (device s)\<lparr>nCheckpointBlocksRequired := 0\<rparr>\<rparr>)
   }"

definition yaffs_HashFunction :: "int \<Rightarrow> nat" where
  "yaffs_HashFunction n = nat (\<bar>n\<bar> mod int YAFFS_NOBJECT_BUCKETS)"

definition bucket_of :: "yaffs_Object \<Rightarrow> nat" where
  "bucket_of ob = yaffs_HashFunction (sint (ob_objectId ob))"

definition yaffs_UnhashObject :: "nat \<Rightarrow> 'f yaffs_System \<Rightarrow> 'f yaffs_System option" where
  "yaffs_UnhashObject tn s = do {
     e \<leftarrow> list_empty (HashLink tn) (lists s);
     if \<not> e then do {
       s \<leftarrow> upd_lists (list_del_init (HashLink tn)) s;
       ob \<leftarrow> objects s tn;
       Some (s\<lparr>bucketCount := (bucketCount s)[bucket_of ob := bucketCount s ! bucket_of ob - 1]\<rparr>)
     } else Some s
   }"

definition yaffs_FreeObject :: "nat \<Rightarrow> 'f yaffs_System \<Rightarrow> 'f yaffs_System option" where
  "yaffs_FreeObject tn s = do {
     s \<leftarrow> yaffs_UnhashObject tn s;
     s \<leftarrow> upd_lists (set_next (Siblings tn) (to_list_ptr (freeObjects s))) s;
     let d = device s;
     Some (s\<lparr>freeObjects := tn, device := d\<lparr>nFreeObjects := nFreeObjects d + 1, nCheckpointBlocksRequired := 0\<rparr>\<rparr>)
   }"

text \<open>At the end of the device all groups of objects are given back to the system.\<close>

definition yaffs_DeinitialiseObjects :: "'f yaffs_System \<Rightarrow> 'f yaffs_System" where
  "yaffs_DeinitialiseObjects s =
     (let gone = (\<lambda>a. list_ex (\<lambda>(b, n). b \<le> a \<and> a < b + n) (allocatedObjectList s))
      in s\<lparr>objects := (\<lambda>a. if gone a then None else objects s a), allocatedObjectList := [], freeObjects := 0,
           device := (device s)\<lparr>nFreeObjects := 0\<rparr>\<rparr>)"

definition yaffs_InitialiseObjects :: "'f yaffs_System \<Rightarrow> 'f yaffs_System" where
  "yaffs_InitialiseObjects s =
     s\<lparr>allocatedObjectList := [], freeObjects := 0, device := (device s)\<lparr>nFreeObjects := 0\<rparr>,
       lists := (\<lambda>p. case p of Bucket k \<Rightarrow> if k < YAFFS_NOBJECT_BUCKETS then Some \<lparr>nxt = p, prv = p\<rparr> else lists s p | _ \<Rightarrow> lists s p),
       bucketCount := replicate YAFFS_NOBJECT_BUCKETS 0\<rparr>"

section \<open>Object numbers and the hash table\<close>

text \<open>Up to n more buckets are looked at, as long as the shortest list found is longer than the limit.\<close>

fun nice_loop :: "nat \<Rightarrow> int \<Rightarrow> int list \<Rightarrow> nat \<times> nat \<times> int \<Rightarrow> nat \<times> nat \<times> int" where
  "nice_loop 0 limit counts (x, l, lowest) = (x, l, lowest)"
| "nice_loop (Suc n) limit counts (x, l, lowest) =
     (if lowest > limit then
        (let x = (x + 1) mod YAFFS_NOBJECT_BUCKETS
         in nice_loop n limit counts (if counts ! x < lowest then (x, x, counts ! x) else (x, l, lowest)))
      else (x, l, lowest))"

definition yaffs_FindNiceObjectBucket :: "'f yaffs_System \<Rightarrow> nat \<times> 'f yaffs_System" where
  "yaffs_FindNiceObjectBucket s =
     (let (x, l, lowest) = nice_loop 10 3 (bucketCount s) (nice_loop 10 0 (bucketCount s) (niceBucket s, 999, 999999))
      in (l, s\<lparr>niceBucket := x\<rparr>))"

text \<open>The object a list entry belongs to.\<close>

definition hashLink_entry :: "list_ptr \<Rightarrow> nat option" where
  "hashLink_entry p = (case p of HashLink a \<Rightarrow> Some a | _ \<Rightarrow> None)"

definition siblings_entry :: "list_ptr \<Rightarrow> nat option" where
  "siblings_entry p = (case p of Siblings a \<Rightarrow> Some a | _ \<Rightarrow> None)"

text \<open>Whether some object of the bucket has the number; the C loop does not stop at the first one.\<close>

definition number_taken :: "nat \<Rightarrow> u32 \<Rightarrow> 'f yaffs_System \<Rightarrow> bool option" where
  "number_taken bucket n s = do {
     (r :: unit option, taken) \<leftarrow> list_for_each (\<lambda>_. lists s) (Bucket bucket) (\<lambda>i taken. do {
        a \<leftarrow> hashLink_entry i;
        ob \<leftarrow> objects s a;
        Some (None, if ob_objectId ob = n then True else taken)
      }) False;
     Some taken
   }"

partial_function (option) newNumber_loop :: "nat \<Rightarrow> u32 \<Rightarrow> 'f yaffs_System \<Rightarrow> u32 option" where
  "newNumber_loop bucket n s = do {
     let n = n + of_nat YAFFS_NOBJECT_BUCKETS;
     taken \<leftarrow> number_taken bucket n s;
     if taken then newNumber_loop bucket n s else Some n
   }"

definition yaffs_CreateNewObjectNumber :: "'f yaffs_System \<Rightarrow> (u32 \<times> 'f yaffs_System) option" where
  "yaffs_CreateNewObjectNumber s = do {
     let (bucket, s) = yaffs_FindNiceObjectBucket s;
     n \<leftarrow> newNumber_loop bucket (of_nat bucket) s;
     Some (n, s)
   }"

definition yaffs_HashObject :: "nat \<Rightarrow> 'f yaffs_System \<Rightarrow> 'f yaffs_System option" where
  "yaffs_HashObject a s = do {
     ob \<leftarrow> objects s a;
     s \<leftarrow> upd_lists (list_add (HashLink a) (Bucket (bucket_of ob))) s;
     Some (s\<lparr>bucketCount := (bucketCount s)[bucket_of ob := bucketCount s ! bucket_of ob + 1]\<rparr>)
   }"

definition yaffs_FindObjectByNumber :: "u32 \<Rightarrow> 'f yaffs_System \<Rightarrow> nat option" where
  "yaffs_FindObjectByNumber number s = do {
     (r, _) \<leftarrow> list_for_each (\<lambda>_. lists s) (Bucket (yaffs_HashFunction (sint number))) (\<lambda>i u. do {
        a \<leftarrow> hashLink_entry i;
        ob \<leftarrow> objects s a;
        Some (if ob_objectId ob = number then Some a else None, u)
      }) ();
     Some (case r of Some a \<Rightarrow> a | None \<Rightarrow> 0)
   }"

section \<open>Creating objects\<close>

definition initVariant :: "object_type \<Rightarrow> yaffs_Tnode \<Rightarrow> nat \<Rightarrow> 'f yaffs_System \<Rightarrow> 'f yaffs_System option" where
  "initVariant type tn a s =
     (case type of
        FILE \<Rightarrow> upd_object a (\<lambda>ob. ob\<lparr>fileVariant := \<lparr>fileSize = 0, scannedFileSize = 0, shrinkSize = 0xFFFFFFFF, topLevel = 0, top = tn\<rparr>\<rparr>) s
      | DIRECTORY \<Rightarrow> upd_lists (INIT_LIST_HEAD (Children a)) s
      | _ \<Rightarrow> Some s)"

text \<open>A negative number asks for a new one. A null pointer is returned when memory is out.\<close>

definition yaffs_CreateNewObject :: "int \<Rightarrow> object_type \<Rightarrow> 'f yaffs_System \<Rightarrow> (nat \<times> 'f yaffs_System) option" where
  "yaffs_CreateNewObject number type s = do {
     (number, s) \<leftarrow> (if number < 0 then yaffs_CreateNewObjectNumber s else Some (word_of_int number, s));
     (a, s) \<leftarrow> yaffs_AllocateEmptyObject s;
     if a = 0 then Some (0, s)
     else do {
       let (tn, d) = (if type = FILE then yaffs_GetTnode (device s) 0 else (Null, device s));
       let s = s\<lparr>device := d\<rparr>;
       if type = FILE \<and> tn = Null then do { s \<leftarrow> yaffs_FreeObject a s; Some (0, s) }
       else do {
         s \<leftarrow> upd_object a (\<lambda>ob. ob\<lparr>fake := False, renameAllowed := True, unlinkAllowed := True, ob_objectId := number\<rparr>) s;
         s \<leftarrow> yaffs_HashObject a s;
         s \<leftarrow> upd_object a (\<lambda>ob. ob\<lparr>variantType := type, yst_ctime := currentTime s, yst_mtime := currentTime s, yst_atime := currentTime s\<rparr>) s;
         s \<leftarrow> initVariant type tn a s;
         Some (a, s)
       }
     }
   }"

definition yaffs_FindOrCreateObjectByNumber :: "int \<Rightarrow> object_type \<Rightarrow> 'f yaffs_System \<Rightarrow> (nat \<times> 'f yaffs_System) option" where
  "yaffs_FindOrCreateObjectByNumber number type s = do {
     a \<leftarrow> (if number > 0 then yaffs_FindObjectByNumber (word_of_int number) s else Some 0);
     if a = 0 then yaffs_CreateNewObject number type s else Some (a, s)
   }"

definition yaffs_CreateFakeDirectory :: "u32 \<Rightarrow> u32 \<Rightarrow> 'f yaffs_System \<Rightarrow> (nat \<times> 'f yaffs_System) option" where
  "yaffs_CreateFakeDirectory number mode s = do {
     (a, s) \<leftarrow> yaffs_CreateNewObject (sint number) DIRECTORY s;
     if a \<noteq> 0 then do {
       s \<leftarrow> upd_object a (\<lambda>ob. ob\<lparr>fake := True, renameAllowed := False, unlinkAllowed := False, ob_deleted := False,
         unlinked := False, yst_mode := mode, headerChunk := 0\<rparr>) s;
       Some (a, s)
     } else Some (0, s)
   }"

end
