(* ===== verification/Vsprintf.thy ===== *)
theory Vsprintf
  imports Prelude "HOL-Library.Monad_Syntax"
begin

text \<open>
  Character classes (lib_generic/ctype.c, include/linux/ctype.h) and the conversions between
  numbers and text (lib_generic/vsprintf.c): simple_strtoul, simple_strtol, the formatting of
  one number and the interpreter of format strings. A C string is the list of its characters
  without the terminating null character. Machine words have 32 bits (int, long and pointers).
\<close>

section \<open>Characters\<close>

definition NUL :: char where "NUL = CHR 0x00"

text \<open>The character under a pointer into a string.\<close>

definition peek :: "char list \<Rightarrow> char" where
  "peek s = (case s of [] \<Rightarrow> NUL | c # _ \<Rightarrow> c)"

definition C_U :: u8 where "C_U = 0x01"
definition C_L :: u8 where "C_L = 0x02"
definition C_D :: u8 where "C_D = 0x04"
definition C_C :: u8 where "C_C = 0x08"
definition C_P :: u8 where "C_P = 0x10"
definition C_S :: u8 where "C_S = 0x20"
definition C_X :: u8 where "C_X = 0x40"
definition C_SP :: u8 where "C_SP = 0x80"

definition ctype :: "u8 list" where
  "ctype = [
     C_C, C_C, C_C, C_C, C_C, C_C, C_C, C_C,
     C_C, C_C OR C_S, C_C OR C_S, C_C OR C_S, C_C OR C_S, C_C OR C_S, C_C, C_C,
     C_C, C_C, C_C, C_C, C_C, C_C, C_C, C_C,
     C_C, C_C, C_C, C_C, C_C, C_C, C_C, C_C,
     C_S OR C_SP, C_P, C_P, C_P, C_P, C_P, C_P, C_P,
     C_P, C_P, C_P, C_P, C_P, C_P, C_P, C_P,
     C_D, C_D, C_D, C_D, C_D, C_D, C_D, C_D,
     C_D, C_D, C_P, C_P, C_P, C_P, C_P, C_P,
     C_P, C_U OR C_X, C_U OR C_X, C_U OR C_X, C_U OR C_X, C_U OR C_X, C_U OR C_X, C_U,
     C_U, C_U, C_U, C_U, C_U, C_U, C_U, C_U,
     C_U, C_U, C_U, C_U, C_U, C_U, C_U, C_U,
     C_U, C_U, C_U, C_P, C_P, C_P, C_P, C_P,
     C_P, C_L OR C_X, C_L OR C_X, C_L OR C_X, C_L OR C_X, C_L OR C_X, C_L OR C_X, C_L,
     C_L, C_L, C_L, C_L, C_L, C_L, C_L, C_L,
     C_L, C_L, C_L, C_L, C_L, C_L, C_L, C_L,
     C_L, C_L, C_L, C_P, C_P, C_P, C_P, C_C,
     0, 0, 0, 0, 0, 0, 0, 0,
     0, 0, 0, 0, 0, 0, 0, 0,
     0, 0, 0, 0, 0, 0, 0, 0,
     0, 0, 0, 0, 0, 0, 0, 0,
     C_S OR C_SP, C_P, C_P, C_P, C_P, C_P, C_P, C_P,
     C_P, C_P, C_P, C_P, C_P, C_P, C_P, C_P,
     C_P, C_P, C_P, C_P, C_P, C_P, C_P, C_P,
     C_P, C_P, C_P, C_P, C_P, C_P, C_P, C_P,
     C_U, C_U, C_U, C_U, C_U, C_U, C_U, C_U,
     C_U, C_U, C_U, C_U, C_U, C_U, C_U, C_U,
     C_U, C_U, C_U, C_U, C_U, C_U, C_U, C_P,
     C_U, C_U, C_U, C_U, C_U, C_U, C_U, C_L,
     C_L, C_L, C_L, C_L, C_L, C_L, C_L, C_L,
     C_L, C_L, C_L, C_L, C_L, C_L, C_L, C_L,
     C_L, C_L, C_L, C_L, C_L, C_L, C_L, C_P,
     C_L, C_L, C_L, C_L, C_L, C_L, C_L, C_L]"

definition ismask :: "char \<Rightarrow> u8" where
  "ismask c = ctype ! of_char c"

definition isdigit :: "char \<Rightarrow> bool" where "isdigit c \<longleftrightarrow> ismask c AND C_D \<noteq> 0"
definition islower :: "char \<Rightarrow> bool" where "islower c \<longleftrightarrow> ismask c AND C_L \<noteq> 0"
definition isupper :: "char \<Rightarrow> bool" where "isupper c \<longleftrightarrow> ismask c AND C_U \<noteq> 0"
definition isspace :: "char \<Rightarrow> bool" where "isspace c \<longleftrightarrow> ismask c AND C_S \<noteq> 0"
definition isxdigit :: "char \<Rightarrow> bool" where "isxdigit c \<longleftrightarrow> ismask c AND (C_D OR C_X) \<noteq> 0"

definition toupper :: "char \<Rightarrow> u8" where
  "toupper c = (if islower c then of_char c - (of_char (CHR ''a'') - of_char (CHR ''A'')) else of_char c)"

section \<open>Reading numbers\<close>

text \<open>The value of a digit: the letters follow the digits.\<close>

definition digit_value :: "char \<Rightarrow> u32" where
  "digit_value c = (if isdigit c then of_char c - of_char (CHR ''0'')
     else (if islower c then ucast (toupper c) else of_char c) - of_char (CHR ''A'') + 10)"

fun strtoul_loop :: "u32 \<Rightarrow> u32 \<Rightarrow> char list \<Rightarrow> u32 \<times> char list" where
  "strtoul_loop base result [] = (result, [])"
| "strtoul_loop base result (c # cp) =
     (if isxdigit c \<and> digit_value c < base then strtoul_loop base (result * base + digit_value c) cp
      else (result, c # cp))"

text \<open>The number and the rest of the text, which the C code returns through endp.\<close>

definition simple_strtoul :: "char list \<Rightarrow> u32 \<Rightarrow> u32 \<times> char list" where
  "simple_strtoul cp base =
     (let (cp, base) =
        (if peek cp = CHR ''0'' then
           (let cp = tl cp;
                (cp, base) = (if peek cp = CHR ''x'' \<and> isxdigit (peek (tl cp)) then (tl cp, 16) else (cp, base))
            in (cp, if base = 0 then 8 else base))
         else (cp, base));
          base = (if base = 0 then 10 else base)
      in strtoul_loop base 0 cp)"

definition simple_strtol :: "char list \<Rightarrow> u32 \<Rightarrow> u32 \<times> char list" where
  "simple_strtol cp base =
     (if peek cp = CHR ''-'' then (let (n, rest) = simple_strtoul (tl cp) base in (- n, rest))
      else simple_strtoul cp base)"

definition is_digit :: "char \<Rightarrow> bool" where
  "is_digit c \<longleftrightarrow> of_char (CHR ''0'') \<le> (of_char c :: nat) \<and> (of_char c :: nat) \<le> of_char (CHR ''9'')"

fun skip_atoi :: "int \<Rightarrow> char list \<Rightarrow> int \<times> char list" where
  "skip_atoi i [] = (i, [])"
| "skip_atoi i (c # s) = (if is_digit c then skip_atoi (i * 10 + of_char c - of_char (CHR ''0'')) s else (i, c # s))"

section \<open>Printing a number\<close>

definition ZEROPAD :: u32 where "ZEROPAD = 1"
definition SIGN :: u32 where "SIGN = 2"
definition PLUS :: u32 where "PLUS = 4"
definition SPACE :: u32 where "SPACE = 8"
definition LEFT :: u32 where "LEFT = 16"
definition SPECIAL :: u32 where "SPECIAL = 32"
definition LARGE :: u32 where "LARGE = 64"

definition has :: "u32 \<Rightarrow> u32 \<Rightarrow> bool" where
  "has type flag \<longleftrightarrow> type AND flag \<noteq> 0"

definition digit_chars :: "bool \<Rightarrow> string" where
  "digit_chars large = (if large then ''0123456789ABCDEFGHIJKLMNOPQRSTUVWXYZ'' else ''0123456789abcdefghijklmnopqrstuvwxyz'')"

text \<open>
  The digits from the lowest on, as the loop stores them in tmp. Each turn divides the number,
  taken as unsigned, by the base; the caller has refused a base below 2.
\<close>

fun digits_loop :: "string \<Rightarrow> nat \<Rightarrow> nat \<Rightarrow> char list" where
  "digits_loop digits base num =
     (if num = 0 \<or> base < 2 then [] else digits ! (num mod base) # digits_loop digits base (num div base))"

declare digits_loop.simps [simp del]

text \<open>The loop \<open>while (size-- > 0) *str++ = c\<close>: what it writes, and the size after it.\<close>

definition countdown :: "char \<Rightarrow> int \<Rightarrow> char list \<times> int" where
  "countdown c field = (replicate (nat field) c, if field > 0 then -1 else field - 1)"

text \<open>The characters that number appends at str, or None for the null pointer.\<close>

definition number :: "u32 \<Rightarrow> int \<Rightarrow> int \<Rightarrow> int \<Rightarrow> u32 \<Rightarrow> char list option" where
  "number num base field precision type =
     (let digits = digit_chars (has type LARGE);
          type = (if has type LEFT then type AND NOT ZEROPAD else type)
      in if base < 2 \<or> base > 36 then None
      else
        (let c = (if has type ZEROPAD then CHR ''0'' else CHR '' '');
             (sign, num, field) =
               (if has type SIGN then
                  (if sint num < 0 then ([CHR ''-''], - num, field - 1)
                   else if has type PLUS then ([CHR ''+''], num, field - 1)
                   else if has type SPACE then ([CHR '' ''], num, field - 1)
                   else ([], num, field))
                else ([], num, field));
             field = (if has type SPECIAL then (if base = 16 then field - 2 else if base = 8 then field - 1 else field) else field);
             tmp = (if num = 0 then [CHR ''0''] else digits_loop digits (nat base) (unat num));
             i = int (length tmp);
             precision = (if i > precision then i else precision);
             field = field - precision;
             (pad1, field) = (if type AND (ZEROPAD + LEFT) = 0 then countdown (CHR '' '') field else ([], field));
             prefix = (if has type SPECIAL then
                 (if base = 8 then ''0'' else if base = 16 then [CHR ''0'', digits ! 33] else []) else []);
             (pad2, field) = (if \<not> has type LEFT then countdown c field else ([], field));
             zeros = replicate (nat (precision - i)) (CHR ''0'');
             (pad3, field) = countdown (CHR '' '') field
         in Some (pad1 @ sign @ prefix @ pad2 @ zeros @ rev tmp @ pad3)))"

section \<open>Format strings\<close>

text \<open>
  The arguments: a word, a string (or the null pointer), or the address that a %n
  conversion stores to. An argument of another kind than the conversion asks for, or a missing
  one, is undefined in C and gives None.
\<close>

datatype arg = IntArg u32 | StrArg "char list option" | OutArg nat

fun va_int :: "arg list \<Rightarrow> (u32 \<times> arg list) option" where
  "va_int (IntArg n # args) = Some (n, args)"
| "va_int _ = None"

fun va_str :: "arg list \<Rightarrow> (char list option \<times> arg list) option" where
  "va_str (StrArg s # args) = Some (s, args)"
| "va_str _ = None"

fun va_out :: "arg list \<Rightarrow> (nat \<times> arg list) option" where
  "va_out (OutArg p # args) = Some (p, args)"
| "va_out _ = None"

fun flags_loop :: "u32 \<Rightarrow> char list \<Rightarrow> u32 \<times> char list" where
  "flags_loop flags [] = (flags, [])"
| "flags_loop flags (c # fmt) =
     (if c = CHR ''-'' then flags_loop (flags OR LEFT) fmt
      else if c = CHR ''+'' then flags_loop (flags OR PLUS) fmt
      else if c = CHR '' '' then flags_loop (flags OR SPACE) fmt
      else if c = CHR ''#'' then flags_loop (flags OR SPECIAL) fmt
      else if c = CHR ''0'' then flags_loop (flags OR ZEROPAD) fmt
      else (flags, c # fmt))"

definition get_width :: "u32 \<Rightarrow> char list \<Rightarrow> arg list \<Rightarrow> (int \<times> u32 \<times> char list \<times> arg list) option" where
  "get_width flags fmt args =
     (if is_digit (peek fmt) then (let (w, fmt) = skip_atoi 0 fmt in Some (w, flags, fmt, args))
      else if peek fmt = CHR ''*'' then do {
        (n, args) \<leftarrow> va_int args;
        Some (if sint n < 0 then (- sint n, flags OR LEFT, tl fmt, args) else (sint n, flags, tl fmt, args))
      }
      else Some (-1, flags, fmt, args))"

definition get_precision :: "char list \<Rightarrow> arg list \<Rightarrow> (int \<times> char list \<times> arg list) option" where
  "get_precision fmt args =
     (if peek fmt = CHR ''.'' then do {
        let fmt = tl fmt;
        (p, fmt, args) \<leftarrow>
          (if is_digit (peek fmt) then (let (p, fmt) = skip_atoi 0 fmt in Some (p, fmt, args))
           else if peek fmt = CHR ''*'' then do { (n, args) \<leftarrow> va_int args; Some (sint n, tl fmt, args) }
           else Some (-1, fmt, args));
        Some (if p < 0 then 0 else p, fmt, args)
      }
      else Some (-1, fmt, args))"

definition get_qualifier :: "char list \<Rightarrow> char option \<times> char list" where
  "get_qualifier fmt = (if peek fmt \<in> {CHR ''h'', CHR ''l'', CHR ''q''} then (Some (peek fmt), tl fmt) else (None, fmt))"

text \<open>The base and the flags of an integer conversion.\<close>

definition int_conversion :: "char \<Rightarrow> u32 \<Rightarrow> (int \<times> u32) option" where
  "int_conversion c flags =
     (if c = CHR ''o'' then Some (8, flags)
      else if c = CHR ''X'' then Some (16, flags OR LARGE)
      else if c = CHR ''x'' then Some (16, flags)
      else if c = CHR ''d'' \<or> c = CHR ''i'' then Some (10, flags OR SIGN)
      else if c = CHR ''u'' then Some (10, flags)
      else None)"

definition int_argument :: "char option \<Rightarrow> u32 \<Rightarrow> u32 \<Rightarrow> u32" where
  "int_argument qualifier flags n =
     (if qualifier = Some (CHR ''h'') then
        (if has flags SIGN then scast (ucast n :: u16) else ucast (ucast n :: u16))
      else n)"

text \<open>The output of one conversion: what it writes, what it stores, and the arguments left.\<close>

definition convert ::
    "char \<Rightarrow> u32 \<Rightarrow> int \<Rightarrow> int \<Rightarrow> char option \<Rightarrow> nat \<Rightarrow> arg list \<Rightarrow> (char list \<times> (nat \<times> nat) list \<times> arg list) option" where
  "convert c flags width precision qualifier pos args =
     (if c = CHR ''c'' then do {
        (n, args) \<leftarrow> va_int args;
        let pad = replicate (nat (width - 1)) (CHR '' '');
        Some (if has flags LEFT then char_of (unat (ucast n :: u8)) # pad else pad @ [char_of (unat (ucast n :: u8))], [], args)
      }
      else if c = CHR ''s'' then do {
        (s, args) \<leftarrow> va_str args;
        let s = (case s of None \<Rightarrow> ''<NULL>'' | Some s \<Rightarrow> s);
        let s = (if precision < 0 then s else take (nat precision) s);
        let pad = replicate (nat (width - int (length s))) (CHR '' '');
        Some (if has flags LEFT then s @ pad else pad @ s, [], args)
      }
      else if c = CHR ''p'' then do {
        (n, args) \<leftarrow> va_int args;
        let (width, flags) = (if width = -1 then (8, flags OR ZEROPAD) else (width, flags));
        out \<leftarrow> number n 16 width precision flags;
        Some (out, [], args)
      }
      else if c = CHR ''n'' then do {
        (p, args) \<leftarrow> va_out args;
        Some ([], [(p, pos)], args)
      }
      else if c = CHR ''%'' then Some (''%'', [], args)
      else case int_conversion c flags of
        None \<Rightarrow> Some (if c = NUL then ''%'' else [CHR ''%'', c], [], args)
      | Some (base, flags) \<Rightarrow> do {
          (n, args) \<leftarrow> va_int args;
          out \<leftarrow> number (int_argument qualifier flags n) base width precision flags;
          Some (out, [], args)
        })"

lemma flags_loop_length: "flags_loop flags fmt = (f, fmt') \<Longrightarrow> length fmt' \<le> length fmt"
  by (induction flags fmt rule: flags_loop.induct) (auto split: if_splits)

lemma skip_atoi_length: "skip_atoi i s = (n, s') \<Longrightarrow> length s' \<le> length s"
  by (induction i s rule: skip_atoi.induct) (auto split: if_splits)

lemma get_width_length: "get_width flags fmt args = Some (w, f, fmt', args') \<Longrightarrow> length fmt' \<le> length fmt"
  by (auto simp: get_width_def bind_eq_Some_conv split: if_splits prod.splits dest: skip_atoi_length)

lemma get_precision_length: "get_precision fmt args = Some (p, fmt', args') \<Longrightarrow> length fmt' \<le> length fmt"
  by (auto simp: get_precision_def Let_def bind_eq_Some_conv split: if_splits prod.splits dest: skip_atoi_length)

lemma get_qualifier_length: "get_qualifier fmt = (q, fmt') \<Longrightarrow> length fmt' \<le> length fmt"
  by (auto simp: get_qualifier_def split: if_splits)

text \<open>
  The interpreter. pos is the number of characters written so far (str - buf), and the result is
  what is written from there on with the stores of the %n conversions.
\<close>

function vsprintf_from :: "nat \<Rightarrow> char list \<Rightarrow> arg list \<Rightarrow> (char list \<times> (nat \<times> nat) list) option" where
  "vsprintf_from pos [] args = Some ([], [])"
| "vsprintf_from pos (c # fmt) args =
     (if c \<noteq> CHR ''%'' then map_option (\<lambda>(out, st). (c # out, st)) (vsprintf_from (pos + 1) fmt args)
      else
        (let (flags, fmt1) = flags_loop 0 fmt
         in case get_width flags fmt1 args of
              None \<Rightarrow> None
            | Some (width, flags, fmt2, args) \<Rightarrow>
                (case get_precision fmt2 args of
                   None \<Rightarrow> None
                 | Some (precision, fmt3, args) \<Rightarrow>
                     (let (qualifier, fmt4) = get_qualifier fmt3
                      in case convert (peek fmt4) flags width precision qualifier pos args of
                           None \<Rightarrow> None
                         | Some (out, st, args) \<Rightarrow>
                             map_option (\<lambda>(out', st'). (out @ out', st @ st'))
                               (vsprintf_from (pos + length out) (tl fmt4) args)))))"
  by pat_completeness auto

termination
  by (relation "measure (\<lambda>(pos, fmt, args). length fmt)")
    (auto dest!: flags_loop_length [OF sym] get_width_length get_precision_length get_qualifier_length [OF sym])

text \<open>The text in the buffer, its length and the stores.\<close>

definition vsprintf :: "char list \<Rightarrow> arg list \<Rightarrow> (char list \<times> int \<times> (nat \<times> nat) list) option" where
  "vsprintf fmt args = map_option (\<lambda>(out, st). (out, int (length out), st)) (vsprintf_from 0 fmt args)"


end
