(* ===== verification/ObjectHeader.thy ===== *)
theory ObjectHeader
  imports Objects Vsprintf
begin

text \<open>
  Object headers and names (yaffs_guts.c, yaffs_guts.h): the 512 bytes of a header as they lie in a chunk on the
  little-endian targets, the sum that speeds name searches up, the short name kept in memory,
  details that are loaded when they are first needed, the name of an object, and the search for
  a name in a directory. A string is the list of its characters without the null character at its end; an
  array is the list of all its bytes.
\<close>

section \<open>Strings\<close>

text \<open>The string that starts an array: the bytes before the first null character.\<close>

definition cstring :: "u8 list \<Rightarrow> u8 list" where
  "cstring b = takeWhile (\<lambda>c. c \<noteq> 0) b"

text \<open>The bytes strncpy stores for a string: n of them, filled up with null characters.\<close>

definition strncpy_bytes :: "nat \<Rightarrow> u8 list \<Rightarrow> u8 list" where
  "strncpy_bytes n s = take n (s @ replicate n 0)"

definition ascii :: "char list \<Rightarrow> u8 list" where
  "ascii s = map of_char s"

definition YAFFS_LOSTNFOUND_NAME :: "u8 list" where "YAFFS_LOSTNFOUND_NAME = ascii ''lost+found''"
definition YAFFS_LOSTNFOUND_PREFIX :: "char list" where "YAFFS_LOSTNFOUND_PREFIX = ''obj''"

section \<open>The header of an object\<close>

record yaffs_ObjectHeader =
  oh_type :: u32
  oh_parentObjectId :: u32
  oh_sum :: "u8 list"
  oh_name :: "u8 list"
  oh_yst_mode :: u32
  oh_yst_uid :: u32
  oh_yst_gid :: u32
  oh_yst_atime :: u32
  oh_yst_mtime :: u32
  oh_yst_ctime :: u32
  oh_fileSize :: u32
  oh_equivalentObjectId :: u32
  oh_alias :: "u8 list"
  oh_yst_rdev :: u32
  oh_roomToGrow :: "u8 list"
  oh_shadowsObject :: u32
  oh_isShrink :: u32

definition slice :: "nat \<Rightarrow> nat \<Rightarrow> u8 list \<Rightarrow> u8 list" where
  "slice i n b = take n (drop i b)"

text \<open>Reading the fields from a buffer, and storing them all. Two bytes before the mode are padding.\<close>

definition load_header :: "u8 list \<Rightarrow> yaffs_ObjectHeader" where
  "load_header b =
     \<lparr>oh_type = of_le32 (slice 0 4 b), oh_parentObjectId = of_le32 (slice 4 4 b), oh_sum = slice 8 2 b,
      oh_name = slice 10 256 b, oh_yst_mode = of_le32 (slice 268 4 b), oh_yst_uid = of_le32 (slice 272 4 b),
      oh_yst_gid = of_le32 (slice 276 4 b), oh_yst_atime = of_le32 (slice 280 4 b), oh_yst_mtime = of_le32 (slice 284 4 b),
      oh_yst_ctime = of_le32 (slice 288 4 b), oh_fileSize = of_le32 (slice 292 4 b),
      oh_equivalentObjectId = of_le32 (slice 296 4 b), oh_alias = slice 300 160 b, oh_yst_rdev = of_le32 (slice 460 4 b),
      oh_roomToGrow = slice 464 40 b, oh_shadowsObject = of_le32 (slice 504 4 b), oh_isShrink = of_le32 (slice 508 4 b)\<rparr>"

definition store_header :: "yaffs_ObjectHeader \<Rightarrow> u8 list \<Rightarrow> u8 list" where
  "store_header h b =
     le32 (oh_type h) @ le32 (oh_parentObjectId h) @ oh_sum h @ oh_name h @ slice 266 2 b @
     le32 (oh_yst_mode h) @ le32 (oh_yst_uid h) @ le32 (oh_yst_gid h) @ le32 (oh_yst_atime h) @ le32 (oh_yst_mtime h) @
     le32 (oh_yst_ctime h) @ le32 (oh_fileSize h) @ le32 (oh_equivalentObjectId h) @ oh_alias h @ le32 (oh_yst_rdev h) @
     oh_roomToGrow h @ le32 (oh_shadowsObject h) @ le32 (oh_isShrink h) @ drop 512 b"

text \<open>The arrays of a header have their declared sizes.\<close>

definition header_ok :: "yaffs_ObjectHeader \<Rightarrow> bool" where
  "header_ok h \<longleftrightarrow> length (oh_sum h) = 2 \<and> length (oh_name h) = 256 \<and> length (oh_alias h) = 160 \<and> length (oh_roomToGrow h) = 40"

lemma load_header_ok: "512 \<le> length b \<Longrightarrow> header_ok (load_header b)"
  by (simp add: header_ok_def load_header_def slice_def)

lemma load_store_header:
  assumes "header_ok h" and "512 \<le> length b"
  shows "load_header (store_header h b) = h"
  using assms by (simp add: load_header_def store_header_def slice_def header_ok_def)

lemma length_store_header: "header_ok h \<Longrightarrow> 512 \<le> length b \<Longrightarrow> length (store_header h b) = length b"
  by (simp add: store_header_def slice_def header_ok_def)

section \<open>Names\<close>

text \<open>The loop of yaffs_CalcNameSum; i is the position counted from 1.\<close>

fun nameSum_loop :: "u8 list \<Rightarrow> 16 word \<Rightarrow> 16 word \<Rightarrow> 16 word" where
  "nameSum_loop [] acc i = acc"
| "nameSum_loop (c # cs) acc i =
     (if c \<noteq> 0 \<and> unat i < YAFFS_MAX_NAME_LENGTH div 2 then nameSum_loop cs (acc + ucast c * i) (i + 1) else acc)"

definition yaffs_CalcNameSum :: "u8 list option \<Rightarrow> 16 word" where
  "yaffs_CalcNameSum name = (case name of None \<Rightarrow> 0 | Some n \<Rightarrow> nameSum_loop n 0 1)"

definition yaffs_SetObjectName :: "u8 list option \<Rightarrow> yaffs_Object \<Rightarrow> yaffs_Object" where
  "yaffs_SetObjectName name ob =
     ob\<lparr>shortName := (case name of Some n \<Rightarrow> if length n \<le> YAFFS_SHORT_NAME_LENGTH then n else [] | None \<Rightarrow> []),
        nameSum := yaffs_CalcNameSum name\<rparr>"

text \<open>A copy in new memory, None for a null pointer.\<close>

definition yaffs_CloneString :: "u8 list option \<Rightarrow> 'f yaffs_Device \<Rightarrow> u8 list option \<times> 'f yaffs_Device" where
  "yaffs_CloneString str dev =
     (case str of
        None \<Rightarrow> (None, dev)
      | Some s \<Rightarrow> if s = [] then (None, dev) else (let (ok, dev) = yMalloc dev in (if ok then Some s else None, dev)))"

section \<open>Details on demand\<close>

text \<open>Reading a chunk into the buffer at an address.\<close>

definition readChunkInto :: "nat \<Rightarrow> int \<Rightarrow> yaffs_ExtendedTags \<Rightarrow> 'f yaffs_Device \<Rightarrow> (int \<times> yaffs_ExtendedTags \<times> 'f yaffs_Device) option" where
  "readChunkInto a chunk tags dev = do {
     (r, buf, tags, dev) \<leftarrow> yaffs_ReadChunkWithTagsFromNAND dev chunk (Some (heap dev a)) tags;
     Some (r, tags, dev\<lparr>heap := (heap dev)(a := (case buf of Some b \<Rightarrow> b | None \<Rightarrow> heap dev a))\<rparr>)
   }"

text \<open>
  The details of an object from the header in a chunk. A string ends at its first null character, also where that
  lies beyond the array of the string.
\<close>

definition load_details :: "u8 list \<Rightarrow> yaffs_Object \<Rightarrow> yaffs_Object" where
  "load_details content ob =
     (let oh = load_header content
      in yaffs_SetObjectName (Some (cstring (drop 10 content)))
           (ob\<lparr>lazyLoaded := False, yst_mode := oh_yst_mode oh, yst_uid := oh_yst_uid oh, yst_gid := oh_yst_gid oh,
              yst_atime := oh_yst_atime oh, yst_mtime := oh_yst_mtime oh, yst_ctime := oh_yst_ctime oh, yst_rdev := oh_yst_rdev oh\<rparr>))"

definition yaffs_CheckObjectDetailsLoaded :: "nat \<Rightarrow> 'f yaffs_System \<Rightarrow> 'f yaffs_System option" where
  "yaffs_CheckObjectDetailsLoaded a s = do {
     ob \<leftarrow> objects s a;
     if lazyLoaded ob then do {
       let (chunkData, d) = yaffs_GetTempBuffer (device s) 5951;
       (result, tags, d) \<leftarrow> readChunkInto chunkData (headerChunk ob) (stackExtTags d) d;
       let content = heap d chunkData;
       let ob = load_details content ob;
       let (alias, d) = (if variantType ob = SYMLINK then yaffs_CloneString (Some (cstring (drop 300 content))) d else (symLinkAlias ob, d));
       Some (s\<lparr>device := yaffs_ReleaseTempBuffer d chunkData, objects := (objects s)(a \<mapsto> ob\<lparr>symLinkAlias := alias\<rparr>)\<rparr>)
     } else Some s
   }"

section \<open>The name of an object\<close>

text \<open>
  The name as it stands in the buffer of the given size, at most buffSize - 1 characters; buffSize is positive.
  A made-up name is printed with sprintf of U-Boot.
\<close>

definition made_up_name :: "u32 \<Rightarrow> u8 list option" where
  "made_up_name n = map_option (\<lambda>(out, len, st). ascii out)
     (vsprintf ''%s%d'' [StrArg (Some YAFFS_LOSTNFOUND_PREFIX), IntArg n])"

definition yaffs_GetObjectName :: "nat \<Rightarrow> nat \<Rightarrow> 'f yaffs_System \<Rightarrow> (u8 list \<times> 'f yaffs_System) option" where
  "yaffs_GetObjectName a buffSize s = do {
     s \<leftarrow> yaffs_CheckObjectDetailsLoaded a s;
     ob \<leftarrow> objects s a;
     if ob_objectId ob = YAFFS_OBJECTID_LOSTNFOUND then Some (take (buffSize - 1) YAFFS_LOSTNFOUND_NAME, s)
     else if headerChunk ob \<le> 0 then do {
       locName \<leftarrow> made_up_name (ob_objectId ob);
       Some (take (buffSize - 1) locName, s)
     } else if shortName ob \<noteq> [] then Some (shortName ob, s)
     else do {
       let (buf, d) = yaffs_GetTempBuffer (device s) 6848;
       let d = d\<lparr>heap := (heap d)(buf := replicate (nat (nDataBytesPerChunk d)) 0 @ drop (nat (nDataBytesPerChunk d)) (heap d buf))\<rparr>;
       (result, t, d) \<leftarrow> (if headerChunk ob \<ge> 0 then readChunkInto buf (headerChunk ob) (stackExtTags d) d
         else Some (0, stackExtTags d, d));
       let name = take (buffSize - 1) (cstring (drop 10 (heap d buf)));
       Some (name, s\<lparr>device := yaffs_ReleaseTempBuffer d buf\<rparr>)
     }
   }"

section \<open>Searching a directory\<close>

definition yaffs_FindObjectByName :: "nat \<Rightarrow> u8 list option \<Rightarrow> 'f yaffs_System \<Rightarrow> (nat \<times> 'f yaffs_System) option" where
  "yaffs_FindObjectByName directory name s =
     (case name of
        None \<Rightarrow> Some (0, s)
      | Some name \<Rightarrow> do {
          dir \<leftarrow> objects s directory;
          let acc = yaffs_CalcNameSum (Some name);
          (r, s) \<leftarrow> list_for_each lists (Children directory) (\<lambda>i s. do {
             l \<leftarrow> siblings_entry i;
             s \<leftarrow> yaffs_CheckObjectDetailsLoaded l s;
             ob \<leftarrow> objects s l;
             if ob_objectId ob = YAFFS_OBJECTID_LOSTNFOUND then
               Some (if name = YAFFS_LOSTNFOUND_NAME then Some l else None, s)
             else if nameSum ob = acc \<or> headerChunk ob \<le> 0 then do {
               (buf, s) \<leftarrow> yaffs_GetObjectName l YAFFS_MAX_NAME_LENGTH s;
               Some (if take YAFFS_MAX_NAME_LENGTH name = take YAFFS_MAX_NAME_LENGTH buf then Some l else None, s)
             } else Some (None, s)
          }) s;
          Some (case r of Some l \<Rightarrow> l | None \<Rightarrow> 0, s)
        })"

end
