(* ===== verification/GarbageCollect.thy ===== *)
theory GarbageCollect
  imports ObjectHeader
begin

text \<open>
  Object headers on the flash, moving objects between directories, deletion of objects, the collection of a
  block, and writing the chunks of a file (yaffs_guts.c). Writing a header or a chunk first looks for a block to
  collect, and the collection of a block can itself rename and delete objects and write their headers. The
  recursion ends there, since yaffs_CheckGarbageCollection returns at once during a collection: the operations
  that occur on both sides take the collector as their first argument, and within a collection it is
  no_collection, which has no value outside of one. The second argument is the bound on the
  attempts to write a new chunk.
\<close>

type_synonym 'f collector = "'f yaffs_System \<Rightarrow> (int \<times> 'f yaffs_System) option"

definition no_collection :: "'f collector" where
  "no_collection s = (if isDoingGC s then Some (YAFFS_OK, s) else None)"

section \<open>Headers on the flash\<close>

definition object_type_code :: "object_type \<Rightarrow> u32" where
  "object_type_code t = (case t of UNKNOWN \<Rightarrow> 0 | FILE \<Rightarrow> 1 | SYMLINK \<Rightarrow> 2 | DIRECTORY \<Rightarrow> 3 | HARDLINK \<Rightarrow> 4 | object_type.SPECIAL \<Rightarrow> 5)"

definition yaffs_ObjectHasCachedWriteData :: "nat \<Rightarrow> 'f yaffs_Device \<Rightarrow> bool" where
  "yaffs_ObjectHasCachedWriteData a dev =
     list_ex (\<lambda>c. cc_object c = Some a \<and> dirty c) (take (nat (nShortOpCaches dev)) (srCache dev))"

text \<open>The fields of the header of an object; None if the alias of a symbolic link is a null pointer or has been freed.\<close>

definition fill_header ::
    "yaffs_Object \<Rightarrow> u32 \<Rightarrow> u8 list option \<Rightarrow> u8 list option \<Rightarrow> bool \<Rightarrow> int \<Rightarrow> yaffs_ObjectHeader \<Rightarrow> yaffs_ObjectHeader option" where
  "fill_header ob parentId name oldName isShrink shadows oh =
     (let oh = oh\<lparr>oh_type := object_type_code (variantType ob), oh_yst_mode := yst_mode ob, oh_shadowsObject := word_of_int shadows,
            oh_yst_uid := yst_uid ob, oh_yst_gid := yst_gid ob, oh_yst_atime := yst_atime ob, oh_yst_mtime := yst_mtime ob,
            oh_yst_ctime := yst_ctime ob, oh_yst_rdev := yst_rdev ob, oh_parentObjectId := parentId,
            oh_name := (case name of
                Some (c # cs) \<Rightarrow> strncpy_bytes YAFFS_MAX_NAME_LENGTH (c # cs) @ [0]
              | _ \<Rightarrow> (case oldName of Some n \<Rightarrow> n | None \<Rightarrow> replicate (YAFFS_MAX_NAME_LENGTH + 1) 0)),
            oh_isShrink := (if isShrink then 1 else 0)\<rparr>
      in case variantType ob of
           FILE \<Rightarrow> Some (oh\<lparr>oh_fileSize := (if parentId = YAFFS_OBJECTID_DELETED \<or> parentId = YAFFS_OBJECTID_UNLINKED then 0
                                         else fileSize (fileVariant ob))\<rparr>)
         | HARDLINK \<Rightarrow> Some (oh\<lparr>oh_equivalentObjectId := ob_equivalentObjectId ob\<rparr>)
         | SYMLINK \<Rightarrow> (case symLinkAlias ob of
               None \<Rightarrow> None
             | Some al \<Rightarrow> Some (oh\<lparr>oh_alias := strncpy_bytes YAFFS_MAX_ALIAS_LENGTH al @ [0]\<rparr>))
         | _ \<Rightarrow> Some oh)"

definition header_tags :: "yaffs_Object \<Rightarrow> yaffs_ObjectHeader \<Rightarrow> yaffs_ExtendedTags \<Rightarrow> yaffs_ExtendedTags" where
  "header_tags ob oh stk =
     (yaffs_InitialiseTags stk)\<lparr>chunkId := 0, objectId := ob_objectId ob, serialNumber := ucast (serial ob),
        extraHeaderInfoAvailable := 1, extraParentObjectId := oh_parentObjectId oh, extraFileLength := oh_fileSize oh,
        extraIsShrinkHeader := oh_isShrink oh, extraEquivalentObjectId := oh_equivalentObjectId oh,
        extraShadows := (if sint (oh_shadowsObject oh) > 0 then 1 else 0), extraObjectType := object_type_code (variantType ob)\<rparr>"

text \<open>The result is the chunk of the new header, negative if it could not be written.\<close>

definition yaffs_UpdateObjectHeader ::
    "'f collector \<Rightarrow> nat \<Rightarrow> nat \<Rightarrow> u8 list option \<Rightarrow> bool \<Rightarrow> bool \<Rightarrow> int \<Rightarrow> 'f yaffs_System \<Rightarrow> (int \<times> 'f yaffs_System) option" where
  "yaffs_UpdateObjectHeader gc fuel a name force isShrink shadows s = do {
     ob \<leftarrow> objects s a;
     if fake ob \<and> \<not> force then Some (0, s)
     else do {
       (gcOk, s) \<leftarrow> gc s;
       s \<leftarrow> yaffs_CheckObjectDetailsLoaded a s;
       let (buf, d) = yaffs_GetTempBuffer (device s) 3667;
       ob \<leftarrow> objects s a;
       let prevChunkId = headerChunk ob;
       (oldName, d) \<leftarrow>
         (if prevChunkId \<ge> 0 then do {
            (result, oldTags, d) \<leftarrow> readChunkInto buf prevChunkId (stackExtTags d) d;
            Some (Some (oh_name (load_header (heap d buf))), d)
          } else Some (None, d));
       parentId \<leftarrow> (if parent ob \<noteq> 0 then map_option ob_objectId (objects s (parent ob)) else Some 0);
       let blank = replicate (nat (nDataBytesPerChunk d)) 0xFF @ drop (nat (nDataBytesPerChunk d)) (heap d buf);
       oh \<leftarrow> fill_header ob parentId name oldName isShrink shadows (load_header blank);
       let content = store_header oh blank;
       let ob = ob\<lparr>serial := serial ob + 1\<rparr>;
       let d = d\<lparr>heap := (heap d)(buf := content)\<rparr>;
       (newChunkId, newTags, d) \<leftarrow> yaffs_WriteNewChunkWithTagsToNAND fuel d content (header_tags ob oh (stackExtTags d)) (prevChunkId \<ge> 0);
       (ob, d) \<leftarrow>
         (if newChunkId \<ge> 0 then do {
            let ob = ob\<lparr>headerChunk := newChunkId\<rparr>;
            d \<leftarrow> (if prevChunkId \<ge> 0 then yaffs_DeleteChunk d prevChunkId True else Some d);
            let ob = (if \<not> yaffs_ObjectHasCachedWriteData a d then ob\<lparr>ob_dirty := False\<rparr> else ob);
            d \<leftarrow> (if isShrink then do {
                   let blk = newChunkId div nChunksPerBlock d;
                   bi \<leftarrow> yaffs_GetBlockInfo d blk;
                   Some (setBlockInfo d blk (bi\<lparr>hasShrinkHeader := True\<rparr>))
                 } else Some d);
            Some (ob, d)
          } else Some (ob, d));
       Some (newChunkId, s\<lparr>device := yaffs_ReleaseTempBuffer d buf, objects := (objects s)(a \<mapsto> ob)\<rparr>)
     }
   }"

section \<open>Moving and deleting objects\<close>

text \<open>A null pointer for the directory keeps the object where it is.\<close>

definition yaffs_ChangeObjectName ::
    "'f collector \<Rightarrow> nat \<Rightarrow> nat \<Rightarrow> nat \<Rightarrow> u8 list option \<Rightarrow> bool \<Rightarrow> int \<Rightarrow> 'f yaffs_System \<Rightarrow> (int \<times> 'f yaffs_System) option" where
  "yaffs_ChangeObjectName gc fuel a newDir newName force shadows s = do {
     ob \<leftarrow> objects s a;
     let newDir = (if newDir = 0 then parent ob else newDir);
     dir \<leftarrow> objects s newDir;
     let unlinkOp = (newDir = unlinkedDir s \<and> (isYaffs2 (device s) \<or> variantType ob = FILE));
     let deleteOp = (newDir = deletedDir s);
     (existingTarget, s) \<leftarrow> yaffs_FindObjectByName newDir newName s;
     if (unlinkOp \<or> deleteOp \<or> force \<or> shadows > 0 \<or> existingTarget = 0) \<and> variantType dir = DIRECTORY then do {
       s \<leftarrow> upd_object a (\<lambda>ob. (yaffs_SetObjectName newName ob)\<lparr>ob_dirty := True\<rparr>) s;
       s \<leftarrow> yaffs_AddObjectToDirectory newDir a s;
       s \<leftarrow> (if unlinkOp then upd_object a (\<lambda>ob. ob\<lparr>unlinked := True\<rparr>) s else Some s);
       (r, s) \<leftarrow> yaffs_UpdateObjectHeader gc fuel a newName False deleteOp shadows s;
       Some (if r \<ge> 0 then YAFFS_OK else YAFFS_FAIL, s)
     } else Some (YAFFS_FAIL, s)
   }"

definition yaffs_InvalidateWholeChunkCache :: "nat \<Rightarrow> 'f yaffs_Device \<Rightarrow> 'f yaffs_Device" where
  "yaffs_InvalidateWholeChunkCache a dev =
     (if nShortOpCaches dev > 0 then
        dev\<lparr>srCache := map (\<lambda>c. if cc_object c = Some a then c\<lparr>cc_object := None\<rparr> else c) (take (nat (nShortOpCaches dev)) (srCache dev)) @
               drop (nat (nShortOpCaches dev)) (srCache dev)\<rparr>
      else dev)"

definition yaffs_DoGenericObjectDeletion :: "'f collector \<Rightarrow> nat \<Rightarrow> nat \<Rightarrow> 'f yaffs_System \<Rightarrow> (int \<times> 'f yaffs_System) option" where
  "yaffs_DoGenericObjectDeletion gc fuel a s = do {
     let s = s\<lparr>device := yaffs_InvalidateWholeChunkCache a (device s)\<rparr>;
     ob \<leftarrow> objects s a;
     s \<leftarrow> (if isYaffs2 (device s) \<and> parent ob \<noteq> deletedDir s then do {
            (r, s) \<leftarrow> yaffs_ChangeObjectName gc fuel a (deletedDir s) (Some (ascii ''deleted'')) False 0 s;
            Some s
          } else Some s);
     s \<leftarrow> yaffs_RemoveObjectFromDirectory a s;
     ob \<leftarrow> objects s a;
     s \<leftarrow> upd_device (\<lambda>d. yaffs_DeleteChunk d (headerChunk ob) True) s;
     s \<leftarrow> upd_object a (\<lambda>ob. ob\<lparr>headerChunk := -1\<rparr>) s;
     s \<leftarrow> yaffs_FreeObject a s;
     Some (YAFFS_OK, s)
   }"

text \<open>The top tnode of a file goes back to the stock.\<close>

definition free_top :: "nat \<Rightarrow> 'f yaffs_System \<Rightarrow> 'f yaffs_System option" where
  "free_top a s = do {
     ob \<leftarrow> objects s a;
     let s = s\<lparr>device := yaffs_FreeTnode (device s) (top (fileVariant ob))\<rparr>;
     upd_object a (\<lambda>ob. ob\<lparr>fileVariant := (fileVariant ob)\<lparr>top := Null\<rparr>\<rparr>) s
   }"

section \<open>Collecting a block\<close>

text \<open>
  One chunk of the block that is in use. The tags come from the flash. The comparison of the chunk with the one its object knows
  is a check whose outcome is only traced, but it reads the flash. Data of a deleted file is dropped, and the
  file is noted when this was its last chunk; everything else is copied if its object is known.
\<close>

definition checkMatching :: "int \<Rightarrow> nat \<Rightarrow> yaffs_ExtendedTags \<Rightarrow> 'f yaffs_System \<Rightarrow> 'f yaffs_System option" where
  "checkMatching oldChunk a tags s =
     (if a \<noteq> 0 \<and> \<not> yaffs_SkipVerification (device s) then do {
        ob \<leftarrow> objects s a;
        if chunkId tags = 0 \<or> softDeleted ob then Some s
        else do {
          (matchingChunk, t, d) \<leftarrow> yaffs_FindChunkInFile ob (sint (chunkId tags)) None (device s);
          Some (s\<lparr>device := d\<rparr>)
        }
      } else Some s)"

definition dropChunk :: "nat \<Rightarrow> u32 \<Rightarrow> nat \<Rightarrow> 'f yaffs_System \<Rightarrow> (nat \<times> 'f yaffs_System) option" where
  "dropChunk a oid cleanups s = do {
     s \<leftarrow> upd_object a (\<lambda>ob. ob\<lparr>nDataChunks := nDataChunks ob - 1\<rparr>) s;
     ob \<leftarrow> objects s a;
     if nDataChunks ob \<le> 0 then
       (if cleanups \<ge> length (gcCleanupList s) then None
        else Some (cleanups + 1, s\<lparr>gcCleanupList := (gcCleanupList s)[cleanups := oid]\<rparr>))
     else Some (cleanups, s)
   }"

definition copyChunk :: "nat \<Rightarrow> nat \<Rightarrow> nat \<Rightarrow> yaffs_ExtendedTags \<Rightarrow> 'f yaffs_System \<Rightarrow> 'f yaffs_System option" where
  "copyChunk fuel a buf tags s = do {
     let tags = tags\<lparr>serialNumber := serialNumber tags + 1\<rparr>;
     let s = s\<lparr>nGCCopies := nGCCopies s + 1\<rparr>;
     let d = device s;
     let (tags, d) =
       (if chunkId tags = 0 then
          (tags\<lparr>extraShadows := 0, extraIsShrinkHeader := 0\<rparr>,
           d\<lparr>heap := (heap d)(buf := store_header ((load_header (heap d buf))\<lparr>oh_isShrink := 0, oh_shadowsObject := -1\<rparr>) (heap d buf))\<rparr>)
        else (tags, d));
     (newChunk, tags, d) \<leftarrow> yaffs_WriteNewChunkWithTagsToNAND fuel d (heap d buf) tags True;
     let s = s\<lparr>device := d\<rparr>;
     if newChunk < 0 then Some s
     else if chunkId tags = 0 then
       upd_object a (\<lambda>ob. ob\<lparr>headerChunk := newChunk, serial := ucast (serialNumber tags)\<rparr>) s
     else do {
       ob \<leftarrow> objects s a;
       (r, ob, d) \<leftarrow> yaffs_PutChunkIntoFile ob (sint (chunkId tags)) newChunk 0 (device s);
       Some (s\<lparr>device := d, objects := (objects s)(a \<mapsto> ob)\<rparr>)
     }
   }"

definition collectChunk :: "nat \<Rightarrow> nat \<Rightarrow> int \<Rightarrow> nat \<Rightarrow> 'f yaffs_System \<Rightarrow> (nat \<times> 'f yaffs_System) option" where
  "collectChunk fuel buf oldChunk cleanups s = do {
     (r, tags, d) \<leftarrow> readChunkInto buf oldChunk (yaffs_InitialiseTags (stackExtTags (device s))) (device s);
     let s = s\<lparr>device := d\<rparr>;
     a \<leftarrow> yaffs_FindObjectByNumber (objectId tags) s;
     s \<leftarrow> checkMatching oldChunk a tags s;
     deletedFile \<leftarrow> (if a = 0 then Some False else map_option ob_deleted (objects s a));
     (markNAND, cleanups, s) \<leftarrow>
       (if a \<noteq> 0 \<and> deletedFile \<and> chunkId tags \<noteq> 0 then
          map_option (\<lambda>(n, s). (False, n, s)) (dropChunk a (objectId tags) cleanups s)
        else if a \<noteq> 0 then map_option (\<lambda>s. (True, cleanups, s)) (copyChunk fuel a buf tags s)
        else Some (True, cleanups, s));
     s \<leftarrow> upd_device (\<lambda>d. yaffs_DeleteChunk d oldChunk markNAND) s;
     Some (cleanups, s)
   }"

text \<open>The pages of the block from a page on; the first argument is the number of pages left.\<close>

fun collect_loop :: "nat \<Rightarrow> nat \<Rightarrow> nat \<Rightarrow> int \<Rightarrow> int \<Rightarrow> nat \<Rightarrow> 'f yaffs_System \<Rightarrow> (nat \<times> 'f yaffs_System) option" where
  "collect_loop 0 fuel buf block chunkInBlock cleanups s = Some (cleanups, s)"
| "collect_loop (Suc n) fuel buf block chunkInBlock cleanups s = do {
     some \<leftarrow> yaffs_StillSomeChunkBits (device s) block;
     if \<not> some then Some (cleanups, s)
     else do {
       inUse \<leftarrow> yaffs_CheckChunkBit (device s) block chunkInBlock;
       (cleanups, s) \<leftarrow> (if inUse then collectChunk fuel buf (block * nChunksPerBlock (device s) + chunkInBlock) cleanups s
                         else Some (cleanups, s));
       collect_loop n fuel buf block (chunkInBlock + 1) cleanups s
     }
   }"

text \<open>The deleted files whose last chunk is gone.\<close>

fun cleanup_loop :: "nat \<Rightarrow> u32 list \<Rightarrow> 'f yaffs_System \<Rightarrow> 'f yaffs_System option" where
  "cleanup_loop fuel [] s = Some s"
| "cleanup_loop fuel (oid # oids) s = do {
     a \<leftarrow> yaffs_FindObjectByNumber oid s;
     s \<leftarrow> (if a \<noteq> 0 then do {
            s \<leftarrow> free_top a s;
            (r, s) \<leftarrow> yaffs_DoGenericObjectDeletion no_collection fuel a s;
            Some (s\<lparr>device := (device s)\<lparr>nDeletedFiles := nDeletedFiles (device s) - 1\<rparr>\<rparr>)
          } else Some s);
     cleanup_loop fuel oids s
   }"

definition yaffs_GarbageCollectBlock :: "nat \<Rightarrow> int \<Rightarrow> 'f yaffs_System \<Rightarrow> (int \<times> 'f yaffs_System) option" where
  "yaffs_GarbageCollectBlock fuel block s = do {
     bi \<leftarrow> yaffs_GetBlockInfo (device s) block;
     let isCheckpointBlock = (blockState bi = YAFFS_BLOCK_STATE_CHECKPOINT);
     s \<leftarrow> upd_device (\<lambda>d. startCollecting d block) s;
     let s = s\<lparr>isDoingGC := True\<rparr>;
     some \<leftarrow> yaffs_StillSomeChunkBits (device s) block;
     s \<leftarrow> (if isCheckpointBlock \<or> \<not> some then upd_device (\<lambda>d. yaffs_BlockBecameDirty d block) s
           else do {
             let (buf, d) = yaffs_GetTempBuffer (device s) 2991;
             (cleanups, s) \<leftarrow> collect_loop (nat (nChunksPerBlock d)) fuel buf block 0 0 (s\<lparr>device := d\<rparr>);
             let s = s\<lparr>device := yaffs_ReleaseTempBuffer (device s) buf\<rparr>;
             cleanup_loop fuel (take cleanups (gcCleanupList s)) s
           });
     Some (YAFFS_OK, s\<lparr>isDoingGC := False\<rparr>)
   }"

text \<open>At most n attempts; the result of the last collection counts only if it was an urgent one.\<close>

fun checkGC_loop :: "nat \<Rightarrow> nat \<Rightarrow> int \<Rightarrow> 'f yaffs_System \<Rightarrow> (int \<times> 'f yaffs_System) option" where
  "checkGC_loop 0 fuel gcOk s = None"
| "checkGC_loop (Suc n) fuel gcOk s = do {
     let (required, d) = yaffs_CalcCheckpointBlocksRequired (device s);
     let checkpointBlockAdjust = required - blocksInCheckpoint d;
     let checkpointBlockAdjust = (if checkpointBlockAdjust < 0 then 0 else checkpointBlockAdjust);
     let aggressive = (nErasedBlocks d < nReservedBlocks d + checkpointBlockAdjust + 2);
     (block, d) \<leftarrow> yaffs_FindBlockForGarbageCollection d aggressive;
     let s = s\<lparr>device := d\<rparr>;
     (gcOk, s) \<leftarrow>
       (if block > 0 then do {
          let s = s\<lparr>garbageCollections := garbageCollections s + 1\<rparr>;
          let s = (if \<not> aggressive then s\<lparr>passiveGarbageCollections := passiveGarbageCollections s + 1\<rparr> else s);
          yaffs_GarbageCollectBlock fuel block s
        } else Some (gcOk, s));
     if nErasedBlocks (device s) < nReservedBlocks (device s) \<and> block > 0 \<and> n > 0 then checkGC_loop n fuel gcOk s
     else Some (if aggressive then gcOk else YAFFS_OK, s)
   }"

definition yaffs_CheckGarbageCollection :: "nat \<Rightarrow> 'f collector" where
  "yaffs_CheckGarbageCollection fuel s =
     (if isDoingGC s then Some (YAFFS_OK, s) else checkGC_loop 2 fuel YAFFS_OK s)"

section \<open>Writing a chunk of a file\<close>

definition yaffs_WriteChunkDataToObject ::
    "'f collector \<Rightarrow> nat \<Rightarrow> nat \<Rightarrow> int \<Rightarrow> u8 list \<Rightarrow> int \<Rightarrow> bool \<Rightarrow> 'f yaffs_System \<Rightarrow> (int \<times> 'f yaffs_System) option" where
  "yaffs_WriteChunkDataToObject gc fuel a chunkInInode data n useReserve s = do {
     (gcOk, s) \<leftarrow> gc s;
     ob \<leftarrow> objects s a;
     (prevChunkId, prevTags, d) \<leftarrow> yaffs_FindChunkInFile ob chunkInInode (Some (stackExtTags (device s))) (device s);
     let newTags = (yaffs_InitialiseTags (stackExtTags d))\<lparr>chunkId := word_of_int chunkInInode, objectId := ob_objectId ob,
       serialNumber := (if prevChunkId \<ge> 0 then serialNumber (the prevTags) + 1 else 1), byteCount := word_of_int n\<rparr>;
     (newChunkId, newTags, d) \<leftarrow> yaffs_WriteNewChunkWithTagsToNAND fuel d data newTags useReserve;
     if newChunkId \<ge> 0 then do {
       (r, ob, d) \<leftarrow> yaffs_PutChunkIntoFile ob chunkInInode newChunkId 0 d;
       d \<leftarrow> (if prevChunkId \<ge> 0 then yaffs_DeleteChunk d prevChunkId True else Some d);
       Some (newChunkId, s\<lparr>device := d, objects := (objects s)(a \<mapsto> ob)\<rparr>)
     } else Some (newChunkId, s\<lparr>device := d\<rparr>)
   }"

end
