(* ===== verification/ChunkBitmap.thy ===== *)
theory ChunkBitmap
  imports BlockManager "HOL-Library.FuncSet"
begin

text \<open>
  The bitmap of chunks in use refines a set of chunks: reading, setting and clearing bits in the
  flat byte array are membership, insertion and removal, for every block geometry.
\<close>

section \<open>The geometry of a device\<close>

definition geometry :: "'f yaffs_Device \<Rightarrow> bool" where
  "geometry dev \<longleftrightarrow> 0 < nChunksPerBlock dev \<and> nChunksPerBlock dev \<le> 511 \<and> 0 < internalStartBlock dev \<and>
     internalStartBlock dev \<le> internalEndBlock dev \<and>
     length (blockInfo dev) = nat (internalEndBlock dev - internalStartBlock dev + 1) \<and>
     chunkBitmapStride dev = (nChunksPerBlock dev + 7) div 8 \<and>
     length (chunkBits dev) = nat (chunkBitmapStride dev) * length (blockInfo dev)"

definition valid_block :: "'f yaffs_Device \<Rightarrow> int \<Rightarrow> bool" where
  "valid_block dev b \<longleftrightarrow> internalStartBlock dev \<le> b \<and> b \<le> internalEndBlock dev"

definition bit_pos :: "'f yaffs_Device \<Rightarrow> int \<Rightarrow> int \<Rightarrow> nat" where
  "bit_pos dev b c = nat (chunkBitmapStride dev * (b - internalStartBlock dev)) + nat (c div 8)"

definition chunk_bit :: "'f yaffs_Device \<Rightarrow> int \<Rightarrow> int \<Rightarrow> bool" where
  "chunk_bit dev b c \<longleftrightarrow> bit (chunkBits dev ! bit_pos dev b c) (nat (c mod 8))"

text \<open>The abstract bitmap: the set of chunk positions in use in a block.\<close>

definition used :: "'f yaffs_Device \<Rightarrow> int \<Rightarrow> int set" where
  "used dev b = {c. 0 \<le> c \<and> c < 8 * chunkBitmapStride dev \<and> chunk_bit dev b c}"

lemma stride_covers: "geometry dev \<Longrightarrow> 0 < chunkBitmapStride dev \<and> nChunksPerBlock dev \<le> 8 * chunkBitmapStride dev"
  by (auto simp: geometry_def)

lemma bit_position:
  assumes "geometry dev" and "valid_block dev b" and "0 \<le> c" and "c < 8 * chunkBitmapStride dev"
  shows "bit_pos dev b c < length (chunkBits dev)"
proof -
  let ?s = "chunkBitmapStride dev" and ?i = "b - internalStartBlock dev"
  have "c div 8 < ?s" "0 \<le> c div 8" using assms(3,4) by auto
  moreover have "0 \<le> ?i" "?i + 1 \<le> int (length (blockInfo dev))"
    using assms(1,2) by (auto simp: geometry_def valid_block_def)
  moreover have "0 \<le> ?s" using stride_covers [OF assms(1)] by simp
  ultimately have "?s * ?i + c div 8 < ?s * int (length (blockInfo dev))"
    using mult_left_mono [of "?i + 1" "int (length (blockInfo dev))" ?s] by (simp add: distrib_left)
  moreover have "int (length (chunkBits dev)) = ?s * int (length (blockInfo dev))"
    using assms(1) \<open>0 \<le> ?s\<close> by (simp add: geometry_def)
  moreover have "0 \<le> ?s * ?i" using \<open>0 \<le> ?s\<close> \<open>0 \<le> ?i\<close> by simp
  ultimately show ?thesis using \<open>0 \<le> c div 8\<close> unfolding bit_pos_def by linarith
qed

lemma bit_position_eq:
  assumes "geometry dev" and "valid_block dev b" "valid_block dev b'"
    and "0 \<le> c" "c < 8 * chunkBitmapStride dev" "0 \<le> c'" "c' < 8 * chunkBitmapStride dev"
  shows "bit_pos dev b c = bit_pos dev b' c' \<longleftrightarrow> b = b' \<and> c div 8 = c' div 8"
proof -
  let ?s = "chunkBitmapStride dev" and ?i = "b - internalStartBlock dev" and ?j = "b' - internalStartBlock dev"
  have d: "c div 8 < ?s" "0 \<le> c div 8" "c' div 8 < ?s" "0 \<le> c' div 8" using assms(4-7) by auto
  have s: "0 < ?s" using stride_covers [OF assms(1)] by simp
  have i: "0 \<le> ?i" "0 \<le> ?j" using assms(2,3) by (auto simp: valid_block_def)
  have n: "0 \<le> ?s * ?i" "0 \<le> ?s * ?j" using s i by auto
  have "?s * ?i + c div 8 = ?s * ?j + c' div 8 \<longleftrightarrow> ?i = ?j \<and> c div 8 = c' div 8"
  proof
    assume e: "?s * ?i + c div 8 = ?s * ?j + c' div 8"
    have "(?s * ?i + c div 8) div ?s = ?i" "(?s * ?j + c' div 8) div ?s = ?j"
      using d s by (simp_all add: div_pos_pos_trivial)
    with e show "?i = ?j \<and> c div 8 = c' div 8" by auto
  qed auto
  moreover have "bit_pos dev b c = bit_pos dev b' c' \<longleftrightarrow> ?s * ?i + c div 8 = ?s * ?j + c' div 8"
    using n d unfolding bit_pos_def by linarith
  ultimately show ?thesis by simp
qed

lemma same_bit: "(c :: int) div 8 = c' div 8 \<Longrightarrow> nat (c mod 8) = nat (c' mod 8) \<longleftrightarrow> c = c'"
  by (metis eq_nat_nat_iff mult_div_mod_eq pos_mod_sign zero_less_numeral)

lemma chunk_bit_update:
  assumes "geometry dev" and "valid_block dev b" "valid_block dev b'"
    and "0 \<le> c" "c < 8 * chunkBitmapStride dev" "0 \<le> c'" "c' < 8 * chunkBitmapStride dev"
  shows "chunk_bit (dev\<lparr>chunkBits := (chunkBits dev)[bit_pos dev b c := w]\<rparr>) b' c' \<longleftrightarrow>
    (if b' = b \<and> c' div 8 = c div 8 then bit w (nat (c' mod 8)) else chunk_bit dev b' c')"
  using bit_position_eq [OF assms] bit_position [OF assms(1,2,4,5)]
  by (auto simp: chunk_bit_def nth_list_update bit_pos_def)

section \<open>The operations on the bitmap as set operations\<close>

lemma chunk_in_stride: "geometry dev \<Longrightarrow> c < nChunksPerBlock dev \<Longrightarrow> c < 8 * chunkBitmapStride dev"
  using stride_covers by fastforce

lemma bit_index_less [simp]: "nat ((c :: int) mod 8) < 8"
  by (simp add: nat_less_iff)

lemma used_update:
  assumes "geometry dev" and "valid_block dev b" and "0 \<le> c" "c < nChunksPerBlock dev" and "valid_block dev b'"
    and w: "\<And>n. n < 8 \<Longrightarrow> bit w n = (if n = nat (c mod 8) then v else bit (chunkBits dev ! bit_pos dev b c) n)"
  shows "used (dev\<lparr>chunkBits := (chunkBits dev)[bit_pos dev b c := w]\<rparr>) b' =
      (if b' = b then (if v then insert c (used dev b) else used dev b - {c}) else used dev b')"
proof (rule set_eqI)
  fix x
  let ?d = "dev\<lparr>chunkBits := (chunkBits dev)[bit_pos dev b c := w]\<rparr>"
  note c = chunk_in_stride [OF assms(1,4)]
  show "x \<in> used ?d b' \<longleftrightarrow>
      x \<in> (if b' = b then (if v then insert c (used dev b) else used dev b - {c}) else used dev b')"
  proof (cases "0 \<le> x \<and> x < 8 * chunkBitmapStride dev")
    case True
    then have u: "chunk_bit ?d b' x \<longleftrightarrow>
        (if b' = b \<and> x div 8 = c div 8 then bit w (nat (x mod 8)) else chunk_bit dev b' x)"
      using chunk_bit_update [OF assms(1,2,5,3) c] by blast
    show ?thesis
    proof (cases "b' = b \<and> x div 8 = c div 8")
      case same: True
      then have "bit w (nat (x mod 8)) = (if x = c then v else chunk_bit dev b x)"
        using w [OF bit_index_less, of x] same_bit [of x c] by (simp add: chunk_bit_def bit_pos_def)
      with same u True show ?thesis by (auto simp: used_def)
    next
      case False
      with u True have "chunk_bit ?d b' x = chunk_bit dev b' x" by simp
      moreover have "b' = b \<Longrightarrow> x \<noteq> c" using False by auto
      ultimately show ?thesis using True by (auto simp: used_def)
    qed
  next
    case False
    with assms(3) c show ?thesis by (auto simp: used_def)
  qed
qed

lemma bit_or_exp: "k < 8 \<Longrightarrow> bit (w OR push_bit k 1) n \<longleftrightarrow> n = k \<or> bit w n" for w :: u8
  by (auto simp: bit_simps)

lemma bit_and_not_exp: "n < 8 \<Longrightarrow> bit (w AND NOT (push_bit k 1)) n \<longleftrightarrow> n \<noteq> k \<and> bit w n" for w :: u8
  by (auto simp: bit_simps)

lemma CheckChunkBit_eq:
  assumes "geometry dev" and "valid_block dev b" and "0 \<le> c" and "c < nChunksPerBlock dev"
  shows "yaffs_CheckChunkBit dev b c = Some (c \<in> used dev b)"
proof -
  have "w AND push_bit (nat (c mod 8)) 1 \<noteq> 0 \<longleftrightarrow> bit w (nat (c mod 8))" for w :: u8
    by (rule and_exp_test) simp
  then show ?thesis
    using assms chunk_in_stride [OF assms(1,4)]
    by (simp add: yaffs_CheckChunkBit_def yaffs_BlockBits_def yaffs_VerifyChunkBitId_def
        valid_block_def used_def chunk_bit_def bit_pos_def del: push_bit_of_1)
qed

text \<open>The device after a bit of the bitmap has been set or cleared.\<close>

definition put_bit :: "'f yaffs_Device \<Rightarrow> int \<Rightarrow> int \<Rightarrow> bool \<Rightarrow> 'f yaffs_Device" where
  "put_bit dev b c v = dev\<lparr>chunkBits := (chunkBits dev)[bit_pos dev b c :=
     (if v then chunkBits dev ! bit_pos dev b c OR push_bit (nat (c mod 8)) 1
      else chunkBits dev ! bit_pos dev b c AND NOT (push_bit (nat (c mod 8)) 1))]\<rparr>"

lemma SetChunkBit_eq:
  assumes "geometry dev" and "valid_block dev b" and "0 \<le> c" and "c < nChunksPerBlock dev"
  shows "yaffs_SetChunkBit dev b c = Some (put_bit dev b c True)"
    and "yaffs_ClearChunkBit dev b c = Some (put_bit dev b c False)"
  using assms by (simp_all add: yaffs_SetChunkBit_def yaffs_ClearChunkBit_def yaffs_BlockBits_def
      yaffs_VerifyChunkBitId_def valid_block_def Let_def put_bit_def bit_pos_def)

lemma used_put_bit:
  assumes "geometry dev" and "valid_block dev b" and "0 \<le> c" and "c < nChunksPerBlock dev" and "valid_block dev b'"
  shows "used (put_bit dev b c v) b' =
    (if b' = b then (if v then insert c (used dev b) else used dev b - {c}) else used dev b')"
  unfolding put_bit_def
  by (rule used_update [OF assms]) (cases v; simp add: bit_or_exp bit_and_not_exp del: push_bit_of_1)

lemma block_slice:
  assumes "geometry dev" and "valid_block dev b"
  shows "bit_pos dev b 0 + nat (chunkBitmapStride dev) \<le> length (chunkBits dev)"
proof -
  define k where "k = nat (chunkBitmapStride dev) - 1"
  have s: "0 < chunkBitmapStride dev" using stride_covers [OF assms(1)] by simp
  then have "bit_pos dev b (8 * int k) < length (chunkBits dev)"
    by (intro bit_position [OF assms]) (auto simp: k_def)
  moreover have "bit_pos dev b (8 * int k) = bit_pos dev b 0 + k" by (simp add: bit_pos_def)
  moreover have "nat (chunkBitmapStride dev) = Suc k" using s by (simp add: k_def)
  ultimately show ?thesis by simp
qed

lemma ClearChunkBits_eq:
  assumes "geometry dev" and "valid_block dev b"
  shows "\<exists>bits. yaffs_ClearChunkBits dev b = Some (dev\<lparr>chunkBits := bits\<rparr>) \<and> length bits = length (chunkBits dev) \<and>
    (\<forall>b'. valid_block dev b' \<longrightarrow> used (dev\<lparr>chunkBits := bits\<rparr>) b' = (if b' = b then {} else used dev b'))"
proof -
  let ?s = "nat (chunkBitmapStride dev)"
  define off where "off = bit_pos dev b 0"
  define bits where "bits = take off (chunkBits dev) @ replicate ?s 0 @ drop (off + ?s) (chunkBits dev)"
  have s: "0 < chunkBitmapStride dev" using stride_covers [OF assms(1)] by simp
  have pos: "bit_pos dev b (8 * int k) = off + k" for k by (simp add: off_def bit_pos_def)
  have len: "off + ?s \<le> length (chunkBits dev)" "length bits = length (chunkBits dev)"
    using block_slice [OF assms] by (auto simp: bits_def off_def)
  have eq: "chunk_bit (dev\<lparr>chunkBits := bits\<rparr>) b' c \<longleftrightarrow> b' \<noteq> b \<and> chunk_bit dev b' c"
    if v: "valid_block dev b'" "0 \<le> c" "c < 8 * chunkBitmapStride dev" for b' c
  proof (cases "b' = b")
    case True
    then have "bit_pos dev b' c = off + nat (c div 8)" "nat (c div 8) < ?s"
      using v s by (simp_all add: off_def bit_pos_def nat_less_iff)
    then have "bits ! bit_pos dev b' c = 0" using len by (simp add: bits_def nth_append)
    with True show ?thesis by (simp add: chunk_bit_def bit_pos_def)
  next
    case False
    have "bit_pos dev b' c \<noteq> off + k" if "k < ?s" for k
      using bit_position_eq [OF assms(1,2) v(1) _ _ v(2,3), of "8 * int k"] that False s pos [of k]
      by (simp add: zless_nat_eq_int_zless)
    then have "\<not> (off \<le> bit_pos dev b' c \<and> bit_pos dev b' c < off + ?s)"
      by (metis le_add_diff_inverse nat_add_left_cancel_less)
    then have "bits ! bit_pos dev b' c = chunkBits dev ! bit_pos dev b' c"
      using len by (auto simp: bits_def nth_append)
    with False show ?thesis by (simp add: chunk_bit_def bit_pos_def)
  qed
  have "yaffs_ClearChunkBits dev b = Some (dev\<lparr>chunkBits := bits\<rparr>)"
    using assms(2) by (simp add: yaffs_ClearChunkBits_def yaffs_BlockBits_def valid_block_def Let_def bits_def off_def bit_pos_def)
  moreover have "\<forall>b'. valid_block dev b' \<longrightarrow> used (dev\<lparr>chunkBits := bits\<rparr>) b' = (if b' = b then {} else used dev b')"
    using eq by (auto simp: used_def)
  ultimately show ?thesis using len(2) by blast
qed

lemma finite_used [simp]: "finite (used dev b)"
  by (rule finite_subset [of _ "{0..<8 * chunkBitmapStride dev}"]) (auto simp: used_def)

lemma fold_count: "fold (\<lambda>b n. count_bits_loop n b) bs n = n + (\<Sum>b\<leftarrow>bs. int (pop_count b))"
  by (induction bs arbitrary: n) (simp_all add: count_bits_loop)

lemma card_used:
  assumes "geometry dev" and "valid_block dev b"
  shows "card (used dev b) = (\<Sum>k<nat (chunkBitmapStride dev). pop_count (chunkBits dev ! (bit_pos dev b 0 + k)))"
proof -
  define off where "off = bit_pos dev b 0"
  let ?s = "nat (chunkBitmapStride dev)" and ?byte = "\<lambda>k. chunkBits dev ! (off + k)"
  have pos: "bit_pos dev b c = off + nat (c div 8)" for c by (simp add: bit_pos_def off_def)
  have "bij_betw (\<lambda>(k, n). 8 * int k + int n) (SIGMA k:{..<?s}. {n. bit (?byte k) n}) (used dev b)"
  proof (rule bij_betwI [where g = "\<lambda>c. (nat (c div 8), nat (c mod 8))"])
    show "(\<lambda>(k, n). 8 * int k + int n) \<in> (SIGMA k:{..<?s}. {n. bit (?byte k) n}) \<rightarrow> used dev b"
    proof (clarsimp simp: used_def)
      fix k n assume "k < ?s" "bit (?byte k) n"
      moreover from this have "n < 8" by (auto dest: bit_imp_le_length)
      ultimately show "8 * int k + int n < 8 * chunkBitmapStride dev \<and> chunk_bit dev b (8 * int k + int n)"
        by (simp add: chunk_bit_def pos)
    qed
    show "(\<lambda>c. (nat (c div 8), nat (c mod 8))) \<in> used dev b \<rightarrow> (SIGMA k:{..<?s}. {n. bit (?byte k) n})"
    proof
      fix c assume "c \<in> used dev b"
      then have "0 \<le> c" "c < 8 * chunkBitmapStride dev" "chunk_bit dev b c" by (auto simp: used_def)
      then show "(nat (c div 8), nat (c mod 8)) \<in> (SIGMA k:{..<?s}. {n. bit (?byte k) n})"
        by (simp add: chunk_bit_def pos)
    qed
    show "(case (nat (c div 8), nat (c mod 8)) of (k, n) \<Rightarrow> 8 * int k + int n) = c" if "c \<in> used dev b" for c
      using that by (simp add: used_def)
    fix x assume "x \<in> (SIGMA k:{..<?s}. {n. bit (?byte k) n})"
    then obtain k n where "x = (k, n)" "n < 8" by (auto dest: bit_imp_le_length)
    then show "(\<lambda>c. (nat (c div 8), nat (c mod 8))) (case x of (k, n) \<Rightarrow> 8 * int k + int n) = x"
      by simp
  qed
  from bij_betw_same_card [OF this] show ?thesis by (simp add: pop_count_def off_def)
qed

lemma CountChunkBits_eq:
  assumes "geometry dev" and "valid_block dev b"
  shows "yaffs_CountChunkBits dev b = Some (int (card (used dev b)))"
proof -
  let ?s = "nat (chunkBitmapStride dev)" and ?off = "bit_pos dev b 0"
  have sl: "take ?s (drop ?off (chunkBits dev)) = map (\<lambda>k. chunkBits dev ! (?off + k)) [0..<?s]"
    using block_slice [OF assms] by (intro nth_equalityI) auto
  have "yaffs_CountChunkBits dev b = Some (\<Sum>x\<leftarrow>take ?s (drop ?off (chunkBits dev)). int (pop_count x))"
    using assms(2) by (simp add: yaffs_CountChunkBits_def yaffs_BlockBits_def valid_block_def fold_count bit_pos_def)
  also have "\<dots> = Some (\<Sum>k<?s. int (pop_count (chunkBits dev ! (?off + k))))"
    unfolding sl by (simp add: o_def sum_list_distinct_conv_sum_set atLeast0LessThan)
  finally show ?thesis by (simp add: card_used [OF assms])
qed

end
