(* ===== verification/BlockInvariant.thy ===== *)
theory BlockInvariant
  imports ChunkBitmap
begin

text \<open>
  The invariant of the block table and what keeps it: every page count agrees with the bitmap,
  the counts of erased blocks and of free chunks agree with the table, and the one allocating
  block is the one the allocator uses.
\<close>

section \<open>The invariant\<close>

abbreviation blk :: "'f yaffs_Device \<Rightarrow> int \<Rightarrow> yaffs_BlockInfo" where
  "blk dev b \<equiv> blockInfo dev ! nat (b - internalStartBlock dev)"

text \<open>
  The chunks of a block that count as free. The soft deletions of a block under collection have
  been taken off already.
\<close>

definition free_of :: "int \<Rightarrow> yaffs_BlockInfo \<Rightarrow> int" where
  "free_of n bi =
     (if blockState bi \<in> {YAFFS_BLOCK_STATE_EMPTY, YAFFS_BLOCK_STATE_ALLOCATING, YAFFS_BLOCK_STATE_FULL}
      then n - pagesInUse bi + softDeletions bi
      else if blockState bi = YAFFS_BLOCK_STATE_COLLECTING then n - pagesInUse bi else 0)"

definition free_sum :: "'f yaffs_Device \<Rightarrow> int" where
  "free_sum dev = (\<Sum>bi\<leftarrow>blockInfo dev. free_of (nChunksPerBlock dev) bi)"

definition block_ok :: "'f yaffs_Device \<Rightarrow> int \<Rightarrow> yaffs_BlockInfo \<Rightarrow> bool" where
  "block_ok dev b bi \<longleftrightarrow>
     pagesInUse bi = int (card (used dev b)) \<and> used dev b \<subseteq> {0..<nChunksPerBlock dev} \<and>
     0 \<le> softDeletions bi \<and>
     (blockState bi \<in> {YAFFS_BLOCK_STATE_EMPTY, YAFFS_BLOCK_STATE_CHECKPOINT} \<longrightarrow> pagesInUse bi = 0 \<and> softDeletions bi = 0) \<and>
     (blockState bi \<in> {YAFFS_BLOCK_STATE_ALLOCATING, YAFFS_BLOCK_STATE_FULL} \<longrightarrow> softDeletions bi \<le> pagesInUse bi) \<and>
     (blockState bi = YAFFS_BLOCK_STATE_ALLOCATING \<longrightarrow> used dev b \<subseteq> {0..<allocationPage dev}) \<and>
     (blockState bi = YAFFS_BLOCK_STATE_ALLOCATING \<longleftrightarrow> b = allocationBlock dev)"

definition blocks_ok :: "'f yaffs_Device \<Rightarrow> bool" where
  "blocks_ok dev \<longleftrightarrow> geometry dev \<and> (\<forall>b. valid_block dev b \<longrightarrow> block_ok dev b (blk dev b)) \<and>
     (0 \<le> allocationBlock dev \<longrightarrow> valid_block dev (allocationBlock dev) \<and> 0 \<le> allocationPage dev \<and>
        allocationPage dev < nChunksPerBlock dev)"

text \<open>What the counters are off by; the invariant says nothing.\<close>

definition free_gap :: "'f yaffs_Device \<Rightarrow> int" where
  "free_gap dev = nFreeChunks dev - free_sum dev"

definition erased_gap :: "'f yaffs_Device \<Rightarrow> int" where
  "erased_gap dev = nErasedBlocks dev - nBlocksPerState dev YAFFS_BLOCK_STATE_EMPTY"

definition block_inv :: "'f yaffs_Device \<Rightarrow> bool" where
  "block_inv dev \<longleftrightarrow> blocks_ok dev \<and> free_gap dev = 0 \<and> erased_gap dev = 0 \<and>
     blocksInCheckpoint dev = nBlocksPerState dev YAFFS_BLOCK_STATE_CHECKPOINT"

section \<open>The part of the device that the invariant reads\<close>

definition core_bi :: "yaffs_BlockInfo \<Rightarrow> int \<times> int \<times> yaffs_BlockState \<times> bool \<times> u32" where
  "core_bi bi = (softDeletions bi, pagesInUse bi, blockState bi, hasShrinkHeader bi, bi_sequenceNumber bi)"

text \<open>The stock of tnodes and their shape, which no operation on blocks touches.\<close>

definition tnode_part :: "'f yaffs_Device \<Rightarrow> u32 \<times> u32 \<times> nat \<times> int \<times> int \<times> nat \<times> int \<times> nat list \<times> bool list" where
  "tnode_part d = (tnodeWidth d, tnodeMask d, chunkGroupBits d, chunkGroupSize d, nTnodesCreated d, freeTnodes d, nFreeTnodes d,
     allocatedTnodeList d, ymalloc d)"

declare tnode_part_def [simp]

definition same_core :: "'f yaffs_Device \<Rightarrow> 'f yaffs_Device \<Rightarrow> bool" where
  "same_core d d' \<longleftrightarrow> map core_bi (blockInfo d') = map core_bi (blockInfo d) \<and> chunkBits d' = chunkBits d \<and>
     nChunksPerBlock d' = nChunksPerBlock d \<and> internalStartBlock d' = internalStartBlock d \<and>
     internalEndBlock d' = internalEndBlock d \<and> chunkBitmapStride d' = chunkBitmapStride d \<and>
     nErasedBlocks d' = nErasedBlocks d \<and> nFreeChunks d' = nFreeChunks d \<and>
     allocationBlock d' = allocationBlock d \<and> allocationPage d' = allocationPage d \<and>
     blocksInCheckpoint d' = blocksInCheckpoint d \<and> dev_sequenceNumber d' = dev_sequenceNumber d \<and>
     nReservedBlocks d' = nReservedBlocks d \<and> eraseBlockInNAND d' = eraseBlockInNAND d \<and>
     markNANDBlockBad d' = markNANDBlockBad d \<and> writeChunkWithTagsToNAND d' = writeChunkWithTagsToNAND d \<and>
     isYaffs2 d' = isYaffs2 d \<and> readChunkWithTagsFromNAND d' = readChunkWithTagsFromNAND d \<and> tnode_part d' = tnode_part d"

lemma same_core_refl [simp]: "same_core d d"
  by (simp add: same_core_def)

lemma same_core_trans: "same_core d d' \<Longrightarrow> same_core d' d'' \<Longrightarrow> same_core d d''"
  by (simp add: same_core_def)

lemma same_coreD:
  assumes "same_core d d'"
  shows "map core_bi (blockInfo d') = map core_bi (blockInfo d)" "chunkBits d' = chunkBits d"
    "nChunksPerBlock d' = nChunksPerBlock d" "internalStartBlock d' = internalStartBlock d"
    "internalEndBlock d' = internalEndBlock d" "chunkBitmapStride d' = chunkBitmapStride d"
    "nErasedBlocks d' = nErasedBlocks d" "nFreeChunks d' = nFreeChunks d" "allocationBlock d' = allocationBlock d"
    "allocationPage d' = allocationPage d" "blocksInCheckpoint d' = blocksInCheckpoint d"
    "dev_sequenceNumber d' = dev_sequenceNumber d" "nReservedBlocks d' = nReservedBlocks d"
    "eraseBlockInNAND d' = eraseBlockInNAND d" "markNANDBlockBad d' = markNANDBlockBad d"
    "writeChunkWithTagsToNAND d' = writeChunkWithTagsToNAND d" "isYaffs2 d' = isYaffs2 d"
    "length (blockInfo d') = length (blockInfo d)" "readChunkWithTagsFromNAND d' = readChunkWithTagsFromNAND d"
    "tnode_part d' = tnode_part d"
proof -
  show l: "map core_bi (blockInfo d') = map core_bi (blockInfo d)" using assms by (simp only: same_core_def)
  show "length (blockInfo d') = length (blockInfo d)" using arg_cong [OF l, of length] by simp
qed (use assms in \<open>simp_all only: same_core_def\<close>)

lemma same_core_geometry: "same_core d d' \<Longrightarrow> geometry d' = geometry d"
  by (simp only: geometry_def same_coreD)

lemma same_core_valid: "same_core d d' \<Longrightarrow> valid_block d' b = valid_block d b"
  by (simp only: valid_block_def same_coreD)

lemma same_core_used: "same_core d d' \<Longrightarrow> used d' b = used d b"
  by (simp only: used_def chunk_bit_def bit_pos_def same_coreD)

lemma blk_index: "geometry d \<Longrightarrow> valid_block d b \<Longrightarrow> nat (b - internalStartBlock d) < length (blockInfo d)"
  by (auto simp: geometry_def valid_block_def)

lemma same_core_blk:
  assumes "same_core d d'" and "geometry d" and "valid_block d b"
  shows "core_bi (blk d' b) = core_bi (blk d b)"
proof -
  let ?i = "nat (b - internalStartBlock d)"
  have "map core_bi (blockInfo d') ! ?i = map core_bi (blockInfo d) ! ?i"
    using same_coreD(1) [OF assms(1)] by (rule arg_cong)
  moreover have "?i < length (blockInfo d)" "?i < length (blockInfo d')"
    using blk_index [OF assms(2,3)] same_coreD(18) [OF assms(1)] by simp_all
  ultimately show ?thesis by (simp add: same_coreD(4) [OF assms(1)])
qed

lemma GetBlockInfo_blk:
  "geometry d \<Longrightarrow> yaffs_GetBlockInfo d b = (if valid_block d b then Some (blk d b) else None)"
  by (auto simp: yaffs_GetBlockInfo_def geometry_def valid_block_def)

lemma same_core_sums:
  assumes "same_core d d'"
  shows "free_sum d' = free_sum d" and "nBlocksPerState d' s = nBlocksPerState d s"
proof -
  have 1: "free_of n bi = (case core_bi bi of (soft, pages, st, _) \<Rightarrow>
      if st \<in> {YAFFS_BLOCK_STATE_EMPTY, YAFFS_BLOCK_STATE_ALLOCATING, YAFFS_BLOCK_STATE_FULL} then n - pages + soft
      else if st = YAFFS_BLOCK_STATE_COLLECTING then n - pages else 0)" for n bi
    by (simp add: free_of_def core_bi_def)
  note m = same_coreD(1,3) [OF assms]
  then have "map (f \<circ> core_bi) (blockInfo d') = map (f \<circ> core_bi) (blockInfo d)" for f :: "_ \<Rightarrow> int"
    by (metis map_map)
  then show "free_sum d' = free_sum d" unfolding free_sum_def 1 m(2) by (simp add: o_def)
  have "map blockState (blockInfo d') = map blockState (blockInfo d)"
    using arg_cong [OF m(1), of "map (\<lambda>(_, _, st, _). st)"] by (simp add: o_def core_bi_def)
  then have "filter (\<lambda>x. x = s) (map blockState (blockInfo d')) = filter (\<lambda>x. x = s) (map blockState (blockInfo d))" by simp
  then show "nBlocksPerState d' s = nBlocksPerState d s"
    by (simp add: nBlocksPerState_def filter_map o_def) (metis length_map)
qed

lemma same_core_gaps:
  assumes "same_core d d'"
  shows "free_gap d' = free_gap d" and "erased_gap d' = erased_gap d"
  using same_coreD [OF assms] same_core_sums [OF assms] by (simp_all only: free_gap_def erased_gap_def)

lemma same_core_block_ok:
  assumes "same_core d d'" and "core_bi bi' = core_bi bi"
  shows "block_ok d' b bi' = block_ok d b bi"
proof -
  have "softDeletions bi' = softDeletions bi" "pagesInUse bi' = pagesInUse bi" "blockState bi' = blockState bi"
    using assms(2) by (simp_all add: core_bi_def)
  then show ?thesis by (simp only: block_ok_def same_core_used [OF assms(1)] same_coreD [OF assms(1)])
qed

lemma same_core_blocks_ok:
  assumes "same_core d d'" and "blocks_ok d"
  shows "blocks_ok d'"
proof -
  have "block_ok d' b (blk d' b)" if "valid_block d b" for b
    using assms(2) that same_core_block_ok [OF assms(1) same_core_blk [OF assms(1) _ that]] by (simp add: blocks_ok_def)
  then show ?thesis
    using assms(2) by (simp add: blocks_ok_def same_core_geometry [OF assms(1)] same_core_valid [OF assms(1)] same_coreD [OF assms(1)])
qed

lemma same_core_inv: "same_core d d' \<Longrightarrow> block_inv d \<Longrightarrow> block_inv d'"
  using same_core_blocks_ok same_core_gaps same_core_sums(2) same_coreD(11) unfolding block_inv_def by metis

section \<open>Operations that leave the core alone\<close>

lemma same_core_set:
  assumes "yaffs_GetBlockInfo d b = Some bi" and "core_bi bi' = core_bi bi"
  shows "same_core d (setBlockInfo d b bi')"
proof -
  have "blockInfo d ! nat (b - internalStartBlock d) = bi" "nat (b - internalStartBlock d) < length (blockInfo d)"
    using assms(1) by (auto simp: yaffs_GetBlockInfo_def split: if_splits)
  then have "map core_bi ((blockInfo d)[nat (b - internalStartBlock d) := bi']) = map core_bi (blockInfo d)"
    using assms(2) by (metis list_update_id map_update)
  then show ?thesis by (simp add: same_core_def setBlockInfo_def)
qed

lemma HandleChunkError_core: "yaffs_HandleChunkError d b = Some d' \<Longrightarrow> same_core d d'"
proof -
  assume a: "yaffs_HandleChunkError d b = Some d'"
  then obtain bi where bi: "yaffs_GetBlockInfo d b = Some bi" by (auto simp: yaffs_HandleChunkError_def split: bind_splits)
  have "yaffs_GetBlockInfo (d\<lparr>hasPendingPrioritisedGCs := True\<rparr>) b = Some bi"
    using bi GetBlockInfo_frame [of "d\<lparr>hasPendingPrioritisedGCs := True\<rparr>" d] by simp
  moreover have "same_core d (d\<lparr>hasPendingPrioritisedGCs := True\<rparr>)" by (simp add: same_core_def)
  ultimately have "same_core d (setBlockInfo (d\<lparr>hasPendingPrioritisedGCs := True\<rparr>) b bi')" if "core_bi bi' = core_bi bi" for bi'
    using that same_core_set same_core_trans by metis
  with a bi show ?thesis
    by (auto simp: yaffs_HandleChunkError_def Let_def core_bi_def split: if_splits)
qed

lemma HandleReadDataError_core: "yaffs_HandleReadDataError d n = Some d' \<Longrightarrow> same_core d d'"
  by (auto simp: yaffs_HandleReadDataError_def Let_def core_bi_def intro: same_core_set split: bind_splits)

lemma count_ecc_core [simp]: "same_core d (count_ecc r d)"
  by (simp add: count_ecc_def same_core_def)

lemma ReadChunkFromNAND_core:
  assumes "yaffs_ReadChunkFromNAND d n data sp e c = Some (r, data', sp', e', d')"
  shows "same_core d d'"
proof -
  have 1: "same_core d (d\<lparr>nPageReads := nPageReads d + 1, genericDevice := f\<rparr>)" for f by (simp add: same_core_def)
  then have 2: "same_core d (count_ecc x (count_ecc y (d\<lparr>nPageReads := nPageReads d + 1, genericDevice := f\<rparr>)))" for x y f
    using count_ecc_core same_core_trans by metis
  show ?thesis
    using assms unfolding yaffs_ReadChunkFromNAND_def
    by (auto simp: Let_def 1 2 split: if_splits option.splits prod.splits bind_splits
        dest!: HandleReadDataError_core intro: same_core_trans [OF 1] same_core_trans [OF 2])
qed

lemma WriteChunkToNAND_core: "yaffs_WriteChunkToNAND d n data sp = Some (r, d') \<Longrightarrow> same_core d d'"
  by (auto simp: yaffs_WriteChunkToNAND_def Let_def same_core_def split: if_splits prod.splits bind_splits)

lemma TagsCompat_core:
  "yaffs_TagsCompatabilityWriteChunkWithTagsToNAND d n data t = Some (r, d') \<Longrightarrow> same_core d d'"
  "yaffs_TagsCompatabilityMarkNANDBlockBad d n = Some (r, d') \<Longrightarrow> same_core d d'"
   apply (auto simp: yaffs_TagsCompatabilityWriteChunkWithTagsToNAND_def Let_def dest: WriteChunkToNAND_core)
  apply (auto simp: yaffs_TagsCompatabilityMarkNANDBlockBad_def Let_def split: prod.splits bind_splits
      dest!: WriteChunkToNAND_core intro: same_core_trans)
  done

lemma GetTagsFromSpare_core: "yaffs_GetTagsFromSpare d sp = (t, d') \<Longrightarrow> same_core d d'"
  by (auto simp: yaffs_GetTagsFromSpare_def Let_def same_core_def split: prod.splits if_splits)

lemma TagsCompat_read_core:
  "yaffs_TagsCompatabilityReadChunkWithTagsFromNAND d n data t = Some (r, data', t', d') \<Longrightarrow> same_core d d'"
  by (auto simp: yaffs_TagsCompatabilityReadChunkWithTagsFromNAND_def Let_def split: prod.splits bind_splits if_splits
      dest!: ReadChunkFromNAND_core GetTagsFromSpare_core intro: same_core_trans)

lemma generic_core: "same_core d (d\<lparr>genericDevice := f\<rparr>)"
  by (simp add: same_core_def)

lemma ReadChunkWithTags_core:
  assumes "yaffs_ReadChunkWithTagsFromNAND d n data t = Some (r, data', t', d')"
  shows "same_core d d'"
proof -
  obtain r1 b1 t1 d1 where
    1: "(case readChunkWithTagsFromNAND d of
          Some rd \<Rightarrow> (let (r, b, t, f) = rd (genericDevice d) (n - chunkOffset d) data t in Some (r, b, t, d\<lparr>genericDevice := f\<rparr>))
        | None \<Rightarrow> yaffs_TagsCompatabilityReadChunkWithTagsFromNAND d (n - chunkOffset d) data t) = Some (r1, b1, t1, d1)"
    and 2: "(if eccResult t1 > YAFFS_ECC_RESULT_NO_ERROR
             then yaffs_HandleChunkError d1 (n div nChunksPerBlock d1) else Some d1) = Some d'"
    using assms unfolding yaffs_ReadChunkWithTagsFromNAND_def Let_def bind_eq_Some_conv
    by (auto simp: bind_eq_Some_conv)
  have "same_core d d1"
    using 1 by (auto simp: Let_def generic_core split: option.splits prod.splits dest: TagsCompat_read_core)
  moreover have "same_core d1 d'"
    using 2 by (auto split: if_splits dest: HandleChunkError_core)
  ultimately show ?thesis by (rule same_core_trans)
qed

lemma WriteChunkWithTags_core: "yaffs_WriteChunkWithTagsToNAND d n data t = Some (r, t', d') \<Longrightarrow> same_core d d'"
  by (auto simp: yaffs_WriteChunkWithTagsToNAND_def Let_def generic_core split: option.splits prod.splits bind_splits
      dest!: TagsCompat_core(1))

lemma MarkBlockBad_core: "yaffs_MarkBlockBad d b = Some (r, d') \<Longrightarrow> same_core d d'"
  by (auto simp: yaffs_MarkBlockBad_def Let_def generic_core split: option.splits prod.splits
      dest!: TagsCompat_core(2))

lemma EraseBlockInNAND_core: "yaffs_EraseBlockInNAND d b = Some (r, d') \<Longrightarrow> same_core d d'"
  by (auto simp: yaffs_EraseBlockInNAND_def Let_def same_core_def split: bind_splits prod.splits)

lemma GetTempBuffer_core: "same_core d (snd (yaffs_GetTempBuffer d n))"
  by (simp add: yaffs_GetTempBuffer_def Let_def same_core_def split: option.splits)

lemma ReleaseTempBuffer_core: "same_core d (yaffs_ReleaseTempBuffer d buf)"
  by (simp add: yaffs_ReleaseTempBuffer_def same_core_def split: option.splits)

lemma CheckChunkErased_core:
  assumes "yaffs_CheckChunkErased d n = Some (r, d')"
  shows "same_core d d'"
proof -
  obtain a d1 where a: "yaffs_GetTempBuffer d 896 = (a, d1)" by (metis surj_pair)
  then have 1: "same_core d d1" using GetTempBuffer_core [of d 896] by simp
  obtain r2 b t d2 c where 2: "yaffs_ReadChunkWithTagsFromNAND d1 n (Some (heap d1 a)) (stackExtTags d1) = Some (r2, b, t, d2)"
    and d': "d' = yaffs_ReleaseTempBuffer (d2\<lparr>heap := (heap d2)(a := c)\<rparr>) a"
    using assms a by (auto simp: yaffs_CheckChunkErased_def Let_def split: bind_splits)
  have "same_core d2 (d2\<lparr>heap := (heap d2)(a := c)\<rparr>)" by (simp add: same_core_def)
  with 1 2 d' show ?thesis
    using ReadChunkWithTags_core ReleaseTempBuffer_core same_core_trans by metis
qed

lemma checkErased_loop_core: "checkErased_loop cs d = Some d' \<Longrightarrow> same_core d d'"
  by (induction cs arbitrary: d) (auto split: bind_splits dest!: CheckChunkErased_core intro: same_core_trans)

end
