(* ===== verification/BlockSafety.thy ===== *)
theory BlockSafety
  imports BlockInvariant
begin

text \<open>
  Every operation of the block manager keeps the invariant of the block table, and the allocator
  never hands out a chunk that is in use.
\<close>

section \<open>Updating one block\<close>

lemma sum_list_update_int:
  "i < length xs \<Longrightarrow> (\<Sum>x\<leftarrow>xs[i := y]. f x) = (\<Sum>x\<leftarrow>xs. f x) - f (xs ! i) + (f y :: int)"
  by (induction xs arbitrary: i) (auto split: nat.split)

lemma nBlocksPerState_sum: "nBlocksPerState d s = (\<Sum>bi\<leftarrow>blockInfo d. if blockState bi = s then 1 else 0)"
proof -
  have "int (length (filter P xs)) = (\<Sum>x\<leftarrow>xs. if P x then 1 else 0)" for P :: "yaffs_BlockInfo \<Rightarrow> bool" and xs
    by (induction xs) auto
  then show ?thesis by (simp add: nBlocksPerState_def)
qed

lemma nBlocksPerState_nonneg: "0 \<le> nBlocksPerState d s"
  by (simp add: nBlocksPerState_def)

lemma nBlocksPerState_zero: "nBlocksPerState d s = 0 \<longleftrightarrow> (\<forall>bi\<in>set (blockInfo d). blockState bi \<noteq> s)"
  by (auto simp: nBlocksPerState_def filter_empty_conv)

text \<open>A device that differs from another in one block, its bits aside.\<close>

lemma update_sums:
  assumes "geometry d" and "valid_block d b" and "blockInfo d' = (blockInfo d)[nat (b - internalStartBlock d) := bi]"
    and "nChunksPerBlock d' = nChunksPerBlock d"
  shows "free_sum d' = free_sum d - free_of (nChunksPerBlock d) (blk d b) + free_of (nChunksPerBlock d) bi"
    and "nBlocksPerState d' s = nBlocksPerState d s - of_bool (blockState (blk d b) = s) + of_bool (blockState bi = s)"
  using blk_index [OF assms(1,2)] assms(3,4)
  by (simp_all add: free_sum_def nBlocksPerState_sum sum_list_update_int)

lemma update_blk:
  assumes "geometry d" and "valid_block d b" and "valid_block d c"
    and "blockInfo d' = (blockInfo d)[nat (b - internalStartBlock d) := bi]" and "internalStartBlock d' = internalStartBlock d"
  shows "blk d' c = (if c = b then bi else blk d c)"
  using assms blk_index [OF assms(1,2)] by (auto simp: nth_list_update valid_block_def)

lemma update_geometry:
  assumes "geometry d" and "blockInfo d' = (blockInfo d)[i := bi]" and "length (chunkBits d') = length (chunkBits d)"
    and "nChunksPerBlock d' = nChunksPerBlock d" "internalStartBlock d' = internalStartBlock d"
    "internalEndBlock d' = internalEndBlock d" "chunkBitmapStride d' = chunkBitmapStride d"
  shows "geometry d'" and "valid_block d' c = valid_block d c"
  using assms by (simp_all add: geometry_def valid_block_def)

text \<open>
  The invariant after an update of one block: what the new information has to satisfy, when the
  bits of the other blocks and the allocator stay.
\<close>

lemma update_blocks_ok:
  assumes "blocks_ok d" and "valid_block d b" and bi: "blockInfo d' = (blockInfo d)[nat (b - internalStartBlock d) := bi]"
    and geo: "length (chunkBits d') = length (chunkBits d)" "nChunksPerBlock d' = nChunksPerBlock d"
      "internalStartBlock d' = internalStartBlock d" "internalEndBlock d' = internalEndBlock d"
      "chunkBitmapStride d' = chunkBitmapStride d"
    and others: "\<And>c. valid_block d c \<Longrightarrow> c \<noteq> b \<Longrightarrow> used d' c = used d c"
    and ok: "block_ok d' b bi"
    and al: "\<And>c. valid_block d c \<Longrightarrow> c \<noteq> b \<Longrightarrow> c = allocationBlock d' \<longleftrightarrow> c = allocationBlock d"
      "\<And>c. valid_block d c \<Longrightarrow> c \<noteq> b \<Longrightarrow> c = allocationBlock d \<Longrightarrow> allocationPage d' = allocationPage d"
      "0 \<le> allocationBlock d' \<Longrightarrow> valid_block d (allocationBlock d') \<and> 0 \<le> allocationPage d' \<and> allocationPage d' < nChunksPerBlock d"
  shows "blocks_ok d'"
proof -
  have g: "geometry d" using assms(1) by (simp add: blocks_ok_def)
  have "block_ok d' c (blk d' c)" if v: "valid_block d c" for c
  proof (cases "c = b")
    case True
    with ok update_blk [OF g assms(2) v bi geo(3)] show ?thesis by simp
  next
    case False
    have "block_ok d c (blk d c)" using assms(1) v by (simp add: blocks_ok_def)
    then show ?thesis
      using False al(1) [OF v False] al(2) [OF v False] others [OF v False] update_blk [OF g assms(2) v bi geo(3)] geo
      by (auto simp: block_ok_def)
  qed
  then show ?thesis
    using update_geometry [OF g bi geo] al(3) geo by (auto simp: blocks_ok_def)
qed

lemma used_frame:
  "chunkBits d' = chunkBits d \<Longrightarrow> chunkBitmapStride d' = chunkBitmapStride d \<Longrightarrow>
   internalStartBlock d' = internalStartBlock d \<Longrightarrow> used d' b = used d b"
  by (simp add: used_def chunk_bit_def bit_pos_def)

lemma blocks_ok_frame:
  assumes "blockInfo d' = blockInfo d" "chunkBits d' = chunkBits d" "nChunksPerBlock d' = nChunksPerBlock d"
    "internalStartBlock d' = internalStartBlock d" "internalEndBlock d' = internalEndBlock d"
    "chunkBitmapStride d' = chunkBitmapStride d" "allocationBlock d' = allocationBlock d" "allocationPage d' = allocationPage d"
  shows "blocks_ok d' = blocks_ok d" and "free_sum d' = free_sum d" and "nBlocksPerState d' st = nBlocksPerState d st"
  by (simp_all only: blocks_ok_def geometry_def valid_block_def block_ok_def used_frame [OF assms(2,6,4)] assms
      free_sum_def nBlocksPerState_def)

section \<open>Invalidating the checkpoint\<close>

text \<open>What invalidating the checkpoint leaves alone: all but the checkpoint blocks and the counters.\<close>

definition ckpt_frame :: "'f yaffs_Device \<Rightarrow> 'f yaffs_Device \<Rightarrow> bool" where
  "ckpt_frame d d' \<longleftrightarrow> chunkBits d' = chunkBits d \<and> nChunksPerBlock d' = nChunksPerBlock d \<and>
     internalStartBlock d' = internalStartBlock d \<and> internalEndBlock d' = internalEndBlock d \<and>
     chunkBitmapStride d' = chunkBitmapStride d \<and> allocationBlock d' = allocationBlock d \<and>
     allocationPage d' = allocationPage d \<and> dev_sequenceNumber d' = dev_sequenceNumber d \<and>
     eraseBlockInNAND d' = eraseBlockInNAND d \<and> markNANDBlockBad d' = markNANDBlockBad d \<and>
     writeChunkWithTagsToNAND d' = writeChunkWithTagsToNAND d \<and> isYaffs2 d' = isYaffs2 d \<and>
     readChunkWithTagsFromNAND d' = readChunkWithTagsFromNAND d \<and> length (blockInfo d') = length (blockInfo d) \<and>
     (\<forall>c. valid_block d c \<longrightarrow> blockState (blk d c) \<noteq> YAFFS_BLOCK_STATE_CHECKPOINT \<longrightarrow> blk d' c = blk d c) \<and>
     (\<forall>c. valid_block d c \<longrightarrow> blockState (blk d c) = YAFFS_BLOCK_STATE_CHECKPOINT \<longrightarrow>
        blockState (blk d' c) \<in> {YAFFS_BLOCK_STATE_CHECKPOINT, YAFFS_BLOCK_STATE_EMPTY, YAFFS_BLOCK_STATE_DEAD})"

lemma ckpt_frame_refl [simp]: "ckpt_frame d d"
  by (simp add: ckpt_frame_def)

lemma ckpt_frame_trans: "ckpt_frame d d' \<Longrightarrow> ckpt_frame d' d'' \<Longrightarrow> ckpt_frame d d''"
  unfolding ckpt_frame_def valid_block_def by (metis (no_types, lifting) insert_iff singletonD)

definition ckpt_gap :: "'f yaffs_Device \<Rightarrow> int" where
  "ckpt_gap d = blocksInCheckpoint d - nBlocksPerState d YAFFS_BLOCK_STATE_CHECKPOINT"

lemma checkpoint_block_update:
  assumes "blocks_ok d" and "valid_block d i" and "blockState (blk d i) = YAFFS_BLOCK_STATE_CHECKPOINT"
    and "st \<in> {YAFFS_BLOCK_STATE_EMPTY, YAFFS_BLOCK_STATE_DEAD}"
    and d': "d' = (setBlockInfo (d\<lparr>genericDevice := f\<rparr>) i ((blk d i)\<lparr>blockState := st\<rparr>))
      \<lparr>nErasedBlocks := nErasedBlocks d + of_bool (st = YAFFS_BLOCK_STATE_EMPTY),
       nFreeChunks := nFreeChunks d + (if st = YAFFS_BLOCK_STATE_EMPTY then nChunksPerBlock d else 0)\<rparr>"
  shows "blocks_ok d'" and "free_gap d' = free_gap d" and "erased_gap d' = erased_gap d" and "ckpt_frame d d'"
    and "blockState (blk d' i) \<noteq> YAFFS_BLOCK_STATE_CHECKPOINT"
proof -
  have g: "geometry d" and ok: "block_ok d i (blk d i)" using assms(1,2) by (simp_all add: blocks_ok_def)
  then have z: "pagesInUse (blk d i) = 0" "softDeletions (blk d i) = 0" "i \<noteq> allocationBlock d"
    using assms(3) by (auto simp: block_ok_def)
  have u: "used d' c = used d c" for c by (rule used_frame) (simp_all add: d' setBlockInfo_def)
  have bi: "blockInfo d' = (blockInfo d)[nat (i - internalStartBlock d) := (blk d i)\<lparr>blockState := st\<rparr>]"
    by (simp add: d' setBlockInfo_def)
  have fields: "nChunksPerBlock d' = nChunksPerBlock d" "internalStartBlock d' = internalStartBlock d"
    "allocationBlock d' = allocationBlock d" "allocationPage d' = allocationPage d"
    by (simp_all add: d' setBlockInfo_def)
  have "block_ok d' i ((blk d i)\<lparr>blockState := st\<rparr>)"
    using ok z assms(4) unfolding block_ok_def u fields by auto
  then show "blocks_ok d'"
    using assms(1) by (intro update_blocks_ok [OF assms(1,2) bi]) (simp_all add: blocks_ok_def u fields, simp_all add: d' setBlockInfo_def)
  show "free_gap d' = free_gap d" "erased_gap d' = erased_gap d"
    using update_sums [OF g assms(2) bi fields(1)] z assms(3,4)
    by (auto simp: free_gap_def erased_gap_def free_of_def d' setBlockInfo_def)
  have blk: "blk d' c = (if c = i then (blk d i)\<lparr>blockState := st\<rparr> else blk d c)" if "valid_block d c" for c
    using update_blk [OF g assms(2) that bi fields(2)] .
  then show "ckpt_frame d d'"
    using assms(3,4) by (auto simp: ckpt_frame_def d' setBlockInfo_def)
  show "blockState (blk d' i) \<noteq> YAFFS_BLOCK_STATE_CHECKPOINT"
    using blk [OF assms(2)] assms(4) by auto
qed

text \<open>The properties that one step and then the whole loop keep.\<close>

definition ckpt_kept :: "'f yaffs_Device \<Rightarrow> 'f yaffs_Device \<Rightarrow> bool" where
  "ckpt_kept d d' \<longleftrightarrow> blocks_ok d' \<and> free_gap d' = free_gap d \<and> erased_gap d' = erased_gap d \<and> ckpt_frame d d'"

lemma ckpt_kept_trans: "ckpt_kept d d' \<Longrightarrow> ckpt_kept d' d'' \<Longrightarrow> ckpt_kept d d''"
  unfolding ckpt_kept_def using ckpt_frame_trans by metis

lemma checkpointErase_step_kept:
  assumes "blocks_ok d" and "valid_block d i" and "checkpointErase_step i d = Some d'"
  shows "ckpt_kept d d' \<and> blockState (blk d' i) \<noteq> YAFFS_BLOCK_STATE_CHECKPOINT"
proof (cases "blockState (blk d i) = YAFFS_BLOCK_STATE_CHECKPOINT")
  case True
  have g: "geometry d" using assms(1) by (simp add: blocks_ok_def)
  obtain f st where "st \<in> {YAFFS_BLOCK_STATE_EMPTY, YAFFS_BLOCK_STATE_DEAD}" and
    "d' = (setBlockInfo (d\<lparr>genericDevice := f\<rparr>) i ((blk d i)\<lparr>blockState := st\<rparr>))
      \<lparr>nErasedBlocks := nErasedBlocks d + of_bool (st = YAFFS_BLOCK_STATE_EMPTY),
       nFreeChunks := nFreeChunks d + (if st = YAFFS_BLOCK_STATE_EMPTY then nChunksPerBlock d else 0)\<rparr>"
  proof -
    let ?t = "\<lambda>f st. (setBlockInfo (d\<lparr>genericDevice := f\<rparr>) i ((blk d i)\<lparr>blockState := st\<rparr>))
      \<lparr>nErasedBlocks := nErasedBlocks d + of_bool (st = YAFFS_BLOCK_STATE_EMPTY),
       nFreeChunks := nFreeChunks d + (if st = YAFFS_BLOCK_STATE_EMPTY then nChunksPerBlock d else 0)\<rparr>"
    have "\<exists>f. d' = ?t f YAFFS_BLOCK_STATE_EMPTY \<or> d' = ?t f YAFFS_BLOCK_STATE_DEAD"
      using assms(2,3) True g
      by (auto simp: checkpointErase_step_def GetBlockInfo_blk Let_def setBlockInfo_def split: prod.splits bind_splits if_splits)
    then show thesis using that by blast
  qed
  from checkpoint_block_update [OF assms(1,2) True this] show ?thesis by (simp add: ckpt_kept_def)
next
  case False
  moreover have "geometry d" using assms(1) by (simp add: blocks_ok_def)
  ultimately show ?thesis
    using assms by (simp add: checkpointErase_step_def GetBlockInfo_blk ckpt_kept_def)
qed

lemma ckpt_frame_valid: "ckpt_frame d d' \<Longrightarrow> valid_block d' b = valid_block d b"
  by (simp add: ckpt_frame_def valid_block_def)

lemma ckpt_frame_blk:
  assumes "ckpt_frame d d'" and "valid_block d c" and "blockState (blk d c) \<noteq> YAFFS_BLOCK_STATE_CHECKPOINT"
  shows "blk d' c = blk d c"
proof -
  have "\<forall>c. valid_block d c \<longrightarrow> blockState (blk d c) \<noteq> YAFFS_BLOCK_STATE_CHECKPOINT \<longrightarrow> blk d' c = blk d c"
    using assms(1) unfolding ckpt_frame_def by blast
  with assms(2,3) show ?thesis by blast
qed

lemma ckpt_frame_gone:
  "ckpt_frame d d' \<Longrightarrow> valid_block d c \<Longrightarrow> blockState (blk d c) \<noteq> YAFFS_BLOCK_STATE_CHECKPOINT \<Longrightarrow>
   blockState (blk d' c) \<noteq> YAFFS_BLOCK_STATE_CHECKPOINT"
  using ckpt_frame_blk [of d d' c] by simp

lemma checkpointErase_loop_kept:
  "blocks_ok d \<Longrightarrow> \<forall>i\<in>set is. valid_block d i \<Longrightarrow> checkpointErase_loop is d = Some d' \<Longrightarrow>
     ckpt_kept d d' \<and> (\<forall>i\<in>set is. blockState (blk d' i) \<noteq> YAFFS_BLOCK_STATE_CHECKPOINT)"
proof (induction "is" arbitrary: d)
  case Nil
  then show ?case by (simp add: ckpt_kept_def)
next
  case (Cons i "is")
  obtain d1 where 1: "checkpointErase_step i d = Some d1" "checkpointErase_loop is d1 = Some d'"
    using Cons.prems(3) by (auto simp: bind_eq_Some_conv)
  have v: "valid_block d i" using Cons.prems(2) by simp
  note k = checkpointErase_step_kept [OF Cons.prems(1) v 1(1), THEN conjunct1]
    checkpointErase_step_kept [OF Cons.prems(1) v 1(1), THEN conjunct2]
  have f: "ckpt_frame d d1" "blocks_ok d1" using k(1) unfolding ckpt_kept_def by blast+
  have "\<forall>i\<in>set is. valid_block d1 i" using Cons.prems(2) ckpt_frame_valid [OF f(1)] by simp
  note r = Cons.IH [OF f(2) this 1(2), THEN conjunct1] Cons.IH [OF f(2) this 1(2), THEN conjunct2]
  have "ckpt_frame d1 d'" using r(1) unfolding ckpt_kept_def by blast
  then have "blockState (blk d' i) \<noteq> YAFFS_BLOCK_STATE_CHECKPOINT"
    using v ckpt_frame_valid [OF f(1)] by (intro ckpt_frame_gone [OF _ _ k(2)]) simp_all
  with r(2) ckpt_kept_trans [OF k(1) r(1)] show ?case by simp
qed

lemma CheckpointErase_kept:
  assumes "blocks_ok d" and "ckpt_gap d = 0" and "yaffs_CheckpointErase d = Some (r, d')"
  shows "ckpt_kept d d'" and "ckpt_gap d' = 0"
proof -
  consider "d' = d" | d1 where "checkpointErase_loop [internalStartBlock d..internalEndBlock d] d = Some d1"
      "d' = d1\<lparr>blocksInCheckpoint := 0\<rparr>"
    using assms(3) by (auto simp: yaffs_CheckpointErase_def split: if_splits bind_splits)
  then have "ckpt_kept d d' \<and> ckpt_gap d' = 0"
  proof cases
    case 1
    with assms show ?thesis by (simp add: ckpt_kept_def)
  next
    case 2
    have k: "ckpt_kept d d1" "\<forall>i\<in>{internalStartBlock d..internalEndBlock d}. blockState (blk d1 i) \<noteq> YAFFS_BLOCK_STATE_CHECKPOINT"
      using checkpointErase_loop_kept [OF assms(1) _ 2(1)] by (auto simp: valid_block_def)
    have "blocks_ok d' = blocks_ok d1" "free_sum d' = free_sum d1" "nBlocksPerState d' st = nBlocksPerState d1 st" for st
      by (rule blocks_ok_frame; simp add: 2(2))+
    moreover have "nFreeChunks d' = nFreeChunks d1" "nErasedBlocks d' = nErasedBlocks d1" by (simp_all add: 2(2))
    moreover have "ckpt_frame d d'"
      by (rule ckpt_frame_trans [of d d1]) (use k(1) in \<open>simp_all add: ckpt_kept_def\<close>, simp add: 2(2) ckpt_frame_def)
    ultimately have same: "ckpt_kept d d'"
      using k(1) unfolding ckpt_kept_def free_gap_def erased_gap_def by simp
    have g: "geometry d1" "internalStartBlock d1 = internalStartBlock d" "internalEndBlock d1 = internalEndBlock d"
      using k(1) by (auto simp: ckpt_kept_def blocks_ok_def ckpt_frame_def)
    have "blockState (blockInfo d1 ! j) \<noteq> YAFFS_BLOCK_STATE_CHECKPOINT" if "j < length (blockInfo d1)" for j
      using k(2) [THEN bspec, of "int j + internalStartBlock d"] that g by (auto simp: geometry_def)
    then have "nBlocksPerState d1 YAFFS_BLOCK_STATE_CHECKPOINT = 0"
      by (auto simp: nBlocksPerState_zero in_set_conv_nth)
    with same show ?thesis by (simp add: ckpt_gap_def 2(2) nBlocksPerState_def)
  qed
  then show "ckpt_kept d d'" and "ckpt_gap d' = 0" by simp_all
qed

lemma InvalidateCheckpoint_kept:
  assumes "blocks_ok d" and "ckpt_gap d = 0" and "yaffs_InvalidateCheckpoint d = Some d'"
  shows "ckpt_kept d d'" and "ckpt_gap d' = 0"
proof -
  have c: "same_core d (d\<lparr>isCheckpointed := False\<rparr>)" by (simp add: same_core_def)
  have k: "ckpt_kept d (d\<lparr>isCheckpointed := False\<rparr>)"
    using same_core_blocks_ok [OF c assms(1)] same_core_gaps [OF c] by (simp add: ckpt_kept_def ckpt_frame_def)
  have g: "ckpt_gap (d\<lparr>isCheckpointed := False\<rparr>) = 0" using assms(2) by (simp add: ckpt_gap_def nBlocksPerState_def)
  have "d' = d \<or> d' = d\<lparr>isCheckpointed := False\<rparr> \<or> (\<exists>r. yaffs_CheckpointErase (d\<lparr>isCheckpointed := False\<rparr>) = Some (r, d'))"
    using assms(3) by (auto simp: yaffs_InvalidateCheckpoint_def yaffs_CheckpointInvalidateStream_def split: if_splits)
  then consider "d' = d" | "d' = d\<lparr>isCheckpointed := False\<rparr>" | r where "yaffs_CheckpointErase (d\<lparr>isCheckpointed := False\<rparr>) = Some (r, d')"
    by blast
  then have "ckpt_kept d d' \<and> ckpt_gap d' = 0"
  proof cases
    case 1
    with assms show ?thesis by (simp add: ckpt_kept_def)
  next
    case 2
    with k g show ?thesis by simp
  next
    case 3
    have "blocks_ok (d\<lparr>isCheckpointed := False\<rparr>)" using k by (simp add: ckpt_kept_def)
    from CheckpointErase_kept [OF this g 3] show ?thesis using ckpt_kept_trans [OF k] by simp
  qed
  then show "ckpt_kept d d'" and "ckpt_gap d' = 0" by simp_all
qed

end
