(* ===== verification/BlockOps.thy ===== *)
theory BlockOps
  imports BlockSafety
begin

text \<open>
  The operations of the block manager one by one: erasing and retiring, allocation, deletion, and
  what each does to the block table and the counters.
\<close>

section \<open>Storing into the block table\<close>

lemma set_block_fields [simp]:
  "nChunksPerBlock (setBlockInfo d b bi) = nChunksPerBlock d"
  "internalStartBlock (setBlockInfo d b bi) = internalStartBlock d"
  "internalEndBlock (setBlockInfo d b bi) = internalEndBlock d"
  "chunkBitmapStride (setBlockInfo d b bi) = chunkBitmapStride d"
  "chunkBits (setBlockInfo d b bi) = chunkBits d"
  "allocationBlock (setBlockInfo d b bi) = allocationBlock d"
  "allocationPage (setBlockInfo d b bi) = allocationPage d"
  "nFreeChunks (setBlockInfo d b bi) = nFreeChunks d"
  "nErasedBlocks (setBlockInfo d b bi) = nErasedBlocks d"
  "blocksInCheckpoint (setBlockInfo d b bi) = blocksInCheckpoint d"
  "isYaffs2 (setBlockInfo d b bi) = isYaffs2 d"
  "dev_sequenceNumber (setBlockInfo d b bi) = dev_sequenceNumber d"
  by (simp_all add: setBlockInfo_def)

lemma used_set_block [simp]: "used (setBlockInfo d b bi) c = used d c"
  by (rule used_frame) simp_all

lemma valid_set_block [simp]: "valid_block (setBlockInfo d b bi) c = valid_block d c"
  by (simp add: valid_block_def)

lemma blocks_ok_geometry: "blocks_ok d \<Longrightarrow> geometry d"
  by (simp add: blocks_ok_def)

lemma blocks_okD: "blocks_ok d \<Longrightarrow> valid_block d b \<Longrightarrow> block_ok d b (blk d b)"
  by (simp add: blocks_ok_def)

lemma geometry_set_block [simp]: "geometry (setBlockInfo d b bi) = geometry d"
  by (simp add: geometry_def) (simp add: setBlockInfo_def)

lemma blk_set_block:
  "geometry d \<Longrightarrow> valid_block d b \<Longrightarrow> valid_block d c \<Longrightarrow> blk (setBlockInfo d b bi) c = (if c = b then bi else blk d c)"
  by (rule update_blk) (simp_all add: setBlockInfo_def)

lemma block_ok_set_block [simp]: "block_ok (setBlockInfo d b bi) c bj = block_ok d c bj"
  by (simp add: block_ok_def)

lemma set_block_ok:
  assumes "blocks_ok d" and "valid_block d b" and "block_ok d b bi"
  shows "blocks_ok (setBlockInfo d b bi)"
proof (rule update_blocks_ok [OF assms(1,2)])
  show "blockInfo (setBlockInfo d b bi) = (blockInfo d)[nat (b - internalStartBlock d) := bi]"
    by (simp add: setBlockInfo_def)
qed (use assms in \<open>simp_all add: blocks_ok_def\<close>)

lemma set_block_gaps:
  assumes "geometry d" and "valid_block d b"
  shows "free_gap (setBlockInfo d b bi) = free_gap d + free_of (nChunksPerBlock d) (blk d b) - free_of (nChunksPerBlock d) bi"
    and "erased_gap (setBlockInfo d b bi) = erased_gap d + of_bool (blockState (blk d b) = YAFFS_BLOCK_STATE_EMPTY) -
      of_bool (blockState bi = YAFFS_BLOCK_STATE_EMPTY)"
    and "ckpt_gap (setBlockInfo d b bi) = ckpt_gap d + of_bool (blockState (blk d b) = YAFFS_BLOCK_STATE_CHECKPOINT) -
      of_bool (blockState bi = YAFFS_BLOCK_STATE_CHECKPOINT)"
  using update_sums [OF assms, of "setBlockInfo d b bi" bi]
  by (simp_all add: free_gap_def erased_gap_def ckpt_gap_def) (simp_all add: setBlockInfo_def)

lemma block_inv_gaps: "block_inv d \<longleftrightarrow> blocks_ok d \<and> free_gap d = 0 \<and> erased_gap d = 0 \<and> ckpt_gap d = 0"
  by (auto simp: block_inv_def ckpt_gap_def)

text \<open>Fields that the invariant does not read, and the counters.\<close>

lemma gaps_upd:
  "free_gap (d\<lparr>nFreeChunks := x\<rparr>) = free_gap d + x - nFreeChunks d"
  "free_gap (d\<lparr>nErasedBlocks := x\<rparr>) = free_gap d"
  "free_gap (d\<lparr>nRetiredBlocks := x\<rparr>) = free_gap d"
  "erased_gap (d\<lparr>nErasedBlocks := x\<rparr>) = erased_gap d + x - nErasedBlocks d"
  "erased_gap (d\<lparr>nFreeChunks := x\<rparr>) = erased_gap d"
  "erased_gap (d\<lparr>nRetiredBlocks := x\<rparr>) = erased_gap d"
  "ckpt_gap (d\<lparr>nFreeChunks := x\<rparr>) = ckpt_gap d"
  "ckpt_gap (d\<lparr>nErasedBlocks := x\<rparr>) = ckpt_gap d"
  "ckpt_gap (d\<lparr>nRetiredBlocks := x\<rparr>) = ckpt_gap d"
  by (simp_all add: free_gap_def erased_gap_def ckpt_gap_def free_sum_def nBlocksPerState_def)

lemma blocks_ok_upd [simp]:
  "blocks_ok (d\<lparr>nFreeChunks := x\<rparr>) = blocks_ok d"
  "blocks_ok (d\<lparr>nErasedBlocks := x\<rparr>) = blocks_ok d"
  "blocks_ok (d\<lparr>nRetiredBlocks := x\<rparr>) = blocks_ok d"
  by (rule blocks_ok_frame; simp)+

lemma valid_upd [simp]:
  "valid_block (d\<lparr>nFreeChunks := x\<rparr>) b = valid_block d b"
  "valid_block (d\<lparr>nErasedBlocks := x\<rparr>) b = valid_block d b"
  by (simp_all add: valid_block_def)

lemma same_core_ckpt_gap: "same_core d d' \<Longrightarrow> ckpt_gap d' = ckpt_gap d"
  using same_core_sums(2) same_coreD(11) by (metis ckpt_gap_def)

text \<open>What a series of quiet operations and invalidations keeps.\<close>

definition kept :: "'f yaffs_Device \<Rightarrow> 'f yaffs_Device \<Rightarrow> bool" where
  "kept d d' \<longleftrightarrow> blocks_ok d' \<and> free_gap d' = free_gap d \<and> erased_gap d' = erased_gap d \<and> ckpt_gap d' = ckpt_gap d \<and>
     nChunksPerBlock d' = nChunksPerBlock d \<and> allocationBlock d' = allocationBlock d \<and>
     (\<forall>c. used d' c = used d c) \<and> (\<forall>c. valid_block d' c = valid_block d c) \<and>
     (\<forall>c. valid_block d c \<longrightarrow> blockState (blk d c) \<noteq> YAFFS_BLOCK_STATE_CHECKPOINT \<longrightarrow> core_bi (blk d' c) = core_bi (blk d c))"

lemma kept_same_core:
  assumes "blocks_ok d" and "same_core d d'"
  shows "kept d d'"
  using same_core_blocks_ok [OF assms(2,1)] same_core_gaps [OF assms(2)] same_core_ckpt_gap [OF assms(2)]
    same_coreD(3,9) [OF assms(2)] same_core_used [OF assms(2)] same_core_valid [OF assms(2)]
    same_core_blk [OF assms(2) blocks_ok_geometry [OF assms(1)]]
  unfolding kept_def by blast

lemma kept_ckpt:
  assumes "ckpt_kept d d'" and "ckpt_gap d' = ckpt_gap d"
  shows "kept d d'"
proof -
  have f: "ckpt_frame d d'" and o: "blocks_ok d'" "free_gap d' = free_gap d" "erased_gap d' = erased_gap d"
    using assms(1) by (simp_all only: ckpt_kept_def)
  have "chunkBits d' = chunkBits d" "chunkBitmapStride d' = chunkBitmapStride d" "internalStartBlock d' = internalStartBlock d"
    "nChunksPerBlock d' = nChunksPerBlock d" "allocationBlock d' = allocationBlock d"
    using f by (simp_all only: ckpt_frame_def)
  with o assms(2) show ?thesis
    using used_frame [of d' d] ckpt_frame_valid [OF f] ckpt_frame_blk [OF f] unfolding kept_def by metis
qed

lemma kept_trans:
  assumes "kept d d'" and "kept d' d''"
  shows "kept d d''"
proof -
  have "core_bi (blk d'' c) = core_bi (blk d c)"
    if "valid_block d c" "blockState (blk d c) \<noteq> YAFFS_BLOCK_STATE_CHECKPOINT" for c
  proof -
    have 1: "core_bi (blk d' c) = core_bi (blk d c)" "valid_block d' c" using assms(1) that by (auto simp: kept_def)
    then have "blockState (blk d' c) \<noteq> YAFFS_BLOCK_STATE_CHECKPOINT" using that(2) by (simp add: core_bi_def)
    with 1 assms(2) show ?thesis by (simp add: kept_def)
  qed
  with assms show ?thesis by (simp add: kept_def)
qed

lemma kept_Invalidate:
  "blocks_ok d \<Longrightarrow> ckpt_gap d = 0 \<Longrightarrow> yaffs_InvalidateCheckpoint d = Some d' \<Longrightarrow> kept d d'"
  using InvalidateCheckpoint_kept kept_ckpt by metis

text \<open>All blocks but one are as they were, apart from those of the checkpoint.\<close>

definition others_kept :: "int \<Rightarrow> 'f yaffs_Device \<Rightarrow> 'f yaffs_Device \<Rightarrow> bool" where
  "others_kept b d d' \<longleftrightarrow> (\<forall>c. valid_block d c \<longrightarrow> c \<noteq> b \<longrightarrow> blockState (blk d c) \<noteq> YAFFS_BLOCK_STATE_CHECKPOINT \<longrightarrow>
     core_bi (blk d' c) = core_bi (blk d c))"

lemma others_kept_refl [simp]: "others_kept b d d"
  by (simp add: others_kept_def)

lemma others_keptD:
  "others_kept b d d' \<Longrightarrow> valid_block d c \<Longrightarrow> c \<noteq> b \<Longrightarrow> blockState (blk d c) \<noteq> YAFFS_BLOCK_STATE_CHECKPOINT \<Longrightarrow>
     core_bi (blk d' c) = core_bi (blk d c)"
  by (simp add: others_kept_def)

lemma others_kept_trans:
  assumes "others_kept b d d'" and "others_kept b d' d''" and "\<And>c. valid_block d' c = valid_block d c"
  shows "others_kept b d d''"
proof -
  have "core_bi (blk d'' c) = core_bi (blk d c)"
    if "valid_block d c" "c \<noteq> b" "blockState (blk d c) \<noteq> YAFFS_BLOCK_STATE_CHECKPOINT" for c
  proof -
    have 1: "core_bi (blk d' c) = core_bi (blk d c)" using others_keptD [OF assms(1) that] .
    then have "blockState (blk d' c) \<noteq> YAFFS_BLOCK_STATE_CHECKPOINT" using that(3) by (simp add: core_bi_def)
    with others_keptD [OF assms(2)] that assms(3) 1 show ?thesis by simp
  qed
  then show ?thesis by (simp add: others_kept_def)
qed

lemma kept_others: "kept d d' \<Longrightarrow> others_kept b d d'"
  by (simp add: kept_def others_kept_def)

lemma same_core_others: "geometry d \<Longrightarrow> same_core d d' \<Longrightarrow> others_kept b d d'"
  by (simp add: others_kept_def same_core_blk)

lemma set_block_others:
  "geometry d \<Longrightarrow> valid_block d b \<Longrightarrow> blockInfo d' = blockInfo (setBlockInfo d b bi) \<Longrightarrow>
     internalStartBlock d' = internalStartBlock d \<Longrightarrow> others_kept b d d'"
  using blk_set_block [of d b _ bi] by (simp add: others_kept_def)

section \<open>Retiring and erasing a block\<close>

lemma core_bi_eqD: "core_bi x = core_bi y \<Longrightarrow> blockState x = blockState y \<and> pagesInUse x = pagesInUse y \<and>
    softDeletions x = softDeletions y"
  by (simp add: core_bi_def)

lemma free_of_core: "core_bi x = core_bi y \<Longrightarrow> free_of n x = free_of n y"
  by (simp add: core_bi_def free_of_def)

lemma keptD:
  assumes "kept d d'"
  shows "blocks_ok d'" "free_gap d' = free_gap d" "erased_gap d' = erased_gap d" "ckpt_gap d' = ckpt_gap d"
    "nChunksPerBlock d' = nChunksPerBlock d" "allocationBlock d' = allocationBlock d" "used d' c = used d c"
    "valid_block d' c = valid_block d c"
    "valid_block d c \<Longrightarrow> blockState (blk d c) \<noteq> YAFFS_BLOCK_STATE_CHECKPOINT \<Longrightarrow> core_bi (blk d' c) = core_bi (blk d c)"
  using assms unfolding kept_def by blast+

text \<open>
  The block about to be erased: marked dirty, with its counts settled by what the caller tells
  about the counters.
\<close>

lemma RetireBlock_inv:
  assumes "blocks_ok d" "free_gap d = 0" "erased_gap d = 0" "ckpt_gap d = 0" and "valid_block d b"
    and "blockState (blk d b) = YAFFS_BLOCK_STATE_DIRTY" and "yaffs_RetireBlock d b = Some d'"
  shows "block_inv d' \<and> (\<forall>c. used d' c = used d c) \<and> others_kept b d d'"
proof -
  obtain d1 d2 r where 1: "yaffs_InvalidateCheckpoint d = Some d1" and 2: "yaffs_MarkBlockBad d1 b = Some (r, d2)"
    and d': "\<exists>bi. yaffs_GetBlockInfo d2 b = Some bi \<and> d' = (setBlockInfo d2 b (bi\<lparr>blockState := YAFFS_BLOCK_STATE_DEAD,
        gcPrioritise := False, needsRetiring := False\<rparr>))\<lparr>nRetiredBlocks := nRetiredBlocks d2 + 1\<rparr>"
    using assms(7) by (auto simp: yaffs_RetireBlock_def bind_eq_Some_conv)
  have k1: "kept d d1" using kept_Invalidate [OF assms(1,4) 1] .
  have k: "kept d d2" using kept_trans [OF k1 kept_same_core [OF keptD(1) [OF k1] MarkBlockBad_core [OF 2]]] .
  note kd = keptD [OF k]
  have g: "geometry d2" and v: "valid_block d2 b" using kd(1,8) assms(5) by (simp_all add: blocks_ok_geometry)
  have st: "blockState (blk d2 b) = YAFFS_BLOCK_STATE_DIRTY"
    using core_bi_eqD [OF kd(9) [OF assms(5)]] assms(6) by simp
  let ?bi = "(blk d2 b)\<lparr>blockState := YAFFS_BLOCK_STATE_DEAD, gcPrioritise := False, needsRetiring := False\<rparr>"
  have "block_ok d2 b ?bi" using blocks_okD [OF kd(1) v] st by (auto simp: block_ok_def)
  with set_block_ok [OF kd(1) v] set_block_gaps [OF g v, of ?bi] d' g v have "block_inv d'"
    by (auto simp: block_inv_gaps GetBlockInfo_blk gaps_upd kd assms st free_of_def)
  moreover have "used d' c = used d2 c" for c using d' by (intro used_frame) auto
  moreover have "others_kept b d2 d'" using d' g v by (auto simp: GetBlockInfo_blk intro: set_block_others)
  ultimately show ?thesis using kd(7,8) others_kept_trans [OF kept_others [OF k]] by simp
qed

lemma clear_block_inv:
  assumes "blocks_ok d" "free_gap d = nChunksPerBlock d" "erased_gap d = 0" "ckpt_gap d = 0" and "valid_block d b"
    and "blockState (blk d b) = YAFFS_BLOCK_STATE_DIRTY"
    and "yaffs_ClearChunkBits ((setBlockInfo d b ((blk d b)\<lparr>blockState := YAFFS_BLOCK_STATE_EMPTY, pagesInUse := 0, softDeletions := 0,
           hasShrinkHeader := False, skipErasedCheck := True, gcPrioritise := False\<rparr>))\<lparr>nErasedBlocks := nErasedBlocks d + 1\<rparr>) b = Some d'"
  shows "block_inv d' \<and> (\<forall>c. valid_block d c \<longrightarrow> used d' c = (if c = b then {} else used d c)) \<and> others_kept b d d'"
proof -
  let ?bi = "(blk d b)\<lparr>blockState := YAFFS_BLOCK_STATE_EMPTY, pagesInUse := 0, softDeletions := 0,
           hasShrinkHeader := False, skipErasedCheck := True, gcPrioritise := False\<rparr>"
  define d1 where "d1 = (setBlockInfo d b ?bi)\<lparr>nErasedBlocks := nErasedBlocks d + 1\<rparr>"
  have g: "geometry d" using assms(1) by (rule blocks_ok_geometry)
  then have g1: "geometry d1" by (simp add: d1_def geometry_def) (simp add: setBlockInfo_def)
  have v1: "valid_block d1 c = valid_block d c" for c by (simp add: d1_def)
  obtain bits where bits: "yaffs_ClearChunkBits d1 b = Some (d1\<lparr>chunkBits := bits\<rparr>)" "length bits = length (chunkBits d1)"
      "\<And>c. valid_block d1 c \<Longrightarrow> used (d1\<lparr>chunkBits := bits\<rparr>) c = (if c = b then {} else used d1 c)"
    using ClearChunkBits_eq [OF g1, of b] assms(5) v1 by auto
  have d': "d' = d1\<lparr>chunkBits := bits\<rparr>" using assms(7) bits(1) by (simp add: d1_def)
  have u1: "used d1 c = used d c" for c by (rule used_frame) (simp_all add: d1_def)
  have u: "used d' c = (if c = b then {} else used d c)" if "valid_block d c" for c
    using bits(3) [of c] that by (simp add: d' v1 u1)
  have nal: "allocationBlock d \<noteq> b" using blocks_okD [OF assms(1,5)] assms(6) by (auto simp: block_ok_def)
  have "blocks_ok d'"
  proof (rule update_blocks_ok [OF assms(1,5)])
    show "blockInfo d' = (blockInfo d)[nat (b - internalStartBlock d) := ?bi]"
      by (simp add: d' d1_def) (simp add: setBlockInfo_def)
    show "block_ok d' b ?bi"
      unfolding block_ok_def u [OF assms(5)] using nal by (simp add: d' d1_def)
  qed (use assms(1) bits(2) u in \<open>auto simp: d' d1_def blocks_ok_def\<close>)
  moreover have "free_gap d' = 0" "erased_gap d' = 0" "ckpt_gap d' = 0"
  proof -
    have e: "free_gap d' = free_gap d1" "erased_gap d' = erased_gap d1" "ckpt_gap d' = ckpt_gap d1"
      by (simp_all add: d' free_gap_def erased_gap_def ckpt_gap_def free_sum_def nBlocksPerState_def)
    show "free_gap d' = 0" "erased_gap d' = 0" "ckpt_gap d' = 0"
      unfolding e d1_def using set_block_gaps [OF g assms(5), of ?bi] by (simp_all add: gaps_upd assms free_of_def)
  qed
  moreover have "others_kept b d d'" by (rule set_block_others [OF g assms(5), of _ ?bi]) (simp_all add: d' d1_def)
  ultimately show ?thesis using u by (simp add: block_inv_gaps)
qed

lemma BlockBecameDirty_inv:
  assumes "block_inv d" and "valid_block d b"
    and "blockState (blk d b) \<in> {YAFFS_BLOCK_STATE_FULL, YAFFS_BLOCK_STATE_COLLECTING}" and "pagesInUse (blk d b) = 0"
    and "yaffs_BlockBecameDirty d b = Some d'"
  shows "block_inv d' \<and> (\<forall>c. valid_block d c \<longrightarrow> used d' c = used d c) \<and> others_kept b d d'"
proof -
  have ok: "blocks_ok d" and gap: "free_gap d = 0" "erased_gap d = 0" "ckpt_gap d = 0"
    using assms(1) by (simp_all add: block_inv_gaps)
  have g: "geometry d" using ok by (rule blocks_ok_geometry)
  let ?n = "nChunksPerBlock d"
  define d0 where "d0 = setBlockInfo d b ((blk d b)\<lparr>blockState := YAFFS_BLOCK_STATE_DIRTY\<rparr>)"
  have full: "free_of ?n (blk d b) = ?n"
    using blocks_okD [OF ok assms(2)] assms(3,4) by (auto simp: block_ok_def free_of_def)
  have "block_ok d b ((blk d b)\<lparr>blockState := YAFFS_BLOCK_STATE_DIRTY\<rparr>)"
    using blocks_okD [OF ok assms(2)] assms(3) by (auto simp: block_ok_def)
  then have ok0: "blocks_ok d0" unfolding d0_def by (rule set_block_ok [OF ok assms(2)])
  have gap0: "free_gap d0 = ?n" "erased_gap d0 = 0" "ckpt_gap d0 = 0" "nChunksPerBlock d0 = ?n"
    using set_block_gaps [OF g assms(2), of "(blk d b)\<lparr>blockState := YAFFS_BLOCK_STATE_DIRTY\<rparr>"] gap full assms(3)
    by (auto simp: d0_def free_of_def)
  have st0: "blockState (blk d0 b) = YAFFS_BLOCK_STATE_DIRTY" "valid_block d0 b"
    using blk_set_block [OF g assms(2,2)] assms(2) by (simp_all add: d0_def)
  have nou: "used d b = {}" using blocks_okD [OF ok assms(2)] assms(4) by (simp add: block_ok_def)
  have od: "others_kept b d d0" by (rule set_block_others [OF g assms(2)]) (simp_all add: d0_def)
  have fin: "block_inv d' \<and> (\<forall>c. valid_block d c \<longrightarrow> used d' c = used d c) \<and> others_kept b d d'" if k: "kept d0 dk" and D: "(if e \<noteq> (0 :: int) then do {
       bi \<leftarrow> yaffs_GetBlockInfo dk b;
       let dev = (setBlockInfo dk b (bi\<lparr>blockState := YAFFS_BLOCK_STATE_EMPTY, pagesInUse := 0, softDeletions := 0,
                    hasShrinkHeader := False, skipErasedCheck := True, gcPrioritise := False\<rparr>))
                 \<lparr>nErasedBlocks := nErasedBlocks dk + 1\<rparr>;
       yaffs_ClearChunkBits dev b
     } else yaffs_RetireBlock (dk\<lparr>nFreeChunks := nFreeChunks dk - nChunksPerBlock dk\<rparr>) b) = Some d'" for dk e
  proof -
    note kd = keptD [OF k]
    have st: "blockState (blk dk b) = YAFFS_BLOCK_STATE_DIRTY" "valid_block dk b"
      using core_bi_eqD [OF kd(9) [OF st0(2)]] st0 kd(8) by simp_all
    have u: "used dk c = used d c" for c using kd(7) by (simp add: d0_def)
    have ok: "others_kept b d dk" using others_kept_trans [OF od kept_others [OF k]] by (simp add: d0_def)
    have v: "valid_block dk c = valid_block d c" for c using kd(8) by (simp add: d0_def)
    show ?thesis
    proof (cases "e = 0")
      case True
      let ?dn = "dk\<lparr>nFreeChunks := nFreeChunks dk - nChunksPerBlock dk\<rparr>"
      have "block_inv d' \<and> (\<forall>c. used d' c = used ?dn c) \<and> others_kept b ?dn d'"
        by (rule RetireBlock_inv) (use True D st kd gap0 in \<open>simp_all add: gaps_upd\<close>)
      moreover have "used ?dn c = used dk c" for c by (rule used_frame) simp_all
      ultimately show ?thesis using u v others_kept_trans [OF ok, of d'] by (simp add: others_kept_def)
    next
      case False
      have "block_inv d' \<and> (\<forall>c. valid_block dk c \<longrightarrow> used d' c = (if c = b then {} else used dk c)) \<and> others_kept b dk d'"
        by (rule clear_block_inv)
          (use False D st kd gap0 blocks_ok_geometry [OF kd(1)] in \<open>simp_all add: GetBlockInfo_blk Let_def\<close>)
      then show ?thesis using u nou v others_kept_trans [OF ok, of d'] by simp
    qed
  qed
  obtain e d1 dk where
    A: "(if \<not> needsRetiring (blk d b) then do {
          dev \<leftarrow> yaffs_InvalidateCheckpoint d0;
          (r, dev) \<leftarrow> yaffs_EraseBlockInNAND dev b;
          Some (r, if r = 0 then dev\<lparr>nErasureFailures := nErasureFailures dev + 1\<rparr> else dev)
        } else Some (0, d0)) = Some (e, d1)"
    and B: "(if e \<noteq> 0 \<and> ((yaffs_traceMask d1 AND YAFFS_TRACE_ERASE) \<noteq> 0 \<or> \<not> yaffs_SkipVerification d1)
             then checkErased_loop [b * nChunksPerBlock d1..b * nChunksPerBlock d1 + nChunksPerBlock d1 - 1] d1
             else Some d1) = Some dk"
    and C: "(if e \<noteq> (0 :: int) then do {
       bi \<leftarrow> yaffs_GetBlockInfo dk b;
       let dev = (setBlockInfo dk b (bi\<lparr>blockState := YAFFS_BLOCK_STATE_EMPTY, pagesInUse := 0, softDeletions := 0,
                    hasShrinkHeader := False, skipErasedCheck := True, gcPrioritise := False\<rparr>))
                 \<lparr>nErasedBlocks := nErasedBlocks dk + 1\<rparr>;
       yaffs_ClearChunkBits dev b
     } else yaffs_RetireBlock (dk\<lparr>nFreeChunks := nFreeChunks dk - nChunksPerBlock dk\<rparr>) b) = Some d'"
    using assms(5) unfolding yaffs_BlockBecameDirty_def GetBlockInfo_blk [OF g] if_P [OF assms(2)] bind.bind_lunit
      Let_def [of "setBlockInfo d b _"] d0_def [symmetric]
    by (elim bind_eq_Some_conv [THEN iffD1, THEN exE]) (auto simp: bind_eq_Some_conv split del: if_split)
  have "kept d0 d1"
  proof (cases "needsRetiring (blk d b)")
    case True
    with A ok0 show ?thesis by (simp add: kept_def)
  next
    case False
    with A obtain da r db where 1: "yaffs_InvalidateCheckpoint d0 = Some da" "yaffs_EraseBlockInNAND da b = Some (r, db)"
      and db: "d1 = db \<or> d1 = db\<lparr>nErasureFailures := nErasureFailures db + 1\<rparr>"
      by (auto simp: bind_eq_Some_conv split: if_splits)
    have ka: "kept d0 da" using kept_Invalidate [OF ok0 gap0(3) 1(1)] .
    have "same_core db d1" using db by (auto simp: same_core_def)
    then have "same_core da d1" using EraseBlockInNAND_core [OF 1(2)] same_core_trans by blast
    then show ?thesis using kept_trans [OF ka kept_same_core [OF keptD(1) [OF ka]]] by blast
  qed
  moreover have "same_core d1 dk" using B by (auto split: if_splits dest: checkErased_loop_core)
  ultimately have "kept d0 dk" using kept_trans kept_same_core keptD(1) by blast
  from fin [OF this C] show ?thesis .
qed

section \<open>Finding a block to allocate from\<close>

text \<open>The device once block b has been taken for allocation.\<close>

definition taken :: "'f yaffs_Device \<Rightarrow> int \<Rightarrow> 'f yaffs_Device" where
  "taken d b = (setBlockInfo d b ((blk d b)\<lparr>blockState := YAFFS_BLOCK_STATE_ALLOCATING,
       bi_sequenceNumber := dev_sequenceNumber d + 1\<rparr>))
     \<lparr>dev_sequenceNumber := dev_sequenceNumber d + 1, nErasedBlocks := nErasedBlocks d - 1,
      allocationBlockFinder := b\<rparr>"

definition next_finder :: "'f yaffs_Device \<Rightarrow> int \<Rightarrow> int" where
  "next_finder d f = (if f + 1 < internalStartBlock d \<or> f + 1 > internalEndBlock d then internalStartBlock d else f + 1)"

lemma next_finder_valid: "geometry d \<Longrightarrow> valid_block d (next_finder d f)"
  by (auto simp: next_finder_def valid_block_def geometry_def)

lemma findBlock_step:
  assumes "geometry d"
  shows "findBlock_loop (Suc n) d =
    (let f = next_finder d (allocationBlockFinder d)
     in if blockState (blk d f) = YAFFS_BLOCK_STATE_EMPTY then Some (f, taken d f)
        else findBlock_loop n (d\<lparr>allocationBlockFinder := f\<rparr>))"
proof -
  let ?f = "next_finder d (allocationBlockFinder d)"
  have "yaffs_GetBlockInfo (d\<lparr>allocationBlockFinder := ?f\<rparr>) ?f = Some (blk d ?f)"
    using next_finder_valid [OF assms] GetBlockInfo_frame [of "d\<lparr>allocationBlockFinder := ?f\<rparr>" d ?f] GetBlockInfo_blk [OF assms]
    by simp
  then show ?thesis
    unfolding findBlock_loop.simps(2) Let_def next_finder_def [symmetric] by (simp add: taken_def setBlockInfo_def)
qed

declare findBlock_loop.simps(2) [simp del]

lemma findBlock_loop_cases:
  assumes "geometry d"
  shows "\<exists>f. findBlock_loop n d = Some (-1, d\<lparr>allocationBlockFinder := f\<rparr>) \<or>
    valid_block d f \<and> blockState (blk d f) = YAFFS_BLOCK_STATE_EMPTY \<and> findBlock_loop n d = Some (f, taken d f)"
  using assms
proof (induction n arbitrary: d)
  case 0
  show ?case by (rule exI [of _ "allocationBlockFinder d"]) simp
next
  case (Suc n)
  let ?f = "next_finder d (allocationBlockFinder d)"
  let ?d = "d\<lparr>allocationBlockFinder := ?f\<rparr>"
  have g: "geometry ?d" using Suc.prems by (simp add: geometry_def)
  show ?case
  proof (cases "blockState (blk d ?f) = YAFFS_BLOCK_STATE_EMPTY")
    case True
    then show ?thesis
      using findBlock_step [OF Suc.prems, of n] next_finder_valid [OF Suc.prems] by (auto simp: Let_def)
  next
    case False
    then have e: "findBlock_loop (Suc n) d = findBlock_loop n ?d" using findBlock_step [OF Suc.prems, of n] by (simp add: Let_def)
    have t: "taken ?d f = taken d f" for f by (simp add: taken_def setBlockInfo_def)
    show ?thesis using Suc.IH [OF g] unfolding e by (auto simp: t valid_block_def)
  qed
qed

text \<open>The search goes round the whole device, so it finds an erased block when there is one.\<close>

definition finder_distance :: "'f yaffs_Device \<Rightarrow> int \<Rightarrow> int \<Rightarrow> int" where
  "finder_distance d f e = (let f' = next_finder d f
     in if f' \<le> e then e - f' + 1 else (internalEndBlock d - f' + 1) + (e - internalStartBlock d + 1))"

lemma finder_distance_step:
  assumes "geometry d" and "valid_block d e" and "next_finder d f \<noteq> e"
  shows "finder_distance d (next_finder d f) e = finder_distance d f e - 1"
  using assms next_finder_valid [OF assms(1), of f] next_finder_valid [OF assms(1), of "next_finder d f"]
  by (auto simp: finder_distance_def Let_def) (auto simp: next_finder_def valid_block_def split: if_splits)

lemma finder_distance_bound:
  "geometry d \<Longrightarrow> valid_block d e \<Longrightarrow> finder_distance d f e \<le> internalEndBlock d - internalStartBlock d + 1"
  using next_finder_valid [of d f] by (auto simp: finder_distance_def Let_def valid_block_def)

lemma findBlock_loop_finds:
  assumes "geometry d" and "valid_block d e" and "blockState (blk d e) = YAFFS_BLOCK_STATE_EMPTY"
    and "finder_distance d (allocationBlockFinder d) e \<le> int n"
  shows "\<exists>f. valid_block d f \<and> findBlock_loop n d = Some (f, taken d f)"
  using assms
proof (induction n arbitrary: d)
  case 0
  then show ?case
    using next_finder_valid [OF 0(1), of "allocationBlockFinder d"]
    by (auto simp: finder_distance_def Let_def valid_block_def split: if_splits)
next
  case (Suc n)
  let ?f = "next_finder d (allocationBlockFinder d)"
  let ?d = "d\<lparr>allocationBlockFinder := ?f\<rparr>"
  have g: "geometry ?d" "valid_block ?d e" "blockState (blk ?d e) = YAFFS_BLOCK_STATE_EMPTY"
    using Suc.prems by (simp_all add: geometry_def valid_block_def)
  show ?case
  proof (cases "blockState (blk d ?f) = YAFFS_BLOCK_STATE_EMPTY")
    case True
    then show ?thesis
      using findBlock_step [OF Suc.prems(1), of n] next_finder_valid [OF Suc.prems(1)] by (auto simp: Let_def)
  next
    case False
    then have e: "findBlock_loop (Suc n) d = findBlock_loop n ?d" using findBlock_step [OF Suc.prems(1), of n] by (simp add: Let_def)
    have "finder_distance ?d (allocationBlockFinder ?d) e = finder_distance d ?f e"
      by (simp add: finder_distance_def next_finder_def Let_def)
    also have "?f \<noteq> e" using False Suc.prems(3) by metis
    then have "finder_distance d ?f e \<le> int n"
      using finder_distance_step [OF Suc.prems(1,2), of "allocationBlockFinder d"] Suc.prems(4) by simp
    finally have "\<exists>f. valid_block ?d f \<and> findBlock_loop n ?d = Some (f, taken ?d f)" by (rule Suc.IH [OF g])
    moreover have "taken ?d f = taken d f" for f by (simp add: taken_def setBlockInfo_def)
    ultimately show ?thesis unfolding e by (simp add: valid_block_def)
  qed
qed

section \<open>Allocating a chunk\<close>

lemma taken_inv:
  assumes "block_inv d" and "allocationBlock d < 0" and "valid_block d b" and "blockState (blk d b) = YAFFS_BLOCK_STATE_EMPTY"
    and d': "d' = (taken d b)\<lparr>allocationBlock := b, allocationPage := 0\<rparr>"
  shows "block_inv d'" and "used d' c = used d c" and "valid_block d' c = valid_block d c" and "nChunksPerBlock d' = nChunksPerBlock d"
proof -
  have ok: "blocks_ok d" and gap: "free_gap d = 0" "erased_gap d = 0" "ckpt_gap d = 0"
    using assms(1) by (simp_all add: block_inv_gaps)
  have g: "geometry d" using ok by (rule blocks_ok_geometry)
  let ?bi = "(blk d b)\<lparr>blockState := YAFFS_BLOCK_STATE_ALLOCATING, bi_sequenceNumber := dev_sequenceNumber d + 1\<rparr>"
  have bi: "blockInfo d' = (blockInfo d)[nat (b - internalStartBlock d) := ?bi]"
    by (simp add: d' taken_def setBlockInfo_def)
  show u: "used d' c = used d c" for c by (rule used_frame) (simp_all add: d' taken_def)
  show v: "valid_block d' c = valid_block d c" for c by (simp add: d' taken_def valid_block_def)
  show n: "nChunksPerBlock d' = nChunksPerBlock d" by (simp add: d' taken_def)
  have z: "pagesInUse (blk d b) = 0" "softDeletions (blk d b) = 0" "used d b = {}"
    using blocks_okD [OF ok assms(3)] assms(4) by (auto simp: block_ok_def)
  have "block_ok d' b ?bi" unfolding block_ok_def u using z by (simp add: d')
  moreover have "0 < internalStartBlock d" "0 < nChunksPerBlock d" using g by (simp_all add: geometry_def)
  ultimately have "blocks_ok d'"
    using assms(2,3) by (intro update_blocks_ok [OF ok assms(3) bi]) (auto simp: u, auto simp: d' taken_def valid_block_def)
  moreover have "free_gap d' = 0" "erased_gap d' = 0" "ckpt_gap d' = 0"
    using update_sums [OF g assms(3) bi n] gap z assms(4)
    by (auto simp: free_gap_def erased_gap_def ckpt_gap_def free_of_def) (simp_all add: d' taken_def)
  ultimately show "block_inv d'" by (simp add: block_inv_gaps)
qed

lemma same_state_update: "blockState bi = s \<Longrightarrow> bi\<lparr>pagesInUse := x, blockState := s\<rparr> = bi\<lparr>pagesInUse := x\<rparr>"
  by (cases bi) simp

text \<open>The device once the page the allocator stands at has been taken.\<close>

definition page_taken :: "'f yaffs_Device \<Rightarrow> 'f yaffs_Device" where
  "page_taken d =
     (let b = allocationBlock d; p = allocationPage d; full = (p + 1 \<ge> nChunksPerBlock d);
          bi = (blk d b)\<lparr>pagesInUse := pagesInUse (blk d b) + 1,
                blockState := (if full then YAFFS_BLOCK_STATE_FULL else YAFFS_BLOCK_STATE_ALLOCATING)\<rparr>
      in (put_bit (setBlockInfo d b bi) b p True)\<lparr>allocationPage := p + 1, nFreeChunks := nFreeChunks d - 1,
           allocationBlock := (if full then -1 else b)\<rparr>)"

lemma allocating_state:
  assumes "block_inv d" and "0 \<le> allocationBlock d"
  shows "valid_block d (allocationBlock d)" and "0 \<le> allocationPage d" and "allocationPage d < nChunksPerBlock d"
    and "blockState (blk d (allocationBlock d)) = YAFFS_BLOCK_STATE_ALLOCATING"
    and "used d (allocationBlock d) \<subseteq> {0..<allocationPage d}"
    and "0 \<le> pagesInUse (blk d (allocationBlock d))" and "pagesInUse (blk d (allocationBlock d)) \<le> allocationPage d"
    and "s10 (pagesInUse (blk d (allocationBlock d)) + 1) = pagesInUse (blk d (allocationBlock d)) + 1"
proof -
  let ?b = "allocationBlock d"
  have ok: "blocks_ok d" using assms(1) by (simp add: block_inv_gaps)
  then show v: "valid_block d ?b" and p: "0 \<le> allocationPage d" "allocationPage d < nChunksPerBlock d"
    using assms(2) by (simp_all add: blocks_ok_def)
  have "block_ok d ?b (blk d ?b)" using blocks_okD [OF ok v] .
  then show "blockState (blk d ?b) = YAFFS_BLOCK_STATE_ALLOCATING" and su: "used d ?b \<subseteq> {0..<allocationPage d}"
    and pg: "0 \<le> pagesInUse (blk d ?b)" by (auto simp: block_ok_def)
  have "card (used d ?b) \<le> card {0..<allocationPage d}" using su by (intro card_mono) auto
  then show le: "pagesInUse (blk d ?b) \<le> allocationPage d"
    using p \<open>block_ok d ?b (blk d ?b)\<close> by (simp add: block_ok_def)
  show "s10 (pagesInUse (blk d ?b) + 1) = pagesInUse (blk d ?b) + 1"
    using le pg p blocks_ok_geometry [OF ok] by (simp add: geometry_def)
qed

lemma takePage_eq:
  assumes "block_inv d" and "0 \<le> allocationBlock d"
  shows "takePage d = Some (allocationBlock d * nChunksPerBlock d + allocationPage d, allocationBlock d, page_taken d)"
proof -
  let ?b = "allocationBlock d" and ?p = "allocationPage d" and ?n = "nChunksPerBlock d"
  note a = allocating_state [OF assms]
  have g: "geometry d" using assms(1) by (simp add: block_inv_def blocks_ok_def)
  define full where "full \<longleftrightarrow> ?p + 1 \<ge> ?n"
  let ?bi = "(blk d ?b)\<lparr>pagesInUse := pagesInUse (blk d ?b) + 1,
      blockState := (if full then YAFFS_BLOCK_STATE_FULL else YAFFS_BLOCK_STATE_ALLOCATING)\<rparr>"
  have pt: "page_taken d = (put_bit (setBlockInfo d ?b ?bi) ?b ?p True)\<lparr>allocationPage := ?p + 1, nFreeChunks := nFreeChunks d - 1,
      allocationBlock := (if full then -1 else ?b)\<rparr>" by (simp add: page_taken_def full_def Let_def)
  let ?d1 = "setBlockInfo d ?b ((blk d ?b)\<lparr>pagesInUse := pagesInUse (blk d ?b) + 1\<rparr>)"
  have 1: "yaffs_GetBlockInfo d ?b = Some (blk d ?b)" using g a(1) by (simp add: GetBlockInfo_blk)
  have 2: "yaffs_SetChunkBit ?d1 ?b ?p = Some (put_bit ?d1 ?b ?p True)"
    using g a by (intro SetChunkBit_eq) simp_all
  have 3: "yaffs_GetBlockInfo ((put_bit ?d1 ?b ?p True)\<lparr>allocationPage := ?p + 1, nFreeChunks := nFreeChunks d - 1\<rparr>) ?b =
      Some ((blk d ?b)\<lparr>pagesInUse := pagesInUse (blk d ?b) + 1\<rparr>)"
    using 1 GetBlockInfo_set [OF 1, of _ ?b] by (subst GetBlockInfo_frame [of _ ?d1]) (simp_all add: put_bit_def)
  have 4: "put_bit ?d1 ?b ?p True = ?d1\<lparr>chunkBits := chunkBits (put_bit (setBlockInfo d ?b ?bi) ?b ?p True)\<rparr>"
    and 5: "put_bit (setBlockInfo d ?b ?bi) ?b ?p True =
      (setBlockInfo d ?b ?bi)\<lparr>chunkBits := chunkBits (put_bit (setBlockInfo d ?b ?bi) ?b ?p True)\<rparr>"
    by (simp_all add: put_bit_def bit_pos_def)
  show ?thesis
  proof (cases full)
    case True
    then have "takePage d = Some (?b * ?n + ?p, ?b, (setBlockInfo ((put_bit ?d1 ?b ?p True)\<lparr>allocationPage := ?p + 1,
        nFreeChunks := nFreeChunks d - 1\<rparr>) ?b ?bi)\<lparr>allocationBlock := -1\<rparr>)"
      unfolding takePage_def Let_def using 1 2 3 a by (simp add: put_bit_def full_def)
    then show ?thesis unfolding pt using True by (subst (asm) 4, subst 5) (simp add: setBlockInfo_def)
  next
    case False
    then have "takePage d = Some (?b * ?n + ?p, ?b, (put_bit ?d1 ?b ?p True)\<lparr>allocationPage := ?p + 1, nFreeChunks := nFreeChunks d - 1\<rparr>)"
      unfolding takePage_def Let_def using 1 2 a by (simp add: put_bit_def full_def)
    moreover have "?d1 = setBlockInfo d ?b ?bi" using False same_state_update [OF a(4)] by simp
    ultimately show ?thesis unfolding pt using False by (simp add: put_bit_def)
  qed
qed

lemma page_taken_fields:
  assumes "block_inv d" and "0 \<le> allocationBlock d"
  shows "blockInfo (page_taken d) = (blockInfo d)[nat (allocationBlock d - internalStartBlock d) := (blk d (allocationBlock d))
      \<lparr>pagesInUse := pagesInUse (blk d (allocationBlock d)) + 1, blockState := (if allocationPage d + 1 \<ge> nChunksPerBlock d
        then YAFFS_BLOCK_STATE_FULL else YAFFS_BLOCK_STATE_ALLOCATING)\<rparr>]"
    and "nChunksPerBlock (page_taken d) = nChunksPerBlock d" and "length (chunkBits (page_taken d)) = length (chunkBits d)"
    and "internalStartBlock (page_taken d) = internalStartBlock d" and "internalEndBlock (page_taken d) = internalEndBlock d"
    and "chunkBitmapStride (page_taken d) = chunkBitmapStride d" and "allocationPage (page_taken d) = allocationPage d + 1"
    and "allocationBlock (page_taken d) = (if allocationPage d + 1 \<ge> nChunksPerBlock d then -1 else allocationBlock d)"
    and "\<And>c. valid_block (page_taken d) c = valid_block d c"
    and "\<And>c. valid_block d c \<Longrightarrow> used (page_taken d) c =
      (if c = allocationBlock d then insert (allocationPage d) (used d c) else used d c)"
proof -
  note a = allocating_state [OF assms]
  have g: "geometry d" using assms(1) by (simp add: block_inv_def blocks_ok_def)
  show "blockInfo (page_taken d) = (blockInfo d)[nat (allocationBlock d - internalStartBlock d) := (blk d (allocationBlock d))
      \<lparr>pagesInUse := pagesInUse (blk d (allocationBlock d)) + 1, blockState := (if allocationPage d + 1 \<ge> nChunksPerBlock d
        then YAFFS_BLOCK_STATE_FULL else YAFFS_BLOCK_STATE_ALLOCATING)\<rparr>]"
    by (simp add: page_taken_def Let_def put_bit_def) (simp add: setBlockInfo_def)
  show "used (page_taken d) c = (if c = allocationBlock d then insert (allocationPage d) (used d c) else used d c)"
    if "valid_block d c" for c
  proof -
    let ?s = "\<lambda>bi. put_bit (setBlockInfo d (allocationBlock d) bi) (allocationBlock d) (allocationPage d) True"
    have "\<exists>bi. used (page_taken d) c = used (?s bi) c"
      by (rule exI, rule used_frame) (simp_all add: page_taken_def Let_def)
    moreover have "used (?s bi) c = (if c = allocationBlock d then insert (allocationPage d) (used d c) else used d c)" for bi
      using used_put_bit [of "setBlockInfo d (allocationBlock d) bi" "allocationBlock d" "allocationPage d" c True] g a that by simp
    ultimately show ?thesis by simp
  qed
qed (simp_all add: page_taken_def Let_def put_bit_def valid_block_def)

lemma takePage_inv:
  assumes "block_inv d" and "0 \<le> allocationBlock d"
  shows "\<exists>d'. takePage d = Some (allocationBlock d * nChunksPerBlock d + allocationPage d, allocationBlock d, d') \<and> block_inv d' \<and>
    allocationPage d \<notin> used d (allocationBlock d) \<and>
    (\<forall>c. valid_block d c \<longrightarrow> used d' c = (if c = allocationBlock d then insert (allocationPage d) (used d c) else used d c)) \<and>
    nChunksPerBlock d' = nChunksPerBlock d \<and> (\<forall>c. valid_block d' c = valid_block d c) \<and>
    softDeletions (blk d' (allocationBlock d)) < pagesInUse (blk d' (allocationBlock d)) \<and>
    blockState (blk d' (allocationBlock d)) \<in> {YAFFS_BLOCK_STATE_ALLOCATING, YAFFS_BLOCK_STATE_FULL}"
proof -
  let ?b = "allocationBlock d"
  define d' where "d' = page_taken d"
  note a = allocating_state [OF assms]
  define full where "full \<longleftrightarrow> allocationPage d + 1 \<ge> nChunksPerBlock d"
  note f = page_taken_fields [OF assms, folded d'_def full_def]
  let ?bi = "(blk d ?b)\<lparr>pagesInUse := pagesInUse (blk d ?b) + 1,
      blockState := (if full then YAFFS_BLOCK_STATE_FULL else YAFFS_BLOCK_STATE_ALLOCATING)\<rparr>"
  have ok: "blocks_ok d" and gap: "free_gap d = 0" "erased_gap d = 0" "ckpt_gap d = 0"
    using assms(1) by (simp_all add: block_inv_gaps)
  have g: "geometry d" using ok by (rule blocks_ok_geometry)
  have bok: "block_ok d ?b (blk d ?b)" using blocks_okD [OF ok a(1)] .
  have fresh: "allocationPage d \<notin> used d ?b" using a(5) by auto
  have "block_ok d' ?b ?bi"
    using bok a fresh assms(2) full_def unfolding block_ok_def f(10) [OF a(1)] f by auto
  moreover have "0 < internalStartBlock d" using g by (simp add: geometry_def)
  ultimately have "blocks_ok d'"
    using f a by (intro update_blocks_ok [OF ok a(1) f(1)]) (auto simp: full_def valid_block_def)
  moreover have c: "nFreeChunks d' = nFreeChunks d - 1" "nErasedBlocks d' = nErasedBlocks d" "blocksInCheckpoint d' = blocksInCheckpoint d"
    by (simp_all add: d'_def page_taken_def put_bit_def Let_def)
  have "free_gap d' = 0" "erased_gap d' = 0" "ckpt_gap d' = 0"
    using gap a(4) unfolding free_gap_def erased_gap_def ckpt_gap_def update_sums [OF g a(1) f(1,2)] c
    by (auto simp: free_of_def)
  ultimately have "block_inv d'" by (simp add: block_inv_gaps)
  moreover have "blk d' ?b = ?bi" using update_blk [OF g a(1,1) f(1,4)] by simp
  moreover have "softDeletions ?bi < pagesInUse ?bi" "blockState ?bi \<in> {YAFFS_BLOCK_STATE_ALLOCATING, YAFFS_BLOCK_STATE_FULL}"
    using bok a(4) by (auto simp: block_ok_def)
  ultimately show ?thesis using takePage_eq [OF assms] fresh f(2,9,10) unfolding d'_def [symmetric] by metis
qed

lemma no_block_inv:
  assumes "block_inv d" and "allocationBlock d < 0" and d': "d' = d\<lparr>allocationBlockFinder := f, allocationBlock := -1, allocationPage := 0\<rparr>"
  shows "block_inv d'" and "used d' c = used d c"
proof -
  show u: "used d' c = used d c" for c by (rule used_frame) (simp_all add: d')
  have ok: "blocks_ok d" using assms(1) by (simp add: block_inv_gaps)
  have pos: "0 < internalStartBlock d" using blocks_ok_geometry [OF ok] by (simp add: geometry_def)
  have "block_ok d' b (blk d b)" if "valid_block d b" for b
    using blocks_okD [OF ok that] that assms(2) pos unfolding block_ok_def u by (auto simp: d' valid_block_def)
  then have "blocks_ok d'" using ok by (auto simp: blocks_ok_def d' geometry_def valid_block_def)
  then show "block_inv d'"
    using assms(1) by (simp add: block_inv_gaps) (simp add: d' free_gap_def erased_gap_def ckpt_gap_def free_sum_def nBlocksPerState_def)
qed

lemma CheckSpace_core: "same_core d (snd (yaffs_CheckSpaceForAllocation d))"
  by (simp add: yaffs_CheckSpaceForAllocation_def yaffs_CalcCheckpointBlocksRequired_def Let_def same_core_def)

text \<open>The first part of an allocation, which makes sure there is an allocating block if it can.\<close>

definition alloc_block :: "'f yaffs_Device \<Rightarrow> 'f yaffs_Device option" where
  "alloc_block d = (if allocationBlock d < 0 then
     map_option (\<lambda>(b, d). d\<lparr>allocationBlock := b, allocationPage := 0\<rparr>) (yaffs_FindBlockForAllocation d) else Some d)"

lemma erased_block_exists:
  assumes "blocks_ok d" and "erased_gap d = 0" and "0 < nErasedBlocks d"
  shows "\<exists>e. valid_block d e \<and> blockState (blk d e) = YAFFS_BLOCK_STATE_EMPTY"
proof -
  have "nBlocksPerState d YAFFS_BLOCK_STATE_EMPTY \<noteq> 0" using assms(2,3) by (simp add: erased_gap_def)
  then obtain j where j: "j < length (blockInfo d)" "blockState (blockInfo d ! j) = YAFFS_BLOCK_STATE_EMPTY"
    by (auto simp: nBlocksPerState_zero in_set_conv_nth)
  then show ?thesis
    using blocks_ok_geometry [OF assms(1)]
    by (intro exI [of _ "int j + internalStartBlock d"]) (auto simp: valid_block_def geometry_def)
qed

lemma alloc_block_takes:
  assumes "block_inv d" and "allocationBlock d < 0" and "0 < nErasedBlocks d"
  shows "\<exists>f. valid_block d f \<and> blockState (blk d f) = YAFFS_BLOCK_STATE_EMPTY \<and>
    alloc_block d = Some ((taken d f)\<lparr>allocationBlock := f, allocationPage := 0\<rparr>)"
proof -
  have ok: "blocks_ok d" "erased_gap d = 0" using assms(1) by (simp_all add: block_inv_gaps)
  have g: "geometry d" using ok(1) by (rule blocks_ok_geometry)
  obtain x where x: "valid_block d x" "blockState (blk d x) = YAFFS_BLOCK_STATE_EMPTY"
    using erased_block_exists [OF ok assms(3)] by blast
  obtain f where f: "yaffs_FindBlockForAllocation d = Some (f, taken d f)" "valid_block d f"
    using findBlock_loop_finds [OF g x, of "nat (internalEndBlock d - internalStartBlock d + 1)"] finder_distance_bound [OF g x(1)] assms(3) g
    by (fastforce simp: yaffs_FindBlockForAllocation_def geometry_def)
  have "0 \<le> f" "f \<noteq> -1" using f(2) g by (auto simp: valid_block_def geometry_def)
  then have "blockState (blk d f) = YAFFS_BLOCK_STATE_EMPTY"
    using findBlock_loop_cases [OF g, of "nat (internalEndBlock d - internalStartBlock d + 1)"] f(1) assms(3)
    by (auto simp: yaffs_FindBlockForAllocation_def)
  with f assms(2) show ?thesis by (auto simp: alloc_block_def)
qed

lemma alloc_block_none:
  "allocationBlock d < 0 \<Longrightarrow> nErasedBlocks d \<le> 0 \<Longrightarrow>
     alloc_block d = Some (d\<lparr>allocationBlockFinder := allocationBlockFinder d, allocationBlock := -1, allocationPage := 0\<rparr>)"
  by (simp add: alloc_block_def yaffs_FindBlockForAllocation_def)

lemma alloc_block_inv:
  assumes "block_inv d"
  shows "\<exists>d'. alloc_block d = Some d' \<and> block_inv d' \<and> (\<forall>c. used d' c = used d c) \<and> (\<forall>c. valid_block d' c = valid_block d c) \<and>
    nChunksPerBlock d' = nChunksPerBlock d \<and> (0 \<le> allocationBlock d' \<longleftrightarrow> 0 \<le> allocationBlock d \<or> 0 < nErasedBlocks d)"
proof (cases "0 \<le> allocationBlock d")
  case True
  with assms show ?thesis by (simp add: alloc_block_def)
next
  case False
  then have neg: "allocationBlock d < 0" by simp
  show ?thesis
  proof (cases "0 < nErasedBlocks d")
    case e: True
    obtain f where f: "valid_block d f" "blockState (blk d f) = YAFFS_BLOCK_STATE_EMPTY"
      "alloc_block d = Some ((taken d f)\<lparr>allocationBlock := f, allocationPage := 0\<rparr>)"
      using alloc_block_takes [OF assms neg e] by blast
    have "0 \<le> f" using f(1) assms by (simp add: valid_block_def block_inv_def blocks_ok_def geometry_def)
    with taken_inv [OF assms neg f(1,2) refl] e f(3) neg show ?thesis by simp
  next
    case e: False
    with no_block_inv [OF assms neg refl, of "allocationBlockFinder d"] alloc_block_none [OF neg] neg show ?thesis
      by (auto simp: valid_block_def)
  qed
qed

text \<open>Looking for a block changes nothing that the check of the reserve reads.\<close>

lemma CheckSpace_fields:
  assumes "nCheckpointBlocksRequired d' = nCheckpointBlocksRequired d" "endBlock d' = endBlock d" "startBlock d' = startBlock d"
    "tnodeWidth d' = tnodeWidth d" "chunkBitmapStride d' = chunkBitmapStride d" "nObjectsCreated d' = nObjectsCreated d"
    "nFreeObjects d' = nFreeObjects d" "nTnodesCreated d' = nTnodesCreated d" "nFreeTnodes d' = nFreeTnodes d"
    "nDataBytesPerChunk d' = nDataBytesPerChunk d" "nChunksPerBlock d' = nChunksPerBlock d"
    "blocksInCheckpoint d' = blocksInCheckpoint d" "nReservedBlocks d' = nReservedBlocks d" "nFreeChunks d' = nFreeChunks d"
  shows "fst (yaffs_CheckSpaceForAllocation d') = fst (yaffs_CheckSpaceForAllocation d)"
  by (simp add: yaffs_CheckSpaceForAllocation_def yaffs_CalcCheckpointBlocksRequired_def Let_def assms)

lemma findBlock_loop_space:
  "findBlock_loop n d = Some (f, d') \<Longrightarrow> fst (yaffs_CheckSpaceForAllocation d') = fst (yaffs_CheckSpaceForAllocation d)"
proof (induction n arbitrary: d)
  case (Suc n)
  have 1: "fst (yaffs_CheckSpaceForAllocation (d\<lparr>allocationBlockFinder := x\<rparr>)) = fst (yaffs_CheckSpaceForAllocation d)" for x
    by (rule CheckSpace_fields) simp_all
  have 2: "fst (yaffs_CheckSpaceForAllocation ((setBlockInfo (d\<lparr>allocationBlockFinder := x\<rparr>) y bi)\<lparr>dev_sequenceNumber := q, nErasedBlocks := e\<rparr>)) =
      fst (yaffs_CheckSpaceForAllocation d)" for x y bi e q
    by (rule CheckSpace_fields) (simp_all add: setBlockInfo_def)
  from Suc.prems show ?case
    by (auto simp: findBlock_loop.simps Let_def bind_eq_Some_conv 1 2 split: if_split_asm dest!: Suc.IH)
qed (simp add: findBlock_loop.simps)

lemma alloc_block_space:
  assumes "alloc_block d = Some d'"
  shows "fst (yaffs_CheckSpaceForAllocation d') = fst (yaffs_CheckSpaceForAllocation d)"
proof -
  have "fst (yaffs_CheckSpaceForAllocation (d1\<lparr>allocationBlock := b, allocationPage := 0\<rparr>)) = fst (yaffs_CheckSpaceForAllocation d1)"
    for b and d1 :: "'a yaffs_Device" by (rule CheckSpace_fields) simp_all
  with assms show ?thesis
    by (auto simp: alloc_block_def yaffs_FindBlockForAllocation_def findBlock_loop_space split: if_splits)
qed

lemma AllocateChunk_inv:
  assumes "block_inv d"
  shows "\<exists>c b d'. yaffs_AllocateChunk d useReserve = Some (c, b, d') \<and> block_inv d' \<and>
    (if c = -1 then \<forall>x. used d' x = used d x
     else valid_block d b \<and> (\<exists>p. c = b * nChunksPerBlock d + p \<and> 0 \<le> p \<and> p < nChunksPerBlock d \<and> p \<notin> used d b \<and>
       (\<forall>x. valid_block d x \<longrightarrow> used d' x = (if x = b then insert p (used d b) else used d x))) \<and>
       softDeletions (blk d' b) < pagesInUse (blk d' b) \<and>
       blockState (blk d' b) \<in> {YAFFS_BLOCK_STATE_ALLOCATING, YAFFS_BLOCK_STATE_FULL}) \<and>
    nChunksPerBlock d' = nChunksPerBlock d \<and> (\<forall>x. valid_block d' x = valid_block d x) \<and>
    (useReserve \<longrightarrow> (c = -1 \<longleftrightarrow> allocationBlock d < 0 \<and> nErasedBlocks d \<le> 0))"
proof -
  obtain d1 where d1: "alloc_block d = Some d1" "block_inv d1" "\<And>c. used d1 c = used d c" "\<And>c. valid_block d1 c = valid_block d c"
    "nChunksPerBlock d1 = nChunksPerBlock d" "0 \<le> allocationBlock d1 \<longleftrightarrow> 0 \<le> allocationBlock d \<or> 0 < nErasedBlocks d"
    using alloc_block_inv [OF assms] by blast
  define ok d2 where "ok = (useReserve \<or> fst (yaffs_CheckSpaceForAllocation d1))"
    and "d2 = (if useReserve then d1 else snd (yaffs_CheckSpaceForAllocation d1))"
  have c: "same_core d1 d2" using CheckSpace_core by (auto simp: d2_def)
  have d2: "block_inv d2" "\<And>c. used d2 c = used d c" "\<And>c. valid_block d2 c = valid_block d c" "nChunksPerBlock d2 = nChunksPerBlock d"
    "allocationBlock d2 = allocationBlock d1"
    using same_core_inv [OF c d1(2)] same_core_used [OF c] same_core_valid [OF c] same_coreD(3,9) [OF c] d1 by simp_all
  have run: "yaffs_AllocateChunk d useReserve =
      (if \<not> ok then Some (-1, -1, d2) else if 0 \<le> allocationBlock d2 then takePage d2 else Some (-1, -1, d2))"
    using d1(1) by (cases useReserve; cases "yaffs_CheckSpaceForAllocation d1")
      (auto simp: yaffs_AllocateChunk_def alloc_block_def [symmetric] ok_def d2_def)
  show ?thesis
  proof (cases "ok \<and> 0 \<le> allocationBlock d2")
    case True
    obtain d' where t: "takePage d2 = Some (allocationBlock d2 * nChunksPerBlock d2 + allocationPage d2, allocationBlock d2, d')"
        "block_inv d'" "allocationPage d2 \<notin> used d2 (allocationBlock d2)"
        "\<forall>c. valid_block d2 c \<longrightarrow> used d' c = (if c = allocationBlock d2 then insert (allocationPage d2) (used d2 c) else used d2 c)"
        "nChunksPerBlock d' = nChunksPerBlock d2" "\<forall>c. valid_block d' c = valid_block d2 c"
        "softDeletions (blk d' (allocationBlock d2)) < pagesInUse (blk d' (allocationBlock d2))"
        "blockState (blk d' (allocationBlock d2)) \<in> {YAFFS_BLOCK_STATE_ALLOCATING, YAFFS_BLOCK_STATE_FULL}"
      using takePage_inv [OF d2(1)] True by blast
    have p: "valid_block d2 (allocationBlock d2)" "0 \<le> allocationPage d2" "allocationPage d2 < nChunksPerBlock d2"
      using d2(1) True by (auto simp: block_inv_def blocks_ok_def)
    have "0 < internalStartBlock d2" "0 < nChunksPerBlock d2" using d2(1) by (auto simp: block_inv_def blocks_ok_def geometry_def)
    then have "0 \<le> allocationBlock d2 * nChunksPerBlock d2 + allocationPage d2" using p True by simp
    then have "allocationBlock d2 * nChunksPerBlock d2 + allocationPage d2 \<noteq> -1" by simp
    with True t p d1(6) d2 show ?thesis unfolding run by auto
  next
    case False
    then have "yaffs_AllocateChunk d useReserve = Some (-1, -1, d2)" using run by auto
    moreover have "useReserve \<Longrightarrow> allocationBlock d < 0 \<and> nErasedBlocks d \<le> 0"
      using False d1(6) d2(5) by (auto simp: ok_def)
    ultimately show ?thesis using d2 by auto
  qed
qed

text \<open>When the allocator refuses.\<close>

lemma AllocateChunk_refuses:
  assumes inv: "block_inv d" and run: "yaffs_AllocateChunk d useReserve = Some (c, b, d')"
  shows "c = -1 \<longleftrightarrow> allocationBlock d < 0 \<and> nErasedBlocks d \<le> 0 \<or> \<not> useReserve \<and> \<not> fst (yaffs_CheckSpaceForAllocation d)"
proof -
  obtain d1 where d1: "alloc_block d = Some d1" "block_inv d1" "0 \<le> allocationBlock d1 \<longleftrightarrow> 0 \<le> allocationBlock d \<or> 0 < nErasedBlocks d"
    using alloc_block_inv [OF inv] by blast
  define d2 where "d2 = (if useReserve then d1 else snd (yaffs_CheckSpaceForAllocation d1))"
  have c2: "same_core d1 d2" using CheckSpace_core by (auto simp: d2_def)
  have run: "(if \<not> (useReserve \<or> fst (yaffs_CheckSpaceForAllocation d)) then Some (-1, -1, d2)
      else if 0 \<le> allocationBlock d1 then takePage d2 else Some (-1, -1, d2)) = Some (c, b, d')"
    using run d1(1) alloc_block_space [OF d1(1)] same_coreD(9) [OF c2]
    by (cases useReserve; cases "yaffs_CheckSpaceForAllocation d1") (auto simp: yaffs_AllocateChunk_def alloc_block_def [symmetric] d2_def)
  have "c \<noteq> -1" if "takePage d2 = Some (c, b, d')" and pos: "0 \<le> allocationBlock d1"
  proof -
    have inv2: "block_inv d2" "0 \<le> allocationBlock d2" using same_core_inv [OF c2 d1(2)] pos same_coreD(9) [OF c2] by simp_all
    then have "c = allocationBlock d2 * nChunksPerBlock d2 + allocationPage d2" using takePage_eq [OF inv2] that(1) by simp
    moreover have "0 \<le> allocationPage d2" "0 < nChunksPerBlock d2"
      using inv2 by (auto simp: block_inv_def blocks_ok_def geometry_def)
    ultimately have "0 \<le> c" using inv2(2) by simp
    then show ?thesis by simp
  qed
  with run d1(3) show ?thesis by (auto split: if_splits)
qed

text \<open>A block under collection is not touched by an allocation.\<close>

definition collecting_kept :: "'f yaffs_Device \<Rightarrow> 'f yaffs_Device \<Rightarrow> bool" where
  "collecting_kept d d' \<longleftrightarrow> (\<forall>c. valid_block d c \<longrightarrow> blockState (blk d c) = YAFFS_BLOCK_STATE_COLLECTING \<longrightarrow>
     core_bi (blk d' c) = core_bi (blk d c))"

lemma collecting_kept_refl [simp]: "collecting_kept d d"
  by (simp add: collecting_kept_def)

lemma collecting_kept_trans:
  assumes "collecting_kept d d'" and "collecting_kept d' d''" and "\<And>c. valid_block d' c = valid_block d c"
  shows "collecting_kept d d''"
  using assms core_bi_eqD unfolding collecting_kept_def by metis

lemma update_collecting:
  assumes "geometry d" and "valid_block d b" and "blockInfo d' = (blockInfo d)[nat (b - internalStartBlock d) := bi]"
    and "internalStartBlock d' = internalStartBlock d" and "blockState (blk d b) \<noteq> YAFFS_BLOCK_STATE_COLLECTING"
  shows "collecting_kept d d'"
  using update_blk [OF assms(1,2) _ assms(3,4)] assms(5) unfolding collecting_kept_def by metis

lemma alloc_block_collecting:
  assumes "block_inv d" and "alloc_block d = Some d'"
  shows "collecting_kept d d'"
proof (cases "allocationBlock d < 0")
  case neg: True
  have g: "geometry d" using assms(1) by (simp add: block_inv_def blocks_ok_def)
  show ?thesis
  proof (cases "0 < nErasedBlocks d")
    case True
    obtain f where f: "valid_block d f" "blockState (blk d f) = YAFFS_BLOCK_STATE_EMPTY"
      "d' = (taken d f)\<lparr>allocationBlock := f, allocationPage := 0\<rparr>"
      using alloc_block_takes [OF assms(1) neg True] assms(2) by auto
    show ?thesis
      by (rule update_collecting [OF g f(1), of _ "(blk d f)\<lparr>blockState := YAFFS_BLOCK_STATE_ALLOCATING, bi_sequenceNumber := dev_sequenceNumber d + 1\<rparr>"])
        (simp_all add: f(2), simp_all add: f(3) taken_def setBlockInfo_def)
  next
    case False
    with alloc_block_none [OF neg] assms(2) show ?thesis by (auto simp: collecting_kept_def)
  qed
next
  case False
  with assms(2) show ?thesis by (simp add: alloc_block_def)
qed

lemma AllocateChunk_collecting:
  assumes "block_inv d" and "yaffs_AllocateChunk d r = Some (c, b, d')"
  shows "collecting_kept d d'"
proof -
  obtain d1 where d1: "alloc_block d = Some d1" "block_inv d1" "\<And>c. valid_block d1 c = valid_block d c"
    using alloc_block_inv [OF assms(1)] by blast
  define d2 where "d2 = (if r then d1 else snd (yaffs_CheckSpaceForAllocation d1))"
  have c: "same_core d1 d2" using CheckSpace_core by (auto simp: d2_def)
  have inv: "block_inv d2" using same_core_inv [OF c d1(2)] .
  have g1: "geometry d1" using d1(2) by (simp add: block_inv_def blocks_ok_def)
  have "collecting_kept d1 d2" using same_core_blk [OF c g1] by (simp add: collecting_kept_def)
  then have k2: "collecting_kept d d2" by (rule collecting_kept_trans [OF alloc_block_collecting [OF assms(1) d1(1)] _ d1(3)])
  have v: "valid_block d2 c = valid_block d c" for c using same_core_valid [OF c] d1(3) by simp
  consider "d' = d2" | "takePage d2 = Some (c, b, d')" "0 \<le> allocationBlock d2"
    using assms(2) d1 unfolding yaffs_AllocateChunk_def alloc_block_def [symmetric] d1(1) bind.bind_lunit
    by (auto simp: d2_def Let_def case_prod_beta split: if_splits)
  then show ?thesis
  proof cases
    case 2
    have "d' = page_taken d2" using takePage_eq [OF inv 2(2)] 2(1) by simp
    moreover have "collecting_kept d2 (page_taken d2)"
      using page_taken_fields(1,4) [OF inv 2(2)] allocating_state(1,4) [OF inv 2(2)] inv blocks_ok_geometry
      by (intro update_collecting) (auto simp: block_inv_def)
    ultimately show ?thesis using collecting_kept_trans [OF k2 _ v] by simp
  qed (use k2 in simp)
qed

end
