(* ===== verification/BlockDelete.thy ===== *)
theory BlockDelete
  imports BlockOps
begin

text \<open>
  Deleting chunks, softly deleting them, collecting blocks, and the transition system of the block
  manager: every reachable state satisfies the invariant, so the driver's own run-time checks
  stay silent.
\<close>

lemma used_free_upd [simp]: "used (d\<lparr>nFreeChunks := x\<rparr>) b = used d b"
  by (rule used_frame) simp_all

lemma put_bit_upd: "put_bit (d\<lparr>nFreeChunks := x\<rparr>) b c v = (put_bit d b c v)\<lparr>nFreeChunks := x\<rparr>"
  by (simp add: put_bit_def bit_pos_def)

text \<open>The device after the page has left the management area.\<close>

lemma remove_page_inv:
  assumes "block_inv d" and "valid_block d b" and "p \<in> used d b"
    and st: "blockState (blk d b) \<in> {YAFFS_BLOCK_STATE_ALLOCATING, YAFFS_BLOCK_STATE_FULL, YAFFS_BLOCK_STATE_COLLECTING}"
    and soft: "blockState (blk d b) \<noteq> YAFFS_BLOCK_STATE_COLLECTING \<longrightarrow> softDeletions (blk d b) < pagesInUse (blk d b)"
    and d': "d' = setBlockInfo ((put_bit d b p False)\<lparr>nFreeChunks := nFreeChunks d + 1\<rparr>) b bi"
    and bi: "softDeletions bi = softDeletions (blk d b)" "blockState bi = blockState (blk d b)"
      "pagesInUse bi = pagesInUse (blk d b) - 1"
  shows "block_inv d' \<and> (\<forall>c. valid_block d c \<longrightarrow> used d' c = (if c = b then used d b - {p} else used d c))"
proof -
  have ok: "blocks_ok d" and gap: "free_gap d = 0" "erased_gap d = 0" "ckpt_gap d = 0"
    using assms(1) by (simp_all add: block_inv_gaps)
  have g: "geometry d" using ok by (rule blocks_ok_geometry)
  have bok: "block_ok d b (blk d b)" using blocks_okD [OF ok assms(2)] .
  have p: "0 \<le> p" "p < nChunksPerBlock d" using bok assms(3) by (auto simp: block_ok_def)
  have info: "blockInfo d' = (blockInfo d)[nat (b - internalStartBlock d) := bi]"
    by (simp add: d' put_bit_def setBlockInfo_def)
  have u: "used d' c = (if c = b then used d b - {p} else used d c)" if "valid_block d c" for c
    using used_put_bit [OF g assms(2) p that, of False] by (simp add: d')
  have f: "length (chunkBits d') = length (chunkBits d)" "internalStartBlock d' = internalStartBlock d"
    "internalEndBlock d' = internalEndBlock d" "chunkBitmapStride d' = chunkBitmapStride d"
    "allocationBlock d' = allocationBlock d" "allocationPage d' = allocationPage d" "nChunksPerBlock d' = nChunksPerBlock d"
    by (simp_all add: d' put_bit_def)
  have alloc: "0 \<le> allocationBlock d \<Longrightarrow> valid_block d (allocationBlock d) \<and> 0 \<le> allocationPage d \<and>
      allocationPage d < nChunksPerBlock d"
    using ok by (simp add: blocks_ok_def)
  have card: "int (card (used d b - {p})) = int (card (used d b)) - 1"
    using assms(3) card_Suc_Diff1 [OF finite_used assms(3)] by simp
  have "blockState (blk d b) \<noteq> YAFFS_BLOCK_STATE_EMPTY" "blockState (blk d b) \<noteq> YAFFS_BLOCK_STATE_CHECKPOINT"
    using st by auto
  then have "block_ok d' b bi"
    using bok soft unfolding block_ok_def u [OF assms(2)] f bi by (auto simp: card)
  then have "blocks_ok d'"
    using u f alloc by (intro update_blocks_ok [OF ok assms(2) info]) simp_all
  moreover have "free_gap d' = 0" "erased_gap d' = 0" "ckpt_gap d' = 0"
    using update_sums [OF g assms(2) info f(7)] gap st bi
    by (auto simp: free_gap_def erased_gap_def ckpt_gap_def free_of_def) (simp_all add: d' put_bit_def)
  ultimately show ?thesis using u by (simp add: block_inv_gaps)
qed

lemma same_core_blockInfo_read:
  assumes "same_core d d1" and "geometry d" and "valid_block d b"
  shows "softDeletions (blk d1 b) = softDeletions (blk d b)" "blockState (blk d1 b) = blockState (blk d b)"
    "pagesInUse (blk d1 b) = pagesInUse (blk d b)"
  using same_core_blk [OF assms] by (simp_all add: core_bi_def)

lemma markDeleted_core: "markDeleted d chunk bi m = Some d' \<Longrightarrow> same_core d d'"
  by (auto simp: markDeleted_def bind_eq_Some_conv same_core_def [of d "d\<lparr>nUnmarkedDeletions := _\<rparr>"] split: if_splits
      dest: WriteChunkWithTags_core)

text \<open>When a page may be removed: it is in use, and outside of a collection it is not softly deleted.\<close>

definition removable :: "'f yaffs_Device \<Rightarrow> int \<Rightarrow> int \<Rightarrow> bool" where
  "removable d b p \<longleftrightarrow> valid_block d b \<and> p \<in> used d b \<and> blockState (blk d b) \<noteq> YAFFS_BLOCK_STATE_NEEDS_SCANNING \<and>
     (blockState (blk d b) \<in> {YAFFS_BLOCK_STATE_ALLOCATING, YAFFS_BLOCK_STATE_FULL} \<longrightarrow>
        softDeletions (blk d b) < pagesInUse (blk d b))"

text \<open>A page that may be removed leaves the bitmap; its block is erased if it was the last one.\<close>

lemma removePage_stages:
  assumes "block_inv d" and "removable d b p"
    and st: "blockState (blk d b) \<in> {YAFFS_BLOCK_STATE_ALLOCATING, YAFFS_BLOCK_STATE_FULL, YAFFS_BLOCK_STATE_COLLECTING}"
    and bi: "softDeletions bi = softDeletions (blk d b)" "blockState bi = blockState (blk d b)" "pagesInUse bi = pagesInUse (blk d b)"
    and d1: "d1 = setBlockInfo ((put_bit d b p False)\<lparr>nFreeChunks := nFreeChunks d + 1\<rparr>) b (bi\<lparr>pagesInUse := pagesInUse bi - 1\<rparr>)"
  shows "removePage d b p bi =
    (if pagesInUse bi = 1 \<and> \<not> hasShrinkHeader bi \<and> blockState bi \<noteq> YAFFS_BLOCK_STATE_ALLOCATING then yaffs_BlockBecameDirty d1 b else Some d1)"
    and "block_inv d1" and "\<And>c. valid_block d c \<Longrightarrow> used d1 c = (if c = b then used d b - {p} else used d c)"
    and "\<And>c. valid_block d c \<Longrightarrow> blk d1 c = (if c = b then bi\<lparr>pagesInUse := pagesInUse bi - 1\<rparr> else blk d c)"
    and "\<And>c. valid_block d1 c = valid_block d c"
proof -
  have ok: "blocks_ok d" using assms(1) by (simp add: block_inv_gaps)
  have g: "geometry d" using ok by (rule blocks_ok_geometry)
  have v: "valid_block d b" and pu: "p \<in> used d b" using assms(2) by (simp_all add: removable_def)
  have bok: "block_ok d b (blk d b)" using blocks_okD [OF ok v] .
  have p: "0 \<le> p" "p < nChunksPerBlock d" using bok pu by (auto simp: block_ok_def)
  have "card (used d b) \<le> card {0..<nChunksPerBlock d}" using bok by (intro card_mono) (auto simp: block_ok_def)
  moreover have "0 < card (used d b)" using pu by (auto simp: card_gt_0_iff)
  moreover have "pagesInUse bi = int (card (used d b))" "nChunksPerBlock d \<le> 511" "0 < nChunksPerBlock d"
    using bok bi g by (simp_all add: block_ok_def geometry_def)
  ultimately have "0 < pagesInUse bi" "pagesInUse bi \<le> 511" by simp_all
  then have s: "s10 (pagesInUse bi - 1) = pagesInUse bi - 1" by simp
  let ?bi = "bi\<lparr>pagesInUse := pagesInUse bi - 1\<rparr>"
  have "block_inv d1 \<and> (\<forall>c. valid_block d c \<longrightarrow> used d1 c = (if c = b then used d b - {p} else used d c))"
    by (rule remove_page_inv [OF assms(1) v pu st _ d1]) (use assms(2) bi st in \<open>auto simp: removable_def\<close>)
  then show "block_inv d1" "\<And>c. valid_block d c \<Longrightarrow> used d1 c = (if c = b then used d b - {p} else used d c)" by auto
  have gf: "geometry (d\<lparr>nFreeChunks := nFreeChunks d + 1\<rparr>)" using g by (simp add: geometry_def)
  have clr: "yaffs_ClearChunkBit (d\<lparr>nFreeChunks := nFreeChunks d + 1\<rparr>) b p =
      Some ((put_bit d b p False)\<lparr>nFreeChunks := nFreeChunks d + 1\<rparr>)"
    using SetChunkBit_eq(2) [OF gf _ p(1)] v p(2) by (simp add: put_bit_upd)
  show "removePage d b p bi =
    (if pagesInUse bi = 1 \<and> \<not> hasShrinkHeader bi \<and> blockState bi \<noteq> YAFFS_BLOCK_STATE_ALLOCATING then yaffs_BlockBecameDirty d1 b else Some d1)"
    using st bi(2) s clr unfolding removePage_def d1 by (auto simp: Let_def)
  show "valid_block d1 c = valid_block d c" for c by (simp add: d1 valid_block_def put_bit_def)
  have gp: "geometry ((put_bit d b p False)\<lparr>nFreeChunks := nFreeChunks d + 1\<rparr>)"
    using g by (simp add: geometry_def put_bit_def)
  have vp: "valid_block ((put_bit d b p False)\<lparr>nFreeChunks := nFreeChunks d + 1\<rparr>) c = valid_block d c" for c
    by (simp add: valid_block_def put_bit_def)
  show "blk d1 c = (if c = b then ?bi else blk d c)" if "valid_block d c" for c
    using blk_set_block [OF gp, of b c ?bi] v that vp by (simp add: d1 put_bit_def)
qed

lemma removePage_inv:
  assumes "block_inv d" and "removable d b p"
    and bi: "softDeletions bi = softDeletions (blk d b)" "blockState bi = blockState (blk d b)" "pagesInUse bi = pagesInUse (blk d b)"
    and run: "removePage d b p bi = Some d'"
  shows "block_inv d' \<and> (\<forall>c. valid_block d c \<longrightarrow> used d' c =
    (if c = b \<and> blockState (blk d b) \<in> {YAFFS_BLOCK_STATE_ALLOCATING, YAFFS_BLOCK_STATE_FULL, YAFFS_BLOCK_STATE_COLLECTING} then used d b - {p} else used d c))"
proof (cases "blockState (blk d b) \<in> {YAFFS_BLOCK_STATE_ALLOCATING, YAFFS_BLOCK_STATE_FULL, YAFFS_BLOCK_STATE_COLLECTING}")
  case st: True
  define d1 where "d1 = setBlockInfo ((put_bit d b p False)\<lparr>nFreeChunks := nFreeChunks d + 1\<rparr>) b (bi\<lparr>pagesInUse := pagesInUse bi - 1\<rparr>)"
  note s = removePage_stages [OF assms(1,2) st bi d1_def]
  have v: "valid_block d b" using assms(2) by (simp add: removable_def)
  show ?thesis
  proof (cases "d' = d1")
    case True
    with s(2,3) st show ?thesis by auto
  next
    case False
    with run s(1) have "yaffs_BlockBecameDirty d1 b = Some d'" "pagesInUse bi = 1" "blockState bi \<noteq> YAFFS_BLOCK_STATE_ALLOCATING"
      by (auto split: if_splits)
    then have "block_inv d' \<and> (\<forall>c. valid_block d1 c \<longrightarrow> used d' c = used d1 c)"
      using BlockBecameDirty_inv [OF s(2), of b d'] s(4) [OF v] s(5) v st bi(2) by auto
    then show ?thesis using s(3,5) st by auto
  qed
next
  case False
  then have "d' = d" using run assms(2) bi(2) by (auto simp: removePage_def removable_def)
  with assms(1) False show ?thesis by auto
qed

lemma removePage_others:
  assumes "block_inv d" and "removable d b p"
    and bi: "softDeletions bi = softDeletions (blk d b)" "blockState bi = blockState (blk d b)" "pagesInUse bi = pagesInUse (blk d b)"
    and run: "removePage d b p bi = Some d'"
  shows "others_kept b d d'"
proof (cases "blockState (blk d b) \<in> {YAFFS_BLOCK_STATE_ALLOCATING, YAFFS_BLOCK_STATE_FULL, YAFFS_BLOCK_STATE_COLLECTING}")
  case st: True
  define d1 where "d1 = setBlockInfo ((put_bit d b p False)\<lparr>nFreeChunks := nFreeChunks d + 1\<rparr>) b (bi\<lparr>pagesInUse := pagesInUse bi - 1\<rparr>)"
  note s = removePage_stages [OF assms(1,2) st bi d1_def]
  have v: "valid_block d b" using assms(2) by (simp add: removable_def)
  have o: "others_kept b d d1" using s(4) by (simp add: others_kept_def)
  show ?thesis
  proof (cases "d' = d1")
    case False
    with run s(1) have "yaffs_BlockBecameDirty d1 b = Some d'" "pagesInUse bi = 1" "blockState bi \<noteq> YAFFS_BLOCK_STATE_ALLOCATING"
      by (auto split: if_splits)
    then have "others_kept b d1 d'"
      using BlockBecameDirty_inv [OF s(2), of b d'] s(4) [OF v] s(5) v st bi(2) by auto
    then show ?thesis using others_kept_trans [OF o _ s(5)] by blast
  qed (use o in simp)
next
  case False
  then have "d' = d" using run assms(2) bi(2) by (auto simp: removePage_def removable_def)
  then show ?thesis by simp
qed

lemma removable_core:
  assumes "same_core d d1" and "geometry d" and "removable d b p"
  shows "removable d1 b p"
  using assms(3) same_core_blockInfo_read [OF assms(1,2)] same_core_valid [OF assms(1)] same_core_used [OF assms(1)]
  by (simp add: removable_def)

lemma DeleteChunk_stages:
  assumes "geometry d" and "removable d (chunk div nChunksPerBlock d) (chunk mod nChunksPerBlock d)" and "\<not> chunk \<le> 0"
    and "yaffs_DeleteChunk d chunk markNAND = Some d'"
  shows "\<exists>d1. same_core d d1 \<and>
    removePage d1 (chunk div nChunksPerBlock d) (chunk mod nChunksPerBlock d) (blk d (chunk div nChunksPerBlock d)) = Some d'"
proof -
  define e where "e = d\<lparr>nDeletions := nDeletions d + 1\<rparr>"
  have ce: "same_core d e" "nChunksPerBlock e = nChunksPerBlock d" by (simp_all add: e_def same_core_def)
  have eb: "yaffs_GetBlockInfo e (chunk div nChunksPerBlock d) = Some (blk d (chunk div nChunksPerBlock d))"
    using GetBlockInfo_frame [of e d] GetBlockInfo_blk [OF assms(1)] assms(2) by (simp add: e_def removable_def)
  obtain d1 where d1: "markDeleted e chunk (blk d (chunk div nChunksPerBlock d)) markNAND = Some d1"
    "removePage d1 (chunk div nChunksPerBlock d) (chunk mod nChunksPerBlock d) (blk d (chunk div nChunksPerBlock d)) = Some d'"
    using assms(3,4) eb ce(2) unfolding yaffs_DeleteChunk_def Let_def e_def [symmetric] by (auto simp: bind_eq_Some_conv)
  with same_core_trans [OF ce(1) markDeleted_core [OF d1(1)]] show ?thesis by blast
qed

lemma DeleteChunk_others:
  assumes "block_inv d" and "removable d (chunk div nChunksPerBlock d) (chunk mod nChunksPerBlock d)"
    and "yaffs_DeleteChunk d chunk markNAND = Some d'"
  shows "others_kept (chunk div nChunksPerBlock d) d d'"
proof (cases "chunk \<le> 0")
  case True
  with assms(3) show ?thesis by (simp add: yaffs_DeleteChunk_def)
next
  case False
  have g: "geometry d" using assms(1) by (simp add: block_inv_def blocks_ok_def)
  have v: "valid_block d (chunk div nChunksPerBlock d)" using assms(2) by (simp add: removable_def)
  obtain d1 where c: "same_core d d1" and
    d1: "removePage d1 (chunk div nChunksPerBlock d) (chunk mod nChunksPerBlock d) (blk d (chunk div nChunksPerBlock d)) = Some d'"
    using DeleteChunk_stages [OF g assms(2) False assms(3)] by blast
  have "others_kept (chunk div nChunksPerBlock d) d1 d'"
    using removePage_others [OF same_core_inv [OF c assms(1)] removable_core [OF c g assms(2)] _ _ _ d1]
      same_core_blockInfo_read [OF c g v] by simp
  with others_kept_trans [OF same_core_others [OF g c]] same_core_valid [OF c] show ?thesis by blast
qed

lemma DeleteChunk_used:
  assumes "block_inv d" and "removable d (chunk div nChunksPerBlock d) (chunk mod nChunksPerBlock d)"
    and "yaffs_DeleteChunk d chunk markNAND = Some d'"
  shows "block_inv d' \<and> (\<forall>c. valid_block d c \<longrightarrow> used d' c =
    (if chunk > 0 \<and> c = chunk div nChunksPerBlock d \<and> blockState (blk d c) \<in>
        {YAFFS_BLOCK_STATE_ALLOCATING, YAFFS_BLOCK_STATE_FULL, YAFFS_BLOCK_STATE_COLLECTING} then used d c - {chunk mod nChunksPerBlock d} else used d c))"
proof (cases "chunk \<le> 0")
  case True
  with assms show ?thesis by (simp add: yaffs_DeleteChunk_def)
next
  case False
  define b p where "b = chunk div nChunksPerBlock d" and "p = chunk mod nChunksPerBlock d"
  have g: "geometry d" using assms(1) by (simp add: block_inv_def blocks_ok_def)
  have rm: "removable d b p" using assms(2) by (simp add: b_def p_def)
  then have v: "valid_block d b" by (simp add: removable_def)
  obtain d1 where c: "same_core d d1" and d1: "removePage d1 b p (blk d b) = Some d'"
    using DeleteChunk_stages [OF g assms(2) False assms(3)] by (auto simp: b_def p_def)
  show ?thesis
    using removePage_inv [OF same_core_inv [OF c assms(1)] removable_core [OF c g rm] _ _ _ d1]
      same_core_blockInfo_read [OF c g v] same_core_used [OF c] same_core_valid [OF c] False by (auto simp: b_def p_def)
qed

lemma DeleteChunk_inv:
  assumes "block_inv d" and "removable d (chunk div nChunksPerBlock d) (chunk mod nChunksPerBlock d)"
    and "yaffs_DeleteChunk d chunk markNAND = Some d'"
  shows "block_inv d' \<and> (\<forall>c. valid_block d c \<longrightarrow> used d' c = used d c \<or>
    c = chunk div nChunksPerBlock d \<and> used d' c = used d c - {chunk mod nChunksPerBlock d})"
  using DeleteChunk_used [OF assms] by simp

lemma SoftDeleteChunk_inv:
  assumes "block_inv d" and b: "b = chunk div nChunksPerBlock d" and "valid_block d b"
    and "blockState (blk d b) \<in> {YAFFS_BLOCK_STATE_ALLOCATING, YAFFS_BLOCK_STATE_FULL}"
    and "softDeletions (blk d b) < pagesInUse (blk d b)" and "yaffs_SoftDeleteChunk d chunk = Some d'"
  shows "block_inv d'"
proof -
  have ok: "blocks_ok d" and gap: "free_gap d = 0" "erased_gap d = 0" "ckpt_gap d = 0"
    using assms(1) by (simp_all add: block_inv_gaps)
  have g: "geometry d" using ok by (rule blocks_ok_geometry)
  have bok: "block_ok d b (blk d b)" using blocks_okD [OF ok assms(3)] .
  have "card (used d b) \<le> card {0..<nChunksPerBlock d}" using bok by (intro card_mono) (auto simp: block_ok_def)
  moreover have "pagesInUse (blk d b) = int (card (used d b))" "nChunksPerBlock d \<le> 511" "0 < nChunksPerBlock d" "0 \<le> softDeletions (blk d b)"
    using bok g by (simp_all add: block_ok_def geometry_def)
  ultimately have s: "s10 (softDeletions (blk d b) + 1) = softDeletions (blk d b) + 1" using assms(5) by simp
  let ?bi = "(blk d b)\<lparr>softDeletions := softDeletions (blk d b) + 1\<rparr>"
  have d': "d' = (setBlockInfo d b ?bi)\<lparr>nFreeChunks := nFreeChunks d + 1\<rparr>"
    using assms(6) s assms(3) g by (simp add: yaffs_SoftDeleteChunk_def Let_def b [symmetric] GetBlockInfo_blk)
  have "block_ok d b ?bi" using bok assms(4,5) by (auto simp: block_ok_def)
  with set_block_ok [OF ok assms(3)] set_block_gaps [OF g assms(3), of ?bi] gap assms(4) show ?thesis
    by (auto simp: block_inv_gaps d' gaps_upd free_of_def)
qed

lemma startCollecting_inv:
  assumes "block_inv d" and "valid_block d b" and "blockState (blk d b) = YAFFS_BLOCK_STATE_FULL" and "startCollecting d b = Some d'"
  shows "block_inv d'"
proof -
  have ok: "blocks_ok d" and gap: "free_gap d = 0" "erased_gap d = 0" "ckpt_gap d = 0"
    using assms(1) by (simp_all add: block_inv_gaps)
  have g: "geometry d" using ok by (rule blocks_ok_geometry)
  let ?bi = "(blk d b)\<lparr>blockState := YAFFS_BLOCK_STATE_COLLECTING, hasShrinkHeader := False\<rparr>"
  have d': "d' = (setBlockInfo d b ?bi)\<lparr>nFreeChunks := nFreeChunks d - softDeletions (blk d b)\<rparr>"
    using assms(2,4) g by (simp add: startCollecting_def GetBlockInfo_blk)
  have "block_ok d b ?bi" using blocks_okD [OF ok assms(2)] assms(3) by (auto simp: block_ok_def)
  with set_block_ok [OF ok assms(2)] set_block_gaps [OF g assms(2), of ?bi] gap assms(3) show ?thesis
    by (auto simp: block_inv_gaps d' gaps_upd free_of_def)
qed

lemma InvalidateCheckpoint_inv: "block_inv d \<Longrightarrow> yaffs_InvalidateCheckpoint d = Some d' \<Longrightarrow> block_inv d'"
  using kept_Invalidate keptD(1-4) unfolding block_inv_gaps by metis

section \<open>Writing a new chunk keeps the invariant\<close>

text \<open>
  The chunk just allocated is the last page of its block to have been taken into use, so its block
  can lose it again.
\<close>

lemma HandleWriteChunkError_core:
  assumes "yaffs_HandleWriteChunkError d chunk erasedOk = Some d'"
  shows "\<exists>d1. same_core d d1 \<and> yaffs_DeleteChunk d1 chunk True = Some d'"
proof -
  obtain da bi where 1: "yaffs_HandleChunkError d (chunk div nChunksPerBlock d) = Some da"
    "yaffs_GetBlockInfo da (chunk div nChunksPerBlock d) = Some bi"
    "yaffs_DeleteChunk (if erasedOk \<noteq> 0 then setBlockInfo da (chunk div nChunksPerBlock d) (bi\<lparr>needsRetiring := True\<rparr>) else da) chunk True = Some d'"
    using assms by (auto simp: yaffs_HandleWriteChunkError_def Let_def bind_eq_Some_conv)
  have "same_core da (if erasedOk \<noteq> 0 then setBlockInfo da (chunk div nChunksPerBlock d) (bi\<lparr>needsRetiring := True\<rparr>) else da)"
    using same_core_set [OF 1(2)] by (simp add: core_bi_def)
  with 1 HandleChunkError_core same_core_trans show ?thesis by blast
qed

end
