(* ===== verification/BlockWrite.thy ===== *)
theory BlockWrite
  imports BlockDelete
begin

text \<open>
  Writing a new chunk: the loop of allocations, erased checks, writes and retirements keeps the
  invariant, and the chunk it settles on was free before.
\<close>

section \<open>The geometry stays\<close>

definition same_geo :: "'f yaffs_Device \<Rightarrow> 'f yaffs_Device \<Rightarrow> bool" where
  "same_geo d d' \<longleftrightarrow> nChunksPerBlock d' = nChunksPerBlock d \<and> internalStartBlock d' = internalStartBlock d \<and>
     internalEndBlock d' = internalEndBlock d \<and> writeChunkWithTagsToNAND d' = writeChunkWithTagsToNAND d"

lemma same_geo_refl [simp]: "same_geo d d"
  by (simp add: same_geo_def)

lemma same_geo_trans: "same_geo d d' \<Longrightarrow> same_geo d' d'' \<Longrightarrow> same_geo d d''"
  by (simp add: same_geo_def)

lemma same_geo_valid: "same_geo d d' \<Longrightarrow> valid_block d' b = valid_block d b"
  by (simp add: same_geo_def valid_block_def)

lemma same_core_geo: "same_core d d' \<Longrightarrow> same_geo d d'"
  by (simp add: same_geo_def same_coreD)

lemma set_block_write [simp]: "writeChunkWithTagsToNAND (setBlockInfo d b bi) = writeChunkWithTagsToNAND d"
  by (simp add: setBlockInfo_def)

lemma set_block_geo [simp]: "same_geo d (setBlockInfo d b bi)"
  by (simp add: same_geo_def)

lemma checkpointErase_step_geo:
  assumes "checkpointErase_step i d = Some d1"
  shows "same_geo d d1"
proof -
  obtain bi where bi: "yaffs_GetBlockInfo d i = Some bi" using assms by (auto simp: checkpointErase_step_def bind_eq_Some_conv)
  show ?thesis
  proof (cases "blockState bi = YAFFS_BLOCK_STATE_CHECKPOINT")
    case True
    then obtain er r f where "eraseBlockInNAND d = Some er" "er (genericDevice d) (i - blockOffset d) = (r, f)"
      using assms bi by (cases "eraseBlockInNAND d") (auto simp: checkpointErase_step_def intro: prod.exhaust)
    with True assms bi show ?thesis
      by (auto simp: checkpointErase_step_def Let_def same_geo_def bind_eq_Some_conv case_prod_beta split: if_splits)
  next
    case False
    with assms bi show ?thesis by (simp add: checkpointErase_step_def)
  qed
qed

lemma checkpointErase_geo: "checkpointErase_loop is d = Some d' \<Longrightarrow> same_geo d d'"
proof (induction "is" arbitrary: d)
  case (Cons i "is")
  then obtain d1 where d1: "checkpointErase_step i d = Some d1" "checkpointErase_loop is d1 = Some d'"
    by (auto simp: bind_eq_Some_conv)
  from checkpointErase_step_geo [OF d1(1)] Cons.IH [OF d1(2)] show ?case by (rule same_geo_trans)
qed simp

lemma InvalidateCheckpoint_geo: "yaffs_InvalidateCheckpoint d = Some d' \<Longrightarrow> same_geo d d'"
  by (auto simp: yaffs_InvalidateCheckpoint_def yaffs_CheckpointInvalidateStream_def yaffs_CheckpointErase_def
      bind_eq_Some_conv same_geo_def split: if_splits dest!: checkpointErase_geo)

lemma RetireBlock_geo:
  assumes "yaffs_RetireBlock d b = Some d'"
  shows "same_geo d d'"
proof -
  obtain d1 r d2 bi where 1: "yaffs_InvalidateCheckpoint d = Some d1" "yaffs_MarkBlockBad d1 b = Some (r, d2)"
    "d' = (setBlockInfo d2 b bi)\<lparr>nRetiredBlocks := nRetiredBlocks d2 + 1\<rparr>"
    using assms unfolding yaffs_RetireBlock_def by (auto simp: bind_eq_Some_conv)
  have "same_geo d d2"
    using same_geo_trans [OF InvalidateCheckpoint_geo [OF 1(1)] same_core_geo [OF MarkBlockBad_core [OF 1(2)]]] .
  then show ?thesis by (simp add: same_geo_def 1(3))
qed

lemma ClearChunkBits_geo: "yaffs_ClearChunkBits d b = Some d' \<Longrightarrow> same_geo d d'"
  by (auto simp: yaffs_ClearChunkBits_def bind_eq_Some_conv Let_def same_geo_def)

lemma BlockBecameDirty_geo:
  assumes "yaffs_BlockBecameDirty d b = Some d'"
  shows "same_geo d d'"
proof -
  obtain bi e d1 d2 where bi: "yaffs_GetBlockInfo d b = Some bi"
    and A: "(if \<not> needsRetiring bi then do {
          dev \<leftarrow> yaffs_InvalidateCheckpoint (setBlockInfo d b (bi\<lparr>blockState := YAFFS_BLOCK_STATE_DIRTY\<rparr>));
          (r, dev) \<leftarrow> yaffs_EraseBlockInNAND dev b;
          Some (r, if r = 0 then dev\<lparr>nErasureFailures := nErasureFailures dev + 1\<rparr> else dev)
        } else Some (0, setBlockInfo d b (bi\<lparr>blockState := YAFFS_BLOCK_STATE_DIRTY\<rparr>))) = Some (e, d1)"
    and B: "(if e \<noteq> 0 \<and> ((yaffs_traceMask d1 AND YAFFS_TRACE_ERASE) \<noteq> 0 \<or> \<not> yaffs_SkipVerification d1)
             then checkErased_loop [b * nChunksPerBlock d1..b * nChunksPerBlock d1 + nChunksPerBlock d1 - 1] d1
             else Some d1) = Some d2"
    and C: "(if e \<noteq> (0 :: int) then do {
       bi \<leftarrow> yaffs_GetBlockInfo d2 b;
       let dev = (setBlockInfo d2 b (bi\<lparr>blockState := YAFFS_BLOCK_STATE_EMPTY, pagesInUse := 0, softDeletions := 0,
                    hasShrinkHeader := False, skipErasedCheck := True, gcPrioritise := False\<rparr>))
                 \<lparr>nErasedBlocks := nErasedBlocks d2 + 1\<rparr>;
       yaffs_ClearChunkBits dev b
     } else yaffs_RetireBlock (d2\<lparr>nFreeChunks := nFreeChunks d2 - nChunksPerBlock d2\<rparr>) b) = Some d'"
    using assms unfolding yaffs_BlockBecameDirty_def Let_def [of "setBlockInfo d b _"]
    by (elim bind_eq_Some_conv [THEN iffD1, THEN exE]) (auto simp: bind_eq_Some_conv split del: if_split)
  have "same_geo d d1"
  proof (cases "needsRetiring bi")
    case True
    with A show ?thesis by (auto simp: same_geo_def)
  next
    case False
    then obtain da db r where 1: "yaffs_InvalidateCheckpoint (setBlockInfo d b (bi\<lparr>blockState := YAFFS_BLOCK_STATE_DIRTY\<rparr>)) = Some da"
      "yaffs_EraseBlockInNAND da b = Some (r, db)" "d1 = (if r = 0 then db\<lparr>nErasureFailures := nErasureFailures db + 1\<rparr> else db)"
      using A by (auto simp: bind_eq_Some_conv split del: if_split)
    have "same_geo d db"
      using same_geo_trans [OF set_block_geo same_geo_trans [OF InvalidateCheckpoint_geo [OF 1(1)]
          same_core_geo [OF EraseBlockInNAND_core [OF 1(2)]]]] .
    then show ?thesis by (simp add: 1(3) same_geo_def)
  qed
  moreover have "same_geo d1 d2"
    using B same_core_geo [OF checkErased_loop_core] by (auto split: if_splits)
  moreover have "same_geo d2 d'"
  proof (cases "e = 0")
    case True
    with C have "yaffs_RetireBlock (d2\<lparr>nFreeChunks := nFreeChunks d2 - nChunksPerBlock d2\<rparr>) b = Some d'" by simp
    from RetireBlock_geo [OF this] show ?thesis by (simp add: same_geo_def)
  next
    case False
    with C obtain bj where "yaffs_ClearChunkBits ((setBlockInfo d2 b bj)\<lparr>nErasedBlocks := nErasedBlocks d2 + 1\<rparr>) b = Some d'"
      by (auto simp: bind_eq_Some_conv Let_def)
    from ClearChunkBits_geo [OF this] show ?thesis by (simp add: same_geo_def)
  qed
  ultimately show ?thesis using same_geo_trans by blast
qed

lemma ClearChunkBit_geo: "yaffs_ClearChunkBit d b p = Some d' \<Longrightarrow> same_geo d d'"
  by (auto simp: yaffs_ClearChunkBit_def bind_eq_Some_conv Let_def same_geo_def)

lemma DeleteChunk_geo:
  assumes "yaffs_DeleteChunk d chunk m = Some d'"
  shows "same_geo d d'"
proof (cases "chunk \<le> 0")
  case True
  with assms show ?thesis by (simp add: yaffs_DeleteChunk_def)
next
  case False
  with assms obtain b p bi d1 where 1: "markDeleted (d\<lparr>nDeletions := nDeletions d + 1\<rparr>) chunk bi m = Some d1"
    "removePage d1 b p bi = Some d'"
    by (auto simp: yaffs_DeleteChunk_def bind_eq_Some_conv Let_def)
  have "same_geo d d1" using same_core_geo [OF markDeleted_core [OF 1(1)]] by (simp add: same_geo_def)
  moreover have "same_geo d1 d'"
    using 1(2) unfolding removePage_def
    by (auto simp: bind_eq_Some_conv Let_def same_geo_def split: if_splits dest!: ClearChunkBit_geo BlockBecameDirty_geo)
  ultimately show ?thesis by (rule same_geo_trans)
qed


lemma same_core_write: "same_core d d' \<Longrightarrow> writeChunkWithTagsToNAND d' = writeChunkWithTagsToNAND d"
  by (simp only: same_coreD)

lemma findBlock_driver: "findBlock_loop n d = Some (b, d') \<Longrightarrow> writeChunkWithTagsToNAND d' = writeChunkWithTagsToNAND d"
proof (induction n arbitrary: d)
  case (Suc n)
  define f where "f = (let f = allocationBlockFinder d + 1 in if f < internalStartBlock d \<or> f > internalEndBlock d then internalStartBlock d else f)"
  define e where "e = d\<lparr>allocationBlockFinder := f\<rparr>"
  have e: "writeChunkWithTagsToNAND e = writeChunkWithTagsToNAND d" by (simp add: e_def)
  obtain bi where bi: "yaffs_GetBlockInfo e f = Some bi"
    "(if blockState bi = YAFFS_BLOCK_STATE_EMPTY then
       Some (f, (setBlockInfo e f (bi\<lparr>blockState := YAFFS_BLOCK_STATE_ALLOCATING, bi_sequenceNumber := dev_sequenceNumber e + 1\<rparr>))
             \<lparr>dev_sequenceNumber := dev_sequenceNumber e + 1, nErasedBlocks := nErasedBlocks e - 1\<rparr>)
     else findBlock_loop n e) = Some (b, d')"
    using Suc.prems unfolding findBlock_loop.simps Let_def [of "allocationBlockFinder d + 1"] Let_def [of "if _ then _ else _"]
      f_def [unfolded Let_def, symmetric] e_def [symmetric] Let_def
    by (auto simp: bind_eq_Some_conv)
  show ?case
  proof (cases "blockState bi = YAFFS_BLOCK_STATE_EMPTY")
    case True
    with bi(2) e show ?thesis by auto
  next
    case False
    with bi(2) have "findBlock_loop n e = Some (b, d')" by simp
    from Suc.IH [OF this] e show ?thesis by simp
  qed
qed simp

lemma SetChunkBit_driver: "yaffs_SetChunkBit d b p = Some d' \<Longrightarrow> writeChunkWithTagsToNAND d' = writeChunkWithTagsToNAND d"
  by (auto simp: yaffs_SetChunkBit_def Let_def bind_eq_Some_conv)

lemma takePage_driver:
  assumes "takePage d = Some (c, b, d')"
  shows "writeChunkWithTagsToNAND d' = writeChunkWithTagsToNAND d"
proof -
  obtain bi d1 where 1: "yaffs_SetChunkBit (setBlockInfo d (allocationBlock d) bi) (allocationBlock d) (allocationPage d) = Some d1"
    and 2: "(if allocationPage d1 + 1 \<ge> nChunksPerBlock d1 then do {
       bi \<leftarrow> yaffs_GetBlockInfo (d1\<lparr>allocationPage := allocationPage d1 + 1, nFreeChunks := nFreeChunks d1 - 1\<rparr>) (allocationBlock d);
       Some (allocationBlock d * nChunksPerBlock d + allocationPage d, allocationBlock d,
         (setBlockInfo (d1\<lparr>allocationPage := allocationPage d1 + 1, nFreeChunks := nFreeChunks d1 - 1\<rparr>) (allocationBlock d)
           (bi\<lparr>blockState := YAFFS_BLOCK_STATE_FULL\<rparr>))\<lparr>allocationBlock := -1\<rparr>)
     } else Some (allocationBlock d * nChunksPerBlock d + allocationPage d, allocationBlock d,
         d1\<lparr>allocationPage := allocationPage d1 + 1, nFreeChunks := nFreeChunks d1 - 1\<rparr>)) = Some (c, b, d')"
    using assms unfolding takePage_def Let_def by (auto simp: bind_eq_Some_conv split del: if_split)
  have "writeChunkWithTagsToNAND d' = writeChunkWithTagsToNAND d1"
    using 2 by (cases "allocationPage d1 + 1 \<ge> nChunksPerBlock d1") (auto simp: bind_eq_Some_conv)
  with SetChunkBit_driver [OF 1] show ?thesis by simp
qed

lemma AllocateChunk_driver:
  assumes "yaffs_AllocateChunk d r = Some (c, b, d')"
  shows "writeChunkWithTagsToNAND d' = writeChunkWithTagsToNAND d"
proof -
  obtain d1 where d1: "alloc_block d = Some d1"
    and run: "(let (spaceOk, dev) = (if r then (True, d1) else yaffs_CheckSpaceForAllocation d1) in
      if \<not> spaceOk then Some (-1, -1, dev) else if allocationBlock dev \<ge> 0 then takePage dev else Some (-1, -1, dev)) = Some (c, b, d')"
    using assms unfolding yaffs_AllocateChunk_def alloc_block_def [symmetric] by (auto simp: bind_eq_Some_conv)
  have w1: "writeChunkWithTagsToNAND d1 = writeChunkWithTagsToNAND d"
  proof (cases "allocationBlock d < 0")
    case True
    then obtain b1 d2 where 2: "yaffs_FindBlockForAllocation d = Some (b1, d2)" "d1 = d2\<lparr>allocationBlock := b1, allocationPage := 0\<rparr>"
      using d1 by (auto simp: alloc_block_def)
    have "writeChunkWithTagsToNAND d2 = writeChunkWithTagsToNAND d"
      using 2(1) findBlock_driver by (cases "nErasedBlocks d < 1") (auto simp: yaffs_FindBlockForAllocation_def)
    then show ?thesis by (simp add: 2(2))
  qed (use d1 in \<open>simp add: alloc_block_def\<close>)
  define ok d2 where "ok = (r \<or> fst (yaffs_CheckSpaceForAllocation d1))" and "d2 = (if r then d1 else snd (yaffs_CheckSpaceForAllocation d1))"
  have "writeChunkWithTagsToNAND d2 = writeChunkWithTagsToNAND d1" using same_core_write [OF CheckSpace_core [of d1]] by (simp add: d2_def)
  moreover have "(if \<not> ok then Some (-1, -1, d2) else if allocationBlock d2 \<ge> 0 then takePage d2 else Some (-1, -1, d2)) = Some (c, b, d')"
    using run by (cases r; cases "yaffs_CheckSpaceForAllocation d1") (auto simp: ok_def d2_def split: if_splits)
  then have "d' = d2 \<or> takePage d2 = Some (c, b, d')" by (auto split: if_splits)
  ultimately show ?thesis using w1 takePage_driver by metis
qed

section \<open>The loop\<close>

text \<open>
  What the loop keeps: the invariant, the geometry, every chunk in use at the start and the blocks under collection; and what
  holds while it has a chunk in hand: the chunk was free at the start and can be given back.
\<close>

definition untouched :: "'f yaffs_Device \<Rightarrow> 'f yaffs_Device \<Rightarrow> bool" where
  "untouched d0 d \<longleftrightarrow> (\<forall>x. valid_block d0 x \<longrightarrow> blockState (blk d0 x) = YAFFS_BLOCK_STATE_COLLECTING \<longrightarrow>
     core_bi (blk d x) = core_bi (blk d0 x) \<and> used d x = used d0 x)"

definition grown :: "'f yaffs_Device \<Rightarrow> 'f yaffs_Device \<Rightarrow> bool" where
  "grown d0 d \<longleftrightarrow> block_inv d \<and> nChunksPerBlock d = nChunksPerBlock d0 \<and> (\<forall>x. valid_block d x = valid_block d0 x) \<and>
     writeChunkWithTagsToNAND d = writeChunkWithTagsToNAND d0 \<and> (\<forall>x. valid_block d0 x \<longrightarrow> used d0 x \<subseteq> used d x) \<and>
     untouched d0 d"

definition holding :: "'f yaffs_Device \<Rightarrow> 'f yaffs_Device \<Rightarrow> int \<Rightarrow> int \<Rightarrow> bool" where
  "holding d0 d b p \<longleftrightarrow> grown d0 d \<and> 0 \<le> p \<and> p < nChunksPerBlock d0 \<and> valid_block d0 b \<and> p \<notin> used d0 b \<and> removable d b p"

lemma untouched_refl [simp]: "untouched d d"
  by (simp add: untouched_def)

lemma untouchedD:
  "untouched d d' \<Longrightarrow> valid_block d x \<Longrightarrow> blockState (blk d x) = YAFFS_BLOCK_STATE_COLLECTING \<Longrightarrow>
     core_bi (blk d' x) = core_bi (blk d x) \<and> used d' x = used d x \<and> blockState (blk d' x) = YAFFS_BLOCK_STATE_COLLECTING"
  by (auto simp: untouched_def core_bi_def)

lemma untouched_trans:
  assumes "untouched d d'" and "untouched d' d''" and "\<And>c. valid_block d' c = valid_block d c"
  shows "untouched d d''"
  unfolding untouched_def using untouchedD [OF assms(1)] untouchedD [OF assms(2)] assms(3) by metis

lemma core_untouched: "geometry d \<Longrightarrow> same_core d d' \<Longrightarrow> untouched d d'"
  by (simp add: untouched_def same_core_blk same_core_used)

lemma grown_trans:
  assumes "grown d d'" and "grown d' d''"
  shows "grown d d''"
proof -
  have "untouched d d''" using assms untouched_trans by (auto simp: grown_def)
  with assms show ?thesis by (simp add: grown_def) blast
qed

lemma core_grown:
  assumes "block_inv d" and "same_core d d'"
  shows "grown d d'"
proof -
  have "geometry d" using assms(1) by (simp add: block_inv_gaps blocks_ok_geometry)
  with assms show ?thesis
    by (simp add: grown_def same_core_inv same_core_valid same_core_used same_core_write same_coreD(3) core_untouched)
qed

lemma grown_core: "grown d0 d \<Longrightarrow> same_core d d' \<Longrightarrow> grown d0 d'"
  using grown_trans [of d0 d d'] core_grown [of d d'] by (simp add: grown_def)

lemma holding_core: "holding d0 d b p \<Longrightarrow> same_core d d' \<Longrightarrow> holding d0 d' b p"
  by (auto simp: holding_def grown_core intro: removable_core) (auto simp: grown_def block_inv_def blocks_ok_def intro: removable_core)

lemma AllocateChunk_grown:
  assumes "block_inv d" and run: "yaffs_AllocateChunk d r = Some (c, b, d1)"
  shows "grown d d1"
proof -
  note a = AllocateChunk_inv [OF assms(1), of r, unfolded run]
  note k = AllocateChunk_collecting [OF assms(1) run]
  have "used d1 x = used d x" if x: "valid_block d x" "blockState (blk d x) = YAFFS_BLOCK_STATE_COLLECTING" for x
  proof -
    have "blockState (blk d1 x) = YAFFS_BLOCK_STATE_COLLECTING"
      using k x by (auto simp: collecting_kept_def core_bi_def)
    with a x show ?thesis by (cases "x = b") (auto split: if_splits)
  qed
  then have "untouched d d1" using k by (simp add: untouched_def collecting_kept_def)
  with a AllocateChunk_driver [OF run] show ?thesis by (auto simp: grown_def split: if_splits)
qed

lemma AllocateChunk_holding:
  assumes "grown d0 d" and run: "yaffs_AllocateChunk d r = Some (c, b, d1)"
  shows "if c < 0 then grown d0 d1 else \<exists>p. c = b * nChunksPerBlock d0 + p \<and> holding d0 d1 b p"
proof -
  have inv: "block_inv d" using assms(1) by (simp add: grown_def)
  note a = AllocateChunk_inv [OF inv, of r, unfolded run]
  have gr: "grown d0 d1" using grown_trans [OF assms(1) AllocateChunk_grown [OF inv run]] .
  have g: "0 < nChunksPerBlock d" "\<And>x. valid_block d x \<Longrightarrow> 0 < x"
    using inv by (auto simp: block_inv_def blocks_ok_def geometry_def valid_block_def)
  show ?thesis
  proof (cases "c = -1")
    case True
    with gr show ?thesis by simp
  next
    case False
    with a obtain p where p: "valid_block d b" "c = b * nChunksPerBlock d + p" "0 \<le> p" "p < nChunksPerBlock d" "p \<notin> used d b"
        "\<And>x. valid_block d x \<Longrightarrow> used d1 x = (if x = b then insert p (used d b) else used d x)"
        "softDeletions (blk d1 b) < pagesInUse (blk d1 b)"
        "blockState (blk d1 b) \<in> {YAFFS_BLOCK_STATE_ALLOCATING, YAFFS_BLOCK_STATE_FULL}"
        "block_inv d1" "nChunksPerBlock d1 = nChunksPerBlock d" "\<And>x. valid_block d1 x = valid_block d x"
      by auto
    have "0 \<le> b * nChunksPerBlock d" using p(1) g by (simp add: less_imp_le)
    then have "0 \<le> c" using p(2,3) by simp
    moreover have "removable d1 b p" using p by (auto simp: removable_def)
    ultimately show ?thesis
      using p(1-5) assms(1) gr by (auto simp: holding_def grown_def)
  qed
qed

text \<open>The chunk in hand lies in no block that was under collection.\<close>

lemma holding_not_collecting:
  "holding d0 d b p \<Longrightarrow> blockState (blk d0 b) \<noteq> YAFFS_BLOCK_STATE_COLLECTING"
  by (auto simp: holding_def grown_def removable_def dest: untouchedD)

lemma holding_delete:
  assumes h: "holding d0 d b p" and run: "yaffs_DeleteChunk d (b * nChunksPerBlock d0 + p) m = Some d'"
  shows "grown d0 d'"
proof -
  have g: "grown d0 d" and n: "nChunksPerBlock d = nChunksPerBlock d0" and p: "0 \<le> p" "p < nChunksPerBlock d0" "p \<notin> used d0 b"
    and v: "valid_block d x = valid_block d0 x" and inv: "block_inv d" and w: "writeChunkWithTagsToNAND d = writeChunkWithTagsToNAND d0"
    and sub: "valid_block d0 x \<Longrightarrow> used d0 x \<subseteq> used d x" and un: "untouched d0 d" for x
    using h by (simp_all add: holding_def grown_def)
  have bp: "(b * nChunksPerBlock d0 + p) div nChunksPerBlock d = b" "(b * nChunksPerBlock d0 + p) mod nChunksPerBlock d = p"
    using p n by (simp_all add: div_pos_pos_trivial)
  have rm: "removable d ((b * nChunksPerBlock d0 + p) div nChunksPerBlock d) ((b * nChunksPerBlock d0 + p) mod nChunksPerBlock d)"
    using h bp by (simp add: holding_def)
  have d: "block_inv d'" "valid_block d c \<Longrightarrow> used d' c = used d c \<or> c = b \<and> used d' c = used d c - {p}" for c
    using DeleteChunk_inv [OF inv rm run] bp by auto
  have o: "others_kept b d d'" using DeleteChunk_others [OF inv rm run] bp by simp
  have geo: "same_geo d d'" using DeleteChunk_geo [OF run] .
  have "core_bi (blk d' x) = core_bi (blk d0 x) \<and> used d' x = used d0 x"
    if x: "valid_block d0 x" "blockState (blk d0 x) = YAFFS_BLOCK_STATE_COLLECTING" for x
  proof -
    have ne: "x \<noteq> b" using holding_not_collecting [OF h] x by auto
    with untouchedD [OF un x] others_keptD [OF o _ ne] d(2) [of x] v x(1) show ?thesis by auto
  qed
  then have "untouched d0 d'" by (simp add: untouched_def)
  moreover have "used d0 x \<subseteq> used d' x" if "valid_block d0 x" for x
    using d(2) [of x] sub [OF that] p(3) v that by auto
  ultimately show ?thesis
    using d(1) geo n v w same_geo_valid [OF geo] by (simp add: grown_def same_geo_def)
qed

lemma holding_error:
  assumes "holding d0 d b p" and "yaffs_HandleWriteChunkError d (b * nChunksPerBlock d0 + p) e = Some d'"
  shows "grown d0 d'"
  using HandleWriteChunkError_core [OF assms(2)] holding_core [OF assms(1)] holding_delete by blast


lemma CheckErased_then_skip:
  assumes "yaffs_CheckChunkErased d c = Some (e, d1)" and "yaffs_GetBlockInfo d1 b = Some bi"
  shows "same_core d (setBlockInfo d1 b (bi\<lparr>skipErasedCheck := True\<rparr>))"
  using same_core_trans [OF CheckChunkErased_core [OF assms(1)] same_core_set [OF assms(2)]] by (simp add: core_bi_def)

text \<open>A result code that a write may have had; nothing is said of a device without an entry point for writes with tags.\<close>

definition write_code :: "'f yaffs_Device \<Rightarrow> int \<Rightarrow> bool" where
  "write_code d w \<longleftrightarrow> (\<forall>wr. writeChunkWithTagsToNAND d = Some wr \<longrightarrow> (\<exists>f c b t. w = fst (wr f c b t)))"

lemma write_code_grown:
  assumes "grown d0 d" and "yaffs_WriteChunkWithTagsToNAND d c b t = Some (w, t', d')"
  shows "write_code d0 w"
  using assms by (auto simp: write_code_def grown_def yaffs_WriteChunkWithTagsToNAND_def Let_def case_prod_beta bind_eq_Some_conv) blast

text \<open>One attempt at a write, with what follows it as a continuation.\<close>

lemma write_attempt:
  assumes h: "holding d0 d1 b p" and ch: "ch = b * nChunksPerBlock d0 + p" and "ok \<noteq> YAFFS_OK"
    and run: "do {
         (erasedOk, go, dev) \<leftarrow>
           (if \<not> skipErasedCheck bi then do {
              (erasedOk, dev) \<leftarrow> yaffs_CheckChunkErased d1 ch;
              if erasedOk \<noteq> YAFFS_OK then Some (erasedOk, False, dev)
              else do {
                bi \<leftarrow> yaffs_GetBlockInfo dev b;
                Some (erasedOk, True, setBlockInfo dev b (bi\<lparr>skipErasedCheck := True\<rparr>))
              }
            } else Some (0, True, d1));
         if \<not> go then again ok tags dev
         else do {
           (writeOk, tags, dev) \<leftarrow> yaffs_WriteChunkWithTagsToNAND dev ch (Some data) tags;
           if writeOk \<noteq> YAFFS_OK then do {
             dev \<leftarrow> yaffs_HandleWriteChunkError dev ch erasedOk;
             again writeOk tags dev
           } else again writeOk tags dev
         }
       } = Some res"
    and failed: "\<And>w t dx. again w t dx = Some res \<Longrightarrow> grown d0 dx \<Longrightarrow> w \<noteq> YAFFS_OK \<Longrightarrow>
      w = ok \<or> write_code d0 w \<Longrightarrow> P"
    and written: "\<And>t dx. again YAFFS_OK t dx = Some res \<Longrightarrow> holding d0 dx b p \<Longrightarrow> P"
  shows P
proof -
  obtain e go d2 where er: "(if \<not> skipErasedCheck bi then do {
              (erasedOk, dev) \<leftarrow> yaffs_CheckChunkErased d1 ch;
              if erasedOk \<noteq> YAFFS_OK then Some (erasedOk, False, dev)
              else do {
                bi \<leftarrow> yaffs_GetBlockInfo dev b;
                Some (erasedOk, True, setBlockInfo dev b (bi\<lparr>skipErasedCheck := True\<rparr>))
              }
            } else Some (0, True, d1)) = Some (e, go, d2)"
    and wr: "(if \<not> go then again ok tags d2
         else do {
           (writeOk, tags, dev) \<leftarrow> yaffs_WriteChunkWithTagsToNAND d2 ch (Some data) tags;
           if writeOk \<noteq> YAFFS_OK then do {
             dev \<leftarrow> yaffs_HandleWriteChunkError dev ch e;
             again writeOk tags dev
           } else again writeOk tags dev
         }) = Some res"
    using run by (elim bind_eq_Some_conv [THEN iffD1, THEN exE]) (auto split del: if_split)
  have "same_core d1 d2"
    using er CheckErased_then_skip [of d1 ch _ _ b] CheckChunkErased_core [of d1 ch]
    by (cases "skipErasedCheck bi") (auto simp: bind_eq_Some_conv split: if_splits)
  then have h2: "holding d0 d2 b p" using holding_core [OF h] by blast
  then have g2: "grown d0 d2" by (simp add: holding_def)
  show P
  proof (cases go)
    case False
    with wr failed [of ok tags d2] g2 assms(3) show ?thesis by simp
  next
    case True
    with wr obtain w t d3 where w: "yaffs_WriteChunkWithTagsToNAND d2 ch (Some data) tags = Some (w, t, d3)"
      and w2: "(if w \<noteq> YAFFS_OK then do { dev \<leftarrow> yaffs_HandleWriteChunkError d3 ch e; again w t dev } else again w t d3) = Some res"
      by (auto simp: bind_eq_Some_conv split del: if_split)
    have h3: "holding d0 d3 b p" using holding_core [OF h2 WriteChunkWithTags_core [OF w]] .
    show ?thesis
    proof (cases "w = YAFFS_OK")
      case True
      with w2 written [OF _ h3] show ?thesis by simp
    next
      case False
      with w2 obtain d4 where "yaffs_HandleWriteChunkError d3 ch e = Some d4" "again w t d4 = Some res"
        by (auto simp: bind_eq_Some_conv)
      with holding_error [OF h3] ch failed False write_code_grown [OF g2 w] show ?thesis by blast
    qed
  qed
qed

lemma writeNewChunk_loop_grown:
  fixes d :: "'f yaffs_Device"
  assumes "writeNewChunk_loop fuel data r att ok tags d = Some (c, att', ok', tags', d')"
    and "grown d0 d" and "ok \<noteq> YAFFS_OK"
  shows "grown d0 d' \<and> (ok' = YAFFS_OK \<longrightarrow> (\<exists>b p. c = b * nChunksPerBlock d0 + p \<and> holding d0 d' b p)) \<and>
    (ok' = YAFFS_OK \<or> ok' = ok \<or> write_code d0 ok')"
  using assms
proof (induction fuel arbitrary: att ok tags d)
  case (Suc fuel)
  define again where "again = (\<lambda>chunk attempts writeOk tags (dev :: 'f yaffs_Device).
           if writeOk \<noteq> YAFFS_OK \<and> (yaffs_wr_attempts dev = 0 \<or> attempts \<le> uint (yaffs_wr_attempts dev))
           then writeNewChunk_loop fuel data r attempts writeOk tags dev
           else Some (chunk, attempts, writeOk, tags, dev))"
  have failed: ?case if "again x a w t dx = Some (c, att', ok', tags', d')" "grown d0 dx" "w \<noteq> YAFFS_OK" "w = ok \<or> write_code d0 w" for x a w t dx
    using that Suc.IH [of a w t dx] by (auto simp: again_def split: if_splits)
  obtain ch b d1 where al: "yaffs_AllocateChunk d r = Some (ch, b, d1)"
    and rest: "(if ch < 0 then Some (ch, att, ok, tags, d1)
     else do {
       bi \<leftarrow> yaffs_GetBlockInfo d1 b;
       if gcPrioritise bi then do {
         dev \<leftarrow> yaffs_DeleteChunk d1 ch True;
         again ch att ok tags dev
       } else do {
         (erasedOk, go, dev) \<leftarrow>
           (if \<not> skipErasedCheck bi then do {
              (erasedOk, dev) \<leftarrow> yaffs_CheckChunkErased d1 ch;
              if erasedOk \<noteq> YAFFS_OK then Some (erasedOk, False, dev)
              else do {
                bi \<leftarrow> yaffs_GetBlockInfo dev b;
                Some (erasedOk, True, setBlockInfo dev b (bi\<lparr>skipErasedCheck := True\<rparr>))
              }
            } else Some (0, True, d1));
         if \<not> go then again ch (att + 1) ok tags dev
         else do {
           (writeOk, tags, dev) \<leftarrow> yaffs_WriteChunkWithTagsToNAND dev ch (Some data) tags;
           if writeOk \<noteq> YAFFS_OK then do {
             dev \<leftarrow> yaffs_HandleWriteChunkError dev ch erasedOk;
             again ch (att + 1) writeOk tags dev
           } else again ch (att + 1) writeOk tags dev
         }
       }
     }) = Some (c, att', ok', tags', d')"
    using Suc.prems(1) unfolding writeNewChunk_loop.simps again_def [symmetric] Let_def [of again] Let_def [of "att + 1"]
    by (elim bind_eq_Some_conv [THEN iffD1, THEN exE]) (auto split del: if_split)
  note h = AllocateChunk_holding [OF Suc.prems(2) al]
  show ?case
  proof (cases "ch < 0")
    case True
    with rest h Suc.prems(3) show ?thesis by auto
  next
    case False
    then obtain p where p: "ch = b * nChunksPerBlock d0 + p" "holding d0 d1 b p" using h by auto
    obtain bi where bi: "yaffs_GetBlockInfo d1 b = Some bi" using rest False by (auto simp: bind_eq_Some_conv)
    show ?thesis
    proof (cases "gcPrioritise bi")
      case True
      with rest False bi obtain d2 where "yaffs_DeleteChunk d1 ch True = Some d2" "again ch att ok tags d2 = Some (c, att', ok', tags', d')"
        by (auto simp: bind_eq_Some_conv)
      with holding_delete [OF p(2)] p(1) failed Suc.prems(3) show ?thesis by blast
    next
      case np: False
      show ?thesis
        by (rule write_attempt [OF p(2,1) Suc.prems(3), of bi "again ch (att + 1)" tags data])
          (use rest False bi np failed p(1) in \<open>simp del: bind_assoc split del: if_split, (blast | auto simp: again_def holding_def)+\<close>)
    qed
  qed
qed simp

end
