(* ===== verification/BlockSteps.thy ===== *)
theory BlockSteps
  imports BlockWrite
begin

text \<open>
  The block manager as a transition system. Every operation that the file layer calls keeps the
  invariant, so it holds in every state reachable from a mounted device. From it follow the
  properties of the allocator, of deletion and of writing, and that the driver's own run-time
  checks of its counters stay silent.
\<close>

section \<open>The steps\<close>

text \<open>
  The file layer deletes only chunks in use that it has not softly deleted, and softly deletes only
  as many chunks of a block as are in use. The garbage collector takes full blocks, and
  a block without chunks in use left is erased.
\<close>

definition soft_deletable :: "'f yaffs_Device \<Rightarrow> int \<Rightarrow> bool" where
  "soft_deletable d b \<longleftrightarrow> valid_block d b \<and> blockState (blk d b) \<in> {YAFFS_BLOCK_STATE_ALLOCATING, YAFFS_BLOCK_STATE_FULL} \<and>
     softDeletions (blk d b) < pagesInUse (blk d b)"

inductive block_step :: "'f yaffs_Device \<Rightarrow> 'f yaffs_Device \<Rightarrow> bool" where
  alloc: "yaffs_AllocateChunk d r = Some (c, b, d') \<Longrightarrow> block_step d d'"
| new_chunk: "yaffs_WriteNewChunkWithTagsToNAND fuel d data tags r = Some (c, t, d') \<Longrightarrow> block_step d d'"
| delete: "removable d (chunk div nChunksPerBlock d) (chunk mod nChunksPerBlock d) \<Longrightarrow>
    yaffs_DeleteChunk d chunk m = Some d' \<Longrightarrow> block_step d d'"
| soft_delete: "soft_deletable d (chunk div nChunksPerBlock d) \<Longrightarrow> yaffs_SoftDeleteChunk d chunk = Some d' \<Longrightarrow> block_step d d'"
| collect: "valid_block d b \<Longrightarrow> blockState (blk d b) = YAFFS_BLOCK_STATE_FULL \<Longrightarrow> startCollecting d b = Some d' \<Longrightarrow> block_step d d'"
| erase: "valid_block d b \<Longrightarrow> blockState (blk d b) = YAFFS_BLOCK_STATE_COLLECTING \<Longrightarrow>
    yaffs_StillSomeChunkBits d b = Some False \<Longrightarrow> yaffs_BlockBecameDirty d b = Some d' \<Longrightarrow> block_step d d'"
| invalidate: "yaffs_InvalidateCheckpoint d = Some d' \<Longrightarrow> block_step d d'"
| read: "yaffs_ReadChunkWithTagsFromNAND d chunk buf tags = Some (r, buf', tags', d') \<Longrightarrow> block_step d d'"
| chunk_error: "yaffs_HandleChunkError d b = Some d' \<Longrightarrow> block_step d d'"

inductive block_steps :: "'f yaffs_Device \<Rightarrow> 'f yaffs_Device \<Rightarrow> bool" where
  start: "block_steps d d"
| more: "block_steps d d' \<Longrightarrow> block_step d' d'' \<Longrightarrow> block_steps d d''"

section \<open>Each step keeps the invariant\<close>

lemma block_inv_geometry: "block_inv d \<Longrightarrow> geometry d"
  by (simp add: block_inv_def blocks_ok_def)

lemma block_inv_ok: "block_inv d \<Longrightarrow> valid_block d b \<Longrightarrow> block_ok d b (blk d b)"
  by (simp add: block_inv_def blocks_ok_def)

lemma count_bits_zero: "(\<Sum>b\<leftarrow>bs. int (pop_count b)) = 0 \<longleftrightarrow> (\<forall>b\<in>set bs. b = 0)" for bs :: "u8 list"
proof (induction bs)
  case (Cons a bs)
  have "0 \<le> (\<Sum>b\<leftarrow>bs. int (pop_count b))" by (rule sum_list_nonneg) auto
  with Cons.IH show ?case by (simp add: add_nonneg_eq_0_iff)
qed simp

lemma StillSomeChunkBits_eq:
  assumes "geometry d" and "valid_block d b"
  shows "yaffs_StillSomeChunkBits d b = Some (used d b \<noteq> {})"
proof -
  let ?bs = "take (nat (chunkBitmapStride d)) (drop (nat (chunkBitmapStride d * (b - internalStartBlock d))) (chunkBits d))"
  have v: "\<not> (b < internalStartBlock d \<or> b > internalEndBlock d)" using assms(2) by (auto simp: valid_block_def)
  have "yaffs_CountChunkBits d b = Some (\<Sum>x\<leftarrow>?bs. int (pop_count x))"
    unfolding yaffs_CountChunkBits_def yaffs_BlockBits_def if_not_P [OF v] by (simp add: fold_count)
  then have "int (card (used d b)) = (\<Sum>x\<leftarrow>?bs. int (pop_count x))" using CountChunkBits_eq [OF assms] by simp
  then have "used d b = {} \<longleftrightarrow> (\<forall>x\<in>set ?bs. x = 0)"
    unfolding count_bits_zero [symmetric] using card_eq_0_iff [of "used d b"] by auto
  then show ?thesis
    unfolding yaffs_StillSomeChunkBits_def yaffs_BlockBits_def if_not_P [OF v] by (auto simp: list_ex_iff)
qed

lemma grown_refl: "block_inv d \<Longrightarrow> grown d d"
  by (simp add: grown_def)

lemma kept_grown:
  assumes "block_inv d" and "kept d d'" and "writeChunkWithTagsToNAND d' = writeChunkWithTagsToNAND d"
  shows "grown d d'"
proof -
  have "untouched d d'" using keptD(7,9) [OF assms(2)] by (simp add: untouched_def)
  with assms show ?thesis by (simp add: grown_def block_inv_gaps keptD)
qed

lemma InvalidateCheckpoint_grown:
  assumes "block_inv d" and "yaffs_InvalidateCheckpoint d = Some d'"
  shows "grown d d'"
proof -
  have "kept d d'" using kept_Invalidate [OF _ _ assms(2)] assms(1) by (simp add: block_inv_gaps)
  with InvalidateCheckpoint_geo [OF assms(2)] show ?thesis
    using kept_grown [OF assms(1)] by (simp add: same_geo_def)
qed

lemma holding_trans:
  assumes "grown d d'" and "holding d' d'' b p"
  shows "holding d d'' b p"
proof -
  have g: "grown d d''" using grown_trans [OF assms(1)] assms(2) by (simp add: holding_def)
  have f: "nChunksPerBlock d' = nChunksPerBlock d" "valid_block d' b = valid_block d b" "valid_block d b \<Longrightarrow> used d b \<subseteq> used d' b"
    using assms(1) by (simp_all add: grown_def)
  show ?thesis using assms(2) g f by (auto simp: holding_def)
qed

lemma WriteNewChunk_stages:
  assumes "yaffs_WriteNewChunkWithTagsToNAND fuel d data tags r = Some (c, t, d')"
  shows "\<exists>d1 ch att ok d2. yaffs_InvalidateCheckpoint d = Some d1 \<and>
    writeNewChunk_loop fuel data r 0 0 tags d1 = Some (ch, att, ok, t, d2) \<and> c = (if ok = 0 then -1 else ch) \<and> same_core d2 d'"
proof -
  obtain d1 ch att ok d2 where "yaffs_InvalidateCheckpoint d = Some d1"
    "writeNewChunk_loop fuel data r 0 0 tags d1 = Some (ch, att, ok, t, d2)" "c = (if ok = 0 then -1 else ch)"
    "d' = (if att > 1 then d2\<lparr>nRetriedWrites := nRetriedWrites d2 + (att - 1)\<rparr> else d2)"
    using assms unfolding yaffs_WriteNewChunkWithTagsToNAND_def Let_def
    by (auto simp: bind_eq_Some_conv split del: if_split)
  then show ?thesis
    by (intro exI [of _ d1] exI [of _ ch] exI [of _ att] exI [of _ ok] exI [of _ d2]) (simp add: same_core_def)
qed

lemma WriteNewChunk_grown:
  assumes "block_inv d" and "yaffs_WriteNewChunkWithTagsToNAND fuel d data tags r = Some (c, t, d')"
  shows "grown d d'"
proof -
  obtain d1 ch att ok d2 where s: "yaffs_InvalidateCheckpoint d = Some d1"
    "writeNewChunk_loop fuel data r 0 0 tags d1 = Some (ch, att, ok, t, d2)" "same_core d2 d'"
    using WriteNewChunk_stages [OF assms(2)] by blast
  have g: "grown d d1" using InvalidateCheckpoint_grown [OF assms(1) s(1)] .
  have "grown d d2" using writeNewChunk_loop_grown [OF s(2) g] by (simp add: YAFFS_OK_def)
  then show ?thesis using grown_core s(3) by blast
qed

lemma block_step_inv: "block_step d d' \<Longrightarrow> block_inv d \<Longrightarrow> block_inv d'"
proof (induction rule: block_step.induct)
  case (alloc d r c b d')
  with AllocateChunk_inv [of d r] show ?case by simp
next
  case (new_chunk fuel d data tags r c t d')
  with WriteNewChunk_grown show ?case by (fastforce simp: grown_def)
next
  case (delete d chunk m d')
  with DeleteChunk_inv show ?case by blast
next
  case (soft_delete d chunk d')
  then show ?case using SoftDeleteChunk_inv [of d _ chunk d'] by (simp add: soft_deletable_def)
next
  case (collect d b d')
  with startCollecting_inv show ?case by blast
next
  case (erase d b d')
  have "used d b = {}" using StillSomeChunkBits_eq [OF block_inv_geometry [OF erase.prems] erase.hyps(1)] erase.hyps(3) by simp
  then have "pagesInUse (blk d b) = 0" using block_inv_ok [OF erase.prems erase.hyps(1)] by (simp add: block_ok_def)
  with erase BlockBecameDirty_inv show ?case by blast
next
  case (invalidate d d')
  with InvalidateCheckpoint_inv show ?case by blast
next
  case (read d chunk buf tags r buf' tags' d')
  with ReadChunkWithTags_core same_core_inv show ?case by blast
next
  case (chunk_error d b d')
  with HandleChunkError_core same_core_inv show ?case by blast
qed

lemma block_steps_inv: "block_steps d d' \<Longrightarrow> block_inv d \<Longrightarrow> block_inv d'"
  by (induction rule: block_steps.induct) (auto intro: block_step_inv)


section \<open>What the run-time verification can say\<close>

lemma used_le: "block_inv d \<Longrightarrow> valid_block d b \<Longrightarrow> 0 \<le> pagesInUse (blk d b) \<and> pagesInUse (blk d b) \<le> nChunksPerBlock d"
proof -
  assume a: "block_inv d" "valid_block d b"
  have "used d b \<subseteq> {0..<nChunksPerBlock d}" "pagesInUse (blk d b) = int (card (used d b))"
    using block_inv_ok [OF a] by (simp_all add: block_ok_def)
  moreover have "0 < nChunksPerBlock d" using block_inv_geometry [OF a(1)] by (simp add: geometry_def)
  ultimately show ?thesis using card_mono [of "{0..<nChunksPerBlock d}" "used d b"] by simp
qed

text \<open>A complaint that a state satisfying the invariant may still raise.\<close>

definition explained :: "'f yaffs_Device \<Rightarrow> complaint \<Rightarrow> bool" where
  "explained d c = (case c of
     BadRunState b \<Rightarrow> blockState (blk d b) \<in> {YAFFS_BLOCK_STATE_UNKNOWN, YAFFS_BLOCK_STATE_SCANNING, YAFFS_BLOCK_STATE_NEEDS_SCANNING}
   | IllegalValues b \<Rightarrow> blockState (blk d b) \<notin> {YAFFS_BLOCK_STATE_EMPTY, YAFFS_BLOCK_STATE_ALLOCATING, YAFFS_BLOCK_STATE_FULL, YAFFS_BLOCK_STATE_CHECKPOINT}
   | SuspectSequence b \<Rightarrow> isYaffs2 d \<and> (bi_sequenceNumber (blk d b) < YAFFS_LOWEST_SEQUENCE_NUMBER \<or> bi_sequenceNumber (blk d b) > 10000000)
   | TooManyCollecting \<Rightarrow> nBlocksPerState d YAFFS_BLOCK_STATE_COLLECTING > 1
   | _ \<Rightarrow> False)"

lemma VerifyBlock_explained:
  assumes "block_inv d" and "valid_block d b"
  shows "\<exists>cs. yaffs_VerifyBlock d (blk d b) b = Some cs \<and> (\<forall>c\<in>set cs. explained d c)"
proof -
  have ok: "block_ok d b (blk d b)" using block_inv_ok [OF assms] .
  note le = used_le [OF assms]
  have c: "yaffs_CountChunkBits d b = Some (pagesInUse (blk d b))"
    using CountChunkBits_eq [OF block_inv_geometry [OF assms(1)] assms(2)] ok by (simp add: block_ok_def)
  have "0 \<le> softDeletions (blk d b)" and "blockState (blk d b) \<in> {YAFFS_BLOCK_STATE_EMPTY, YAFFS_BLOCK_STATE_CHECKPOINT} \<Longrightarrow>
      pagesInUse (blk d b) = 0 \<and> softDeletions (blk d b) = 0"
    and "blockState (blk d b) \<in> {YAFFS_BLOCK_STATE_ALLOCATING, YAFFS_BLOCK_STATE_FULL} \<Longrightarrow> softDeletions (blk d b) \<le> pagesInUse (blk d b)"
    using ok unfolding block_ok_def by blast+
  with le c show ?thesis by (auto simp: yaffs_VerifyBlock_def explained_def)
qed

lemma verifyBlocks_explained:
  assumes "block_inv d" and "\<forall>b\<in>set bs. valid_block d b"
  shows "\<exists>cs. verifyBlocks_loop bs d = Some cs \<and> (\<forall>c\<in>set cs. explained d c)"
  using assms(2)
proof (induction bs)
  case (Cons b bs)
  obtain x y where "yaffs_VerifyBlock d (blk d b) b = Some x" "\<forall>c\<in>set x. explained d c"
      "verifyBlocks_loop bs d = Some y" "\<forall>c\<in>set y. explained d c"
    using Cons VerifyBlock_explained [OF assms(1), of b] by auto
  with Cons.prems show ?case by (auto simp: GetBlockInfo_blk [OF block_inv_geometry [OF assms(1)]])
qed simp

lemma one_allocating:
  assumes "block_inv d"
  shows "nBlocksPerState d YAFFS_BLOCK_STATE_ALLOCATING \<le> 1"
proof -
  let ?S = "{i. i < length (blockInfo d) \<and> blockState (blockInfo d ! i) = YAFFS_BLOCK_STATE_ALLOCATING}"
  have g: "geometry d" using block_inv_geometry [OF assms] .
  have "i = nat (allocationBlock d - internalStartBlock d)" if "i \<in> ?S" for i
  proof -
    have "valid_block d (int i + internalStartBlock d)" using that g by (auto simp: valid_block_def geometry_def)
    from block_inv_ok [OF assms this] that show ?thesis by (auto simp: block_ok_def)
  qed
  then have "?S \<subseteq> {nat (allocationBlock d - internalStartBlock d)}" by blast
  then have "card ?S \<le> 1" by (metis card_mono finite.emptyI finite_insert is_singletonI is_singleton_altdef)
  then show ?thesis by (simp add: nBlocksPerState_def length_filter_conv_card)
qed

lemma VerifyBlocks_explained:
  assumes "block_inv d"
  shows "\<exists>cs. yaffs_VerifyBlocks d = Some cs \<and> (\<forall>c\<in>set cs. explained d c)"
proof -
  obtain cs where "verifyBlocks_loop [internalStartBlock d..internalEndBlock d] d = Some cs" "\<forall>c\<in>set cs. explained d c"
    using verifyBlocks_explained [OF assms, of "[internalStartBlock d..internalEndBlock d]"] by (auto simp: valid_block_def)
  with one_allocating [OF assms] assms show ?thesis
    by (auto simp: yaffs_VerifyBlocks_def explained_def block_inv_def erased_gap_def)
qed

section \<open>Counting free chunks\<close>

lemma countFree_loop_eq:
  "geometry d \<Longrightarrow> \<forall>b\<in>set bs. valid_block d b \<Longrightarrow> countFree_loop bs n d = Some (n + (\<Sum>b\<leftarrow>bs.
     if counts_free (blockState (blk d b)) then nChunksPerBlock d - pagesInUse (blk d b) + softDeletions (blk d b) else 0))"
  by (induction bs arbitrary: n) (auto simp: GetBlockInfo_blk)

lemma blocks_in_order:
  assumes "geometry d"
  shows "map (blk d) [internalStartBlock d..internalEndBlock d] = blockInfo d"
  using assms by (intro nth_equalityI) (auto simp: geometry_def)

lemma CountFreeChunks_eq:
  assumes "geometry d"
  shows "yaffs_CountFreeChunks d = Some (\<Sum>bi\<leftarrow>blockInfo d.
    if counts_free (blockState bi) then nChunksPerBlock d - pagesInUse bi + softDeletions bi else 0)"
  using countFree_loop_eq [OF assms, of "[internalStartBlock d..internalEndBlock d]" 0]
    arg_cong [OF blocks_in_order [OF assms], of "\<lambda>bis. \<Sum>bi\<leftarrow>bis.
      if counts_free (blockState bi) then nChunksPerBlock d - pagesInUse bi + softDeletions bi else 0"]
  by (simp add: yaffs_CountFreeChunks_def valid_block_def o_def)

text \<open>The soft deletions of blocks under collection, which the count takes in once more.\<close>

definition collecting_soft :: "'f yaffs_Device \<Rightarrow> int" where
  "collecting_soft d = (\<Sum>bi\<leftarrow>blockInfo d. if blockState bi = YAFFS_BLOCK_STATE_COLLECTING then softDeletions bi else 0)"

lemma CountFreeChunks_inv:
  assumes "block_inv d"
  shows "yaffs_CountFreeChunks d = Some (nFreeChunks d + collecting_soft d)"
proof -
  have "(\<Sum>bi\<leftarrow>bis. if counts_free (blockState bi) then n - pagesInUse bi + softDeletions bi else 0) =
      (\<Sum>bi\<leftarrow>bis. free_of n bi) + (\<Sum>bi\<leftarrow>bis. if blockState bi = YAFFS_BLOCK_STATE_COLLECTING then softDeletions bi else 0)" for bis n
    by (induction bis) (auto simp: counts_free_def free_of_def)
  then show ?thesis
    using CountFreeChunks_eq [OF block_inv_geometry [OF assms]] assms
    by (simp add: block_inv_def free_gap_def free_sum_def collecting_soft_def)
qed

end
