(* ===== verification/BlockTotal.thy ===== *)
theory BlockTotal
  imports BlockSteps
begin

text \<open>
  Writing a new chunk ends. The driver's entry points are there and the invariant holds; then no operation
  of the block manager leaves its arrays, and the loop of attempts stops: each turn
  is an attempt, of which there are at most yaffs_wr_attempts and one, or uses up a page of a block that
  waits for collection, of which there are finitely many.
\<close>

section \<open>The set-up of a device\<close>

text \<open>
  The driver's entry points are there, a read fills the buffer it is given, and the buffers have the size of a page.
\<close>

definition fills :: "('f \<Rightarrow> int \<Rightarrow> u8 list option \<Rightarrow> yaffs_ExtendedTags \<Rightarrow> int \<times> u8 list option \<times> yaffs_ExtendedTags \<times> 'f) \<Rightarrow> bool" where
  "fills rd \<longleftrightarrow> (\<forall>f c b t. \<exists>b'. fst (snd (rd f c (Some b) t)) = Some b' \<and> length b' = length b)"

definition wired :: "'f yaffs_Device \<Rightarrow> bool" where
  "wired d \<longleftrightarrow> eraseBlockInNAND d \<noteq> None \<and> markNANDBlockBad d \<noteq> None \<and> writeChunkWithTagsToNAND d \<noteq> None \<and>
     (\<exists>rd. readChunkWithTagsFromNAND d = Some rd \<and> fills rd) \<and> (\<forall>a. nat (nDataBytesPerChunk d) \<le> length (heap d a))"

definition setup_kept :: "'f yaffs_Device \<Rightarrow> 'f yaffs_Device \<Rightarrow> bool" where
  "setup_kept d d' \<longleftrightarrow> (wired d \<longrightarrow> wired d') \<and> yaffs_wr_attempts d' = yaffs_wr_attempts d"

lemma setup_kept_refl [simp]: "setup_kept d d"
  by (simp add: setup_kept_def)

lemma setup_kept_trans: "setup_kept d d' \<Longrightarrow> setup_kept d' d'' \<Longrightarrow> setup_kept d d''"
  by (simp add: setup_kept_def)

lemma setup_kept_upd [simp]:
  "setup_kept d (d\<lparr>genericDevice := f\<rparr>)" "setup_kept d (setBlockInfo d b bi)" "setup_kept d (d\<lparr>nErasedBlocks := x\<rparr>)"
  "setup_kept d (d\<lparr>nFreeChunks := x\<rparr>)" "setup_kept d (d\<lparr>blocksInCheckpoint := x\<rparr>)" "setup_kept d (d\<lparr>isCheckpointed := y\<rparr>)"
  "setup_kept d (d\<lparr>nRetiredBlocks := x\<rparr>)" "setup_kept d (d\<lparr>nErasureFailures := x\<rparr>)" "setup_kept d (d\<lparr>chunkBits := z\<rparr>)"
  "setup_kept d (d\<lparr>hasPendingPrioritisedGCs := y\<rparr>)" "setup_kept d (d\<lparr>nBlockErasures := x\<rparr>)" "setup_kept d (d\<lparr>nDeletions := x\<rparr>)"
  "setup_kept d (d\<lparr>nUnmarkedDeletions := x\<rparr>)"
  by (simp_all add: setup_kept_def wired_def setBlockInfo_def)

text \<open>How many pages of a block can still be allocated although it waits for collection.\<close>

definition slack :: "'f yaffs_Device \<Rightarrow> int \<Rightarrow> int" where
  "slack d b =
     (let bi = blk d b in
      if blockState bi = YAFFS_BLOCK_STATE_CHECKPOINT then nChunksPerBlock d
      else if \<not> gcPrioritise bi then 0
      else if blockState bi = YAFFS_BLOCK_STATE_EMPTY then nChunksPerBlock d
      else if blockState bi = YAFFS_BLOCK_STATE_ALLOCATING then nChunksPerBlock d - allocationPage d else 0)"

lemma slack_cong:
  "blockState (blk d' b) = blockState (blk d b) \<Longrightarrow> gcPrioritise (blk d' b) = gcPrioritise (blk d b) \<Longrightarrow>
   nChunksPerBlock d' = nChunksPerBlock d \<Longrightarrow> allocationPage d' = allocationPage d \<Longrightarrow> slack d' b = slack d b"
  by (simp only: slack_def Let_def)

definition total_slack :: "'f yaffs_Device \<Rightarrow> int" where
  "total_slack d = (\<Sum>b\<in>{internalStartBlock d..internalEndBlock d}. slack d b)"

definition slack_le :: "'f yaffs_Device \<Rightarrow> 'f yaffs_Device \<Rightarrow> bool" where
  "slack_le d d' \<longleftrightarrow> nChunksPerBlock d' = nChunksPerBlock d \<and> internalStartBlock d' = internalStartBlock d \<and>
     internalEndBlock d' = internalEndBlock d \<and> (\<forall>b. valid_block d b \<longrightarrow> slack d' b \<le> slack d b)"

lemma slack_le_refl [simp]: "slack_le d d"
  by (simp add: slack_le_def)

lemma slack_le_trans: "slack_le d d' \<Longrightarrow> slack_le d' d'' \<Longrightarrow> slack_le d d''"
  unfolding slack_le_def valid_block_def by (metis order_trans)

lemma slack_le_total: "slack_le d d' \<Longrightarrow> total_slack d' \<le> total_slack d"
  by (auto simp: slack_le_def total_slack_def valid_block_def intro: sum_mono)

text \<open>What reading a chunk of a block changes: the counters, and the flags of that block.\<close>

definition quiet :: "int \<Rightarrow> 'f yaffs_Device \<Rightarrow> 'f yaffs_Device \<Rightarrow> bool" where
  "quiet b d d' \<longleftrightarrow> same_core d d' \<and> setup_kept d d' \<and> (\<forall>c. valid_block d c \<longrightarrow> c \<noteq> b \<longrightarrow> gcPrioritise (blk d' c) = gcPrioritise (blk d c))"

lemma quiet_refl [simp]: "quiet b d d"
  by (simp add: quiet_def)

lemma quiet_trans: "quiet b d d' \<Longrightarrow> quiet b d' d'' \<Longrightarrow> quiet b d d''"
  unfolding quiet_def using same_core_trans setup_kept_trans same_core_valid by metis

lemma quietD: "quiet b d d' \<Longrightarrow> same_core d d'" "quiet b d d' \<Longrightarrow> setup_kept d d'"
  by (simp_all add: quiet_def)

lemma quiet_same_blocks:
  "same_core d d' \<Longrightarrow> setup_kept d d' \<Longrightarrow> blockInfo d' = blockInfo d \<Longrightarrow> quiet b d d'"
  by (simp add: quiet_def same_coreD(4))

section \<open>Operations that always return\<close>

lemma HandleChunkError_total:
  assumes "geometry d" and "valid_block d b"
  shows "\<exists>d'. yaffs_HandleChunkError d b = Some d' \<and> quiet b d d' \<and> nDataBytesPerChunk d' = nDataBytesPerChunk d"
proof -
  have r: "yaffs_HandleChunkError d b \<noteq> None" using assms by (auto simp: yaffs_HandleChunkError_def GetBlockInfo_blk)
  then obtain d' where d': "yaffs_HandleChunkError d b = Some d'" by auto
  have "setup_kept d d'"
    using d' assms setup_kept_trans [OF setup_kept_upd(10) setup_kept_upd(2)]
    by (auto simp: yaffs_HandleChunkError_def GetBlockInfo_blk Let_def split: if_splits)
  moreover have "blk d' c = blk d c" if "valid_block d c" "c \<noteq> b" for c
    using d' that assms by (auto simp: yaffs_HandleChunkError_def GetBlockInfo_blk Let_def setBlockInfo_def valid_block_def
        nth_list_update split: if_splits)
  moreover have "nDataBytesPerChunk d' = nDataBytesPerChunk d"
    using d' assms by (auto simp: yaffs_HandleChunkError_def GetBlockInfo_blk Let_def setBlockInfo_def split: if_splits)
  ultimately show ?thesis using d' HandleChunkError_core by (auto simp: quiet_def)
qed

lemma ReadChunkWithTags_total:
  assumes "geometry d" and "wired d" and "valid_block d (c div nChunksPerBlock d)"
  shows "\<exists>r b' t' d'. yaffs_ReadChunkWithTagsFromNAND d c b t = Some (r, b', t', d') \<and> quiet (c div nChunksPerBlock d) d d' \<and>
    (\<forall>x. b = Some x \<longrightarrow> (\<exists>y. b' = Some y \<and> length y = length x)) \<and> nDataBytesPerChunk d' = nDataBytesPerChunk d"
proof -
  obtain rd where rd: "readChunkWithTagsFromNAND d = Some rd" "fills rd" using assms(2) by (auto simp: wired_def)
  obtain r b' t' f where x: "rd (genericDevice d) (c - chunkOffset d) b t = (r, b', t', f)" by (metis surj_pair)
  let ?d = "d\<lparr>genericDevice := f\<rparr>"
  have q: "quiet (c div nChunksPerBlock d) d ?d" by (rule quiet_same_blocks) (simp_all add: generic_core)
  have "geometry ?d" "valid_block ?d (c div nChunksPerBlock d)" using assms by (simp_all add: geometry_def valid_block_def)
  from HandleChunkError_total [OF this] obtain d2 where "yaffs_HandleChunkError ?d (c div nChunksPerBlock d) = Some d2"
    "quiet (c div nChunksPerBlock d) ?d d2" "nDataBytesPerChunk d2 = nDataBytesPerChunk ?d" by blast
  moreover have "\<exists>y. b' = Some y \<and> length y = length z" if "b = Some z" for z
    using rd(2) x that unfolding fills_def by (metis fst_conv snd_conv)
  ultimately show ?thesis
    using q quiet_trans [OF q] by (simp add: yaffs_ReadChunkWithTagsFromNAND_def rd(1) x)
qed

lemma CheckChunkErased_total:
  assumes "geometry d" and "wired d" and "valid_block d (c div nChunksPerBlock d)"
  shows "\<exists>r d'. yaffs_CheckChunkErased d c = Some (r, d') \<and> quiet (c div nChunksPerBlock d) d d'"
proof -
  let ?b = "c div nChunksPerBlock d"
  obtain a d1 where a: "yaffs_GetTempBuffer d 896 = (a, d1)" by (metis surj_pair)
  have c1: "same_core d d1" using GetTempBuffer_core [of d 896] a by simp
  have "setup_kept d d1" "blockInfo d1 = blockInfo d"
    using a by (auto simp: yaffs_GetTempBuffer_def Let_def setup_kept_def wired_def split: option.splits if_splits)
  then have q1: "quiet ?b d d1" by (intro quiet_same_blocks [OF c1])
  have "geometry d1" "wired d1" "valid_block d1 (c div nChunksPerBlock d1)" and n: "nChunksPerBlock d1 = nChunksPerBlock d"
    using assms same_core_geometry [OF c1] same_core_valid [OF c1] same_coreD(3) [OF c1] \<open>setup_kept d d1\<close> by (simp_all add: setup_kept_def)
  from ReadChunkWithTags_total [OF this(1-3), of "Some (heap d1 a)" "stackExtTags d1"] n obtain r b t d2 where
    2: "yaffs_ReadChunkWithTagsFromNAND d1 c (Some (heap d1 a)) (stackExtTags d1) = Some (r, b, t, d2)" "quiet ?b d1 d2"
      "\<exists>b'. b = Some b' \<and> length b' = length (heap d1 a)" "nDataBytesPerChunk d2 = nDataBytesPerChunk d1" by auto
  obtain content where b: "b = Some content" "length content = length (heap d1 a)"
    using 2(3) by auto
  have w2: "wired d2" using quietD(2) [OF 2(2)] \<open>wired d1\<close> by (simp add: setup_kept_def)
  have len: "nat (nDataBytesPerChunk d2) \<le> length content" using \<open>wired d1\<close> b(2) 2(4) by (simp add: wired_def)
  have "wired (yaffs_ReleaseTempBuffer (d2\<lparr>heap := (heap d2)(a := content)\<rparr>) a)"
    using w2 len by (auto simp: yaffs_ReleaseTempBuffer_def wired_def split: option.splits)
  then have "quiet ?b d2 (yaffs_ReleaseTempBuffer (d2\<lparr>heap := (heap d2)(a := content)\<rparr>) a)"
    by (intro quiet_same_blocks) (auto simp: yaffs_ReleaseTempBuffer_def same_core_def setup_kept_def split: option.splits)
  moreover obtain ff where "yaffs_CheckFF content (nat (nDataBytesPerChunk d2)) = Some ff" using CheckFF_total [OF len] by blast
  ultimately show ?thesis
    using 2(1) b(1) quiet_trans [OF quiet_trans [OF q1 2(2)]] by (simp add: yaffs_CheckChunkErased_def a Let_def)
qed

lemma quiet_state:
  assumes "quiet b d d'"
  shows "geometry d' = geometry d" "valid_block d' c = valid_block d c" "nChunksPerBlock d' = nChunksPerBlock d"
    "wired d \<Longrightarrow> wired d'"
  using same_core_geometry [OF quietD(1) [OF assms]] same_core_valid [OF quietD(1) [OF assms]]
    same_coreD(3) [OF quietD(1) [OF assms]] quietD(2) [OF assms] by (simp_all add: setup_kept_def)

lemma checkErased_loop_total:
  "geometry d \<Longrightarrow> wired d \<Longrightarrow> valid_block d b \<Longrightarrow> \<forall>c\<in>set cs. c div nChunksPerBlock d = b \<Longrightarrow>
     \<exists>d'. checkErased_loop cs d = Some d' \<and> quiet b d d'"
proof (induction cs arbitrary: d)
  case (Cons c cs)
  obtain r d1 where 1: "yaffs_CheckChunkErased d c = Some (r, d1)" "quiet b d d1"
    using CheckChunkErased_total [of d c] Cons.prems by auto
  from Cons.IH [of d1] Cons.prems quiet_state [OF 1(2)] obtain d2 where "checkErased_loop cs d1 = Some d2" "quiet b d1 d2" by auto
  with 1 show ?case using quiet_trans by auto
qed simp

lemma WriteChunkWithTags_total:
  assumes "wired d"
  shows "\<exists>r t' f. yaffs_WriteChunkWithTagsToNAND d c b t = Some (r, t', d\<lparr>genericDevice := f\<rparr>)"
  using assms by (auto simp: wired_def yaffs_WriteChunkWithTagsToNAND_def Let_def split: prod.splits)

lemma MarkBlockBad_total: "wired d \<Longrightarrow> \<exists>r f. yaffs_MarkBlockBad d b = Some (r, d\<lparr>genericDevice := f\<rparr>)"
  by (auto simp: wired_def yaffs_MarkBlockBad_def split: prod.splits)

lemma EraseBlock_total:
  "wired d \<Longrightarrow> \<exists>r f. yaffs_EraseBlockInNAND d b = Some (r, d\<lparr>nBlockErasures := nBlockErasures d + 1, genericDevice := f\<rparr>)"
  by (auto simp: wired_def yaffs_EraseBlockInNAND_def split: prod.splits)

section \<open>Retiring, erasing and deleting always return\<close>

lemma checkpointErase_step_total:
  assumes "geometry d" and "wired d" and "valid_block d i"
  shows "\<exists>d'. checkpointErase_step i d = Some d' \<and> geometry d' \<and> setup_kept d d' \<and> (\<forall>c. valid_block d' c = valid_block d c)"
proof -
  obtain er mb where e: "eraseBlockInNAND d = Some er" "markNANDBlockBad d = Some mb" using assms(2) by (auto simp: wired_def)
  show ?thesis
    using assms
    by (auto simp: checkpointErase_step_def GetBlockInfo_blk e Let_def case_prod_beta setBlockInfo_def geometry_def valid_block_def
        setup_kept_def wired_def)
qed

lemma checkpointErase_loop_total:
  "geometry d \<Longrightarrow> wired d \<Longrightarrow> \<forall>i\<in>set is. valid_block d i \<Longrightarrow>
     \<exists>d'. checkpointErase_loop is d = Some d' \<and> setup_kept d d'"
proof (induction "is" arbitrary: d)
  case (Cons i "is")
  obtain d1 where 1: "checkpointErase_step i d = Some d1" "geometry d1" "setup_kept d d1" "\<forall>c. valid_block d1 c = valid_block d c"
    using checkpointErase_step_total [of d i] Cons.prems by auto
  from Cons.IH [of d1] Cons.prems 1 obtain d2 where "checkpointErase_loop is d1 = Some d2" "setup_kept d1 d2"
    by (auto simp: setup_kept_def)
  with 1 show ?case using setup_kept_trans by auto
qed simp

lemma InvalidateCheckpoint_total:
  assumes "geometry d" and "wired d"
  shows "\<exists>d'. yaffs_InvalidateCheckpoint d = Some d' \<and> setup_kept d d'"
proof -
  have "\<forall>i\<in>set [internalStartBlock d..internalEndBlock d]. valid_block d i" by (simp add: valid_block_def)
  then have "\<exists>d'. checkpointErase_loop [internalStartBlock d..internalEndBlock d] (d\<lparr>isCheckpointed := x\<rparr>) = Some d' \<and> setup_kept d d'" for x
    using checkpointErase_loop_total [of "d\<lparr>isCheckpointed := x\<rparr>" "[internalStartBlock d..internalEndBlock d]"] assms
    by (auto simp: geometry_def wired_def valid_block_def setup_kept_def)
  then obtain d' where "checkpointErase_loop [internalStartBlock d..internalEndBlock d] (d\<lparr>isCheckpointed := False\<rparr>) = Some d'"
    "setup_kept d d'" by blast
  moreover have "setup_kept d (d'\<lparr>blocksInCheckpoint := 0\<rparr>)" if "setup_kept d d'" for d' using that by (simp add: setup_kept_def wired_def)
  ultimately show ?thesis
    by (auto simp: yaffs_InvalidateCheckpoint_def yaffs_CheckpointInvalidateStream_def yaffs_CheckpointErase_def)
qed

text \<open>The blocks after an invalidation: checkpoint blocks may be erased, the others are as before.\<close>

lemma InvalidateCheckpoint_slack:
  assumes "blocks_ok d" and "ckpt_gap d = 0" and "yaffs_InvalidateCheckpoint d = Some d'"
  shows "slack_le d d'" and "\<And>c. valid_block d c \<Longrightarrow> blockState (blk d c) \<noteq> YAFFS_BLOCK_STATE_CHECKPOINT \<Longrightarrow> blk d' c = blk d c"
proof -
  have f: "ckpt_frame d d'" using InvalidateCheckpoint_kept [OF assms] by (simp add: ckpt_kept_def)
  show b: "blk d' c = blk d c" if "valid_block d c" "blockState (blk d c) \<noteq> YAFFS_BLOCK_STATE_CHECKPOINT" for c
    using ckpt_frame_blk [OF f that] .
  have fields: "nChunksPerBlock d' = nChunksPerBlock d" "internalStartBlock d' = internalStartBlock d"
    "internalEndBlock d' = internalEndBlock d" "allocationPage d' = allocationPage d"
    "\<And>c. valid_block d c \<Longrightarrow> blockState (blk d c) = YAFFS_BLOCK_STATE_CHECKPOINT \<Longrightarrow>
        blockState (blk d' c) \<in> {YAFFS_BLOCK_STATE_CHECKPOINT, YAFFS_BLOCK_STATE_EMPTY, YAFFS_BLOCK_STATE_DEAD}"
    using f unfolding ckpt_frame_def by blast+
  have "0 < nChunksPerBlock d" using assms(1) by (simp add: blocks_ok_def geometry_def)
  then have "slack d' c \<le> slack d c" if "valid_block d c" for c
    using fields(5) [OF that] b [OF that] fields(1,4)
    by (cases "blockState (blk d c) = YAFFS_BLOCK_STATE_CHECKPOINT") (auto simp: slack_def Let_def)
  then show "slack_le d d'" using fields by (simp add: slack_le_def)
qed

definition slack_off :: "int \<Rightarrow> 'f yaffs_Device \<Rightarrow> 'f yaffs_Device \<Rightarrow> bool" where
  "slack_off b d d' \<longleftrightarrow> nChunksPerBlock d' = nChunksPerBlock d \<and> internalStartBlock d' = internalStartBlock d \<and>
     internalEndBlock d' = internalEndBlock d \<and> (\<forall>c. valid_block d c \<longrightarrow> c \<noteq> b \<longrightarrow> slack d' c \<le> slack d c)"

lemma slack_off_trans: "slack_off b d d' \<Longrightarrow> slack_off b d' d'' \<Longrightarrow> slack_off b d d''"
  unfolding slack_off_def valid_block_def by (metis order_trans)

lemma slack_le_off: "slack_le d d' \<Longrightarrow> slack_off b d d'"
  by (simp add: slack_le_def slack_off_def)

lemma slack_off_le: "slack_off b d d' \<Longrightarrow> slack d' b \<le> slack d b \<Longrightarrow> slack_le d d'"
  by (auto simp: slack_le_def slack_off_def)

lemma slack_off_same:
  "blockInfo d' = blockInfo d \<Longrightarrow> nChunksPerBlock d' = nChunksPerBlock d \<Longrightarrow> internalStartBlock d' = internalStartBlock d \<Longrightarrow>
   internalEndBlock d' = internalEndBlock d \<Longrightarrow> allocationPage d' = allocationPage d \<Longrightarrow> slack_off b d d'"
  by (simp add: slack_off_def slack_def Let_def)

lemma quiet_slack_off:
  assumes "geometry d" and "quiet b d d'"
  shows "slack_off b d d'"
proof -
  note c = quietD(1) [OF assms(2)]
  have "slack d' x = slack d x" if "valid_block d x" "x \<noteq> b" for x
    using same_core_blk [OF c assms(1) that(1)] assms(2) that same_coreD(3,10) [OF c]
    by (simp add: quiet_def slack_def core_bi_def Let_def)
  then show ?thesis using same_coreD(3-5) [OF c] by (simp add: slack_off_def)
qed

lemma slack_off_set_block:
  assumes "geometry d" and "valid_block d b"
  shows "slack_off b d (setBlockInfo d b bi)"
proof -
  have "slack (setBlockInfo d b bi) c = slack d c" if "valid_block d c" "c \<noteq> b" for c
    by (rule slack_cong; (unfold blk_set_block [OF assms that(1), of bi])?; simp add: that(2))
  then show ?thesis by (simp add: slack_off_def)
qed

lemma ClearChunkBits_total:
  "valid_block d b \<Longrightarrow> \<exists>bits. yaffs_ClearChunkBits d b = Some (d\<lparr>chunkBits := bits\<rparr>)"
  by (auto simp: yaffs_ClearChunkBits_def yaffs_BlockBits_def valid_block_def Let_def)

lemma RetireBlock_total:
  assumes "blocks_ok d" and "ckpt_gap d = 0" and "wired d" and "valid_block d b"
    and "blockState (blk d b) = YAFFS_BLOCK_STATE_DIRTY"
  shows "\<exists>d'. yaffs_RetireBlock d b = Some d' \<and> setup_kept d d' \<and> slack_off b d d' \<and> slack d' b = 0"
proof -
  have g: "geometry d" using assms(1) by (rule blocks_ok_geometry)
  obtain d1 where 1: "yaffs_InvalidateCheckpoint d = Some d1" "setup_kept d d1" using InvalidateCheckpoint_total [OF g assms(3)] by blast
  note sl = InvalidateCheckpoint_slack [OF assms(1,2) 1(1)]
  have k: "kept d d1" using kept_Invalidate [OF assms(1,2) 1(1)] .
  have g1: "geometry d1" "valid_block d1 b" using blocks_ok_geometry [OF keptD(1) [OF k]] keptD(8) [OF k] assms(4) by simp_all
  obtain r f where 2: "yaffs_MarkBlockBad d1 b = Some (r, d1\<lparr>genericDevice := f\<rparr>)"
    using MarkBlockBad_total [of d1 b] 1(2) assms(3) by (auto simp: setup_kept_def)
  let ?d2 = "d1\<lparr>genericDevice := f\<rparr>"
  let ?bi = "(blk d1 b)\<lparr>blockState := YAFFS_BLOCK_STATE_DEAD, gcPrioritise := False, needsRetiring := False\<rparr>"
  let ?d3 = "(setBlockInfo ?d2 b ?bi)\<lparr>nRetiredBlocks := nRetiredBlocks d1 + 1\<rparr>"
  have g2: "geometry ?d2" "valid_block ?d2 b" using g1 by (simp_all add: geometry_def valid_block_def)
  have run: "yaffs_RetireBlock d b = Some ?d3"
    using GetBlockInfo_blk [OF g2(1)] g2(2) by (simp add: yaffs_RetireBlock_def 1(1) 2)
  have "slack_off b d1 ?d2" "slack_off b (setBlockInfo ?d2 b ?bi) ?d3" by (rule slack_off_same; simp)+
  then have "slack_off b d ?d3"
    using slack_off_trans [OF slack_le_off [OF sl(1)]] slack_off_trans slack_off_set_block [OF g2] by metis
  moreover have "slack ?d3 b = 0"
    using blk_set_block [OF g2(1,2,2)] by (simp add: slack_def Let_def)
  moreover have "setup_kept d ?d3" using 1(2) by (simp add: setup_kept_def wired_def setBlockInfo_def)
  ultimately show ?thesis using run by blast
qed

text \<open>The part of an erasure before its outcome is recorded.\<close>

lemma erase_part_total:
  assumes "blocks_ok d" and "ckpt_gap d = 0" and "wired d" and "valid_block d b"
    and "blockState (blk d b) = YAFFS_BLOCK_STATE_DIRTY"
  shows "\<exists>e d1 dk. (if \<not> retire then do {
          dev \<leftarrow> yaffs_InvalidateCheckpoint d;
          (r, dev) \<leftarrow> yaffs_EraseBlockInNAND dev b;
          Some (r, if r = 0 then dev\<lparr>nErasureFailures := nErasureFailures dev + 1\<rparr> else dev)
        } else Some (0, d)) = Some (e, d1) \<and>
      (if e \<noteq> 0 \<and> ((yaffs_traceMask d1 AND YAFFS_TRACE_ERASE) \<noteq> 0 \<or> \<not> yaffs_SkipVerification d1)
             then checkErased_loop [b * nChunksPerBlock d1..b * nChunksPerBlock d1 + nChunksPerBlock d1 - 1] d1
             else Some d1) = Some dk \<and>
      kept d dk \<and> setup_kept d dk \<and> slack_off b d dk"
proof -
  have g: "geometry d" using assms(1) by (rule blocks_ok_geometry)
  have "\<exists>e d1. (if \<not> retire then do {
          dev \<leftarrow> yaffs_InvalidateCheckpoint d;
          (r, dev) \<leftarrow> yaffs_EraseBlockInNAND dev b;
          Some (r, if r = 0 then dev\<lparr>nErasureFailures := nErasureFailures dev + 1\<rparr> else dev)
        } else Some (0, d)) = Some (e, d1) \<and> kept d d1 \<and> setup_kept d d1 \<and> slack_off b d d1"
  proof (cases retire)
    case True
    then show ?thesis using assms(1) by (simp add: kept_def slack_off_def)
  next
    case False
    obtain da where 1: "yaffs_InvalidateCheckpoint d = Some da" "setup_kept d da" using InvalidateCheckpoint_total [OF g assms(3)] by blast
    obtain r f where 2: "yaffs_EraseBlockInNAND da b = Some (r, da\<lparr>nBlockErasures := nBlockErasures da + 1, genericDevice := f\<rparr>)"
      using EraseBlock_total [of da b] 1(2) assms(3) by (auto simp: setup_kept_def)
    let ?db = "da\<lparr>nBlockErasures := nBlockErasures da + 1, genericDevice := f\<rparr>"
    define dc where "dc = (if r = 0 then ?db\<lparr>nErasureFailures := nErasureFailures ?db + 1\<rparr> else ?db)"
    have c: "same_core da dc" "setup_kept da dc" "slack_off b da dc"
      by (auto simp: dc_def same_core_def setup_kept_def wired_def intro: slack_off_same)
    have k: "kept d da" using kept_Invalidate [OF assms(1,2) 1(1)] .
    have "kept d dc" using kept_trans [OF k kept_same_core [OF keptD(1) [OF k] c(1)]] .
    moreover have "slack_off b d dc"
      using slack_off_trans [OF slack_le_off [OF InvalidateCheckpoint_slack(1) [OF assms(1,2) 1(1)]] c(3)] .
    ultimately show ?thesis using False 1 2 c(2) setup_kept_trans by (auto simp: dc_def)
  qed
  then obtain e d1 where A: "(if \<not> retire then do {
          dev \<leftarrow> yaffs_InvalidateCheckpoint d;
          (r, dev) \<leftarrow> yaffs_EraseBlockInNAND dev b;
          Some (r, if r = 0 then dev\<lparr>nErasureFailures := nErasureFailures dev + 1\<rparr> else dev)
        } else Some (0, d)) = Some (e, d1)" "kept d d1" "setup_kept d d1" "slack_off b d d1" by blast
  have g1: "geometry d1" "wired d1" "valid_block d1 b"
    using blocks_ok_geometry [OF keptD(1) [OF A(2)]] keptD(8) [OF A(2)] A(3) assms(3,4) by (simp_all add: setup_kept_def)
  have "\<forall>c\<in>set [b * nChunksPerBlock d1..b * nChunksPerBlock d1 + nChunksPerBlock d1 - 1]. c div nChunksPerBlock d1 = b"
    using g1(1) by (auto simp: geometry_def int_div_pos_eq [of _ _ b "_ - b * nChunksPerBlock d1"])
  then obtain dk where B: "checkErased_loop [b * nChunksPerBlock d1..b * nChunksPerBlock d1 + nChunksPerBlock d1 - 1] d1 = Some dk"
    "quiet b d1 dk" using checkErased_loop_total [OF g1] by blast
  define dk' where "dk' = (if e \<noteq> 0 \<and> ((yaffs_traceMask d1 AND YAFFS_TRACE_ERASE) \<noteq> 0 \<or> \<not> yaffs_SkipVerification d1) then dk else d1)"
  have q: "quiet b d1 dk'" using B(2) by (simp add: dk'_def)
  have "kept d dk'" using kept_trans [OF A(2) kept_same_core [OF keptD(1) [OF A(2)] quietD(1) [OF q]]] .
  moreover have "setup_kept d dk'" using setup_kept_trans [OF A(3) quietD(2) [OF q]] .
  moreover have "slack_off b d dk'" using slack_off_trans [OF A(4) quiet_slack_off [OF g1(1) q]] .
  ultimately show ?thesis using A(1) B(1) unfolding dk'_def by (intro exI [of _ e] exI [of _ d1] exI [of _ dk']) (auto simp: dk'_def)
qed

lemma BlockBecameDirty_total:
  assumes "block_inv d" and "wired d" and "valid_block d b"
    and "blockState (blk d b) \<in> {YAFFS_BLOCK_STATE_FULL, YAFFS_BLOCK_STATE_COLLECTING}" and "pagesInUse (blk d b) = 0"
  shows "\<exists>d'. yaffs_BlockBecameDirty d b = Some d' \<and> setup_kept d d' \<and> slack_le d d'"
proof -
  have ok: "blocks_ok d" and gap: "ckpt_gap d = 0" using assms(1) by (simp_all add: block_inv_gaps)
  have g: "geometry d" using ok by (rule blocks_ok_geometry)
  let ?bi = "(blk d b)\<lparr>blockState := YAFFS_BLOCK_STATE_DIRTY\<rparr>"
  define d0 where "d0 = setBlockInfo d b ?bi"
  have "block_ok d b ?bi" using blocks_okD [OF ok assms(3)] assms(4) by (auto simp: block_ok_def)
  then have ok0: "blocks_ok d0" unfolding d0_def by (rule set_block_ok [OF ok assms(3)])
  have gap0: "ckpt_gap d0 = 0" using set_block_gaps [OF g assms(3), of ?bi] gap assms(4) by (auto simp: d0_def)
  have st0: "blockState (blk d0 b) = YAFFS_BLOCK_STATE_DIRTY" "valid_block d0 b" "wired d0" "slack_off b d d0" "setup_kept d d0"
    using blk_set_block [OF g assms(3,3)] slack_off_set_block [OF g assms(3)] assms(2,3)
    by (simp_all add: d0_def) (simp add: wired_def setBlockInfo_def)
  have z: "slack d b = 0" using assms(4) by (auto simp: slack_def Let_def)
  obtain e d1 dk where A: "(if \<not> needsRetiring (blk d b) then do {
          dev \<leftarrow> yaffs_InvalidateCheckpoint d0;
          (r, dev) \<leftarrow> yaffs_EraseBlockInNAND dev b;
          Some (r, if r = 0 then dev\<lparr>nErasureFailures := nErasureFailures dev + 1\<rparr> else dev)
        } else Some (0, d0)) = Some (e, d1)"
    and B: "(if e \<noteq> 0 \<and> ((yaffs_traceMask d1 AND YAFFS_TRACE_ERASE) \<noteq> 0 \<or> \<not> yaffs_SkipVerification d1)
             then checkErased_loop [b * nChunksPerBlock d1..b * nChunksPerBlock d1 + nChunksPerBlock d1 - 1] d1
             else Some d1) = Some dk" and k: "kept d0 dk" "setup_kept d0 dk" "slack_off b d0 dk"
    using erase_part_total [OF ok0 gap0 st0(3,2,1), of "needsRetiring (blk d b)"] by blast
  note kd = keptD [OF k(1)]
  have gk: "geometry dk" "valid_block dk b" "wired dk" "blockState (blk dk b) = YAFFS_BLOCK_STATE_DIRTY" "ckpt_gap dk = 0"
    using blocks_ok_geometry [OF kd(1)] kd(4,8) core_bi_eqD [OF kd(9) [OF st0(2)]] st0 gap0 k(2) by (simp_all add: setup_kept_def)
  let ?e = "(blk dk b)\<lparr>blockState := YAFFS_BLOCK_STATE_EMPTY, pagesInUse := 0, softDeletions := 0,
                    hasShrinkHeader := False, skipErasedCheck := True, gcPrioritise := False\<rparr>"
  have C: "\<exists>d'. (if e \<noteq> 0 then do {
       bi \<leftarrow> yaffs_GetBlockInfo dk b;
       let dev = (setBlockInfo dk b (bi\<lparr>blockState := YAFFS_BLOCK_STATE_EMPTY, pagesInUse := 0, softDeletions := 0,
                    hasShrinkHeader := False, skipErasedCheck := True, gcPrioritise := False\<rparr>))
                 \<lparr>nErasedBlocks := nErasedBlocks dk + 1\<rparr>;
       yaffs_ClearChunkBits dev b
     } else yaffs_RetireBlock (dk\<lparr>nFreeChunks := nFreeChunks dk - nChunksPerBlock dk\<rparr>) b) = Some d' \<and>
     setup_kept dk d' \<and> slack_off b dk d' \<and> slack d' b = 0"
  proof (cases "e = 0")
    case True
    let ?d = "dk\<lparr>nFreeChunks := nFreeChunks dk - nChunksPerBlock dk\<rparr>"
    have "wired ?d" using gk(3) by (simp add: wired_def)
    moreover have "slack_off b dk ?d" by (rule slack_off_same) simp_all
    moreover have "setup_kept dk ?d" by simp
    ultimately show ?thesis
      using RetireBlock_total [of ?d b] True kd(1) gk slack_off_trans setup_kept_trans by (fastforce simp: gaps_upd)
  next
    case False
    let ?s = "(setBlockInfo dk b ?e)\<lparr>nErasedBlocks := nErasedBlocks dk + 1\<rparr>"
    obtain bits where bits: "yaffs_ClearChunkBits ?s b = Some (?s\<lparr>chunkBits := bits\<rparr>)"
      using ClearChunkBits_total [of ?s b] gk(2) by auto
    have "slack_off b (setBlockInfo dk b ?e) (?s\<lparr>chunkBits := bits\<rparr>)" by (rule slack_off_same) simp_all
    then have "slack_off b dk (?s\<lparr>chunkBits := bits\<rparr>)" using slack_off_trans [OF slack_off_set_block [OF gk(1,2)]] by blast
    moreover have "slack (?s\<lparr>chunkBits := bits\<rparr>) b = 0"
      using blk_set_block [OF gk(1,2,2), of ?e] unfolding slack_def by (simp add: Let_def)
    moreover have "setup_kept dk (?s\<lparr>chunkBits := bits\<rparr>)" by (simp add: setup_kept_def wired_def setBlockInfo_def)
    ultimately show ?thesis using False bits gk by (simp add: GetBlockInfo_blk)
  qed
  then obtain d' where D: "(if e \<noteq> 0 then do {
       bi \<leftarrow> yaffs_GetBlockInfo dk b;
       let dev = (setBlockInfo dk b (bi\<lparr>blockState := YAFFS_BLOCK_STATE_EMPTY, pagesInUse := 0, softDeletions := 0,
                    hasShrinkHeader := False, skipErasedCheck := True, gcPrioritise := False\<rparr>))
                 \<lparr>nErasedBlocks := nErasedBlocks dk + 1\<rparr>;
       yaffs_ClearChunkBits dev b
     } else yaffs_RetireBlock (dk\<lparr>nFreeChunks := nFreeChunks dk - nChunksPerBlock dk\<rparr>) b) = Some d'"
     "setup_kept dk d'" "slack_off b dk d'" "slack d' b = 0" by blast
  have "yaffs_BlockBecameDirty d b = Some d'"
    unfolding yaffs_BlockBecameDirty_def GetBlockInfo_blk [OF g] if_P [OF assms(3)] bind.bind_lunit
      Let_def [of "setBlockInfo d b _"] d0_def [symmetric] A
    by (simp only: prod.case B bind.bind_lunit D(1))
  moreover have "slack_le d d'"
    by (rule slack_off_le [OF slack_off_trans [OF slack_off_trans [OF st0(4) k(3)] D(3)]]) (simp only: z D(4) order_refl)
  ultimately show ?thesis using setup_kept_trans [OF setup_kept_trans [OF st0(5) k(2)] D(2)] by blast
qed

lemma markDeleted_total:
  assumes "wired d"
  shows "\<exists>d'. markDeleted d c bi m = Some d' \<and> setup_kept d d' \<and> blockInfo d' = blockInfo d"
proof -
  obtain r t f where "yaffs_WriteChunkWithTagsToNAND d c None ((yaffs_InitialiseTags (stackExtTags d))\<lparr>chunkDeleted := 1\<rparr>) =
      Some (r, t, d\<lparr>genericDevice := f\<rparr>)" using WriteChunkWithTags_total [OF assms] by blast
  then show ?thesis by (auto simp: markDeleted_def)
qed

lemma removePage_total:
  assumes "block_inv d" and "wired d" and "removable d b p"
    and bi: "softDeletions bi = softDeletions (blk d b)" "blockState bi = blockState (blk d b)" "pagesInUse bi = pagesInUse (blk d b)"
      "gcPrioritise bi = gcPrioritise (blk d b)"
  shows "\<exists>d'. removePage d b p bi = Some d' \<and> setup_kept d d' \<and> slack_le d d'"
proof (cases "blockState (blk d b) \<in> {YAFFS_BLOCK_STATE_ALLOCATING, YAFFS_BLOCK_STATE_FULL, YAFFS_BLOCK_STATE_COLLECTING}")
  case st: True
  define d1 where "d1 = setBlockInfo ((put_bit d b p False)\<lparr>nFreeChunks := nFreeChunks d + 1\<rparr>) b (bi\<lparr>pagesInUse := pagesInUse bi - 1\<rparr>)"
  note s = removePage_stages [OF assms(1,3) st bi(1-3) d1_def]
  have v: "valid_block d b" using assms(3) by (simp add: removable_def)
  have f: "nChunksPerBlock d1 = nChunksPerBlock d" "internalStartBlock d1 = internalStartBlock d" "internalEndBlock d1 = internalEndBlock d"
    "allocationPage d1 = allocationPage d" by (simp_all add: d1_def put_bit_def)
  have k: "setup_kept d d1" by (simp add: d1_def setup_kept_def wired_def setBlockInfo_def put_bit_def)
  have "slack d1 c = slack d c" if "valid_block d c" for c
    by (rule slack_cong; (unfold s(4) [OF that])?; cases "c = b"; simp add: bi f)
  then have l: "slack_le d d1" using f by (simp add: slack_le_def)
  show ?thesis
  proof (cases "pagesInUse bi = 1 \<and> \<not> hasShrinkHeader bi \<and> blockState bi \<noteq> YAFFS_BLOCK_STATE_ALLOCATING")
    case True
    then obtain d' where "yaffs_BlockBecameDirty d1 b = Some d'" "setup_kept d1 d'" "slack_le d1 d'"
      using BlockBecameDirty_total [OF s(2), of b] s(4) [OF v] s(5) v st bi(2) k assms(2) by (auto simp: setup_kept_def)
    with True s(1) k l setup_kept_trans slack_le_trans show ?thesis by (metis (no_types, lifting))
  next
    case False
    with s(1) k l show ?thesis by auto
  qed
next
  case False
  then show ?thesis using assms(3) bi(2) by (auto simp: removePage_def removable_def)
qed

lemma DeleteChunk_total:
  assumes "block_inv d" and "wired d" and "removable d (chunk div nChunksPerBlock d) (chunk mod nChunksPerBlock d)"
  shows "\<exists>d'. yaffs_DeleteChunk d chunk m = Some d' \<and> setup_kept d d' \<and> slack_le d d'"
proof (cases "chunk \<le> 0")
  case True
  then show ?thesis by (simp add: yaffs_DeleteChunk_def)
next
  case False
  define b p where "b = chunk div nChunksPerBlock d" and "p = chunk mod nChunksPerBlock d"
  have g: "geometry d" using assms(1) by (rule block_inv_geometry)
  have rm: "removable d b p" using assms(3) by (simp add: b_def p_def)
  then have v: "valid_block d b" "p \<in> used d b" by (simp_all add: removable_def)
  have p: "0 \<le> p" "p < nChunksPerBlock d" using g by (simp_all add: p_def geometry_def)
  define e where "e = d\<lparr>nDeletions := nDeletions d + 1\<rparr>"
  have ce: "same_core d e" "wired e" "blockInfo e = blockInfo d" "nChunksPerBlock e = nChunksPerBlock d" "setup_kept d e"
    using assms(2) by (simp_all add: e_def same_core_def wired_def setup_kept_def)
  have chk: "yaffs_CheckChunkBit e b p = Some True" "yaffs_GetBlockInfo e b = Some (blk d b)"
    using CheckChunkBit_eq [of e b p] GetBlockInfo_blk [of e b] same_core_geometry [OF ce(1)] same_core_valid [OF ce(1)]
      same_core_used [OF ce(1)] same_coreD(4) [OF ce(1)] g v p ce by simp_all
  obtain d1 where m: "markDeleted e chunk (blk d b) m = Some d1" "setup_kept e d1" "blockInfo d1 = blockInfo e"
    using markDeleted_total [OF ce(2)] by blast
  have c: "same_core d d1" using same_core_trans [OF ce(1) markDeleted_core [OF m(1)]] .
  have same: "blk d1 x = blk d x" for x using m(3) ce(3) same_coreD(4) [OF c] by simp
  have w: "wired d1" using m(2) ce(2) by (simp add: setup_kept_def)
  have "slack d1 x = slack d x" for x by (rule slack_cong) (simp_all only: same same_coreD(3,10) [OF c])
  then have "slack_le d d1" using same_coreD(3-5) [OF c] by (simp add: slack_le_def)
  moreover obtain d' where "removePage d1 b p (blk d b) = Some d'" "setup_kept d1 d'" "slack_le d1 d'"
    using removePage_total [OF same_core_inv [OF c assms(1)] w removable_core [OF c g rm], of "blk d b"] same by auto
  moreover have "setup_kept d d1" using setup_kept_trans [OF ce(5) m(2)] .
  ultimately show ?thesis
    using False chk m(1) ce(4) setup_kept_trans slack_le_trans
    unfolding yaffs_DeleteChunk_def Let_def e_def [symmetric]
    by (metis (no_types, lifting) b_def p_def bind.bind_lunit if_not_P)
qed

text \<open>An error is recorded in the flags of the block, which may give it slack again.\<close>

lemma HandleWriteChunkError_total:
  assumes "block_inv d" and "wired d" and "removable d (chunk div nChunksPerBlock d) (chunk mod nChunksPerBlock d)"
  shows "\<exists>d'. yaffs_HandleWriteChunkError d chunk e = Some d' \<and> setup_kept d d'"
proof -
  let ?b = "chunk div nChunksPerBlock d"
  have g: "geometry d" and v: "valid_block d ?b" using assms by (simp_all add: block_inv_geometry removable_def)
  obtain da where a: "yaffs_HandleChunkError d ?b = Some da" "quiet ?b d da" using HandleChunkError_total [OF g v] by blast
  have ga: "geometry da" "valid_block da ?b" using quiet_state [OF a(2)] g v by simp_all
  have ga': "yaffs_GetBlockInfo da ?b = Some (blk da ?b)" using ga by (simp add: GetBlockInfo_blk)
  define db where "db = (if e \<noteq> 0 then setBlockInfo da ?b ((blk da ?b)\<lparr>needsRetiring := True\<rparr>) else da)"
  have c: "same_core da db" "setup_kept da db" using same_core_set [OF ga'] by (simp_all add: db_def core_bi_def)
  have cd: "same_core d db" using same_core_trans [OF quietD(1) [OF a(2)] c(1)] .
  have "removable db (chunk div nChunksPerBlock db) (chunk mod nChunksPerBlock db)"
    using removable_core [OF cd g assms(3)] same_coreD(3) [OF cd] by simp
  moreover have "wired db" "setup_kept d db" using c(2) quietD(2) [OF a(2)] assms(2) by (simp_all add: setup_kept_def)
  ultimately obtain d' where "yaffs_DeleteChunk db chunk True = Some d'" "setup_kept db d'"
    using DeleteChunk_total [OF same_core_inv [OF cd assms(1)]] by blast
  then show ?thesis
    using a(1) ga' \<open>setup_kept d db\<close> setup_kept_trans by (auto simp: yaffs_HandleWriteChunkError_def Let_def db_def)
qed

section \<open>Allocation uses slack up\<close>

lemma AllocateChunk_setup:
  assumes "block_inv d" and "yaffs_AllocateChunk d r = Some (c, b, d')"
  shows "setup_kept d d'"
proof -
  have t: "setup_kept d ((taken d f)\<lparr>allocationBlock := x, allocationPage := y\<rparr>)" for f x y
    by (simp add: taken_def setup_kept_def wired_def setBlockInfo_def)
  obtain d1 where d1: "alloc_block d = Some d1" "block_inv d1" using alloc_block_inv [OF assms(1)] by blast
  have "setup_kept d d1"
  proof (cases "allocationBlock d < 0")
    case neg: True
    show ?thesis
    proof (cases "0 < nErasedBlocks d")
      case True
      with alloc_block_takes [OF assms(1) neg] d1(1) t show ?thesis by auto
    next
      case False
      with alloc_block_none [OF neg] d1(1) show ?thesis by (auto simp: setup_kept_def wired_def)
    qed
  next
    case False
    with d1(1) show ?thesis by (simp add: alloc_block_def)
  qed
  moreover have "setup_kept d1 (snd (yaffs_CheckSpaceForAllocation d1))"
    by (simp add: yaffs_CheckSpaceForAllocation_def yaffs_CalcCheckpointBlocksRequired_def Let_def setup_kept_def wired_def)
  moreover have "setup_kept d2 d'" if "block_inv d2" "0 \<le> allocationBlock d2" "takePage d2 = Some (c, b, d')" for d2
    using takePage_eq [OF that(1,2)] that(3) by (auto simp: page_taken_def Let_def put_bit_def setup_kept_def wired_def setBlockInfo_def)
  moreover have "block_inv (snd (yaffs_CheckSpaceForAllocation d1))" using same_core_inv [OF CheckSpace_core d1(2)] .
  ultimately show ?thesis
    using assms(2) d1 setup_kept_trans unfolding yaffs_AllocateChunk_def alloc_block_def [symmetric] d1(1) bind.bind_lunit
    by (auto simp: Let_def case_prod_beta split: if_splits)
qed

lemma total_slack_update:
  assumes "slack_off b d d'" and "valid_block d b"
  shows "total_slack d' \<le> total_slack d - slack d b + slack d' b"
proof -
  let ?B = "{internalStartBlock d..internalEndBlock d}"
  have b: "b \<in> ?B" "finite ?B" using assms(2) by (simp_all add: valid_block_def)
  have "(\<Sum>c\<in>?B - {b}. slack d' c) \<le> (\<Sum>c\<in>?B - {b}. slack d c)"
    using assms(1) by (intro sum_mono) (auto simp: slack_off_def valid_block_def)
  moreover have "total_slack d' = slack d' b + (\<Sum>c\<in>?B - {b}. slack d' c)"
    using assms(1) sum.remove [OF b(2,1), of "slack d'"] by (simp add: slack_off_def total_slack_def)
  moreover have "total_slack d = slack d b + (\<Sum>c\<in>?B - {b}. slack d c)"
    using sum.remove [OF b(2,1), of "slack d"] by (simp add: total_slack_def)
  ultimately show ?thesis by simp
qed

lemma alloc_block_slack:
  assumes "block_inv d" and "alloc_block d = Some d'" and "0 \<le> allocationBlock d'"
  shows "slack_le d d'"
proof (cases "allocationBlock d < 0")
  case neg: True
  have g: "geometry d" using assms(1) by (rule block_inv_geometry)
  have "0 < nErasedBlocks d" using alloc_block_none [OF neg] assms(2,3) by (cases "0 < nErasedBlocks d") auto
  then obtain f where f: "valid_block d f" "blockState (blk d f) = YAFFS_BLOCK_STATE_EMPTY"
    "d' = (taken d f)\<lparr>allocationBlock := f, allocationPage := 0\<rparr>"
    using alloc_block_takes [OF assms(1) neg] assms(2) by auto
  let ?bi = "(blk d f)\<lparr>blockState := YAFFS_BLOCK_STATE_ALLOCATING, bi_sequenceNumber := dev_sequenceNumber d + 1\<rparr>"
  have fields: "blockInfo d' = (blockInfo d)[nat (f - internalStartBlock d) := ?bi]" "nChunksPerBlock d' = nChunksPerBlock d"
    "internalStartBlock d' = internalStartBlock d" "internalEndBlock d' = internalEndBlock d" "allocationPage d' = 0"
    by (simp_all add: f(3) taken_def setBlockInfo_def)
  have b: "blk d' c = (if c = f then ?bi else blk d c)" if "valid_block d c" for c
    using update_blk [OF g f(1) that fields(1,3)] .
  have "slack d' c = slack d c" if "valid_block d c" for c
  proof (cases "c = f")
    case True
    with f(2) fields show ?thesis unfolding slack_def b [OF that] by (simp add: Let_def)
  next
    case False
    have "blockState (blk d c) \<noteq> YAFFS_BLOCK_STATE_ALLOCATING"
      using block_inv_ok [OF assms(1) that] neg that g by (auto simp: block_ok_def valid_block_def geometry_def)
    with False fields show ?thesis unfolding slack_def b [OF that] by (simp add: Let_def)
  qed
  then show ?thesis using fields by (simp add: slack_le_def)
next
  case False
  with assms(2) show ?thesis by (simp add: alloc_block_def)
qed

lemma takePage_slack:
  assumes "block_inv d" and "0 \<le> allocationBlock d"
  shows "slack_le d (page_taken d)"
    and "gcPrioritise (blk d (allocationBlock d)) \<Longrightarrow> total_slack (page_taken d) < total_slack d"
    and "gcPrioritise (blk (page_taken d) (allocationBlock d)) = gcPrioritise (blk d (allocationBlock d))"
proof -
  let ?b = "allocationBlock d"
  have g: "geometry d" using assms(1) by (rule block_inv_geometry)
  note a = allocating_state [OF assms]
  note f = page_taken_fields [OF assms]
  note b = update_blk [OF g a(1) _ f(1,4)]
  show p: "gcPrioritise (blk (page_taken d) ?b) = gcPrioritise (blk d ?b)"
    unfolding b [OF a(1)] by simp
  have "slack (page_taken d) c = slack d c" if "valid_block d c" "c \<noteq> ?b" for c
  proof -
    have "blockState (blk d c) \<noteq> YAFFS_BLOCK_STATE_ALLOCATING"
      using block_inv_ok [OF assms(1) that(1)] that(2) by (simp add: block_ok_def)
    with that f(2) show ?thesis unfolding slack_def b [OF that(1)] by (simp add: Let_def)
  qed
  then have off: "slack_off ?b d (page_taken d)" using f by (simp add: slack_off_def)
  have s: "slack d ?b = (if gcPrioritise (blk d ?b) then nChunksPerBlock d - allocationPage d else 0)"
    using a(4) by (simp add: slack_def Let_def)
  have s': "slack (page_taken d) ?b = (if gcPrioritise (blk d ?b) then nChunksPerBlock d - allocationPage d - 1 else 0)"
    unfolding slack_def p using a(3) f(2,7) unfolding b [OF a(1)] by (auto simp: Let_def)
  show "slack_le d (page_taken d)" by (rule slack_off_le [OF off]) (simp add: s s')
  show "total_slack (page_taken d) < total_slack d" if "gcPrioritise (blk d ?b)"
    using total_slack_update [OF off a(1)] that unfolding s s' by simp
qed

lemma AllocateChunk_slack:
  assumes "block_inv d" and "yaffs_AllocateChunk d r = Some (c, b, d')" and "\<not> c < 0" and "gcPrioritise (blk d' b)"
  shows "total_slack d' < total_slack d"
proof -
  obtain d1 where d1: "alloc_block d = Some d1" "block_inv d1" using alloc_block_inv [OF assms(1)] by blast
  define d2 where "d2 = (if r then d1 else snd (yaffs_CheckSpaceForAllocation d1))"
  have c: "same_core d1 d2" using CheckSpace_core by (auto simp: d2_def)
  have bi: "blockInfo d2 = blockInfo d1"
    by (simp add: d2_def yaffs_CheckSpaceForAllocation_def yaffs_CalcCheckpointBlocksRequired_def Let_def)
  have inv: "block_inv d2" using same_core_inv [OF c d1(2)] .
  have t: "takePage d2 = Some (c, b, d')" "0 \<le> allocationBlock d2"
    using assms(2,3) d1 unfolding yaffs_AllocateChunk_def alloc_block_def [symmetric] d1(1) bind.bind_lunit
    by (auto simp: d2_def Let_def case_prod_beta split: if_splits)
  then have e: "d' = page_taken d2" "b = allocationBlock d2" using takePage_eq [OF inv t(2)] by auto
  have "slack d2 x = slack d1 x" for x by (rule slack_cong) (simp_all only: bi same_coreD(3,4,10) [OF c])
  then have "total_slack d2 = total_slack d1" by (simp add: total_slack_def same_coreD(4,5) [OF c])
  also have "\<dots> \<le> total_slack d"
    using slack_le_total alloc_block_slack [OF assms(1) d1(1)] t(2) same_coreD(9) [OF c] by simp
  finally show ?thesis
    using takePage_slack(2) [OF inv t(2)] takePage_slack(3) [OF inv t(2)] assms(4) by (simp add: e)
qed

lemma total_slack_bound:
  assumes "block_inv d"
  shows "0 \<le> total_slack d" and "total_slack d \<le> nChunksPerBlock d * int (card {b. valid_block d b})"
proof -
  have g: "geometry d" using assms by (rule block_inv_geometry)
  have b: "0 \<le> slack d b \<and> slack d b \<le> nChunksPerBlock d" if "valid_block d b" for b
    using allocating_state(2,3) [OF assms] block_inv_ok [OF assms that] g that
    by (auto simp: slack_def Let_def block_ok_def geometry_def valid_block_def)
  then show "0 \<le> total_slack d" by (auto simp: total_slack_def valid_block_def intro: sum_nonneg)
  have "total_slack d \<le> (\<Sum>b\<in>{internalStartBlock d..internalEndBlock d}. nChunksPerBlock d)"
    unfolding total_slack_def using b by (intro sum_mono) (auto simp: valid_block_def)
  moreover have "{b. valid_block d b} = {internalStartBlock d..internalEndBlock d}" by (auto simp: valid_block_def)
  ultimately show "total_slack d \<le> nChunksPerBlock d * int (card {b. valid_block d b})" by (simp add: mult.commute)
qed

section \<open>The loop ends\<close>

text \<open>The turns that are enough: those of all pages of the device before every attempt.\<close>

definition pages_of :: "'f yaffs_Device \<Rightarrow> nat" where
  "pages_of d = nat (nChunksPerBlock d) * card {b. valid_block d b}"

definition write_fuel :: "'f yaffs_Device \<Rightarrow> nat" where
  "write_fuel d = (unat (yaffs_wr_attempts d) + 1) * (pages_of d + 1) + pages_of d + 1"

lemma grown_wired: "grown d0 d \<Longrightarrow> block_inv d"
  by (simp add: grown_def)

lemma pages_bound:
  assumes "grown d0 d"
  shows "nat (total_slack d) \<le> pages_of d0"
proof -
  have i: "block_inv d" using assms by (simp add: grown_def)
  have "{b. valid_block d b} = {b. valid_block d0 b}" "nChunksPerBlock d = nChunksPerBlock d0" using assms by (simp_all add: grown_def)
  with total_slack_bound [OF i] have "total_slack d \<le> nChunksPerBlock d0 * int (card {b. valid_block d0 b})" by simp
  moreover have "0 < nChunksPerBlock d0"
    using block_inv_geometry [OF i] \<open>nChunksPerBlock d = nChunksPerBlock d0\<close> by (simp add: geometry_def)
  ultimately show ?thesis by (simp add: pages_of_def nat_le_iff)
qed

text \<open>One attempt returns, and whatever continues after it starts from a sound state.\<close>

lemma holding_chunk:
  assumes "holding d0 d b p" and "ch = b * nChunksPerBlock d0 + p"
  shows "ch div nChunksPerBlock d = b" and "removable d (ch div nChunksPerBlock d) (ch mod nChunksPerBlock d)"
    and "valid_block d b" and "geometry d" and "block_inv d"
proof -
  have p: "0 \<le> p" "p < nChunksPerBlock d0" "nChunksPerBlock d = nChunksPerBlock d0" "removable d b p"
    using assms(1) by (simp_all add: holding_def grown_def)
  then show "ch div nChunksPerBlock d = b" "removable d (ch div nChunksPerBlock d) (ch mod nChunksPerBlock d)"
    by (simp_all add: assms(2) div_pos_pos_trivial)
  show "block_inv d" "geometry d" "valid_block d b"
    using assms(1) by (simp_all add: holding_def grown_def block_inv_geometry)
qed

lemma check_part_total:
  assumes h: "holding d0 d b p" and ch: "ch = b * nChunksPerBlock d0 + p" and "wired d"
  shows "\<exists>e go d'. (if \<not> skip then do {
              (erasedOk, dev) \<leftarrow> yaffs_CheckChunkErased d ch;
              if erasedOk \<noteq> YAFFS_OK then Some (erasedOk, False, dev)
              else do {
                bi \<leftarrow> yaffs_GetBlockInfo dev b;
                Some (erasedOk, True, setBlockInfo dev b (bi\<lparr>skipErasedCheck := True\<rparr>))
              }
            } else Some (0, True, d)) = Some (e, go, d') \<and> holding d0 d' b p \<and> setup_kept d d'"
proof (cases skip)
  case True
  with h show ?thesis by (intro exI [of _ 0] exI [of _ True] exI [of _ d]) simp
next
  case False
  note c = holding_chunk [OF h ch]
  obtain r d1 where 1: "yaffs_CheckChunkErased d ch = Some (r, d1)" "quiet b d d1"
    using CheckChunkErased_total [OF c(4) assms(3), of ch] c(1,3) by auto
  have h1: "holding d0 d1 b p" using holding_core [OF h quietD(1) [OF 1(2)]] .
  have g: "yaffs_GetBlockInfo d1 b = Some (blk d1 b)" using quiet_state [OF 1(2)] c(3,4) by (simp add: GetBlockInfo_blk)
  have "same_core d1 (setBlockInfo d1 b ((blk d1 b)\<lparr>skipErasedCheck := True\<rparr>))"
    by (rule same_core_set [OF g]) (simp add: core_bi_def)
  then have "holding d0 (setBlockInfo d1 b ((blk d1 b)\<lparr>skipErasedCheck := True\<rparr>)) b p" by (rule holding_core [OF h1])
  with False 1(1) h1 g quietD(2) [OF 1(2)] setup_kept_trans [OF quietD(2) [OF 1(2)] setup_kept_upd(2)] show ?thesis
    by (cases "r = YAFFS_OK") auto
qed

text \<open>The end of a turn, and the two kinds of turns.\<close>

definition turn_end ::
    "nat \<Rightarrow> u8 list \<Rightarrow> bool \<Rightarrow> int \<Rightarrow> int \<Rightarrow> int \<Rightarrow> yaffs_ExtendedTags \<Rightarrow> 'f yaffs_Device \<Rightarrow>
     (int \<times> int \<times> int \<times> yaffs_ExtendedTags \<times> 'f yaffs_Device) option" where
  "turn_end fuel data r chunk attempts writeOk tags dev =
     (if writeOk \<noteq> YAFFS_OK \<and> (yaffs_wr_attempts dev = 0 \<or> attempts \<le> uint (yaffs_wr_attempts dev))
      then writeNewChunk_loop fuel data r attempts writeOk tags dev
      else Some (chunk, attempts, writeOk, tags, dev))"

lemma turn_prioritised:
  assumes "yaffs_AllocateChunk d r = Some (ch, b, d1)" and "\<not> ch < 0" and "yaffs_GetBlockInfo d1 b = Some bi"
    and "gcPrioritise bi" and "yaffs_DeleteChunk d1 ch True = Some d2"
  shows "writeNewChunk_loop (Suc fuel) data r att ok tags d = turn_end fuel data r ch att ok tags d2"
  unfolding writeNewChunk_loop.simps assms(1) bind.bind_lunit Let_def prod.case if_not_P [OF assms(2)] assms(3) if_P [OF assms(4)]
    assms(5) turn_end_def ..

lemma turn_attempt:
  assumes "yaffs_AllocateChunk d r = Some (ch, b, d1)" and "\<not> ch < 0" and "yaffs_GetBlockInfo d1 b = Some bi"
    and "\<not> gcPrioritise bi"
    and "(if \<not> skipErasedCheck bi then do {
              (erasedOk, dev) \<leftarrow> yaffs_CheckChunkErased d1 ch;
              if erasedOk \<noteq> YAFFS_OK then Some (erasedOk, False, dev)
              else do {
                bi \<leftarrow> yaffs_GetBlockInfo dev b;
                Some (erasedOk, True, setBlockInfo dev b (bi\<lparr>skipErasedCheck := True\<rparr>))
              }
            } else Some (0, True, d1)) = Some (e, go, d2)"
    and "yaffs_WriteChunkWithTagsToNAND d2 ch (Some data) tags = Some (w, t, d3)"
    and "yaffs_HandleWriteChunkError d3 ch e = Some d4"
  shows "writeNewChunk_loop (Suc fuel) data r att ok tags d =
    (if \<not> go then turn_end fuel data r ch (att + 1) ok tags d2
     else if w \<noteq> YAFFS_OK then turn_end fuel data r ch (att + 1) w t d4 else turn_end fuel data r ch (att + 1) w t d3)"
  unfolding writeNewChunk_loop.simps assms(1) bind.bind_lunit Let_def prod.case if_not_P [OF assms(2)] assms(3) if_not_P [OF assms(4)]
    assms(5-7) turn_end_def ..

lemma turn_end_total:
  assumes "\<And>w t. wr \<noteq> 0 \<Longrightarrow> att \<le> uint wr \<Longrightarrow> \<exists>res. writeNewChunk_loop fuel data r att w t d = Some res"
    and "yaffs_wr_attempts d = wr" and "wr \<noteq> 0"
  shows "\<exists>res. turn_end fuel data r ch att ok tags d = Some res"
  using assms by (simp add: turn_end_def)

lemma write_fuel_step:
  assumes "(unat wr + 1 - nat att) * (n + 1) + s + 1 \<le> Suc fuel" and "s' \<le> n" and "0 \<le> att" and "att + 1 \<le> uint (wr :: u32)"
  shows "(unat wr + 1 - nat (att + 1)) * (n + 1) + s' + 1 \<le> fuel"
proof -
  define A where "A = (unat wr + 1 - nat (att + 1)) * (n + 1)"
  have "nat att < nat (uint wr)" using assms(3,4) by linarith
  then have "nat att < unat wr" by (simp only: nat_uint_eq)
  moreover have "nat (att + 1) = Suc (nat att)" using assms(3) by simp
  ultimately have "unat wr + 1 - nat att = Suc (unat wr + 1 - nat (att + 1))" by simp
  then have "(unat wr + 1 - nat att) * (n + 1) = n + 1 + A" by (simp only: mult_Suc A_def)
  with assms(1,2) show ?thesis unfolding A_def [symmetric] by simp
qed

lemma writeNewChunk_loop_total:
  fixes d :: "'f yaffs_Device"
  assumes "grown d0 d" and "wired d" and "yaffs_wr_attempts d = wr" and "wr \<noteq> 0" and "0 \<le> att" and "att \<le> uint wr"
    and "(unat wr + 1 - nat att) * (pages_of d0 + 1) + nat (total_slack d) + 1 \<le> fuel"
  shows "\<exists>res. writeNewChunk_loop fuel data r att ok tags d = Some res"
  using assms
proof (induction fuel arbitrary: att ok tags d)
  case (Suc fuel)
  have inv: "block_inv d" using Suc.prems(1) by (rule grown_wired)
  have later: "\<exists>res. turn_end fuel data r x (att + 1) w t dx = Some res" if "grown d0 dx" "setup_kept d dx" for x w t dx
  proof (rule turn_end_total)
    show "yaffs_wr_attempts dx = wr" "wr \<noteq> 0" using that(2) Suc.prems(3,4) by (simp_all add: setup_kept_def)
    show "\<exists>res. writeNewChunk_loop fuel data r (att + 1) w t dx = Some res" if a: "att + 1 \<le> uint wr" for w t
      using write_fuel_step [OF Suc.prems(7) pages_bound [OF \<open>grown d0 dx\<close>] Suc.prems(5) a] a Suc.prems(2,5) \<open>setup_kept d dx\<close>
        \<open>yaffs_wr_attempts dx = wr\<close> Suc.prems(4) by (intro Suc.IH [OF \<open>grown d0 dx\<close>]) (simp_all add: setup_kept_def)
  qed
  obtain ch b d1 where al: "yaffs_AllocateChunk d r = Some (ch, b, d1)" using AllocateChunk_inv [OF inv, of r] by blast
  have k1: "setup_kept d d1" using AllocateChunk_setup [OF inv al] .
  then have w1: "wired d1" using Suc.prems(2) by (simp add: setup_kept_def)
  note h = AllocateChunk_holding [OF Suc.prems(1) al]
  show ?case
  proof (cases "ch < 0")
    case True
    with al show ?thesis by simp
  next
    case nn: False
    then obtain p where p: "ch = b * nChunksPerBlock d0 + p" "holding d0 d1 b p" using h by auto
    note c = holding_chunk [OF p(2,1)]
    have bi: "yaffs_GetBlockInfo d1 b = Some (blk d1 b)" using c by (simp add: GetBlockInfo_blk)
    show ?thesis
    proof (cases "gcPrioritise (blk d1 b)")
      case True
      obtain d2 where d2: "yaffs_DeleteChunk d1 ch True = Some d2" "setup_kept d1 d2" "slack_le d1 d2"
        using DeleteChunk_total [OF c(5) w1 c(2)] by blast
      have g2: "grown d0 d2" using holding_delete [OF p(2)] d2(1) p(1) by simp
      have "total_slack d2 < total_slack d"
        using slack_le_total [OF d2(3)] AllocateChunk_slack [OF inv al nn True] by simp
      then have "nat (total_slack d2) < nat (total_slack d)" using total_slack_bound(1) [OF grown_wired [OF g2]] by simp
      then have "(unat wr + 1 - nat att) * (pages_of d0 + 1) + nat (total_slack d2) + 1 \<le> fuel" using Suc.prems(7) by linarith
      moreover have "wired d2" "yaffs_wr_attempts d2 = wr" using k1 d2(2) w1 Suc.prems(3) by (simp_all add: setup_kept_def)
      ultimately have "\<exists>res. writeNewChunk_loop fuel data r att w t d2 = Some res" for w t
        using Suc.prems(4-6) by (intro Suc.IH [OF g2]) simp_all
      with \<open>yaffs_wr_attempts d2 = wr\<close> Suc.prems(4) show ?thesis
        unfolding turn_prioritised [OF al nn bi True d2(1)] by (intro turn_end_total) auto
    next
      case np: False
      obtain e go d2 where k: "(if \<not> skipErasedCheck (blk d1 b) then do {
              (erasedOk, dev) \<leftarrow> yaffs_CheckChunkErased d1 ch;
              if erasedOk \<noteq> YAFFS_OK then Some (erasedOk, False, dev)
              else do {
                bi \<leftarrow> yaffs_GetBlockInfo dev b;
                Some (erasedOk, True, setBlockInfo dev b (bi\<lparr>skipErasedCheck := True\<rparr>))
              }
            } else Some (0, True, d1)) = Some (e, go, d2)" "holding d0 d2 b p" "setup_kept d1 d2"
        using check_part_total [OF p(2,1) w1] by blast
      have s2: "setup_kept d d2" "wired d2" using setup_kept_trans [OF k1 k(3)] k(3) w1 by (simp_all add: setup_kept_def)
      obtain w t f where wr: "yaffs_WriteChunkWithTagsToNAND d2 ch (Some data) tags = Some (w, t, d2\<lparr>genericDevice := f\<rparr>)"
        using WriteChunkWithTags_total [OF s2(2)] by blast
      let ?d3 = "d2\<lparr>genericDevice := f\<rparr>"
      have h3: "holding d0 ?d3 b p" using holding_core [OF k(2) generic_core] .
      have s3: "setup_kept d ?d3" "wired ?d3" using setup_kept_trans [OF s2(1) setup_kept_upd(1)] s2(2) by (simp_all add: wired_def)
      note c3 = holding_chunk [OF h3 p(1)]
      obtain d4 where d4: "yaffs_HandleWriteChunkError ?d3 ch e = Some d4" "setup_kept ?d3 d4"
        using HandleWriteChunkError_total [OF c3(5) s3(2) c3(2)] by blast
      have "grown d0 d4" "grown d0 d2" "grown d0 ?d3" "setup_kept d d4"
        using holding_error [OF h3] d4(1) p(1) k(2) h3 setup_kept_trans [OF s3(1) d4(2)] by (simp_all add: holding_def)
      with later s2(1) s3(1) show ?thesis unfolding turn_attempt [OF al nn bi np k(1) wr d4(1)] by simp
    qed
  qed
qed simp

lemma InvalidateCheckpoint_wired:
  assumes "block_inv d" and "wired d"
  shows "\<exists>d'. yaffs_InvalidateCheckpoint d = Some d' \<and> grown d d' \<and> setup_kept d d'"
  using InvalidateCheckpoint_total [OF block_inv_geometry [OF assms(1)] assms(2)] InvalidateCheckpoint_grown [OF assms(1)] by blast

lemma WriteNewChunk_total:
  assumes "block_inv d" and "wired d" and "yaffs_wr_attempts d \<noteq> 0" and "write_fuel d \<le> fuel"
  shows "\<exists>c t d'. yaffs_WriteNewChunkWithTagsToNAND fuel d data tags r = Some (c, t, d')"
proof -
  obtain d1 where d1: "yaffs_InvalidateCheckpoint d = Some d1" "grown d d1" "setup_kept d d1"
    using InvalidateCheckpoint_wired [OF assms(1,2)] by blast
  have w: "wired d1" "yaffs_wr_attempts d1 = yaffs_wr_attempts d" using d1(3) assms(2) by (simp_all add: setup_kept_def)
  have "(unat (yaffs_wr_attempts d) + 1 - nat 0) * (pages_of d + 1) + nat (total_slack d1) + 1 \<le> fuel"
    using assms(4) pages_bound [OF d1(2)] unfolding write_fuel_def by simp
  from writeNewChunk_loop_total [OF d1(2) w assms(3) order_refl _ this] obtain res where
    "writeNewChunk_loop fuel data r 0 0 tags d1 = Some res" by fastforce
  then show ?thesis by (cases res) (simp add: yaffs_WriteNewChunkWithTagsToNAND_def d1(1))
qed

text \<open>More fuel than enough makes no difference.\<close>

definition extends :: "'a option \<Rightarrow> 'a option \<Rightarrow> bool" where
  "extends x y \<longleftrightarrow> (\<forall>r. x = Some r \<longrightarrow> y = Some r)"

lemma extends_intros:
  "extends x x"
  "(\<And>x. extends (f x) (g x)) \<Longrightarrow> extends (Option.bind m f) (Option.bind m g)"
  "extends a b \<Longrightarrow> extends a' b' \<Longrightarrow> extends (if c then a else a') (if c then b else b')"
  "(\<And>u v. extends (h u v) (k u v)) \<Longrightarrow> extends (case p of (u, v) \<Rightarrow> h u v) (case p of (u, v) \<Rightarrow> k u v)"
  by (cases m; simp add: extends_def split: prod.split)+

lemma turn_unfold:
  "writeNewChunk_loop (Suc fuel) data r att ok tags d = do {
     (chunk, blk, dev) \<leftarrow> yaffs_AllocateChunk d r;
     if chunk < 0 then Some (chunk, att, ok, tags, dev)
     else do {
       bi \<leftarrow> yaffs_GetBlockInfo dev blk;
       if gcPrioritise bi then do {
         dev \<leftarrow> yaffs_DeleteChunk dev chunk True;
         turn_end fuel data r chunk att ok tags dev
       } else do {
         (erasedOk, go, dev) \<leftarrow>
           (if \<not> skipErasedCheck bi then do {
              (erasedOk, dev) \<leftarrow> yaffs_CheckChunkErased dev chunk;
              if erasedOk \<noteq> YAFFS_OK then Some (erasedOk, False, dev)
              else do {
                bi \<leftarrow> yaffs_GetBlockInfo dev blk;
                Some (erasedOk, True, setBlockInfo dev blk (bi\<lparr>skipErasedCheck := True\<rparr>))
              }
            } else Some (0, True, dev));
         if \<not> go then turn_end fuel data r chunk (att + 1) ok tags dev
         else do {
           (writeOk, tags, dev) \<leftarrow> yaffs_WriteChunkWithTagsToNAND dev chunk (Some data) tags;
           if writeOk \<noteq> YAFFS_OK then do {
             dev \<leftarrow> yaffs_HandleWriteChunkError dev chunk erasedOk;
             turn_end fuel data r chunk (att + 1) writeOk tags dev
           } else turn_end fuel data r chunk (att + 1) writeOk tags dev
         }
       }
     }
   }"
  unfolding writeNewChunk_loop.simps Let_def turn_end_def ..

lemma writeNewChunk_loop_extends:
  fixes d :: "'f yaffs_Device"
  shows "fuel \<le> fuel' \<Longrightarrow> extends (writeNewChunk_loop fuel data r att ok tags d) (writeNewChunk_loop fuel' data r att ok tags d)"
proof (induction fuel arbitrary: fuel' att ok tags d)
  case (Suc fuel)
  then obtain f where f: "fuel' = Suc f" "fuel \<le> f" by (cases fuel') auto
  have t: "extends (turn_end fuel data r ch att ok tags d) (turn_end f data r ch att ok tags d)"
    for ch att ok tags and d :: "'f yaffs_Device"
    unfolding turn_end_def by (intro extends_intros Suc.IH [OF f(2)])
  show ?case unfolding f(1) turn_unfold by (intro extends_intros t)
qed (simp add: extends_def)

lemma WriteNewChunk_extends:
  assumes "fuel \<le> fuel'"
  shows "extends (yaffs_WriteNewChunkWithTagsToNAND fuel d data tags r) (yaffs_WriteNewChunkWithTagsToNAND fuel' d data tags r)"
proof -
  have b: "extends (Option.bind m f) (Option.bind m' f)" if "extends m m'" for m m' :: "'x option" and f :: "'x \<Rightarrow> 'y option"
    using that by (cases m) (auto simp: extends_def)
  show ?thesis unfolding yaffs_WriteNewChunkWithTagsToNAND_def
    by (rule extends_intros(2), rule b, rule writeNewChunk_loop_extends [OF assms])
qed

end
