(* ===== verification/BlockProps.thy ===== *)
theory BlockProps
  imports BlockTotal
begin

text \<open>
  The properties of the block manager, and a small formatted device on which they are witnessed.
\<close>

section \<open>A formatted device\<close>

text \<open>Every block is erased, nothing is in use and nothing is allocated.\<close>

definition formatted :: "'f yaffs_Device \<Rightarrow> bool" where
  "formatted d \<longleftrightarrow> geometry d \<and>
     list_all (\<lambda>bi. blockState bi = YAFFS_BLOCK_STATE_EMPTY \<and> pagesInUse bi = 0 \<and> softDeletions bi = 0) (blockInfo d) \<and>
     list_all (\<lambda>x. x = 0) (chunkBits d) \<and> allocationBlock d < 0 \<and> blocksInCheckpoint d = 0 \<and>
     nErasedBlocks d = int (length (blockInfo d)) \<and> nFreeChunks d = nChunksPerBlock d * int (length (blockInfo d))"

lemma formatted_used:
  assumes "formatted d" and "valid_block d b"
  shows "used d b = {}"
proof -
  have g: "geometry d" and z: "\<And>i. i < length (chunkBits d) \<Longrightarrow> chunkBits d ! i = 0"
    using assms(1) by (simp_all add: formatted_def list_all_length)
  have "\<not> chunk_bit d b c" if "0 \<le> c" "c < 8 * chunkBitmapStride d" for c
    using bit_position [OF g assms(2) that] z by (simp add: chunk_bit_def)
  then show ?thesis by (auto simp: used_def)
qed

lemma formatted_inv:
  assumes "formatted d"
  shows "block_inv d"
proof -
  have g: "geometry d" and a: "allocationBlock d < 0" and st: "\<And>bi. bi \<in> set (blockInfo d) \<Longrightarrow>
      blockState bi = YAFFS_BLOCK_STATE_EMPTY \<and> pagesInUse bi = 0 \<and> softDeletions bi = 0"
    using assms by (simp_all add: formatted_def list_all_iff)
  have "block_ok d b (blk d b)" if v: "valid_block d b" for b
    using st [OF nth_mem [OF blk_index [OF g v]]] formatted_used [OF assms v] a v g
    by (auto simp: block_ok_def valid_block_def geometry_def)
  then have "blocks_ok d" using g a by (auto simp: blocks_ok_def)
  moreover have "free_sum d = nFreeChunks d"
  proof -
    have "map (free_of (nChunksPerBlock d)) (blockInfo d) = map (\<lambda>_. nChunksPerBlock d) (blockInfo d)"
      using st by (intro map_cong) (auto simp: free_of_def)
    then have "free_sum d = (\<Sum>_\<leftarrow>blockInfo d. nChunksPerBlock d)" unfolding free_sum_def by (rule arg_cong)
    then show ?thesis using assms by (simp add: formatted_def sum_list_triv)
  qed
  moreover have "filter (\<lambda>bi. blockState bi = s) (blockInfo d) = (if s = YAFFS_BLOCK_STATE_EMPTY then blockInfo d else [])" for s
    using st by (auto simp: filter_empty_conv filter_id_conv)
  ultimately show ?thesis
    using assms by (simp add: block_inv_def free_gap_def erased_gap_def nBlocksPerState_def formatted_def)
qed

text \<open>Three blocks of four chunks, with a driver that always succeeds.\<close>

definition demo_device :: "unit yaffs_Device" where
  "demo_device = (zero_device ())\<lparr>nDataBytesPerChunk := 512, nChunksPerBlock := 4, startBlock := 1, endBlock := 3,
     internalStartBlock := 1, internalEndBlock := 3, isYaffs2 := True, chunkBitmapStride := 1, yaffs_wr_attempts := 64,
     blockInfo := replicate 3 (zero_blockInfo\<lparr>blockState := YAFFS_BLOCK_STATE_EMPTY, skipErasedCheck := True\<rparr>), chunkBits := [0, 0, 0],
     allocationBlock := -1, nErasedBlocks := 3, nFreeChunks := 12, dev_sequenceNumber := YAFFS_LOWEST_SEQUENCE_NUMBER,
     writeChunkWithTagsToNAND := Some (\<lambda>f c b t. (YAFFS_OK, f)),
     readChunkWithTagsFromNAND := Some (\<lambda>f c b t. (YAFFS_OK, b, t, f)),
     eraseBlockInNAND := Some (\<lambda>f b. (YAFFS_OK, f)), markNANDBlockBad := Some (\<lambda>f b. (YAFFS_OK, f))\<rparr>"

lemma demo_formatted: "formatted demo_device"
  by (simp add: formatted_def demo_device_def zero_device_def geometry_def zero_blockInfo_def eval_nat_numeral)

text \<open>The same device after one chunk has been allocated.\<close>

definition demo_allocated :: "unit yaffs_Device" where
  "demo_allocated = demo_device\<lparr>
     blockInfo := [zero_blockInfo\<lparr>blockState := YAFFS_BLOCK_STATE_ALLOCATING, skipErasedCheck := True, pagesInUse := 1,
       bi_sequenceNumber := YAFFS_LOWEST_SEQUENCE_NUMBER + 1\<rparr>,
       zero_blockInfo\<lparr>blockState := YAFFS_BLOCK_STATE_EMPTY, skipErasedCheck := True\<rparr>,
       zero_blockInfo\<lparr>blockState := YAFFS_BLOCK_STATE_EMPTY, skipErasedCheck := True\<rparr>], chunkBits := [1, 0, 0],
     allocationBlockFinder := 1, allocationBlock := 1, allocationPage := 1, nErasedBlocks := 2, nFreeChunks := 11,
     dev_sequenceNumber := YAFFS_LOWEST_SEQUENCE_NUMBER + 1\<rparr>"

lemma demo_allocate: "yaffs_AllocateChunk demo_device True = Some (4, 1, demo_allocated)"
  by (simp add: yaffs_AllocateChunk_def yaffs_FindBlockForAllocation_def Let_def demo_device_def demo_allocated_def zero_device_def
      yaffs_GetBlockInfo_def setBlockInfo_def eval_nat_numeral takePage_def yaffs_SetChunkBit_def yaffs_BlockBits_def
      yaffs_VerifyChunkBitId_def zero_blockInfo_def findBlock_loop.simps)

lemmas demo_inv = formatted_inv [OF demo_formatted]

section \<open>The bitmap\<close>

text \<open>
  C6: The bitmap of chunks in use implements a set of page numbers per block. Testing, setting and
  clearing a bit are membership, insertion and deletion in the set of that block and leave
  the other blocks alone; the test for remaining bits and the count of bits are emptiness and
  cardinality; and none of them fails or leaves the bitmap on a block and page of the device.
\<close>

theorem chunk_bitmap_refines_sets:
  assumes "geometry d" and "valid_block d b" and "0 \<le> c" and "c < nChunksPerBlock d"
  shows "yaffs_CheckChunkBit d b c = Some (c \<in> used d b) \<and>
    (\<exists>d'. yaffs_SetChunkBit d b c = Some d' \<and> (\<forall>x. valid_block d x \<longrightarrow> used d' x = (if x = b then insert c (used d b) else used d x))) \<and>
    (\<exists>d'. yaffs_ClearChunkBit d b c = Some d' \<and> (\<forall>x. valid_block d x \<longrightarrow> used d' x = (if x = b then used d b - {c} else used d x))) \<and>
    (\<exists>d'. yaffs_ClearChunkBits d b = Some d' \<and> (\<forall>x. valid_block d x \<longrightarrow> used d' x = (if x = b then {} else used d x))) \<and>
    yaffs_StillSomeChunkBits d b = Some (used d b \<noteq> {}) \<and>
    yaffs_CountChunkBits d b = Some (int (card (used d b)))"
  using CheckChunkBit_eq [OF assms] SetChunkBit_eq [OF assms] used_put_bit [OF assms] ClearChunkBits_eq [OF assms(1,2)]
    StillSomeChunkBits_eq [OF assms(1,2)] CountChunkBits_eq [OF assms(1,2)]
  by auto

theorem chunk_bitmap_refines_sets_witness:
  "yaffs_CheckChunkBit demo_device 2 3 = Some False \<and> yaffs_CountChunkBits demo_device 2 = Some 0"
  using chunk_bitmap_refines_sets [OF block_inv_geometry [OF demo_inv], of 2 3] formatted_used [OF demo_formatted, of 2]
  by (simp add: valid_block_def demo_device_def)

section \<open>Allocation\<close>

text \<open>
  C3: Allocating a chunk never fails to return in a state satisfying the invariant. The chunk is a
  page of the device that was not in use; it is in use afterwards, nothing else changes in
  the bitmaps, and the invariant is kept. The allocator refuses exactly if there is neither an
  allocating block nor an erased one, or if it may not use the reserve and the free chunks do not
  exceed the chunks reserved for collecting and for the checkpoint.
\<close>

theorem AllocateChunk_fresh:
  assumes "block_inv d"
  shows "\<exists>c b d'. yaffs_AllocateChunk d useReserve = Some (c, b, d') \<and> block_inv d' \<and>
    (if c = -1 then \<forall>x. used d' x = used d x
     else b = c div nChunksPerBlock d \<and> valid_block d b \<and> c mod nChunksPerBlock d \<notin> used d b \<and>
       (\<forall>x. valid_block d x \<longrightarrow> used d' x = (if x = b then insert (c mod nChunksPerBlock d) (used d b) else used d x))) \<and>
    (c = -1 \<longleftrightarrow> allocationBlock d < 0 \<and> nErasedBlocks d \<le> 0 \<or> \<not> useReserve \<and> \<not> fst (yaffs_CheckSpaceForAllocation d))"
proof -
  obtain c b d' where run: "yaffs_AllocateChunk d useReserve = Some (c, b, d')"
    using AllocateChunk_inv [OF assms, of useReserve] by blast
  note a = AllocateChunk_inv [OF assms, of useReserve, unfolded run]
  have "b = c div nChunksPerBlock d" "p = c mod nChunksPerBlock d"
    if "c = b * nChunksPerBlock d + p" "0 \<le> p" "p < nChunksPerBlock d" for p
    using that by simp_all
  with a AllocateChunk_refuses [OF assms run] show ?thesis unfolding run by (auto split: if_splits)
qed

theorem AllocateChunk_fresh_witness:
  "\<exists>c b d'. yaffs_AllocateChunk demo_device True = Some (c, b, d') \<and> block_inv d' \<and> c \<noteq> -1 \<and> valid_block demo_device (c div 4)"
proof -
  have "nErasedBlocks demo_device = 3" "nChunksPerBlock demo_device = 4" by (simp_all add: demo_device_def)
  with AllocateChunk_fresh [OF demo_inv, of True] show ?thesis by (auto split: if_splits)
qed

section \<open>Deletion\<close>

text \<open>
  C4: Deleting a chunk in use takes exactly that page out of the bitmaps, also when the block
  thereby becomes empty and is erased or, if the erasure fails, retired; and the invariant is
  kept, so the free chunks and erased blocks are counted right on each of these paths.
\<close>

theorem DeleteChunk_exact:
  assumes "block_inv d" and "0 < chunk" and "removable d (chunk div nChunksPerBlock d) (chunk mod nChunksPerBlock d)"
    and "blockState (blk d (chunk div nChunksPerBlock d)) \<in>
      {YAFFS_BLOCK_STATE_ALLOCATING, YAFFS_BLOCK_STATE_FULL, YAFFS_BLOCK_STATE_COLLECTING}"
    and "yaffs_DeleteChunk d chunk markNAND = Some d'"
  shows "block_inv d' \<and> (\<forall>b. valid_block d b \<longrightarrow> used d' b =
    (if b = chunk div nChunksPerBlock d then used d b - {chunk mod nChunksPerBlock d} else used d b))"
  using DeleteChunk_used [OF assms(1,3,5)] assms(2,4) by auto

lemma demo_delete: "\<exists>d'. yaffs_DeleteChunk demo_allocated 4 False = Some d'"
  by (simp add: yaffs_DeleteChunk_def yaffs_CheckChunkBit_def yaffs_BlockBits_def yaffs_VerifyChunkBitId_def yaffs_GetBlockInfo_def
      demo_allocated_def demo_device_def zero_device_def Let_def markDeleted_def removePage_def yaffs_ClearChunkBit_def zero_blockInfo_def)

lemma demo_allocated_state:
  "nChunksPerBlock demo_allocated = 4" "valid_block demo_allocated 1" "blk demo_allocated 1 =
     zero_blockInfo\<lparr>blockState := YAFFS_BLOCK_STATE_ALLOCATING, skipErasedCheck := True, pagesInUse := 1,
       bi_sequenceNumber := YAFFS_LOWEST_SEQUENCE_NUMBER + 1\<rparr>" "0 \<in> used demo_allocated 1"
  by (simp_all add: demo_allocated_def demo_device_def zero_device_def valid_block_def used_def chunk_bit_def bit_pos_def)

lemma demo_allocated_inv: "block_inv demo_allocated"
  using AllocateChunk_inv [OF demo_inv, of True, unfolded demo_allocate] by simp

theorem DeleteChunk_exact_witness:
  "\<exists>d'. yaffs_DeleteChunk demo_allocated 4 False = Some d' \<and> block_inv d' \<and> used d' 1 = used demo_allocated 1 - {0}"
proof -
  obtain d' where run: "yaffs_DeleteChunk demo_allocated 4 False = Some d'" using demo_delete by blast
  have "removable demo_allocated 1 0" using demo_allocated_state by (simp add: removable_def zero_blockInfo_def)
  with DeleteChunk_exact [OF demo_allocated_inv, of 4 False d'] run demo_allocated_state show ?thesis
    by (simp add: zero_blockInfo_def)
qed

section \<open>Writing\<close>

text \<open>
  C1: Writing a new chunk keeps the invariant whatever the driver answers, through retries, blocks
  to be retired and failed erasures, and no chunk that was in use is lost or reused: if
  the write succeeds, the chunk it returns was free before and is in use afterwards.
\<close>

theorem WriteNewChunk_fresh:
  assumes "block_inv d" and "writeChunkWithTagsToNAND d = Some wr" and "\<And>f c b t. fst (wr f c b t) \<in> {YAFFS_OK, YAFFS_FAIL}"
    and "yaffs_WriteNewChunkWithTagsToNAND fuel d data tags useReserve = Some (c, tags', d')"
  shows "block_inv d' \<and> (\<forall>b. valid_block d b \<longrightarrow> used d b \<subseteq> used d' b) \<and>
    (c \<noteq> -1 \<longrightarrow> valid_block d (c div nChunksPerBlock d) \<and> c mod nChunksPerBlock d \<notin> used d (c div nChunksPerBlock d) \<and>
      c mod nChunksPerBlock d \<in> used d' (c div nChunksPerBlock d))"
proof -
  obtain d1 ch att ok d2 where s: "yaffs_InvalidateCheckpoint d = Some d1"
    "writeNewChunk_loop fuel data useReserve 0 0 tags d1 = Some (ch, att, ok, tags', d2)" "c = (if ok = 0 then -1 else ch)" "same_core d2 d'"
    using WriteNewChunk_stages [OF assms(4)] by blast
  have g: "grown d d1" using InvalidateCheckpoint_grown [OF assms(1) s(1)] .
  have l: "ok = YAFFS_OK \<longrightarrow> (\<exists>b p. ch = b * nChunksPerBlock d + p \<and> holding d d2 b p)" "ok = YAFFS_OK \<or> ok = 0 \<or> write_code d ok"
    using writeNewChunk_loop_grown [OF s(2) g] by (simp_all add: YAFFS_OK_def)
  have "ok = YAFFS_OK" if "c \<noteq> -1"
    using l(2) that s(3) assms(2,3) by (auto simp: write_code_def YAFFS_FAIL_def split: if_splits)
  then have "\<exists>b p. c = b * nChunksPerBlock d + p \<and> holding d d' b p" if "c \<noteq> -1"
    using l(1) that s(3) holding_core [OF _ s(4)] by (simp add: YAFFS_OK_def) blast
  moreover have "grown d d'" using WriteNewChunk_grown [OF assms(1,4)] .
  ultimately show ?thesis by (auto simp: holding_def grown_def removable_def)
qed

lemma demo_write: "\<exists>d'. yaffs_WriteNewChunkWithTagsToNAND 1 demo_device [7] zero_tags True = Some (4,
    zero_tags\<lparr>sequenceNumber := YAFFS_LOWEST_SEQUENCE_NUMBER + 1, chunkUsed := 1\<rparr>, d')"
proof -
  have inval: "yaffs_InvalidateCheckpoint demo_device = Some demo_device"
    by (simp add: yaffs_InvalidateCheckpoint_def demo_device_def zero_device_def)
  have "yaffs_GetBlockInfo demo_allocated 1 = Some (blk demo_allocated 1)" "writeChunkWithTagsToNAND demo_allocated = Some (\<lambda>f c b t. (YAFFS_OK, f))"
    "chunkOffset demo_allocated = 0" "dev_sequenceNumber demo_allocated = YAFFS_LOWEST_SEQUENCE_NUMBER + 1"
    by (simp_all add: yaffs_GetBlockInfo_def demo_allocated_def demo_device_def zero_device_def)
  then show ?thesis
    using demo_allocated_state
    by (simp add: yaffs_WriteNewChunkWithTagsToNAND_def inval demo_allocate Let_def
        yaffs_WriteChunkWithTagsToNAND_def YAFFS_OK_def zero_blockInfo_def)
qed

theorem WriteNewChunk_fresh_witness:
  "\<exists>t d'. yaffs_WriteNewChunkWithTagsToNAND 1 demo_device [7] zero_tags True = Some (4, t, d') \<and> block_inv d' \<and> 0 \<in> used d' 1"
proof -
  obtain d' where run: "yaffs_WriteNewChunkWithTagsToNAND 1 demo_device [7] zero_tags True = Some (4,
      zero_tags\<lparr>sequenceNumber := YAFFS_LOWEST_SEQUENCE_NUMBER + 1, chunkUsed := 1\<rparr>, d')" using demo_write by blast
  have w: "writeChunkWithTagsToNAND demo_device = Some (\<lambda>f c b t. (YAFFS_OK, f))" "nChunksPerBlock demo_device = 4"
    by (simp_all add: demo_device_def)
  from WriteNewChunk_fresh [OF demo_inv w(1) _ run] w(2) run show ?thesis by simp
qed

text \<open>
  C24: Writing a new chunk always comes back: if the driver's entry points are there, a read fills its buffer, the
  buffers have the size of a page, and the number of attempts is limited, as it is by default, the write returns, with a chunk or with a failure, whatever the
  driver answers and however many blocks have to be retired or given up on the way, and the
  invariant holds again. The bound on the turns of the loop is explicit, and any larger one gives the same result.
\<close>

theorem WriteNewChunk_returns:
  assumes "block_inv d" and "wired d" and "yaffs_wr_attempts d \<noteq> 0" and "write_fuel d \<le> fuel"
  shows "\<exists>c tags' d'. yaffs_WriteNewChunkWithTagsToNAND fuel d data tags useReserve = Some (c, tags', d') \<and> block_inv d' \<and>
    yaffs_WriteNewChunkWithTagsToNAND (write_fuel d) d data tags useReserve = Some (c, tags', d')"
proof -
  obtain c t d' where e: "yaffs_WriteNewChunkWithTagsToNAND (write_fuel d) d data tags useReserve = Some (c, t, d')"
    using WriteNewChunk_total [OF assms(1-3) order_refl] by blast
  with WriteNewChunk_extends [OF assms(4), of d data tags useReserve] WriteNewChunk_grown [OF assms(1) e]
  show ?thesis by (auto simp: extends_def grown_def)
qed

text \<open>The demonstration device with buffers of the size of a page.\<close>

definition buffered_device :: "unit yaffs_Device" where
  "buffered_device = demo_device\<lparr>heap := \<lambda>_. replicate 512 0\<rparr>"

lemma buffered: "block_inv buffered_device" "wired buffered_device" "yaffs_wr_attempts buffered_device \<noteq> 0"
proof -
  have "formatted buffered_device"
    by (simp add: formatted_def buffered_device_def demo_device_def zero_device_def geometry_def zero_blockInfo_def eval_nat_numeral)
  then show "block_inv buffered_device" by (rule formatted_inv)
  show "wired buffered_device" "yaffs_wr_attempts buffered_device \<noteq> 0"
    by (simp_all add: wired_def fills_def buffered_device_def demo_device_def)
qed

theorem WriteNewChunk_returns_witness:
  "\<exists>c t d'. yaffs_WriteNewChunkWithTagsToNAND (write_fuel buffered_device) buffered_device [7] zero_tags True = Some (c, t, d') \<and>
     block_inv d'"
  using WriteNewChunk_returns [OF buffered order_refl] by fastforce

section \<open>Reachable states\<close>

lemma demo_step: "block_steps demo_device demo_allocated"
  using block_steps.more [OF block_steps.start block_step.alloc [OF demo_allocate]] .

text \<open>
  C2: In every state that the operations of the block manager reach from a formatted device, the
  run-time verification runs through and its checks of the bitmap against the page counts, of
  the number of allocating blocks, of the erased blocks and of the checkpoint blocks stay
  silent. It only reports blocks in a scanning state, sequence numbers out of range, counts of
  blocks that are under collection, dirty or dead, and more than one block under collection.
\<close>

theorem VerifyBlocks_silent:
  assumes "formatted d" and "block_steps d d'"
  shows "\<exists>cs. yaffs_VerifyBlocks d' = Some cs \<and> (\<forall>c\<in>set cs. explained d' c)"
  using VerifyBlocks_explained [OF block_steps_inv [OF assms(2) formatted_inv [OF assms(1)]]] .

text \<open>The demonstration device with the verification switched on.\<close>

lemma demo_verified_formatted: "formatted (demo_device\<lparr>yaffs_traceMask := YAFFS_TRACE_VERIFY\<rparr>)"
  by (simp add: formatted_def demo_device_def zero_device_def geometry_def zero_blockInfo_def eval_nat_numeral)

lemma demo_verified_step:
  "block_steps (demo_device\<lparr>yaffs_traceMask := YAFFS_TRACE_VERIFY\<rparr>) (demo_allocated\<lparr>yaffs_traceMask := YAFFS_TRACE_VERIFY\<rparr>)"
proof -
  have "yaffs_AllocateChunk (demo_device\<lparr>yaffs_traceMask := YAFFS_TRACE_VERIFY\<rparr>) True =
      Some (4, 1, demo_allocated\<lparr>yaffs_traceMask := YAFFS_TRACE_VERIFY\<rparr>)"
    by (simp add: yaffs_AllocateChunk_def yaffs_FindBlockForAllocation_def Let_def demo_device_def demo_allocated_def zero_device_def
        yaffs_GetBlockInfo_def setBlockInfo_def eval_nat_numeral takePage_def yaffs_SetChunkBit_def yaffs_BlockBits_def
        yaffs_VerifyChunkBitId_def zero_blockInfo_def findBlock_loop.simps)
  from block_steps.more [OF block_steps.start block_step.alloc [OF this]] show ?thesis .
qed

theorem VerifyBlocks_silent_witness:
  "\<not> yaffs_SkipVerification (demo_allocated\<lparr>yaffs_traceMask := YAFFS_TRACE_VERIFY\<rparr>) \<and>
   (\<exists>cs. yaffs_VerifyBlocks (demo_allocated\<lparr>yaffs_traceMask := YAFFS_TRACE_VERIFY\<rparr>) = Some cs \<and>
     (\<forall>c\<in>set cs. explained (demo_allocated\<lparr>yaffs_traceMask := YAFFS_TRACE_VERIFY\<rparr>) c))"
  using VerifyBlocks_silent [OF demo_verified_formatted demo_verified_step]
  by (simp add: yaffs_SkipVerification_def YAFFS_TRACE_VERIFY_def YAFFS_TRACE_VERIFY_FULL_def)

text \<open>
  C5: In every reachable state the count of free chunks over the block table gives the free chunk
  counter of the device, apart from the soft deletions of a block under collection, which the
  collector has already taken off.
\<close>

theorem CountFreeChunks_reachable:
  assumes "formatted d" and "block_steps d d'"
  shows "yaffs_CountFreeChunks d' = Some (nFreeChunks d' + collecting_soft d')"
  using CountFreeChunks_inv [OF block_steps_inv [OF assms(2) formatted_inv [OF assms(1)]]] .

theorem CountFreeChunks_reachable_witness: "yaffs_CountFreeChunks demo_allocated = Some 11"
  using CountFreeChunks_reachable [OF demo_formatted demo_step]
  by (simp add: collecting_soft_def demo_allocated_def zero_blockInfo_def)

end
