(* ===== verification/GcSafety.thy ===== *)
theory GcSafety
  imports GarbageCollect BlockProps
begin

text \<open>
  The collection of a block is safe for all others: whatever the flash answers, the block manager's invariant is kept, no chunk
  in use in another block is given up, and the collected block ends up without a chunk, erased or retired.
\<close>

section \<open>Operations that leave the blocks alone\<close>

text \<open>What the invariant of the blocks reads of a device.\<close>

definition same_chunks :: "'f yaffs_Device \<Rightarrow> 'f yaffs_Device \<Rightarrow> bool" where
  "same_chunks d d' \<longleftrightarrow> blockInfo d' = blockInfo d \<and> chunkBits d' = chunkBits d \<and> nChunksPerBlock d' = nChunksPerBlock d \<and>
     internalStartBlock d' = internalStartBlock d \<and> internalEndBlock d' = internalEndBlock d \<and>
     chunkBitmapStride d' = chunkBitmapStride d \<and> nErasedBlocks d' = nErasedBlocks d \<and> nFreeChunks d' = nFreeChunks d \<and>
     allocationBlock d' = allocationBlock d \<and> allocationPage d' = allocationPage d \<and>
     blocksInCheckpoint d' = blocksInCheckpoint d \<and> writeChunkWithTagsToNAND d' = writeChunkWithTagsToNAND d"

lemma same_chunks_refl [simp]: "same_chunks d d"
  by (simp add: same_chunks_def)

lemma same_chunks_trans: "same_chunks d d' \<Longrightarrow> same_chunks d' d'' \<Longrightarrow> same_chunks d d''"
  by (simp add: same_chunks_def)

lemma same_chunks_upd [simp]:
  "same_chunks d (d\<lparr>heap := h\<rparr>)" "same_chunks d (d\<lparr>nCheckpointBlocksRequired := x\<rparr>)" "same_chunks d (d\<lparr>nDeletedFiles := x\<rparr>)"
  "same_chunks d (d\<lparr>tempBuffer := t\<rparr>)"
  by (simp_all add: same_chunks_def)

lemma same_chunks_grown:
  assumes "block_inv d" and "same_chunks d d'"
  shows "grown d d'"
proof -
  have f: "blockInfo d' = blockInfo d" "chunkBits d' = chunkBits d" "nChunksPerBlock d' = nChunksPerBlock d"
    "internalStartBlock d' = internalStartBlock d" "internalEndBlock d' = internalEndBlock d"
    "chunkBitmapStride d' = chunkBitmapStride d" "allocationBlock d' = allocationBlock d" "allocationPage d' = allocationPage d"
    and c: "nErasedBlocks d' = nErasedBlocks d" "nFreeChunks d' = nFreeChunks d" "blocksInCheckpoint d' = blocksInCheckpoint d"
    "writeChunkWithTagsToNAND d' = writeChunkWithTagsToNAND d"
    using assms(2) by (simp_all add: same_chunks_def)
  have u: "used d' c = used d c" for c by (rule used_frame) (simp_all add: f)
  have "valid_block d' c = valid_block d c" for c by (simp add: valid_block_def f)
  moreover have "block_inv d'"
    using assms(1) by (simp only: block_inv_def blocks_ok_frame [OF f] free_gap_def erased_gap_def c)
  moreover have "untouched d d'" by (simp only: untouched_def f u) simp
  ultimately show ?thesis by (simp add: grown_def f c u)
qed

lemma CreateTnodes_chunks: "yaffs_CreateTnodes d n = (r, d') \<Longrightarrow> same_chunks d d'"
  by (auto simp: yaffs_CreateTnodes_def yMalloc_def Let_def same_chunks_def split: if_splits list.splits)

lemma GetTnode_chunks: "same_chunks d (snd (yaffs_GetTnode d l))"
proof -
  have "same_chunks d (snd (yaffs_CreateTnodes d n))" for n using CreateTnodes_chunks by (metis prod.collapse)
  then have "same_chunks d (snd (yaffs_GetTnodeRaw d))"
    by (simp add: yaffs_GetTnodeRaw_def Let_def same_chunks_def)
  then show ?thesis by (simp add: yaffs_GetTnode_def case_prod_beta)
qed

lemma FreeTnode_chunks [simp]: "same_chunks d (yaffs_FreeTnode d tn)"
  by (simp add: yaffs_FreeTnode_def Let_def same_chunks_def)

lemma grow_chunks: "same_chunks d (snd (grow n tp d))"
proof (induction n arbitrary: tp d)
  case (Suc n)
  obtain tn d1 where 1: "yaffs_GetTnode d (Suc 0) = (tn, d1)" by (cases "yaffs_GetTnode d (Suc 0)")
  then have "same_chunks d d1" using GetTnode_chunks [of d "Suc 0"] by simp
  with Suc.IH [of d1] same_chunks_trans show ?case by (cases tn) (auto simp: 1)
qed simp

lemma add_down_chunks: "add_down chunk p l tn d = Some (tp, tn', d') \<Longrightarrow> same_chunks d d'"
proof (induction chunk p l tn d arbitrary: tp tn' d' rule: add_down.induct)
  case (3 chunk p l ch d)
  obtain x where x: "x = branch chunk (Suc l)" "x < length ch"
    using "3.prems" by (auto simp: Let_def split: if_splits)
  obtain child d1 where 1: "(if l > 0 \<and> ch ! x = Null then yaffs_GetTnode d l
               else if l = 0 then
                 (if p \<noteq> Null then (p, if ch ! x \<noteq> Null then yaffs_FreeTnode d (ch ! x) else d)
                  else if ch ! x = Null then yaffs_GetTnode d 0 else (ch ! x, d))
               else (ch ! x, d)) = (child, d1)" by (rule prod.exhaust)
  have "same_chunks d d1" if "yaffs_GetTnode d m = (child, d1)" for m using GetTnode_chunks [of d m] that by simp
  with 1 have "same_chunks d d1" by (auto split: if_splits)
  moreover have "same_chunks d1 d'"
    using "3.prems" "3.IH" [OF x(1) _ 1 [symmetric]] x(2) by (auto simp: x(1) [symmetric] 1 bind_eq_Some_conv)
  ultimately show ?case by (rule same_chunks_trans)
qed simp_all

lemma AddOrFindLevel0Tnode_chunks:
  assumes "yaffs_AddOrFindLevel0Tnode d fs chunk p = Some (tn, fs', d')"
  shows "same_chunks d d'"
proof -
  obtain tp d1 where g: "grow (nat (int (requiredTallness chunk) - topLevel fs)) (top fs) d = (tp, d1)" by (metis surj_pair)
  then have "same_chunks d d1" using grow_chunks by (metis snd_conv)
  then show ?thesis
    using assms same_chunks_trans
    by (auto simp: yaffs_AddOrFindLevel0Tnode_def Let_def g bind_eq_Some_conv split: if_splits yaffs_Tnode.splits dest!: add_down_chunks)
qed

lemma PutChunkIntoFile_chunks:
  assumes "yaffs_PutChunkIntoFile ob c n 0 d = Some (r, ob', d')"
  shows "if variantType ob = FILE then same_chunks d d' else yaffs_DeleteChunk d n True = Some d'" and "ob_deleted ob' = ob_deleted ob"
proof -
  have "(if variantType ob = FILE then same_chunks d d' else yaffs_DeleteChunk d n True = Some d') \<and> ob_deleted ob' = ob_deleted ob"
  proof (cases "variantType ob = FILE")
    case False
    with assms show ?thesis by (auto simp: yaffs_PutChunkIntoFile_def bind_eq_Some_conv)
  next
    case True
    then obtain tn fs d1 where 1: "yaffs_AddOrFindLevel0Tnode d (fileVariant ob) (word_of_int c) Null = Some (tn, fs, d1)"
      using assms by (auto simp: yaffs_PutChunkIntoFile_def bind_eq_Some_conv Let_def)
    have "d' = d1 \<and> ob_deleted ob' = ob_deleted ob"
      using assms True by (cases tn) (auto simp: yaffs_PutChunkIntoFile_def 1 bind_eq_Some_conv Let_def split: if_splits)
    with True AddOrFindLevel0Tnode_chunks [OF 1] show ?thesis by simp
  qed
  then show "if variantType ob = FILE then same_chunks d d' else yaffs_DeleteChunk d n True = Some d'" "ob_deleted ob' = ob_deleted ob"
    by simp_all
qed

lemma findChunk_loop_core: "findChunk_loop n obj c t tags d = Some (r, tags', d') \<Longrightarrow> same_core d d'"
proof (induction n arbitrary: t tags d)
  case (Suc n)
  then show ?case
    by (auto simp: bind_eq_Some_conv split: if_splits dest!: ReadChunkWithTags_core intro: same_core_trans)
qed simp

lemma FindChunkInFile_core:
  assumes "yaffs_FindChunkInFile ob c tags d = Some (r, t, d')"
  shows "same_core d d'"
proof -
  obtain tn where "yaffs_FindLevel0Tnode d (fileVariant ob) (word_of_int c) = Some tn"
    using assms by (auto simp: yaffs_FindChunkInFile_def bind_eq_Some_conv)
  then show ?thesis
    using assms by (cases tn) (auto simp: yaffs_FindChunkInFile_def yaffs_FindChunkInGroup_def bind_eq_Some_conv Let_def
        dest!: findChunk_loop_core)
qed

lemma readChunkInto_core:
  assumes "readChunkInto a c t d = Some (r, t', d')"
  shows "same_core d d'"
proof -
  obtain b d1 h where 1: "yaffs_ReadChunkWithTagsFromNAND d c (Some (heap d a)) t = Some (r, b, t', d1)" "d' = d1\<lparr>heap := h\<rparr>"
    using assms by (auto simp: readChunkInto_def bind_eq_Some_conv)
  have "same_core d1 d'" by (simp add: 1(2) same_core_def)
  with ReadChunkWithTags_core [OF 1(1)] show ?thesis by (rule same_core_trans)
qed

text \<open>A driver that answers writes with success or failure only.\<close>

definition plain_writes :: "'f yaffs_Device \<Rightarrow> bool" where
  "plain_writes d \<longleftrightarrow> (\<exists>wr. writeChunkWithTagsToNAND d = Some wr \<and> (\<forall>f c b t. fst (wr f c b t) \<in> {YAFFS_OK, YAFFS_FAIL}))"

lemma plain_writes_grown: "grown d d' \<Longrightarrow> plain_writes d' = plain_writes d"
  by (simp add: grown_def plain_writes_def)

lemma WriteNewChunk_holding:
  assumes "block_inv d" and "plain_writes d" and "yaffs_WriteNewChunkWithTagsToNAND fuel d data tags r = Some (c, t, d')" and "\<not> c < 0"
  shows "\<exists>b p. c = b * nChunksPerBlock d + p \<and> holding d d' b p"
proof -
  obtain d1 ch att ok d2 where s: "yaffs_InvalidateCheckpoint d = Some d1"
    "writeNewChunk_loop fuel data r 0 0 tags d1 = Some (ch, att, ok, t, d2)" "c = (if ok = 0 then -1 else ch)" "same_core d2 d'"
    using WriteNewChunk_stages [OF assms(3)] by blast
  have g: "grown d d1" using InvalidateCheckpoint_grown [OF assms(1) s(1)] .
  have l: "ok = YAFFS_OK \<longrightarrow> (\<exists>b p. ch = b * nChunksPerBlock d + p \<and> holding d d2 b p)" "ok = YAFFS_OK \<or> ok = 0 \<or> write_code d ok"
    using writeNewChunk_loop_grown [OF s(2) g] by (simp_all add: YAFFS_OK_def)
  have "ok = YAFFS_OK"
    using l(2) assms(2,4) s(3) by (auto simp: write_code_def plain_writes_def YAFFS_FAIL_def split: if_splits)
  then show ?thesis using l(1) s(3) holding_core [OF _ s(4)] by (simp add: YAFFS_OK_def) blast
qed

section \<open>Copying a chunk\<close>

text \<open>The objects that are known are none that has been deleted.\<close>

definition none_deleted :: "'f yaffs_System \<Rightarrow> bool" where
  "none_deleted s \<longleftrightarrow> (\<forall>a ob. objects s a = Some ob \<longrightarrow> \<not> ob_deleted ob)"

lemma upd_object_deleted:
  assumes "upd_object a f s = Some s'" and "none_deleted s" and "\<And>ob. ob_deleted (f ob) = ob_deleted ob"
  shows "none_deleted s'" and "device s' = device s"
  using assms by (auto simp: upd_object_def bind_eq_Some_conv none_deleted_def split: if_split_asm)

lemma checkMatching_safe:
  assumes "checkMatching c a t s = Some s'" and "block_inv (device s)" and "none_deleted s"
  shows "grown (device s) (device s')" and "none_deleted s'"
  using assms
  by (auto simp: checkMatching_def bind_eq_Some_conv none_deleted_def grown_refl split: if_splits
      dest!: FindChunkInFile_core intro: core_grown)

lemma copyChunk_safe:
  assumes "copyChunk fuel a buf tags s = Some s'" and inv: "block_inv (device s)" and "none_deleted s" and "plain_writes (device s)"
  shows "grown (device s) (device s') \<and> none_deleted s'"
proof -
  define t where "t = tags\<lparr>serialNumber := serialNumber tags + 1\<rparr>"
  obtain tags1 h where h: "(if chunkId t = 0 then
          (t\<lparr>extraShadows := 0, extraIsShrinkHeader := 0\<rparr>,
           (device s)\<lparr>heap := (heap (device s))(buf := store_header ((load_header (heap (device s) buf))\<lparr>oh_isShrink := 0, oh_shadowsObject := -1\<rparr>) (heap (device s) buf))\<rparr>)
        else (t, device s)) = (tags1, (device s)\<lparr>heap := h\<rparr>)"
  proof (cases "chunkId t = 0")
    case True
    then show thesis by (intro that) simp
  next
    case False
    then show thesis by (intro that [of t "heap (device s)"]) simp
  qed
  define s1 where "s1 = s\<lparr>nGCCopies := nGCCopies s + 1\<rparr>"
  have s1: "device s1 = device s" "objects s1 = objects s" by (simp_all add: s1_def)
  obtain c t2 d2 where w: "yaffs_WriteNewChunkWithTagsToNAND fuel ((device s)\<lparr>heap := h\<rparr>) (h buf) tags1 True = Some (c, t2, d2)"
    and rest: "(if c < 0 then Some (s1\<lparr>device := d2\<rparr>)
      else if chunkId t2 = 0 then
        upd_object a (\<lambda>ob. ob\<lparr>headerChunk := c, serial := ucast (serialNumber t2)\<rparr>) (s1\<lparr>device := d2\<rparr>)
      else do {
        ob \<leftarrow> objects (s1\<lparr>device := d2\<rparr>) a;
        (r, ob, d) \<leftarrow> yaffs_PutChunkIntoFile ob (sint (chunkId t2)) c 0 (device (s1\<lparr>device := d2\<rparr>));
        Some (s1\<lparr>device := d2, device := d, objects := (objects (s1\<lparr>device := d2\<rparr>))(a \<mapsto> ob)\<rparr>)
      }) = Some s'"
    using assms(1) unfolding copyChunk_def Let_def t_def [symmetric] s1_def [symmetric] s1(1) h prod.case
    by (elim bind_eq_Some_conv [THEN iffD1, THEN exE]) (auto split del: if_split)
  have g0: "grown (device s) ((device s)\<lparr>heap := h\<rparr>)" by (rule same_chunks_grown [OF inv]) simp
  then have i0: "block_inv ((device s)\<lparr>heap := h\<rparr>)" by (rule grown_wired)
  have g: "grown (device s) d2" using grown_trans [OF g0 WriteNewChunk_grown [OF i0 w]] .
  consider "c < 0" | "\<not> c < 0" "chunkId t2 = 0" | "\<not> c < 0" "chunkId t2 \<noteq> 0" by blast
  then show ?thesis
  proof cases
    case 1
    with rest g assms(3) show ?thesis by (auto simp: none_deleted_def s1)
  next
    case 2
    with rest have "upd_object a (\<lambda>ob. ob\<lparr>headerChunk := c, serial := ucast (serialNumber t2)\<rparr>) (s1\<lparr>device := d2\<rparr>) = Some s'" by simp
    moreover have "none_deleted (s1\<lparr>device := d2\<rparr>)" using assms(3) by (simp add: none_deleted_def s1)
    ultimately show ?thesis using upd_object_deleted [of a _ "s1\<lparr>device := d2\<rparr>" s'] g by simp
  next
    case 3
    then obtain ob r ob' d' where p: "objects s a = Some ob" "yaffs_PutChunkIntoFile ob (sint (chunkId t2)) c 0 d2 = Some (r, ob', d')"
      "s' = s1\<lparr>device := d', objects := (objects s)(a \<mapsto> ob')\<rparr>"
      using rest by (auto simp: bind_eq_Some_conv s1)
    have "grown (device s) d'"
    proof (cases "variantType ob = FILE")
      case True
      with PutChunkIntoFile_chunks(1) [OF p(2)] grown_trans [OF g same_chunks_grown [OF grown_wired [OF g]]] show ?thesis by simp
    next
      case False
      then have del: "yaffs_DeleteChunk d2 c True = Some d'" using PutChunkIntoFile_chunks(1) [OF p(2)] by simp
      have "plain_writes ((device s)\<lparr>heap := h\<rparr>)" using assms(4) by (simp add: plain_writes_def)
      then obtain b q where "c = b * nChunksPerBlock (device s) + q" "holding ((device s)\<lparr>heap := h\<rparr>) d2 b q"
        using WriteNewChunk_holding [OF i0 _ w 3(1)] by auto
      with del holding_delete [of "(device s)\<lparr>heap := h\<rparr>" d2 b q True d'] grown_trans [OF g0] show ?thesis by simp
    qed
    with p PutChunkIntoFile_chunks(2) [OF p(2)] assms(3) show ?thesis by (auto simp: none_deleted_def s1 split: if_split_asm)
  qed
qed

section \<open>Taking a chunk out of the collected block\<close>

lemma GetBlockInfo_written:
  assumes "yaffs_GetBlockInfo d b = Some bi" and "blockInfo d' = blockInfo (setBlockInfo d b bj)"
    and "internalStartBlock d' = internalStartBlock d"
  shows "blk d' b = bj"
proof -
  have "nat (b - internalStartBlock d) < length (blockInfo d)"
    using assms(1) by (auto simp: yaffs_GetBlockInfo_def split: if_splits)
  then show ?thesis using assms(2,3) by (simp add: setBlockInfo_def)
qed

lemma RetireBlock_state: "yaffs_RetireBlock d b = Some d' \<Longrightarrow> blockState (blk d' b) = YAFFS_BLOCK_STATE_DEAD"
  by (auto simp: yaffs_RetireBlock_def bind_eq_Some_conv dest: GetBlockInfo_written [where d' = d' and b = b])

lemma BlockBecameDirty_state:
  assumes "yaffs_BlockBecameDirty d b = Some d'"
  shows "blockState (blk d' b) \<in> {YAFFS_BLOCK_STATE_EMPTY, YAFFS_BLOCK_STATE_DEAD}"
proof -
  obtain e d2 where 1: "(if e \<noteq> (0 :: int) then do {
       bi \<leftarrow> yaffs_GetBlockInfo d2 b;
       let dev = (setBlockInfo d2 b (bi\<lparr>blockState := YAFFS_BLOCK_STATE_EMPTY, pagesInUse := 0, softDeletions := 0,
                    hasShrinkHeader := False, skipErasedCheck := True, gcPrioritise := False\<rparr>))
                 \<lparr>nErasedBlocks := nErasedBlocks d2 + 1\<rparr>;
       yaffs_ClearChunkBits dev b
     } else
       yaffs_RetireBlock (d2\<lparr>nFreeChunks := nFreeChunks d2 - nChunksPerBlock d2\<rparr>) b) = Some d'"
    using assms unfolding yaffs_BlockBecameDirty_def Let_def [of "setBlockInfo d b _"]
    by (elim bind_eq_Some_conv [THEN iffD1, THEN exE]) (auto simp: bind_eq_Some_conv split del: if_split)
  show ?thesis
  proof (cases "e = 0")
    case True
    with 1 show ?thesis by (auto dest: RetireBlock_state)
  next
    case False
    with 1 obtain bi where bi: "yaffs_GetBlockInfo d2 b = Some bi" and
      "yaffs_ClearChunkBits ((setBlockInfo d2 b (bi\<lparr>blockState := YAFFS_BLOCK_STATE_EMPTY, pagesInUse := 0, softDeletions := 0,
                    hasShrinkHeader := False, skipErasedCheck := True, gcPrioritise := False\<rparr>))\<lparr>nErasedBlocks := nErasedBlocks d2 + 1\<rparr>) b = Some d'"
      by (auto simp: bind_eq_Some_conv Let_def)
    with GetBlockInfo_written [OF bi, of d'] show ?thesis
      by (auto simp: yaffs_ClearChunkBits_def bind_eq_Some_conv Let_def)
  qed
qed

lemma DeleteChunk_collecting:
  assumes inv: "block_inv d" and v: "valid_block d b" and st: "blockState (blk d b) = YAFFS_BLOCK_STATE_COLLECTING"
    and p: "p \<in> used d b" and run: "yaffs_DeleteChunk d (b * nChunksPerBlock d + p) m = Some d'"
  shows "block_inv d'" and "same_geo d d'" and "\<And>c. valid_block d c \<Longrightarrow> used d' c = (if c = b then used d b - {p} else used d c)"
    and "if used d b = {p} \<and> \<not> hasShrinkHeader (blk d b) then blockState (blk d' b) \<in> {YAFFS_BLOCK_STATE_EMPTY, YAFFS_BLOCK_STATE_DEAD}
      else blockState (blk d' b) = YAFFS_BLOCK_STATE_COLLECTING \<and> hasShrinkHeader (blk d' b) = hasShrinkHeader (blk d b)"
proof -
  let ?c = "b * nChunksPerBlock d + p"
  have g: "geometry d" using inv by (rule block_inv_geometry)
  have bok: "block_ok d b (blk d b)" using block_inv_ok [OF inv v] .
  have pr: "0 \<le> p" "p < nChunksPerBlock d" using bok p by (auto simp: block_ok_def)
  then have bp: "?c div nChunksPerBlock d = b" "?c mod nChunksPerBlock d = p" by simp_all
  have "0 < b * nChunksPerBlock d" using g v by (simp add: geometry_def valid_block_def)
  then have pos: "\<not> ?c \<le> 0" using pr by simp
  have rm: "removable d (?c div nChunksPerBlock d) (?c mod nChunksPerBlock d)"
    using v p st unfolding bp by (simp add: removable_def)
  show "used d' c = (if c = b then used d b - {p} else used d c)" if "valid_block d c" for c
    using DeleteChunk_used [OF inv rm run] that pos st unfolding bp by auto
  show "block_inv d'" using DeleteChunk_used [OF inv rm run] by blast
  show "same_geo d d'" using DeleteChunk_geo [OF run] .
  obtain d1 where c: "same_core d d1" and r: "removePage d1 b p (blk d b) = Some d'"
    using DeleteChunk_stages [OF g rm pos run] unfolding bp by blast
  define d2 where "d2 = setBlockInfo ((put_bit d1 b p False)\<lparr>nFreeChunks := nFreeChunks d1 + 1\<rparr>) b ((blk d b)\<lparr>pagesInUse := pagesInUse (blk d b) - 1\<rparr>)"
  note same = same_core_blockInfo_read [OF c g v]
  have rm1: "removable d1 b p" using removable_core [OF c g rm] unfolding bp .
  have st1: "blockState (blk d1 b) \<in> {YAFFS_BLOCK_STATE_ALLOCATING, YAFFS_BLOCK_STATE_FULL, YAFFS_BLOCK_STATE_COLLECTING}"
    using same(2) st by simp
  note s = removePage_stages [OF same_core_inv [OF c inv] rm1 st1 same [symmetric] d2_def]
  have one: "pagesInUse (blk d b) = 1 \<longleftrightarrow> used d b = {p}"
    using bok p by (auto simp: block_ok_def card_1_singleton_iff)
  show "if used d b = {p} \<and> \<not> hasShrinkHeader (blk d b) then blockState (blk d' b) \<in> {YAFFS_BLOCK_STATE_EMPTY, YAFFS_BLOCK_STATE_DEAD}
      else blockState (blk d' b) = YAFFS_BLOCK_STATE_COLLECTING \<and> hasShrinkHeader (blk d' b) = hasShrinkHeader (blk d b)"
  proof (cases "used d b = {p} \<and> \<not> hasShrinkHeader (blk d b)")
    case True
    then have "yaffs_BlockBecameDirty d2 b = Some d'" using r s(1) one st by simp
    with True BlockBecameDirty_state show ?thesis by auto
  next
    case False
    then have "d' = d2" using r s(1) one by (auto split: if_splits)
    with False s(4) [of b] same_core_valid [OF c] v st show ?thesis by simp
  qed
qed

section \<open>Collecting\<close>

text \<open>
  A block under collection from which the chunks below a position have been taken, or which is done. The other blocks have
  at least the chunks they had.
\<close>

definition collected :: "'f yaffs_Device \<Rightarrow> int \<Rightarrow> int \<Rightarrow> 'f yaffs_Device \<Rightarrow> bool" where
  "collected d0 b i d \<longleftrightarrow> block_inv d \<and> nChunksPerBlock d = nChunksPerBlock d0 \<and> (\<forall>c. valid_block d c = valid_block d0 c) \<and>
     writeChunkWithTagsToNAND d = writeChunkWithTagsToNAND d0 \<and> (\<forall>c. valid_block d0 c \<longrightarrow> c \<noteq> b \<longrightarrow> used d0 c \<subseteq> used d c) \<and>
     (if used d b = {} then blockState (blk d b) \<in> {YAFFS_BLOCK_STATE_EMPTY, YAFFS_BLOCK_STATE_DEAD}
      else blockState (blk d b) = YAFFS_BLOCK_STATE_COLLECTING \<and> \<not> hasShrinkHeader (blk d b) \<and> (\<forall>p\<in>used d b. i \<le> p))"

text \<open>What one chunk takes before it is taken out: it touches no block under collection.\<close>

lemma bind_SomeE: "Option.bind m f = Some r \<Longrightarrow> (\<And>x. m = Some x \<Longrightarrow> f x = Some r \<Longrightarrow> P) \<Longrightarrow> P"
  by (cases m) simp_all

lemma collectChunk_stages:
  assumes "collectChunk fuel buf c cl s = Some (cl', s')" and inv: "block_inv (device s)" and nd: "none_deleted s"
    and pw: "plain_writes (device s)"
  shows "\<exists>s1 m. grown (device s) (device s1) \<and> none_deleted s1 \<and> cl' = cl \<and> upd_device (\<lambda>d. yaffs_DeleteChunk d c m) s1 = Some s'"
proof -
  obtain r tags d where 1: "readChunkInto buf c (yaffs_InitialiseTags (stackExtTags (device s))) (device s) = Some (r, tags, d)"
    using assms(1) unfolding collectChunk_def by (elim bind_SomeE) (metis prod_cases3)
  let ?s = "s\<lparr>device := d\<rparr>"
  have g1: "grown (device s) d" using core_grown [OF inv readChunkInto_core [OF 1]] .
  have nd1: "none_deleted ?s" using nd by (simp add: none_deleted_def)
  obtain a s2 df where 2: "yaffs_FindObjectByNumber (objectId tags) ?s = Some a" "checkMatching c a tags ?s = Some s2"
    "(if a = 0 then Some False else map_option ob_deleted (objects s2 a)) = Some df"
    using assms(1) unfolding collectChunk_def 1 bind.bind_lunit prod.case Let_def by (elim bind_SomeE) (rule that)
  have g2: "grown (device s) (device s2)" and nd2: "none_deleted s2"
    using checkMatching_safe [OF 2(2) _ nd1] grown_wired [OF g1] grown_trans [OF g1] by simp_all
  have df: "\<not> df" using 2(3) nd2 by (auto simp: none_deleted_def split: if_splits)
  have "do {
       (markNAND, cleanups, s) \<leftarrow>
         (if a \<noteq> 0 \<and> df \<and> chunkId tags \<noteq> 0 then
            map_option (\<lambda>(n, s). (False, n, s)) (dropChunk a (objectId tags) cl s2)
          else if a \<noteq> 0 then map_option (\<lambda>s. (True, cl, s)) (copyChunk fuel a buf tags s2)
          else Some (True, cl, s2));
       s \<leftarrow> upd_device (\<lambda>d. yaffs_DeleteChunk d c markNAND) s;
       Some (cleanups, s)
     } = Some (cl', s')"
    using assms(1) unfolding collectChunk_def 1 bind.bind_lunit prod.case Let_def 2 .
  then have "do {
       (markNAND, cleanups, s) \<leftarrow> (if a \<noteq> 0 then map_option (\<lambda>s. (True, cl, s)) (copyChunk fuel a buf tags s2) else Some (True, cl, s2));
       s \<leftarrow> upd_device (\<lambda>d. yaffs_DeleteChunk d c markNAND) s;
       Some (cleanups, s)
     } = Some (cl', s')" using df by (simp only: simp_thms if_False)
  then obtain m s3 where 3: "(if a \<noteq> 0 then map_option (\<lambda>s. (True, cl, s)) (copyChunk fuel a buf tags s2) else Some (True, cl, s2)) = Some (m, cl', s3)"
    and 4: "upd_device (\<lambda>d. yaffs_DeleteChunk d c m) s3 = Some s'"
    by (elim bind_SomeE) (auto elim!: bind_SomeE split del: if_split)
  have "grown (device s) (device s3) \<and> none_deleted s3 \<and> cl' = cl"
  proof (cases "a = 0")
    case True
    with 3 g2 nd2 show ?thesis by simp
  next
    case False
    with 3 have "copyChunk fuel a buf tags s2 = Some s3" "cl' = cl" by auto
    with copyChunk_safe [OF _ grown_wired [OF g2] nd2] plain_writes_grown [OF g2] pw grown_trans [OF g2] show ?thesis by blast
  qed
  with 4 show ?thesis by blast
qed

lemma collectChunk_safe:
  assumes run: "collectChunk fuel buf (b * nChunksPerBlock d0 + i) cl s = Some (cl', s')" and k: "collected d0 b i (device s)"
    and v: "valid_block d0 b" and i: "i \<in> used (device s) b" and nd: "none_deleted s" and pw: "plain_writes d0"
  shows "collected d0 b (i + 1) (device s') \<and> none_deleted s' \<and> cl' = cl"
proof -
  have inv: "block_inv (device s)" and f: "nChunksPerBlock (device s) = nChunksPerBlock d0" "\<And>c. valid_block (device s) c = valid_block d0 c"
    "writeChunkWithTagsToNAND (device s) = writeChunkWithTagsToNAND d0"
    and sub: "\<And>c. valid_block d0 c \<Longrightarrow> c \<noteq> b \<Longrightarrow> used d0 c \<subseteq> used (device s) c"
    and st: "blockState (blk (device s) b) = YAFFS_BLOCK_STATE_COLLECTING" "\<not> hasShrinkHeader (blk (device s) b)" "\<forall>p\<in>used (device s) b. i \<le> p"
    using k i by (auto simp: collected_def split: if_splits)
  have "plain_writes (device s)" using pw f(3) by (simp add: plain_writes_def)
  then obtain s1 m where 1: "grown (device s) (device s1)" "none_deleted s1" "cl' = cl"
    "upd_device (\<lambda>d. yaffs_DeleteChunk d (b * nChunksPerBlock d0 + i) m) s1 = Some s'"
    using collectChunk_stages [OF run inv nd] by blast
  have g: "block_inv (device s1)" "nChunksPerBlock (device s1) = nChunksPerBlock d0" "\<And>c. valid_block (device s1) c = valid_block d0 c"
    "writeChunkWithTagsToNAND (device s1) = writeChunkWithTagsToNAND d0" "untouched (device s) (device s1)"
    and sub1: "\<And>c. valid_block d0 c \<Longrightarrow> used (device s) c \<subseteq> used (device s1) c"
    using 1(1) f by (simp_all add: grown_def)
  have u: "core_bi (blk (device s1) b) = core_bi (blk (device s) b)" "used (device s1) b = used (device s) b"
    using untouchedD [OF g(5) _ st(1)] f(2) v by simp_all
  then have st1: "blockState (blk (device s1) b) = YAFFS_BLOCK_STATE_COLLECTING" "\<not> hasShrinkHeader (blk (device s1) b)"
    using st by (simp_all add: core_bi_def)
  obtain d2 where d2: "yaffs_DeleteChunk (device s1) (b * nChunksPerBlock (device s1) + i) m = Some d2" "s' = s1\<lparr>device := d2\<rparr>"
    using 1(4) g(2) by (auto simp: upd_device_def bind_eq_Some_conv)
  have i1: "i \<in> used (device s1) b" using i u(2) by simp
  note d = DeleteChunk_collecting [OF g(1) _ st1(1) i1 d2(1)]
  have vb: "valid_block (device s1) b" using g(3) v by simp
  have ub: "used d2 b = used (device s) b - {i}" using d(3) [OF vb vb] u(2) by simp
  have gt: "i + 1 \<le> p" if "p \<in> used d2 b" for p
  proof -
    have "i \<le> p" "p \<noteq> i" using that st(3) unfolding ub by blast+
    then show ?thesis by simp
  qed
  have e: "used d2 b = {} \<longleftrightarrow> used (device s1) b = {i}" using i unfolding ub u(2) by auto
  have "used d0 c \<subseteq> used d2 c" if "valid_block d0 c" "c \<noteq> b" for c
    using d(3) [OF vb, of c] sub [OF that] sub1 [OF that(1)] that g(3) by simp
  moreover have "valid_block d2 c = valid_block d0 c" "nChunksPerBlock d2 = nChunksPerBlock d0"
    "writeChunkWithTagsToNAND d2 = writeChunkWithTagsToNAND d0" for c
    using d(2) [OF vb] same_geo_valid [OF d(2) [OF vb]] g by (simp_all add: same_geo_def)
  ultimately have "collected d0 b (i + 1) d2"
    using d(1) [OF vb] d(4) [OF vb] st1(2) gt unfolding collected_def e by auto
  with d2(2) 1(2,3) show ?thesis by (simp add: none_deleted_def)
qed

lemma collect_loop_safe:
  "collect_loop n fuel buf b i cl s = Some (cl', s') \<Longrightarrow> collected d0 b i (device s) \<Longrightarrow> valid_block d0 b \<Longrightarrow> none_deleted s \<Longrightarrow>
   plain_writes d0 \<Longrightarrow> 0 \<le> i \<Longrightarrow> i + int n \<le> nChunksPerBlock d0 \<Longrightarrow>
     \<exists>j. collected d0 b j (device s') \<and> (used (device s') b = {} \<or> j = i + int n) \<and> none_deleted s' \<and> cl' = cl"
proof (induction n arbitrary: i cl s)
  case 0
  then show ?case by auto
next
  case (Suc n)
  have k: "block_inv (device s)" "nChunksPerBlock (device s) = nChunksPerBlock d0" "valid_block (device s) b"
    using Suc.prems(2,3) by (simp_all add: collected_def)
  have some: "yaffs_StillSomeChunkBits (device s) b = Some (used (device s) b \<noteq> {})"
    by (rule StillSomeChunkBits_eq [OF block_inv_geometry [OF k(1)] k(3)])
  show ?case
  proof (cases "used (device s) b = {}")
    case True
    with Suc.prems some show ?thesis by auto
  next
    case False
    have chk: "yaffs_CheckChunkBit (device s) b i = Some (i \<in> used (device s) b)"
      using Suc.prems(6,7) k by (intro CheckChunkBit_eq [OF block_inv_geometry [OF k(1)]]) simp_all
    obtain cl1 s1 where 1: "(if i \<in> used (device s) b then collectChunk fuel buf (b * nChunksPerBlock (device s) + i) cl s else Some (cl, s)) = Some (cl1, s1)"
      "collect_loop n fuel buf b (i + 1) cl1 s1 = Some (cl', s')"
      using Suc.prems(1) False some chk by (auto simp: bind_eq_Some_conv split: if_splits)
    have "collected d0 b (i + 1) (device s1) \<and> none_deleted s1 \<and> cl1 = cl"
    proof (cases "i \<in> used (device s) b")
      case True
      with 1(1) k(2) collectChunk_safe [OF _ Suc.prems(2,3) True Suc.prems(4,5)] show ?thesis by simp
    next
      case nu: False
      have "i + 1 \<le> p" if "p \<in> used (device s) b" for p
        using Suc.prems(2) that nu False by (cases "p = i") (force simp: collected_def)+
      with 1(1) nu Suc.prems(2,4) False show ?thesis by (auto simp: collected_def)
    qed
    with Suc.IH [OF 1(2) _ Suc.prems(3) _ Suc.prems(5)] Suc.prems(6,7) show ?thesis by (auto simp: add.assoc add.commute)
  qed
qed

lemma startCollecting_collected:
  assumes "block_inv d" and "valid_block d b" and "blockState (blk d b) = YAFFS_BLOCK_STATE_FULL" and "startCollecting d b = Some d'"
  shows "block_inv d'" and "same_geo d d'" and "\<And>c. used d' c = used d c"
    and "blockState (blk d' b) = YAFFS_BLOCK_STATE_COLLECTING" and "\<not> hasShrinkHeader (blk d' b)"
proof -
  show "block_inv d'" using startCollecting_inv [OF assms] .
  have g: "geometry d" using assms(1) by (rule block_inv_geometry)
  have d': "d' = (setBlockInfo d b ((blk d b)\<lparr>blockState := YAFFS_BLOCK_STATE_COLLECTING, hasShrinkHeader := False\<rparr>))
      \<lparr>nFreeChunks := nFreeChunks d - softDeletions (blk d b)\<rparr>"
    using assms(2,4) g by (simp add: startCollecting_def GetBlockInfo_blk)
  show "same_geo d d'" by (simp add: d' same_geo_def)
  show "used d' c = used d c" for c by (rule used_frame) (simp_all add: d')
  show "blockState (blk d' b) = YAFFS_BLOCK_STATE_COLLECTING" "\<not> hasShrinkHeader (blk d' b)"
    using blk_set_block [OF g assms(2,2)] by (simp_all add: d')
qed

lemma BlockBecameDirty_collected:
  assumes "block_inv d" and "valid_block d b" and "blockState (blk d b) = YAFFS_BLOCK_STATE_COLLECTING" and "used d b = {}"
    and "yaffs_BlockBecameDirty d b = Some d'"
  shows "collected d b i d'"
proof -
  have "pagesInUse (blk d b) = 0" using block_inv_ok [OF assms(1,2)] assms(4) by (simp add: block_ok_def)
  then have "block_inv d'" "\<forall>c. valid_block d c \<longrightarrow> used d' c = used d c"
    using BlockBecameDirty_inv [OF assms(1,2) _ _ assms(5)] assms(3) by simp_all
  with BlockBecameDirty_geo [OF assms(5)] BlockBecameDirty_state [OF assms(5)] same_geo_valid [OF BlockBecameDirty_geo [OF assms(5)]]
    assms(2,4) show ?thesis by (simp add: collected_def same_geo_def)
qed

lemma GetTempBuffer_chunks: "yaffs_GetTempBuffer d l = (a, d') \<Longrightarrow> same_chunks d d'"
  by (auto simp: yaffs_GetTempBuffer_def Let_def same_chunks_def split: option.splits if_splits)

lemma ReleaseTempBuffer_chunks: "same_chunks d (yaffs_ReleaseTempBuffer d a)"
  by (auto simp: yaffs_ReleaseTempBuffer_def same_chunks_def split: option.splits)

lemma collected_same_chunks:
  assumes "collected d0 b i d" and "same_chunks d d'" and "valid_block d0 b"
  shows "collected d0 b i d'"
proof -
  have inv: "block_inv d" and f: "nChunksPerBlock d = nChunksPerBlock d0" "\<And>c. valid_block d c = valid_block d0 c"
    using assms(1) by (simp_all add: collected_def)
  have "grown d d'" using same_chunks_grown [OF inv assms(2)] .
  moreover have s: "blockInfo d' = blockInfo d" "internalStartBlock d' = internalStartBlock d" "chunkBits d' = chunkBits d"
    "chunkBitmapStride d' = chunkBitmapStride d" using assms(2) by (simp_all add: same_chunks_def)
  moreover have "used d' c = used d c" for c by (rule used_frame) (simp_all add: s)
  ultimately show ?thesis using assms(1) by (auto simp: collected_def grown_def)
qed

lemma collected_trans:
  assumes "collected d' b i d''" and "nChunksPerBlock d' = nChunksPerBlock d" "\<And>c. valid_block d' c = valid_block d c"
    "writeChunkWithTagsToNAND d' = writeChunkWithTagsToNAND d" "\<And>c. valid_block d c \<Longrightarrow> used d' c = used d c"
  shows "collected d b i d''"
  using assms by (auto simp: collected_def)

lemma GarbageCollectBlock_collected:
  assumes inv: "block_inv (device s)" and v: "valid_block (device s) b" and st: "blockState (blk (device s) b) = YAFFS_BLOCK_STATE_FULL"
    and nd: "none_deleted s" and pw: "plain_writes (device s)" and run: "yaffs_GarbageCollectBlock fuel b s = Some (r, s')"
  shows "r = YAFFS_OK \<and> \<not> isDoingGC s' \<and> collected (device s) b (nChunksPerBlock (device s)) (device s') \<and> used (device s') b = {}"
proof -
  let ?n = "nChunksPerBlock (device s)"
  have gi: "yaffs_GetBlockInfo (device s) b = Some (blk (device s) b)" using GetBlockInfo_blk [OF block_inv_geometry [OF inv]] v by simp
  obtain d1 where d1: "startCollecting (device s) b = Some d1"
    using run unfolding yaffs_GarbageCollectBlock_def gi by (auto simp: upd_device_def bind_eq_Some_conv)
  note c = startCollecting_collected [OF inv v st d1]
  have v1: "valid_block d1 x = valid_block (device s) x" for x using same_geo_valid [OF c(2)] .
  have geo: "nChunksPerBlock d1 = ?n" "writeChunkWithTagsToNAND d1 = writeChunkWithTagsToNAND (device s)"
    using c(2) by (simp_all add: same_geo_def)
  let ?s = "s\<lparr>device := d1, isDoingGC := True\<rparr>"
  have some: "yaffs_StillSomeChunkBits d1 b = Some (used d1 b \<noteq> {})"
    by (rule StillSomeChunkBits_eq [OF block_inv_geometry [OF c(1)]]) (simp add: v1 v)
  have tr: "collected (device s) b i d" if "collected d1 b i d" for i d
    by (rule collected_trans [OF that]) (simp_all add: geo v1 c(3))
  obtain s2 where s2: "(if used d1 b = {} then upd_device (\<lambda>d. yaffs_BlockBecameDirty d b) ?s
           else do {
             let (buf, d) = yaffs_GetTempBuffer (device ?s) 2991;
             (cleanups, s) \<leftarrow> collect_loop (nat (nChunksPerBlock d)) fuel buf b 0 0 (?s\<lparr>device := d\<rparr>);
             let s = s\<lparr>device := yaffs_ReleaseTempBuffer (device s) buf\<rparr>;
             cleanup_loop fuel (take cleanups (gcCleanupList s)) s
           }) = Some s2" and s': "r = YAFFS_OK" "s' = s2\<lparr>isDoingGC := False\<rparr>"
    using run st unfolding yaffs_GarbageCollectBlock_def gi bind.bind_lunit upd_device_def [where f = "\<lambda>d. startCollecting d b"] d1
      Let_def [of "blockState _ = _"] Let_def [of "isDoingGC_update _ _"] yaffs_System.select_convs yaffs_System.update_convs some
    by (elim bind_SomeE) (auto simp: some intro: that)
  have "collected d1 b ?n (device s2) \<and> used (device s2) b = {}"
  proof (cases "used d1 b = {}")
    case True
    with s2 obtain d2 where d2: "yaffs_BlockBecameDirty d1 b = Some d2" "device s2 = d2"
      by (auto simp: upd_device_def bind_eq_Some_conv)
    have k: "collected d1 b ?n d2" using BlockBecameDirty_collected [OF c(1) _ c(4) True d2(1)] v1 v by simp
    moreover have "used d2 b = {}"
      using BlockBecameDirty_inv [OF c(1), of b d2] c(4) d2(1) True v v1 block_inv_ok [OF c(1), of b] by (simp add: block_ok_def)
    ultimately show ?thesis by (simp add: d2(2))
  next
    case False
    obtain buf d2 where t: "yaffs_GetTempBuffer d1 2991 = (buf, d2)" by (cases "yaffs_GetTempBuffer d1 2991")
    note tc = GetTempBuffer_chunks [OF t]
    have n2: "nChunksPerBlock d2 = ?n" using tc geo(1) by (simp add: same_chunks_def)
    have "0 \<le> p" if "p \<in> used d1 b" for p using that by (simp add: used_def)
    then have k1: "collected d1 b 0 d1" using c(1,4,5) False by (simp add: collected_def)
    have k2: "collected d1 b 0 (device (?s\<lparr>device := d2\<rparr>))" using collected_same_chunks [OF k1 tc] v1 v by simp
    obtain cl s3 where l: "collect_loop (nat ?n) fuel buf b 0 0 (?s\<lparr>device := d2\<rparr>) = Some (cl, s3)"
      "cleanup_loop fuel (take cl (gcCleanupList (s3\<lparr>device := yaffs_ReleaseTempBuffer (device s3) buf\<rparr>))) (s3\<lparr>device := yaffs_ReleaseTempBuffer (device s3) buf\<rparr>) = Some s2"
      using s2 False t by (auto simp: bind_eq_Some_conv Let_def n2)
    have nn: "0 < ?n" using block_inv_geometry [OF inv] by (simp add: geometry_def)
    have "none_deleted (?s\<lparr>device := d2\<rparr>)" "plain_writes d1" using nd pw geo(2) by (simp_all add: none_deleted_def plain_writes_def)
    then obtain j where j: "collected d1 b j (device s3)" "used (device s3) b = {} \<or> j = ?n" "cl = 0"
      using collect_loop_safe [OF l(1) k2] v1 v nn geo(1) by auto
    have "used (device s3) b = {}"
    proof (rule ccontr)
      assume ne: "used (device s3) b \<noteq> {}"
      then have "\<forall>p\<in>used (device s3) b. ?n \<le> p" using j(1,2) by (simp add: collected_def)
      moreover have "used (device s3) b \<subseteq> {0..<?n}"
        using block_inv_ok [of "device s3" b] j(1) v1 v geo(1) by (simp add: collected_def block_ok_def)
      ultimately show False using ne by fastforce
    qed
    moreover have "s2 = s3\<lparr>device := yaffs_ReleaseTempBuffer (device s3) buf\<rparr>" using l(2) j(3) by simp
    moreover have "collected d1 b ?n (device s3)" using j(1) \<open>used (device s3) b = {}\<close> by (simp add: collected_def)
    moreover have "used (yaffs_ReleaseTempBuffer (device s3) buf) b = used (device s3) b"
      using ReleaseTempBuffer_chunks [of "device s3" buf] by (intro used_frame) (simp_all add: same_chunks_def)
    moreover have "valid_block d1 b" using v1 v by simp
    ultimately show ?thesis by (simp add: collected_same_chunks [OF _ ReleaseTempBuffer_chunks])
  qed
  with s' tr show ?thesis by simp
qed

section \<open>The collector keeps what it does not collect\<close>

text \<open>
  C18: Collecting a full block, when no object in memory is marked deleted, is safe for the rest of the device. When it comes
  to its end, it reports success, the invariant of the block manager holds again, no chunk in use in another block
  has been given up, and the collected block is without a chunk in use, erased or retired. This holds whatever the driver reads
  and however its writes and erasures fail while the survivors are copied, which takes new chunks and can retire blocks.
\<close>

theorem GarbageCollectBlock_safe:
  assumes "block_inv (device s)" and "valid_block (device s) b" and "blockState (blk (device s) b) = YAFFS_BLOCK_STATE_FULL"
    and "none_deleted s" and "plain_writes (device s)" and "yaffs_GarbageCollectBlock fuel b s = Some (r, s')"
  shows "r = YAFFS_OK \<and> \<not> isDoingGC s' \<and> block_inv (device s') \<and> used (device s') b = {} \<and>
    blockState (blk (device s') b) \<in> {YAFFS_BLOCK_STATE_EMPTY, YAFFS_BLOCK_STATE_DEAD} \<and>
    (\<forall>c. valid_block (device s) c \<longrightarrow> c \<noteq> b \<longrightarrow> used (device s) c \<subseteq> used (device s') c)"
  using GarbageCollectBlock_collected [OF assms] by (auto simp: collected_def)

text \<open>
  A device whose first block is full and has one page left in use, the header of a directory, and the system around it.
\<close>

definition gc_device :: "unit yaffs_Device" where
  "gc_device = demo_device\<lparr>
     blockInfo := [zero_blockInfo\<lparr>blockState := YAFFS_BLOCK_STATE_FULL, pagesInUse := 1, bi_sequenceNumber := YAFFS_LOWEST_SEQUENCE_NUMBER\<rparr>,
       zero_blockInfo\<lparr>blockState := YAFFS_BLOCK_STATE_EMPTY, skipErasedCheck := True\<rparr>,
       zero_blockInfo\<lparr>blockState := YAFFS_BLOCK_STATE_EMPTY, skipErasedCheck := True\<rparr>], chunkBits := [1, 0, 0],
     allocationBlockFinder := 1, nErasedBlocks := 2, nFreeChunks := 11,
     readChunkWithTagsFromNAND := Some (\<lambda>f c b t. (YAFFS_OK, b, zero_tags\<lparr>objectId := 257, chunkUsed := 1, eccResult := YAFFS_ECC_RESULT_NO_ERROR\<rparr>, f))\<rparr>"

definition gc_system :: "unit yaffs_System" where
  "gc_system = (undefined :: unit yaffs_System)\<lparr>device := gc_device, objects := [1 \<mapsto> zero_object\<lparr>ob_objectId := 257, variantType := DIRECTORY, headerChunk := 4\<rparr>],
     lists := [Bucket 1 \<mapsto> \<lparr>nxt = HashLink 1, prv = HashLink 1\<rparr>, HashLink 1 \<mapsto> \<lparr>nxt = Bucket 1, prv = Bucket 1\<rparr>], nGCCopies := 0\<rparr>"

lemma gc_used: "used gc_device b = (if b = 1 then {0} else {})" if "valid_block gc_device b"
proof -
  have "b \<in> {1, 2, 3}" using that by (auto simp: valid_block_def gc_device_def demo_device_def)
  moreover have "x = 0" if "bit (1 :: u8) (nat x)" "0 \<le> x" for x using that by (simp add: bit_1_iff)
  ultimately show ?thesis
    by (auto simp: used_def chunk_bit_def bit_pos_def gc_device_def demo_device_def zero_device_def)
qed

lemma gc_blk: "blk gc_device 1 = zero_blockInfo\<lparr>blockState := YAFFS_BLOCK_STATE_FULL, pagesInUse := 1, bi_sequenceNumber := YAFFS_LOWEST_SEQUENCE_NUMBER\<rparr>"
  "b \<in> {2, 3} \<Longrightarrow> blk gc_device b = zero_blockInfo\<lparr>blockState := YAFFS_BLOCK_STATE_EMPTY, skipErasedCheck := True\<rparr>"
  by (auto simp: gc_device_def demo_device_def)

lemma gc_inv: "block_inv gc_device"
proof -
  have g: "geometry gc_device" by (simp add: geometry_def gc_device_def demo_device_def zero_device_def eval_nat_numeral)
  have "block_ok gc_device b (blk gc_device b)" if v: "valid_block gc_device b" for b
  proof -
    have "b \<in> {1, 2, 3}" using v by (auto simp: valid_block_def gc_device_def demo_device_def)
    moreover have "nChunksPerBlock gc_device = 4" "allocationBlock gc_device = -1" by (simp_all add: gc_device_def demo_device_def)
    ultimately show ?thesis using gc_used [OF v] gc_blk by (auto simp: block_ok_def zero_blockInfo_def)
  qed
  moreover have "allocationBlock gc_device = -1" by (simp add: gc_device_def demo_device_def)
  ultimately have "blocks_ok gc_device" using g by (simp add: blocks_ok_def)
  then show ?thesis
    by (simp add: block_inv_def free_gap_def erased_gap_def nBlocksPerState_def free_sum_def free_of_def)
      (simp add: gc_device_def demo_device_def zero_device_def zero_blockInfo_def)
qed

definition gd1 :: "unit yaffs_Device" where
  "gd1 = gc_device\<lparr>blockInfo := [zero_blockInfo\<lparr>blockState := YAFFS_BLOCK_STATE_COLLECTING, pagesInUse := 1, bi_sequenceNumber := YAFFS_LOWEST_SEQUENCE_NUMBER\<rparr>,
       zero_blockInfo\<lparr>blockState := YAFFS_BLOCK_STATE_EMPTY, skipErasedCheck := True\<rparr>,
       zero_blockInfo\<lparr>blockState := YAFFS_BLOCK_STATE_EMPTY, skipErasedCheck := True\<rparr>]\<rparr>"

lemmas gc_defs = gc_device_def demo_device_def zero_device_def zero_blockInfo_def

lemma gc_start: "startCollecting gc_device 1 = Some gd1"
  by (simp add: startCollecting_def gd1_def yaffs_GetBlockInfo_def setBlockInfo_def gc_defs)

lemma gd1_some: "yaffs_StillSomeChunkBits gd1 1 = Some True" "yaffs_CheckChunkBit gd1 1 0 = Some True"
  "yaffs_GetTempBuffer gd1 x = (nextAddress gd1, gd1\<lparr>unmanagedTempAllocations := 1, nextAddress := Suc (nextAddress gd1)\<rparr>)"
  by (simp_all add: gd1_def yaffs_StillSomeChunkBits_def yaffs_CheckChunkBit_def yaffs_VerifyChunkBitId_def yaffs_BlockBits_def yaffs_GetTempBuffer_def gc_defs)

lemma gc_find: "objects s = objects gc_system \<Longrightarrow> lists s = lists gc_system \<Longrightarrow> yaffs_FindObjectByNumber 257 s = Some 1"
  by (simp add: yaffs_FindObjectByNumber_def yaffs_HashFunction_def YAFFS_NOBJECT_BUCKETS_def list_for_each_def list_search.simps gc_system_def
      hashLink_entry_def next_of_def)

definition gd2 :: "(nat \<Rightarrow> u8 list) \<Rightarrow> unit yaffs_Device" where
  "gd2 h = gd1\<lparr>unmanagedTempAllocations := 1, nextAddress := Suc (nextAddress gd1), heap := h\<rparr>"

definition gd3 :: "(nat \<Rightarrow> u8 list) \<Rightarrow> unit yaffs_Device" where
  "gd3 h = (gd2 h)\<lparr>blockInfo := [zero_blockInfo\<lparr>blockState := YAFFS_BLOCK_STATE_COLLECTING, pagesInUse := 1, bi_sequenceNumber := YAFFS_LOWEST_SEQUENCE_NUMBER\<rparr>,
       zero_blockInfo\<lparr>blockState := YAFFS_BLOCK_STATE_ALLOCATING, skipErasedCheck := True, pagesInUse := 1, bi_sequenceNumber := YAFFS_LOWEST_SEQUENCE_NUMBER + 1\<rparr>,
       zero_blockInfo\<lparr>blockState := YAFFS_BLOCK_STATE_EMPTY, skipErasedCheck := True\<rparr>], chunkBits := [1, 1, 0],
     allocationBlockFinder := 2, allocationBlock := 2, allocationPage := 1, nErasedBlocks := 1, nFreeChunks := 10,
     dev_sequenceNumber := YAFFS_LOWEST_SEQUENCE_NUMBER + 1\<rparr>"

lemma gc_alloc: "yaffs_AllocateChunk (gd2 h) True = Some (8, 2, gd3 h)"
  by (simp add: yaffs_AllocateChunk_def yaffs_FindBlockForAllocation_def Let_def gd3_def gd2_def gd1_def gc_defs
      yaffs_GetBlockInfo_def setBlockInfo_def eval_nat_numeral takePage_def yaffs_SetChunkBit_def yaffs_BlockBits_def
      yaffs_VerifyChunkBitId_def findBlock_loop.simps)

lemma gc_write: "\<exists>t. yaffs_WriteNewChunkWithTagsToNAND 1 (gd2 h) data tags True = Some (8, t, gd3 h) \<and> chunkId t = chunkId tags"
proof -
  have inval: "yaffs_InvalidateCheckpoint (gd2 h) = Some (gd2 h)"
    by (simp add: yaffs_InvalidateCheckpoint_def gd2_def gd1_def gc_defs)
  have "yaffs_GetBlockInfo (gd3 h) 2 = Some (zero_blockInfo\<lparr>blockState := YAFFS_BLOCK_STATE_ALLOCATING, skipErasedCheck := True, pagesInUse := 1,
        bi_sequenceNumber := YAFFS_LOWEST_SEQUENCE_NUMBER + 1\<rparr>)" "writeChunkWithTagsToNAND (gd3 h) = Some (\<lambda>f c b t. (YAFFS_OK, f))"
    "chunkOffset (gd3 h) = 0" "genericDevice (gd3 h) = ()"
    by (simp_all add: yaffs_GetBlockInfo_def gd3_def gd2_def gd1_def gc_defs)
  then show ?thesis
    by (simp add: yaffs_WriteNewChunkWithTagsToNAND_def inval gc_alloc Let_def yaffs_WriteChunkWithTagsToNAND_def YAFFS_OK_def)
      (simp add: zero_blockInfo_def)
qed

lemma gc_delete: "\<exists>d'. yaffs_DeleteChunk (gd3 h) 4 m = Some d' \<and> yaffs_StillSomeChunkBits d' 1 = Some False"
  by (simp add: yaffs_DeleteChunk_def yaffs_CheckChunkBit_def yaffs_BlockBits_def yaffs_VerifyChunkBitId_def yaffs_GetBlockInfo_def
      gd3_def gd2_def gd1_def gc_defs Let_def markDeleted_def removePage_def yaffs_ClearChunkBit_def yaffs_BlockBecameDirty_def
      setBlockInfo_def yaffs_InvalidateCheckpoint_def yaffs_EraseBlockInNAND_def YAFFS_OK_def yaffs_SkipVerification_def YAFFS_TRACE_ERASE_def
      yaffs_ClearChunkBits_def yaffs_StillSomeChunkBits_def)

lemma gc_read: "\<exists>h'. readChunkInto buf 4 t (gd2 h) = Some (YAFFS_OK, zero_tags\<lparr>objectId := 257, chunkUsed := 1, eccResult := YAFFS_ECC_RESULT_NO_ERROR\<rparr>, gd2 h')"
  by (simp add: readChunkInto_def yaffs_ReadChunkWithTagsFromNAND_def gd2_def gd1_def gc_defs zero_tags_def)

lemma gc_collect:
  assumes s: "s = gc_system\<lparr>isDoingGC := True, device := gd2 h\<rparr>"
  shows "\<exists>s'. collectChunk 1 buf 4 0 s = Some (0, s') \<and> yaffs_StillSomeChunkBits (device s') 1 = Some False"
proof -
  obtain h1 where r: "readChunkInto buf 4 (yaffs_InitialiseTags (stackExtTags (gd2 h))) (gd2 h) =
      Some (YAFFS_OK, zero_tags\<lparr>objectId := 257, chunkUsed := 1, eccResult := YAFFS_ECC_RESULT_NO_ERROR\<rparr>, gd2 h1)" using gc_read by blast
  let ?tags = "zero_tags\<lparr>objectId := 257, chunkUsed := 1, eccResult := YAFFS_ECC_RESULT_NO_ERROR\<rparr>"
  let ?s = "s\<lparr>device := gd2 h1\<rparr>"
  have f: "yaffs_FindObjectByNumber (objectId ?tags) ?s = Some 1" by (simp add: gc_find s)
  have c: "checkMatching 4 1 ?tags ?s = Some ?s" by (simp add: checkMatching_def yaffs_SkipVerification_def gd2_def gd1_def gc_defs)
  have d: "map_option ob_deleted (objects ?s 1) = Some False" by (simp add: s gc_system_def zero_object_def)
  obtain s3 h3 where k: "copyChunk 1 1 buf ?tags ?s = Some s3" "device s3 = gd3 h3"
  proof -
    let ?t = "?tags\<lparr>serialNumber := serialNumber ?tags + 1, extraShadows := 0, extraIsShrinkHeader := 0\<rparr>"
    let ?h = "h1(buf := store_header ((load_header (h1 buf))\<lparr>oh_isShrink := 0, oh_shadowsObject := -1\<rparr>) (h1 buf))"
    have dev: "(gd2 x)\<lparr>heap := y\<rparr> = gd2 y" "heap (gd2 x) = x" for x y by (simp_all add: gd2_def)
    obtain t where w: "yaffs_WriteNewChunkWithTagsToNAND 1 (gd2 ?h) (?h buf) ?t True = Some (8, t, gd3 ?h)" "chunkId t = chunkId ?t"
      using gc_write by blast
    have "chunkId ?t = 0" "chunkId ?tags = 0" by (simp_all add: zero_tags_def)
    then have "copyChunk 1 1 buf ?tags ?s = upd_object 1 (\<lambda>ob. ob\<lparr>headerChunk := 8, serial := ucast (serialNumber t)\<rparr>)
        (?s\<lparr>nGCCopies := nGCCopies ?s + 1, device := gd3 ?h\<rparr>)"
      using w by (simp add: copyChunk_def Let_def dev)
    then show thesis by (intro that) (auto simp: upd_object_def s gc_system_def)
  qed
  obtain d' where "yaffs_DeleteChunk (gd3 h3) 4 True = Some d'" "yaffs_StillSomeChunkBits d' 1 = Some False" using gc_delete by blast
  then show ?thesis
    using r f c d k unfolding s by (auto simp: collectChunk_def Let_def upd_device_def)
qed

lemma gc_run: "\<exists>r s'. yaffs_GarbageCollectBlock 1 1 gc_system = Some (r, s')"
proof -
  have dev: "device gc_system = gc_device" "yaffs_GetBlockInfo gc_device 1 = Some (blk gc_device 1)"
    by (simp_all add: gc_system_def yaffs_GetBlockInfo_def gc_device_def demo_device_def)
  have d2: "gd1\<lparr>unmanagedTempAllocations := 1, nextAddress := Suc (nextAddress gd1)\<rparr> = gd2 (heap gd1)" by (simp add: gd2_def)
  have n: "nChunksPerBlock (gd2 h) = 4" "yaffs_StillSomeChunkBits (gd2 h) 1 = Some True" "yaffs_CheckChunkBit (gd2 h) 1 0 = Some True" for h
    by (simp_all add: gd2_def gd1_def yaffs_StillSomeChunkBits_def yaffs_CheckChunkBit_def yaffs_VerifyChunkBitId_def yaffs_BlockBits_def gc_defs)
  let ?s = "gc_system\<lparr>isDoingGC := True, device := gd2 (heap gd1)\<rparr>"
  obtain s1 where c: "collectChunk 1 (nextAddress gd1) 4 0 ?s = Some (0, s1)" "yaffs_StillSomeChunkBits (device s1) 1 = Some False"
    using gc_collect [OF refl] by blast
  have "collect_loop (nat (nChunksPerBlock (gd2 (heap gd1)))) 1 (nextAddress gd1) 1 0 0 ?s = Some (0, s1)"
    using c by (simp add: n eval_nat_numeral)
  then show ?thesis
    by (simp add: yaffs_GarbageCollectBlock_def dev upd_device_def gc_start gd1_some d2 gc_blk Let_def zero_blockInfo_def)
qed

theorem GarbageCollectBlock_safe_witness:
  "\<exists>r s'. yaffs_GarbageCollectBlock 1 1 gc_system = Some (r, s') \<and> r = YAFFS_OK \<and> block_inv (device s') \<and> used (device s') 1 = {}"
proof -
  obtain r s' where run: "yaffs_GarbageCollectBlock 1 1 gc_system = Some (r, s')" using gc_run by blast
  have "device gc_system = gc_device" "none_deleted gc_system" "plain_writes gc_device" "valid_block gc_device 1"
    by (simp_all add: gc_system_def none_deleted_def plain_writes_def gc_device_def demo_device_def valid_block_def zero_object_def YAFFS_OK_def)
  with GarbageCollectBlock_safe [of gc_system 1 1 r s'] run gc_inv gc_blk(1) show ?thesis by simp
qed

end
