(* ===== verification/VsprintfProps.thy ===== *)
theory VsprintfProps
  imports Vsprintf
begin

text \<open>
  What the number conversions guarantee: a printed number reads back, the digits fit the buffer
  they are collected in, and a formatted number has exactly the width it should.
\<close>

section \<open>Digits\<close>

lemma digit_chars_16:
  "list_all (\<lambda>l. list_all (\<lambda>d. isxdigit (digit_chars l ! d) \<and> digit_value (digit_chars l ! d) = of_nat d \<and>
     (digit_chars l ! d = CHR ''0'' \<longleftrightarrow> d = 0) \<and> digit_chars l ! d \<noteq> CHR ''-'' \<and> digit_chars l ! d \<noteq> CHR ''x'') [0..<16]) [True, False]"
  by code_simp

lemma digit_char:
  assumes "d < 16"
  shows "isxdigit (digit_chars l ! d)" "digit_value (digit_chars l ! d) = of_nat d"
    "digit_chars l ! d = CHR ''0'' \<longleftrightarrow> d = 0" "digit_chars l ! d \<noteq> CHR ''-''" "digit_chars l ! d \<noteq> CHR ''x''"
  using digit_chars_16 assms by (cases l; simp add: list_all_iff)+

lemma digits_loop_length: "2 \<le> b \<Longrightarrow> n < b ^ k \<Longrightarrow> length (digits_loop ds b n) \<le> k"
proof (induction k arbitrary: n)
  case 0
  then show ?case by (simp add: digits_loop.simps)
next
  case (Suc k)
  have "n div b < b ^ k" using Suc.prems by (simp add: less_mult_imp_div_less mult.commute)
  with Suc.IH Suc.prems(1) show ?case by (subst digits_loop.simps) simp
qed

lemma digits_loop_nonempty: "2 \<le> b \<Longrightarrow> digits_loop ds b n = [] \<longleftrightarrow> n = 0"
  by (subst digits_loop.simps) auto

lemma digits_loop_last:
  assumes "2 \<le> b" "b \<le> 16" "0 < n"
  shows "\<exists>d. 0 < d \<and> d < 16 \<and> last (digits_loop (digit_chars l) b n) = digit_chars l ! d"
  using assms(3)
proof (induction n rule: less_induct)
  case (less n)
  show ?case
  proof (cases "n < b")
    case True
    then have "digits_loop (digit_chars l) b n = [digit_chars l ! n]"
      using assms less.prems by (simp add: digits_loop.simps)
    with True assms less.prems show ?thesis by auto
  next
    case False
    then have "0 < n div b" "n div b < n" using assms less.prems by (simp_all add: div_greater_zero_iff)
    from less.IH [OF this(2,1)] show ?thesis
      using assms less.prems \<open>0 < n div b\<close> digits_loop_nonempty [OF assms(1), of "digit_chars l" "n div b"]
      by (subst digits_loop.simps) auto
  qed
qed

lemma strtoul_digits:
  assumes "2 \<le> b" "b \<le> 16"
  shows "strtoul_loop (of_nat b) acc (rev (digits_loop (digit_chars l) b n) @ rest) =
    strtoul_loop (of_nat b) (acc * of_nat b ^ length (digits_loop (digit_chars l) b n) + of_nat n) rest"
proof (induction n arbitrary: acc rest rule: less_induct)
  case (less n)
  show ?case
  proof (cases "n = 0")
    case True
    then show ?thesis by (simp add: digits_loop.simps)
  next
    case False
    let ?d = "digit_chars l ! (n mod b)" and ?ds = "digits_loop (digit_chars l) b (n div b)"
    have ds: "digits_loop (digit_chars l) b n = ?d # ?ds" using False assms(1) by (subst digits_loop.simps) simp
    have "n mod b < 16" using assms mod_less_divisor [of b n] by linarith
    note d = digit_char [OF this, of l]
    have "n mod b < b" using assms(1) by simp
    then have "(of_nat (n mod b) :: u32) < of_nat b"
      using assms(2) by (subst word_of_nat_less_iff) (simp add: take_bit_nat_eq_self)
    then have step: "strtoul_loop (of_nat b) x (?d # rest) = strtoul_loop (of_nat b) (x * of_nat b + of_nat (n mod b)) rest" for x
      using d by simp
    have "n div b < n" using assms False by simp
    note IH = less.IH [OF this]
    have "(of_nat (n div b) :: u32) * of_nat b + of_nat (n mod b) = of_nat n"
      by (metis div_mult_mod_eq of_nat_add of_nat_mult)
    then have "(acc * of_nat b ^ length ?ds + of_nat (n div b)) * of_nat b + of_nat (n mod b) =
        acc * of_nat b ^ Suc (length ?ds) + of_nat n"
      by (simp add: algebra_simps flip: add.assoc)
    with IH step show ?thesis by (simp add: ds)
  qed
qed

lemma strtoul_stop: "\<not> isxdigit (peek rest) \<Longrightarrow> strtoul_loop b r rest = (r, rest)"
  by (cases rest) (auto simp: peek_def)

section \<open>Reading back\<close>

definition printed :: "bool \<Rightarrow> nat \<Rightarrow> u32 \<Rightarrow> char list" where
  "printed l b n = (if n = 0 then ''0'' else rev (digits_loop (digit_chars l) b (unat n)))"

lemma printed_first:
  assumes "2 \<le> b" "b \<le> 16"
  shows "\<exists>c cs. printed l b n = c # cs \<and> c \<noteq> CHR ''-'' \<and> isxdigit c \<and> (c = CHR ''0'' \<longleftrightarrow> n = 0) \<and> (n = 0 \<longrightarrow> cs = [])"
proof (cases "n = 0")
  case True
  then show ?thesis using digit_char(1,3,4) [of 0 l] by (simp add: printed_def digit_chars_def split: if_splits)
next
  case False
  then have "0 < unat n" by (simp add: unat_gt_0)
  from digits_loop_last [OF assms this, of l] obtain d where
    d: "0 < d" "d < 16" "last (digits_loop (digit_chars l) b (unat n)) = digit_chars l ! d" by blast
  have ne: "digits_loop (digit_chars l) b (unat n) \<noteq> []" using digits_loop_nonempty [OF assms(1)] \<open>0 < unat n\<close> by simp
  with False d digit_char [OF d(2), of l] show ?thesis
    by (cases "rev (digits_loop (digit_chars l) b (unat n))") (auto simp: printed_def hd_rev [symmetric])
qed

lemma strtoul_printed:
  assumes "2 \<le> b" "b \<le> 16" and "\<not> isxdigit (peek rest)"
  shows "strtoul_loop (of_nat b) 0 (printed l b n @ rest) = (n, rest)"
proof (cases "n = 0")
  case True
  have "isxdigit (CHR ''0'')" "digit_value (CHR ''0'') = 0" using digit_char(1,2) [of 0 False] by (simp_all add: digit_chars_def)
  moreover have "(0 :: u32) < of_nat b" using assms(1,2) by (subst word_of_nat_less_iff [of 0, simplified]) (simp add: take_bit_nat_eq_self)
  ultimately show ?thesis using True strtoul_stop [OF assms(3)] by (simp add: printed_def)
next
  case False
  then show ?thesis
    using strtoul_digits [OF assms(1,2), of 0 l "unat n" rest] strtoul_stop [OF assms(3)] by (simp add: printed_def)
qed

lemma simple_strtoul_printed:
  assumes "2 \<le> b" "b \<le> 16" and "\<not> isxdigit (peek rest)" and "peek rest \<noteq> CHR ''x''"
  shows "simple_strtoul (printed l b n @ rest) (of_nat b) = (n, rest)"
proof -
  obtain c cs where c: "printed l b n = c # cs" "c = CHR ''0'' \<longleftrightarrow> n = 0" "n = 0 \<longrightarrow> cs = []"
    using printed_first [OF assms(1,2)] by blast
  have b: "(of_nat b :: u32) \<noteq> 0" using assms(1,2) by (simp add: word_of_nat_eq_0_iff nat_dvd_not_less)
  show ?thesis
  proof (cases "n = 0")
    case True
    then show ?thesis using c assms(4) b strtoul_stop [OF assms(3)] by (simp add: simple_strtoul_def peek_def)
  next
    case False
    then show ?thesis
      using c b strtoul_printed [OF assms(1-3), of l n] by (simp add: simple_strtoul_def peek_def del: strtoul_loop.simps)
  qed
qed


lemma number_plain:
  assumes "2 \<le> b" "b \<le> 16"
  shows "number n (int b) (-1) (-1) 0 = Some (printed False b n)"
    and "number n (int b) (-1) (-1) LARGE = Some (printed True b n)"
  using assms by (auto simp: number_def Let_def has_def LARGE_def LEFT_def SIGN_def SPECIAL_def ZEROPAD_def countdown_def printed_def)

lemma number_special: "number n 16 (-1) (-1) SPECIAL = Some (''0x'' @ printed False 16 n)"
  by (auto simp: number_def Let_def has_def LARGE_def LEFT_def SIGN_def SPECIAL_def ZEROPAD_def countdown_def printed_def digit_chars_def)

lemma number_signed: "number n 10 (-1) (-1) SIGN =
    Some (if sint n < 0 then CHR ''-'' # printed False 10 (- n) else printed False 10 n)"
  by (auto simp: number_def Let_def has_def LARGE_def LEFT_def SIGN_def PLUS_def SPACE_def SPECIAL_def ZEROPAD_def countdown_def printed_def)

lemmas format_simps = vsprintf_def flags_loop.simps get_width_def get_precision_def get_qualifier_def convert_def peek_def
  is_digit_def int_conversion_def int_argument_def NUL_def

text \<open>
  C22: A number printed by vsprintf reads back as the same number: with %u in decimal, with %x and
  %X in hexadecimal, with %#x in any base that is left open because of its prefix, and with %d
  through the signed conversion, for every 32-bit value including the most negative one.
\<close>

theorem sprintf_strtoul_roundtrip:
  "(\<exists>s. vsprintf ''%u'' [IntArg n] = Some (s, int (length s), []) \<and> simple_strtoul s 10 = (n, [])) \<and>
   (\<exists>s. vsprintf ''%x'' [IntArg n] = Some (s, int (length s), []) \<and> simple_strtoul s 16 = (n, [])) \<and>
   (\<exists>s. vsprintf ''%X'' [IntArg n] = Some (s, int (length s), []) \<and> simple_strtoul s 16 = (n, [])) \<and>
   (\<exists>s. vsprintf ''%#x'' [IntArg n] = Some (s, int (length s), []) \<and> simple_strtoul s 0 = (n, [])) \<and>
   (\<exists>s. vsprintf ''%d'' [IntArg n] = Some (s, int (length s), []) \<and> simple_strtol s 10 = (n, []))"
proof (intro conjI)
  have nx: "\<not> isxdigit (peek [])" "peek [] \<noteq> CHR ''x''" by code_simp+
  note rd = simple_strtoul_printed [OF _ _ nx, simplified]
  show "\<exists>s. vsprintf ''%u'' [IntArg n] = Some (s, int (length s), []) \<and> simple_strtoul s 10 = (n, [])"
    using number_plain(1) [of 10 n] rd [of 10 False n] by (simp add: format_simps)
  show "\<exists>s. vsprintf ''%x'' [IntArg n] = Some (s, int (length s), []) \<and> simple_strtoul s 16 = (n, [])"
    using number_plain(1) [of 16 n] rd [of 16 False n] by (simp add: format_simps)
  show "\<exists>s. vsprintf ''%X'' [IntArg n] = Some (s, int (length s), []) \<and> simple_strtoul s 16 = (n, [])"
    using number_plain(2) [of 16 n] rd [of 16 True n] by (simp add: format_simps)
  obtain c cs where c: "printed False 16 n = c # cs" "isxdigit c" using printed_first [of 16 False n] by auto
  have "simple_strtoul (''0x'' @ printed False 16 n) 0 = (n, [])"
    using strtoul_printed [OF _ _ nx(1), of 16 False n] c by (simp add: simple_strtoul_def peek_def del: strtoul_loop.simps)
  then show "\<exists>s. vsprintf ''%#x'' [IntArg n] = Some (s, int (length s), []) \<and> simple_strtoul s 0 = (n, [])"
    using number_special [of n] by (simp add: format_simps)
  obtain c cs where d: "printed False 10 n = c # cs" "c \<noteq> CHR ''-''" using printed_first [of 10 False n] by auto
  have "simple_strtol (CHR ''-'' # printed False 10 (- n)) 10 = (n, [])"
    using rd [of 10 False "- n"] by (simp add: simple_strtol_def peek_def)
  moreover have "simple_strtol (printed False 10 n) 10 = (n, [])"
    using rd [of 10 False n] d by (simp add: simple_strtol_def peek_def)
  ultimately show "\<exists>s. vsprintf ''%d'' [IntArg n] = Some (s, int (length s), []) \<and> simple_strtol s 10 = (n, [])"
    using number_signed [of n] by (auto simp: format_simps)
qed

section \<open>Bounds\<close>

text \<open>The digits that number collects in tmp.\<close>

definition number_tmp :: "u32 \<Rightarrow> int \<Rightarrow> u32 \<Rightarrow> char list" where
  "number_tmp num base type =
     (let num = (if has type SIGN \<and> sint num < 0 then - num else num)
      in if num = 0 then ''0'' else digits_loop (digit_chars (has type LARGE)) (nat base) (unat num))"

definition number_lead :: "u32 \<Rightarrow> int \<Rightarrow> u32 \<Rightarrow> int" where
  "number_lead num base type =
     (if has type SIGN \<and> (sint num < 0 \<or> has type PLUS \<or> has type SPACE) then 1 else 0) +
     (if has type SPECIAL then (if base = 16 then 2 else if base = 8 then 1 else 0) else 0)"

lemma number_tmp_length:
  assumes "2 \<le> base"
  shows "length (number_tmp num base type) \<le> 32"
proof -
  have "length (digits_loop ds (nat base) (unat m)) \<le> 32" for ds and m :: u32
  proof (rule digits_loop_length)
    show "2 \<le> nat base" using assms by simp
    have "unat m < 2 ^ 32" using unsigned_less [of m] by simp
    also have "(2 :: nat) ^ 32 \<le> nat base ^ 32" using assms by (intro power_mono) simp_all
    finally show "unat m < nat base ^ 32" .
  qed
  then show ?thesis by (simp add: number_tmp_def Let_def)
qed

lemma has_bit:
  "has t ZEROPAD = bit t 0" "has t SIGN = bit t 1" "has t PLUS = bit t 2" "has t SPACE = bit t 3"
  "has t LEFT = bit t 4" "has t SPECIAL = bit t 5" "has t LARGE = bit t 6"
  using and_exp_test [of 0 t] and_exp_test [of 1 t] and_exp_test [of 2 t] and_exp_test [of 3 t]
    and_exp_test [of 4 t] and_exp_test [of 5 t] and_exp_test [of 6 t]
  by (simp_all add: has_def ZEROPAD_def SIGN_def PLUS_def SPACE_def LEFT_def SPECIAL_def LARGE_def push_bit_eq_mult)

lemma pad_flags: "t AND (ZEROPAD + LEFT) = 0 \<longleftrightarrow> \<not> has t ZEROPAD \<and> \<not> has t LEFT"
proof -
  have "ZEROPAD + LEFT = ZEROPAD OR LEFT" by (simp add: ZEROPAD_def LEFT_def)
  moreover have "t AND (x OR y) = 0 \<longleftrightarrow> t AND x = 0 \<and> t AND y = 0" for x y :: u32 by (auto simp: bit_eq_iff bit_simps)
  ultimately show ?thesis by (simp add: has_def)
qed

lemma zeropad_bit: "bit ZEROPAD k \<longleftrightarrow> k = 0"
  by (simp add: ZEROPAD_def bit_1_iff)

lemma left_clears:
  fixes t :: u32
  defines "t' \<equiv> (if has t LEFT then t AND NOT ZEROPAD else t)"
  shows "has t' SIGN = has t SIGN" "has t' PLUS = has t PLUS" "has t' SPACE = has t SPACE" "has t' SPECIAL = has t SPECIAL"
    "has t' LEFT = has t LEFT" "has t' ZEROPAD \<longleftrightarrow> has t ZEROPAD \<and> \<not> has t LEFT"
  unfolding t'_def has_bit by (simp_all add: bit_simps zeropad_bit)

text \<open>The three padding loops fill the rest of the field once.\<close>

lemma countdown_length: "int (length (fst (countdown c f))) = max 0 f" "snd (countdown c f) \<le> -1"
  by (simp_all add: countdown_def)

lemma paddings:
  assumes "(pad1, f1) = (if a then countdown x f else ([], f))" and "(pad2, f2) = (if b then countdown y f1 else ([], f1))"
    and "(pad3, f3) = countdown z f2"
  shows "int (length pad1) + int (length pad2) + int (length pad3) = max 0 f"
  using assms by (auto simp: countdown_def split: if_splits)

text \<open>
  The digits of a number never overrun the 66 characters of the buffer tmp, whatever the base,
  and what number appends is as wide as the field or as its sign, prefix and digits need,
  whichever is more: the three padding loops together fill exactly the rest of the field.
\<close>

theorem number_width:
  assumes "2 \<le> base" and "base \<le> 36"
  shows "\<exists>s. number num base width precision type = Some s \<and> length (number_tmp num base type) \<le> 66 \<and>
    int (length s) = max width (number_lead num base type + max precision (int (length (number_tmp num base type))))"
proof -
  define t where "t = (if has type LEFT then type AND NOT ZEROPAD else type)"
  define num' where "num' = (if has type SIGN \<and> sint num < 0 then - num else num)"
  define sign where "sign = (if has t SIGN then (if sint num < 0 then ([CHR ''-''], - num, width - 1)
      else if has t PLUS then ([CHR ''+''], num, width - 1) else if has t SPACE then ([CHR '' ''], num, width - 1)
      else ([], num, width)) else ([], num, width))"
  obtain sg f0 where sg: "sign = (sg, num', f0)"
    by (cases "has type SIGN"; cases "sint num < 0"; cases "has t PLUS"; cases "has t SPACE")
      (simp_all add: sign_def num'_def t_def left_clears)
  define prefix where "prefix = (if has t SPECIAL then
      (if base = 8 then ''0'' else if base = 16 then [CHR ''0'', digit_chars (has type LARGE) ! 33] else []) else [])"
  have lead: "int (length sg) + int (length prefix) = number_lead num base type" "f0 = width - int (length sg)"
    using sg by (auto simp: sign_def prefix_def number_lead_def t_def left_clears split: if_splits)
  define f1 where "f1 = (if has t SPECIAL then (if base = 16 then f0 - 2 else if base = 8 then f0 - 1 else f0) else f0)"
  have f1: "f1 = width - number_lead num base type" using lead by (auto simp: f1_def prefix_def split: if_splits)
  define tmp where "tmp = number_tmp num base type"
  define p f2 where "p = (if int (length tmp) > precision then int (length tmp) else precision)" and "f2 = f1 - p"
  obtain pad1 f3 where p1: "(pad1, f3) = (if t AND (ZEROPAD + LEFT) = 0 then countdown (CHR '' '') f2 else ([], f2))"
    by (metis surj_pair)
  obtain pad2 f4 where p2: "(pad2, f4) = (if \<not> has t LEFT then countdown (if has t ZEROPAD then CHR ''0'' else CHR '' '') f3 else ([], f3))"
    by (metis surj_pair)
  obtain pad3 f5 where p3: "(pad3, f5) = countdown (CHR '' '') f4" by (metis surj_pair)
  let ?s = "pad1 @ sg @ prefix @ pad2 @ replicate (nat (p - int (length tmp))) (CHR ''0'') @ rev tmp @ pad3"
  have tmp: "(if num' = 0 then [CHR ''0''] else digits_loop (digit_chars (has type LARGE)) (nat base) (unat num')) = tmp"
    by (simp add: tmp_def number_tmp_def num'_def Let_def)
  have ok: "\<not> (base < 2 \<or> 36 < base)" using assms by simp
  have "number num base width precision type = Some ?s"
    unfolding number_def Let_def if_not_P [OF ok] t_def [symmetric] sign_def [symmetric] sg prod.case f1_def [symmetric]
      prefix_def [symmetric] tmp p_def [symmetric] f2_def [symmetric] p1 [symmetric] p2 [symmetric] p3 [symmetric] ..
  moreover have "int (length ?s) = max width (number_lead num base type + max precision (int (length tmp)))"
    using paddings [OF p1 p2 p3] lead(1) f1 by (auto simp: f2_def p_def max_def split: if_splits)
  ultimately show ?thesis using number_tmp_length [OF assms(1), of num type] by (auto simp: tmp_def)
qed

theorem number_width_witness:
  "\<exists>s. number 255 16 8 (-1) ZEROPAD = Some s \<and> length s = 8"
proof -
  have "number_lead 255 16 ZEROPAD = 0" "length (number_tmp 255 16 ZEROPAD) = 2" by code_simp+
  with number_width [of 16 255 8 "-1" ZEROPAD] show ?thesis by auto
qed

end
