(* ===== verification/Environment.thy ===== *)
theory Environment
  imports Vsprintf Crc32
begin

text \<open>
  The environment of U-Boot (common/env_common.c, common/cmd_nvedit.c): an array of bytes that holds
  strings name=value, each ended by a null character and all of them by another one. Accesses
  outside the array, null pointers and waiting for input that never comes give None.
\<close>

section \<open>State\<close>

record env_t =
  hdr_crc :: u32
  env_flags :: u8
  env_data :: "char list"

text \<open>
  Besides the environment in RAM, the state has what setting a variable changes elsewhere: the board
  data, the load address, the boot file, the baud rate, the console input, and the state of
  the console devices, whose type is a parameter.
\<close>

record 'w env_state =
  env :: env_t
  env_valid :: nat
  default_environment :: "char list"
  bi_enetaddr :: "u8 list"
  bi_ip_addr :: u32
  load_addr :: u32
  BootFile :: "char list"
  baudrate :: u32
  input :: "char list"
  console :: 'w

text \<open>
  The configuration of the board: the size of the environment with its header, whether the
  protected variables may be overwritten, the supported baud rates, the size of the boot file
  name, and the assignment of a console device.
\<close>

record 'w config =
  CFG_ENV_SIZE :: nat
  ENV_OVERWRITE :: bool
  baudrate_table :: "u32 list"
  sizeof_BootFile :: nat
  console_assign :: "nat \<Rightarrow> char list \<Rightarrow> 'w \<Rightarrow> int \<times> 'w"

section \<open>Access\<close>

definition env_crc_update :: "'w env_state \<Rightarrow> 'w env_state" where
  "env_crc_update st = st\<lparr>env := (env st)\<lparr>hdr_crc := crc32 0 (map of_char (env_data (env st)))\<rparr>\<rparr>"

text \<open>The memory behind env_get_addr(0), and a store through that pointer.\<close>

definition env_get_addr :: "'w env_state \<Rightarrow> char list" where
  "env_get_addr st = (if env_valid st \<noteq> 0 then env_data (env st) else default_environment st)"

definition env_set_addr :: "'w env_state \<Rightarrow> char list \<Rightarrow> 'w env_state" where
  "env_set_addr st mem =
     (if env_valid st \<noteq> 0 then st\<lparr>env := (env st)\<lparr>env_data := mem\<rparr>\<rparr> else st\<lparr>default_environment := mem\<rparr>)"

definition env_get_char :: "char list \<Rightarrow> nat \<Rightarrow> char option" where
  "env_get_char mem i = (if i < length mem then Some (mem ! i) else None)"

definition env_put_char :: "char list \<Rightarrow> nat \<Rightarrow> char \<Rightarrow> char list option" where
  "env_put_char mem i c = (if i < length mem then Some (mem[i := c]) else None)"

text \<open>
  A name against the entry at an index: the index of the value, or -1. If name and entry end
  together, the loop goes on past the end of the name.
\<close>

fun envmatch :: "char list \<Rightarrow> char list \<Rightarrow> nat \<Rightarrow> int option" where
  "envmatch [] mem i2 = do {
     c \<leftarrow> env_get_char mem i2;
     if c = NUL then None else Some (if c = CHR ''='' then int i2 + 1 else -1)
   }"
| "envmatch (x # s1) mem i2 = do {
     c \<leftarrow> env_get_char mem i2;
     if x = c then (if x = CHR ''='' then Some (int i2 + 1) else envmatch s1 mem (i2 + 1))
     else Some (-1)
   }"

function next_nul :: "char list \<Rightarrow> nat \<Rightarrow> nat option" where
  "next_nul mem nxt = do { c \<leftarrow> env_get_char mem nxt; if c = NUL then Some nxt else next_nul mem (nxt + 1) }"
  by pat_completeness auto
termination
  by (relation "measure (\<lambda>(mem, nxt). length mem - nxt)") (auto simp: env_get_char_def split: if_splits)

declare next_nul.simps [simp del]

lemma next_nul_ge: "next_nul mem i = Some j \<Longrightarrow> i \<le> j \<and> j < length mem"
proof (induction mem i rule: next_nul.induct)
  case (1 mem i)
  then show ?case by (subst (asm) (2) next_nul.simps) (fastforce simp: bind_eq_Some_conv env_get_char_def split: if_splits)
qed

text \<open>The same search with the limit that getenv puts on it; Some None is the null result.\<close>

function next_nul_limited :: "nat \<Rightarrow> char list \<Rightarrow> nat \<Rightarrow> nat option option" where
  "next_nul_limited limit mem nxt = do {
     c \<leftarrow> env_get_char mem nxt;
     if c = NUL then Some (Some nxt) else if nxt \<ge> limit then Some None else next_nul_limited limit mem (nxt + 1)
   }"
  by pat_completeness auto
termination
  by (relation "measure (\<lambda>(limit, mem, nxt). length mem - nxt)") (auto simp: env_get_char_def split: if_splits)

declare next_nul_limited.simps [simp del]

lemma next_nul_limited_ge: "next_nul_limited limit mem i = Some (Some j) \<Longrightarrow> i \<le> j \<and> j < length mem"
proof (induction limit mem i rule: next_nul_limited.induct)
  case (1 limit mem i)
  then show ?case by (subst (asm) (2) next_nul_limited.simps) (fastforce simp: bind_eq_Some_conv env_get_char_def split: if_splits)
qed

section \<open>Reading variables\<close>

function getenv_loop :: "nat \<Rightarrow> char list \<Rightarrow> char list \<Rightarrow> nat \<Rightarrow> nat option option" where
  "getenv_loop limit mem name i =
     (case env_get_char mem i of
        None \<Rightarrow> None
      | Some c \<Rightarrow>
          if c = NUL then Some None
          else case next_nul_limited limit mem i of
                 None \<Rightarrow> None
               | Some None \<Rightarrow> Some None
               | Some (Some nxt) \<Rightarrow>
                   (case envmatch name mem i of
                      None \<Rightarrow> None
                    | Some val \<Rightarrow> if val < 0 then getenv_loop limit mem name (nxt + 1) else Some (Some (nat val))))"
  by pat_completeness auto
termination
  by (relation "measure (\<lambda>(limit, mem, name, i). length mem - i)") (auto dest: next_nul_limited_ge)

declare getenv_loop.simps [simp del]

text \<open>The address of the value, as an index into the environment.\<close>

definition getenv :: "'w config \<Rightarrow> 'w env_state \<Rightarrow> char list \<Rightarrow> nat option option" where
  "getenv cfg st name = getenv_loop (CFG_ENV_SIZE cfg) (env_get_addr st) name 0"

text \<open>The copy of a value into a buffer: the buffer, the place after the last store, and the count.\<close>

function getenv_copy :: "char list \<Rightarrow> char list \<Rightarrow> nat \<Rightarrow> nat \<Rightarrow> nat \<Rightarrow> nat \<Rightarrow> (char list \<times> nat \<times> nat) option" where
  "getenv_copy mem buf pos val n len =
     (if len > n then do {
        c \<leftarrow> env_get_char mem val;
        buf \<leftarrow> env_put_char buf pos c;
        if c \<noteq> NUL then getenv_copy mem buf (pos + 1) (val + 1) (n + 1) len else Some (buf, pos + 1, n + 1)
      } else Some (buf, pos, n + 1))"
  by pat_completeness auto
termination
  by (relation "measure (\<lambda>(mem, buf, pos, val, n, len). len - n)") auto

declare getenv_copy.simps [simp del]

definition getenv_r :: "'w config \<Rightarrow> 'w env_state \<Rightarrow> char list \<Rightarrow> char list \<Rightarrow> nat \<Rightarrow> (int \<times> char list) option" where
  "getenv_r cfg st name buf len = do {
     val \<leftarrow> getenv_loop (CFG_ENV_SIZE cfg) (env_get_addr st) name 0;
     case val of
       None \<Rightarrow> Some (-1, buf)
     | Some val \<Rightarrow> do {
         (buf, pos, n) \<leftarrow> getenv_copy (env_get_addr st) buf 0 val 0 len;
         buf \<leftarrow> (if len = n then env_put_char buf pos NUL else Some buf);
         Some (int n, buf)
       }
   }"

section \<open>Printing variables\<close>

text \<open>
  All variables, one per line; the answers of successive polls for an interrupt are an argument.
  The result is the output, the index reached and whether the user broke it off.
\<close>

function printall_loop :: "bool list \<Rightarrow> char list \<Rightarrow> nat \<Rightarrow> (char list \<times> nat \<times> bool) option" where
  "printall_loop polls mem i =
     (case env_get_char mem i of
        None \<Rightarrow> None
      | Some c \<Rightarrow>
          if c = NUL then Some ([], i, False)
          else case next_nul mem i of
                 None \<Rightarrow> None
               | Some nxt \<Rightarrow>
                   (let line = take (nxt - i) (drop i mem) @ [CHR 0x0A]
                    in if polls \<noteq> [] \<and> hd polls then Some (line, i, True)
                       else map_option (\<lambda>(out, j, b). (line @ out, j, b)) (printall_loop (tl polls) mem (nxt + 1))))"
  by pat_completeness auto
termination
  by (relation "measure (\<lambda>(polls, mem, i). length mem - i)") (auto dest: next_nul_ge)

declare printall_loop.simps [simp del]

text \<open>One variable: its line, or None if it is not defined.\<close>

function printone_loop :: "char list \<Rightarrow> char list \<Rightarrow> nat \<Rightarrow> char list option option" where
  "printone_loop mem name j =
     (case env_get_char mem j of
        None \<Rightarrow> None
      | Some c \<Rightarrow>
          if c = NUL then Some None
          else case next_nul mem j of
                 None \<Rightarrow> None
               | Some nxt \<Rightarrow>
                   (case envmatch name mem j of
                      None \<Rightarrow> None
                    | Some k \<Rightarrow>
                        if k < 0 then printone_loop mem name (nxt + 1)
                        else Some (Some (name @ [CHR ''=''] @ take (nxt - nat k) (drop (nat k) mem) @ [CHR 0x0A]))))"
  by pat_completeness auto
termination
  by (relation "measure (\<lambda>(mem, name, j). length mem - j)") (auto dest: next_nul_ge)

declare printone_loop.simps [simp del]

fun print_names :: "char list \<Rightarrow> char list list \<Rightarrow> (int \<times> char list) option" where
  "print_names mem [] = Some (0, [])"
| "print_names mem (name # names) = do {
     line \<leftarrow> printone_loop mem name 0;
     (rcode, out) \<leftarrow> print_names mem names;
     Some (case line of
             Some l \<Rightarrow> (rcode, l @ out)
           | None \<Rightarrow> (rcode + 1, ''## Error: '' @ [CHR 0x22] @ name @ [CHR 0x22] @ '' not defined'' @ [CHR 0x0A] @ out))
   }"

text \<open>The line with the size of the environment is the second part of the output.\<close>

definition do_printenv :: "bool list \<Rightarrow> 'w env_state \<Rightarrow> char list list \<Rightarrow> (int \<times> char list \<times> nat option) option" where
  "do_printenv polls st argv =
     (if length argv = 1 then do {
        (out, i, broken) \<leftarrow> printall_loop polls (env_get_addr st) 0;
        Some (if broken then (1, out @ [CHR 0x0A] @ '' ** Abort'' @ [CHR 0x0A], None) else (0, out, Some i))
      } else map_option (\<lambda>(r, out). (r, out, None)) (print_names (env_get_addr st) (drop 1 argv)))"

section \<open>Setting variables\<close>

text \<open>The search for an existing entry: its index, the index of its value and that of its end.\<close>

function find_var :: "char list \<Rightarrow> char list \<Rightarrow> nat \<Rightarrow> (nat \<times> nat \<times> nat) option option" where
  "find_var mem name i =
     (case env_get_char mem i of
        None \<Rightarrow> None
      | Some c \<Rightarrow>
          if c = NUL then Some None
          else case next_nul mem i of
                 None \<Rightarrow> None
               | Some nxt \<Rightarrow>
                   (case envmatch name mem i of
                      None \<Rightarrow> None
                    | Some oldval \<Rightarrow> if oldval \<ge> 0 then Some (Some (i, nat oldval, nxt)) else find_var mem name (nxt + 1)))"
  by pat_completeness auto
termination
  by (relation "measure (\<lambda>(mem, name, i). length mem - i)") (auto dest: next_nul_ge)

declare find_var.simps [simp del]

text \<open>The loop that moves the following entries down over a deleted one.\<close>

function shift_loop :: "char list \<Rightarrow> nat \<Rightarrow> nat \<Rightarrow> (char list \<times> nat) option" where
  "shift_loop mem i nxt =
     (case env_get_char mem nxt of
        None \<Rightarrow> None
      | Some c \<Rightarrow>
          (case env_put_char mem i c of
             None \<Rightarrow> None
           | Some mem' \<Rightarrow>
               (case env_get_char mem' (nxt + 1) of
                  None \<Rightarrow> None
                | Some c' \<Rightarrow> if c = NUL \<and> c' = NUL then Some (mem', i) else shift_loop mem' (i + 1) (nxt + 1))))"
  by pat_completeness auto
termination
  by (relation "measure (\<lambda>(mem, i, nxt). length mem - nxt)") (auto simp: env_get_char_def env_put_char_def split: if_splits)

declare shift_loop.simps [simp del]

definition delete_var :: "char list \<Rightarrow> nat \<Rightarrow> nat \<Rightarrow> char list option" where
  "delete_var mem i nxt = do {
     c \<leftarrow> env_get_char mem (nxt + 1);
     (mem, i) \<leftarrow>
       (if c = NUL then
          (if i > 0 then Some (mem, i - 1) else map_option (\<lambda>m. (m, i)) (env_put_char mem i NUL))
        else shift_loop mem i (nxt + 1));
     env_put_char mem (i + 1) NUL
   }"

text \<open>The end of the entries.\<close>

function end_loop :: "char list \<Rightarrow> nat \<Rightarrow> nat option" where
  "end_loop mem i =
     (case env_get_char mem i of
        None \<Rightarrow> None
      | Some c \<Rightarrow>
          if c \<noteq> NUL then end_loop mem (i + 1)
          else (case env_get_char mem (i + 1) of
                  None \<Rightarrow> None
                | Some c' \<Rightarrow> if c' \<noteq> NUL then end_loop mem (i + 1) else Some i))"
  by pat_completeness auto
termination
  by (relation "measure (\<lambda>(mem, i). length mem - i)") (auto simp: env_get_char_def split: if_splits)

declare end_loop.simps [simp del]

text \<open>A string with its null character is stored; the result has the index of the null character.\<close>

fun put_string :: "char list \<Rightarrow> nat \<Rightarrow> char list \<Rightarrow> (char list \<times> nat) option" where
  "put_string mem i [] = map_option (\<lambda>m. (m, i)) (env_put_char mem i NUL)"
| "put_string mem i (c # s) = do { mem \<leftarrow> env_put_char mem i c; put_string mem (i + 1) s }"

fun put_values :: "char list \<Rightarrow> nat \<Rightarrow> char \<Rightarrow> char list list \<Rightarrow> (char list \<times> nat) option" where
  "put_values mem i sep [] = Some (mem, i)"
| "put_values mem i sep (val # vals) = do {
     mem \<leftarrow> env_put_char mem i sep;
     (mem, i) \<leftarrow> put_string mem (i + 1) val;
     put_values mem i (CHR '' '') vals
   }"

text \<open>Appending the definition; Some None is the overflow.\<close>

definition append_var :: "nat \<Rightarrow> char list \<Rightarrow> char list \<Rightarrow> char list list \<Rightarrow> char list option option" where
  "append_var limit mem name vals = do {
     i \<leftarrow> end_loop mem 0;
     let i = (if i > 0 then i + 1 else i);
     let len = length name + 2 + sum_list (map (\<lambda>v. length v + 1) vals);
     if int len > int limit - int i then Some None
     else do {
       (mem, i) \<leftarrow> put_string mem i name;
       (mem, i) \<leftarrow> put_values mem i (CHR ''='') vals;
       map_option Some (env_put_char mem (i + 1) NUL)
     }
   }"

definition htonl :: "u32 \<Rightarrow> u32" where
  "htonl x = (push_bit 24 (x AND 0x000000ff)) OR (push_bit 8 (x AND 0x0000ff00)) OR
     (drop_bit 8 (x AND 0x00ff0000)) OR (drop_bit 24 (x AND 0xff000000))"

fun parse_bytes :: "nat \<Rightarrow> u32 \<Rightarrow> char list \<Rightarrow> u32 list" where
  "parse_bytes 0 base s = []"
| "parse_bytes (Suc n) base s = (let (v, e) = simple_strtoul s base in v # parse_bytes n base (tl e))"

definition copy_filename :: "char list \<Rightarrow> nat \<Rightarrow> char list" where
  "copy_filename src n =
     (let (src, n) = (if peek src = CHR 0x22 then (tl src, n - 1) else (src, n))
      in take (n - 1) (takeWhile (\<lambda>c. c \<noteq> CHR 0x22) src))"

text \<open>What else changes with some variables.\<close>

definition env_followup :: "'w config \<Rightarrow> char list \<Rightarrow> char list \<Rightarrow> 'w env_state \<Rightarrow> 'w env_state" where
  "env_followup cfg name val st =
     (if name = ''ethaddr'' then st\<lparr>bi_enetaddr := map ucast (parse_bytes 6 16 val)\<rparr>
      else if name = ''ipaddr'' then
        st\<lparr>bi_ip_addr := htonl (fold (\<lambda>v addr. push_bit 8 addr OR (v AND 0xFF)) (parse_bytes 4 10 val) 0)\<rparr>
      else if name = ''loadaddr'' then st\<lparr>load_addr := fst (simple_strtoul val 16)\<rparr>
      else if name = ''bootfile'' then st\<lparr>BootFile := copy_filename val (sizeof_BootFile cfg)\<rparr>
      else st)"

definition stdio_index :: "char list \<Rightarrow> nat option" where
  "stdio_index name = (if name = ''stdin'' then Some 0 else if name = ''stdout'' then Some 1
     else if name = ''stderr'' then Some 2 else None)"

text \<open>
  The checks before an existing variable is replaced: protected variables, the console, and the
  baud rate with its wait for the enter key. The result tells whether to go on.
\<close>

definition before_replace ::
    "'w config \<Rightarrow> char list \<Rightarrow> char list option list \<Rightarrow> 'w env_state \<Rightarrow> (bool \<times> 'w env_state) option" where
  "before_replace cfg name vals st =
     (if \<not> ENV_OVERWRITE cfg \<and> (name = ''serial#'' \<or> name = ''ethaddr'') then Some (False, st)
      else do {
        (ok, st) \<leftarrow>
          (case stdio_index name of
             None \<Rightarrow> Some (True, st)
           | Some i \<Rightarrow>
               if vals = [] then Some (False, st)
               else do {
                 dev \<leftarrow> hd vals;
                 let (r, w) = console_assign cfg i dev (console st);
                 Some (\<not> r < 0, st\<lparr>console := w\<rparr>)
               });
        if ok \<and> name = ''baudrate'' then do {
          val \<leftarrow> (if vals = [] then None else hd vals);
          let rate = fst (simple_strtoul val 10);
          if rate \<notin> set (baudrate_table cfg) then Some (False, st)
          else if CHR 0x0D \<notin> set (input st) then None
          else Some (True, st\<lparr>baudrate := rate, input := tl (dropWhile (\<lambda>c. c \<noteq> CHR 0x0D) (input st))\<rparr>)
        } else Some (ok, st)
      })"

text \<open>
  The arguments after the command name. A null pointer as the value deletes the variable, as does
  a missing value. The limit of the environment is the size without the header.
\<close>

definition do_setenv_args :: "'w config \<Rightarrow> nat \<Rightarrow> char list \<Rightarrow> char list option list \<Rightarrow> 'w env_state \<Rightarrow> (int \<times> 'w env_state) option" where
  "do_setenv_args cfg ENV_SIZE name vals st =
     (if CHR ''='' \<in> set name then Some (1, st)
      else do {
        old \<leftarrow> find_var (env_get_addr st) name 0;
        (ok, st) \<leftarrow>
          (case old of
             None \<Rightarrow> Some (True, st)
           | Some (i, oldval, nxt) \<Rightarrow> do {
               (ok, st) \<leftarrow> before_replace cfg name vals st;
               if ok then map_option (\<lambda>mem. (True, env_set_addr st mem)) (delete_var (env_get_addr st) i nxt)
               else Some (False, st)
             });
        if \<not> ok then Some (1, st)
        else if vals = [] \<or> hd vals = None then Some (0, env_crc_update st)
        else do {
          vs \<leftarrow> those vals;
          new \<leftarrow> append_var ENV_SIZE (env_get_addr st) name vs;
          case new of
            None \<Rightarrow> Some (1, st)
          | Some mem \<Rightarrow> Some (0, env_followup cfg name (hd vs) (env_crc_update (env_set_addr st mem)))
        }
      })"

definition setenv :: "'w config \<Rightarrow> nat \<Rightarrow> char list \<Rightarrow> char list option \<Rightarrow> 'w env_state \<Rightarrow> 'w env_state option" where
  "setenv cfg ENV_SIZE varname varvalue st = map_option snd (do_setenv_args cfg ENV_SIZE varname [varvalue] st)"

definition do_setenv :: "'w config \<Rightarrow> nat \<Rightarrow> char list list \<Rightarrow> 'w env_state \<Rightarrow> (int \<times> 'w env_state) option" where
  "do_setenv cfg ENV_SIZE argv st =
     (if length argv < 2 then Some (1, st)
      else do_setenv_args cfg ENV_SIZE (argv ! 1) (map Some (drop 2 argv)) st)"

end
