(* ===== verification/EnvRefine.thy ===== *)
theory EnvRefine
  imports Environment "HOL-Library.Sublist"
begin

text \<open>
  The environment array implements a finite map from names to values. The abstract view is the list
  of its entries; searching, deleting and appending on the array are lookup, removal and
  insertion on that list, and no access leaves the array.
\<close>

section \<open>The representation\<close>

type_synonym entry = "char list \<times> char list"

definition text_of :: "entry \<Rightarrow> char list" where
  "text_of e = fst e @ CHR ''='' # snd e"

definition entry_ok :: "entry \<Rightarrow> bool" where
  "entry_ok e \<longleftrightarrow> NUL \<notin> set (fst e) \<and> CHR ''='' \<notin> set (fst e) \<and> NUL \<notin> set (snd e)"

definition encode :: "entry list \<Rightarrow> char list" where
  "encode es = concat (map (\<lambda>e. text_of e @ [NUL]) es)"

text \<open>The array begins with the entries and an extra null character, with two of them if it is empty.\<close>

definition represents :: "char list \<Rightarrow> entry list \<Rightarrow> bool" where
  "represents mem es \<longleftrightarrow> list_all entry_ok es \<and> distinct (map fst es) \<and>
     prefix (encode es @ [NUL]) mem \<and> (es = [] \<longrightarrow> prefix [NUL, NUL] mem)"

lemma encode_simps [simp]: "encode [] = []" "encode (e # es) = text_of e @ NUL # encode es" "encode (es @ fs) = encode es @ encode fs"
  by (simp_all add: encode_def)

lemma text_of_no_nul: "entry_ok e \<Longrightarrow> NUL \<notin> set (text_of e)"
  by (auto simp: entry_ok_def text_of_def NUL_def)

lemma text_of_Cons: "\<exists>c cs. text_of e = c # cs"
  by (cases "fst e") (auto simp: text_of_def)

lemma entry_first: "entry_ok e \<Longrightarrow> \<exists>c cs. text_of e = c # cs \<and> c \<noteq> NUL \<and> NUL \<notin> set cs"
  using text_of_Cons [of e] text_of_no_nul [of e] by auto

section \<open>Searching\<close>

lemma get_append [simp]: "env_get_char (pre @ c # mem) (length pre) = Some c"
  by (simp add: env_get_char_def)

lemma get_append2 [simp]: "env_get_char (pre @ x # c # mem) (Suc (length pre)) = Some c"
  by (simp add: env_get_char_def nth_append)

lemma next_nul_at:
  "NUL \<notin> set s \<Longrightarrow> next_nul (pre @ s @ NUL # mem) (length pre) = Some (length pre + length s)"
proof (induction s arbitrary: pre)
  case Nil
  then show ?case by (subst next_nul.simps) simp
next
  case (Cons c s)
  from Cons.IH [of "pre @ [c]"] Cons.prems show ?case by (subst next_nul.simps) auto
qed

lemma next_nul_limited_at:
  "NUL \<notin> set s \<Longrightarrow> length pre + length s \<le> limit \<Longrightarrow>
     next_nul_limited limit (pre @ s @ NUL # mem) (length pre) = Some (Some (length pre + length s))"
proof (induction s arbitrary: pre)
  case Nil
  then show ?case by (subst next_nul_limited.simps) simp
next
  case (Cons c s)
  from Cons.IH [of "pre @ [c]"] Cons.prems show ?case by (subst next_nul_limited.simps) auto
qed

lemma envmatch_at:
  "NUL \<notin> set n \<Longrightarrow> CHR ''='' \<notin> set name \<Longrightarrow> CHR ''='' \<notin> set n \<Longrightarrow> NUL \<notin> set name \<Longrightarrow>
   envmatch name (pre @ n @ CHR ''='' # mem) (length pre) =
     Some (if name = n then int (length pre + length n + 1) else -1)"
proof (induction name arbitrary: pre n)
  case Nil
  then show ?case by (cases n) (auto simp: NUL_def)
next
  case (Cons x name)
  show ?case
  proof (cases n)
    case Nil
    with Cons.prems show ?thesis by auto
  next
    case (Cons y n')
    with Cons.IH [of n' "pre @ [x]"] Cons.prems show ?thesis by (auto simp: Cons)
  qed
qed

definition name_ok :: "char list \<Rightarrow> bool" where
  "name_ok name \<longleftrightarrow> NUL \<notin> set name \<and> CHR ''='' \<notin> set name"

text \<open>What the search loops see at the start of an entry.\<close>

lemma at_entry:
  assumes "entry_ok e" and "name_ok name"
  shows "\<exists>c. env_get_char (pre @ text_of e @ NUL # mem) (length pre) = Some c \<and> c \<noteq> NUL"
    and "envmatch name (pre @ text_of e @ NUL # mem) (length pre) =
      Some (if name = fst e then int (length pre + length name + 1) else -1)"
    and "next_nul (pre @ text_of e @ NUL # mem) (length pre) = Some (length pre + length (text_of e))"
proof -
  show "\<exists>c. env_get_char (pre @ text_of e @ NUL # mem) (length pre) = Some c \<and> c \<noteq> NUL"
    using entry_first [OF assms(1)] by auto
  show "envmatch name (pre @ text_of e @ NUL # mem) (length pre) =
      Some (if name = fst e then int (length pre + length name + 1) else -1)"
    using envmatch_at [of "fst e" name pre "snd e @ NUL # mem"] assms by (auto simp: text_of_def entry_ok_def name_ok_def)
  show "next_nul (pre @ text_of e @ NUL # mem) (length pre) = Some (length pre + length (text_of e))"
    using next_nul_at [OF text_of_no_nul [OF assms(1)]] .
qed

text \<open>Entries of other names are skipped.\<close>

lemma find_var_skip:
  "list_all entry_ok es \<Longrightarrow> name_ok name \<Longrightarrow> name \<notin> fst ` set es \<Longrightarrow>
   find_var (pre @ encode es @ mem) name (length pre) = find_var (pre @ encode es @ mem) name (length pre + length (encode es))"
proof (induction es arbitrary: pre)
  case (Cons e es)
  let ?m = "pre @ text_of e @ NUL # encode es @ mem"
  have ok: "entry_ok e" using Cons.prems by simp
  note at = at_entry [OF ok Cons.prems(2), of pre "encode es @ mem"]
  have "find_var ?m name (length pre) = find_var ?m name (length pre + length (text_of e) + 1)"
    using at Cons.prems(3) by (subst find_var.simps) auto
  also have "\<dots> = find_var ?m name (length pre + length (text_of e) + 1 + length (encode es))"
    using Cons.IH [of "pre @ text_of e @ [NUL]"] Cons.prems by simp
  finally show ?case by (simp add: add.assoc)
qed simp

lemma getenv_skip:
  "list_all entry_ok es \<Longrightarrow> name_ok name \<Longrightarrow> name \<notin> fst ` set es \<Longrightarrow> length pre + length (encode es) \<le> limit \<Longrightarrow>
   getenv_loop limit (pre @ encode es @ mem) name (length pre) =
     getenv_loop limit (pre @ encode es @ mem) name (length pre + length (encode es))"
proof (induction es arbitrary: pre)
  case (Cons e es)
  let ?m = "pre @ text_of e @ NUL # encode es @ mem"
  have ok: "entry_ok e" using Cons.prems by simp
  note at = at_entry [OF ok Cons.prems(2), of pre "encode es @ mem"]
    next_nul_limited_at [OF text_of_no_nul [OF ok], of pre limit "encode es @ mem"]
  have "getenv_loop limit ?m name (length pre) = getenv_loop limit ?m name (length pre + length (text_of e) + 1)"
    using at Cons.prems(3,4) by (subst getenv_loop.simps) auto
  also have "\<dots> = getenv_loop limit ?m name (length pre + length (text_of e) + 1 + length (encode es))"
    using Cons.IH [of "pre @ text_of e @ [NUL]"] Cons.prems by simp
  finally show ?case by (simp add: add.assoc)
qed simp

lemma find_var_none:
  assumes "list_all entry_ok es" "name_ok name" "name \<notin> fst ` set es"
  shows "find_var (encode es @ NUL # mem) name 0 = Some None"
  using find_var_skip [OF assms, of "[]" "NUL # mem"] by (simp add: find_var.simps)

lemma find_var_some:
  assumes "list_all entry_ok (as @ (name, v) # bs)" "name_ok name" "name \<notin> fst ` set as"
  shows "find_var (encode (as @ (name, v) # bs) @ mem) name 0 =
    Some (Some (length (encode as), length (encode as) + length name + 1, length (encode as) + length (text_of (name, v))))"
proof -
  let ?m = "encode as @ text_of (name, v) @ NUL # encode bs @ mem"
  have as: "list_all entry_ok as" and ok: "entry_ok (name, v)" using assms(1) by simp_all
  note at = at_entry [OF ok assms(2), of "encode as" "encode bs @ mem"]
  have "find_var ?m name 0 = find_var ?m name (length (encode as))"
    using find_var_skip [OF as assms(2,3), of "[]" "text_of (name, v) @ NUL # encode bs @ mem"] by simp
  then show ?thesis using at by (subst (asm) find_var.simps [of ?m name "length (encode as)"]) auto
qed

section \<open>Reading\<close>

definition c_string_at :: "char list \<Rightarrow> nat \<Rightarrow> char list" where
  "c_string_at mem i = takeWhile (\<lambda>c. c \<noteq> NUL) (drop i mem)"

lemma c_string_at_end: "NUL \<notin> set v \<Longrightarrow> c_string_at (A @ v @ NUL # t) (length A) = v"
  by (auto simp: c_string_at_def takeWhile_tail)

lemma getenv_none:
  assumes "list_all entry_ok es" "name_ok name" "name \<notin> fst ` set es" "length (encode es) \<le> limit"
  shows "getenv_loop limit (encode es @ NUL # mem) name 0 = Some None"
  using getenv_skip [OF assms(1-3), of "[]" limit "NUL # mem"] assms(4) by (simp add: getenv_loop.simps)

lemma getenv_some:
  assumes "list_all entry_ok (as @ (name, v) # bs)" "name_ok name" "name \<notin> fst ` set as"
    and "length (encode (as @ (name, v) # bs)) \<le> limit"
  shows "\<exists>A t. getenv_loop limit (encode (as @ (name, v) # bs) @ mem) name 0 = Some (Some (length A)) \<and>
    encode (as @ (name, v) # bs) @ mem = A @ v @ NUL # t"
proof -
  let ?m = "encode as @ text_of (name, v) @ NUL # encode bs @ mem"
  have as: "list_all entry_ok as" and ok: "entry_ok (name, v)" using assms(1) by simp_all
  note at = at_entry [OF ok assms(2), of "encode as" "encode bs @ mem"]
    next_nul_limited_at [OF text_of_no_nul [OF ok], of "encode as" limit "encode bs @ mem"]
  have "getenv_loop limit ?m name 0 = getenv_loop limit ?m name (length (encode as))"
    using getenv_skip [OF as assms(2,3), of "[]" limit "text_of (name, v) @ NUL # encode bs @ mem"] assms(4) by simp
  then have "getenv_loop limit ?m name 0 = Some (Some (length (encode as) + length name + 1))"
    using at assms(4) by (subst (asm) getenv_loop.simps [of limit ?m name "length (encode as)"]) auto
  then show ?thesis
    by (intro exI [of _ "encode as @ name @ ''=''"] exI [of _ "encode bs @ mem"]) (simp add: text_of_def)
qed

section \<open>Deleting\<close>

text \<open>Entries one after the other contain no two null characters in a row.\<close>

fun no_double :: "char list \<Rightarrow> bool" where
  "no_double [] = True"
| "no_double [c] = (c \<noteq> NUL)"
| "no_double (c # d # cs) = ((c \<noteq> NUL \<or> d \<noteq> NUL) \<and> no_double (d # cs))"

lemma no_double_append: "NUL \<notin> set xs \<Longrightarrow> no_double (xs @ ys) = no_double ys"
proof (induction xs)
  case (Cons x xs)
  then show ?case by (cases "xs @ ys") (auto split: list.splits)
qed simp

lemma encode_butlast:
  assumes "list_all entry_ok es" and "es \<noteq> []"
  shows "\<exists>body. encode es = body @ [NUL] \<and> no_double body \<and> body \<noteq> [] \<and> hd body \<noteq> NUL"
  using assms
proof (induction es)
  case (Cons e es)
  then have ok: "entry_ok e" by simp
  obtain c cs where c: "text_of e = c # cs" "c \<noteq> NUL" using entry_first [OF ok] by blast
  note nn = no_double_append [OF text_of_no_nul [OF ok]]
  show ?case
  proof (cases "es = []")
    case True
    then show ?thesis using c nn [of "[]"] by (intro exI [of _ "text_of e"]) simp
  next
    case False
    then obtain body where b: "encode es = body @ [NUL]" "no_double body" "body \<noteq> []" "hd body \<noteq> NUL" using Cons by auto
    then have "no_double (NUL # body)" by (cases body) auto
    then show ?thesis using b c nn [of "NUL # body"] by (intro exI [of _ "text_of e @ NUL # body"]) simp
  qed
qed simp

lemma put_append [simp]: "env_put_char (pre @ x # mem) (length pre) c = Some (pre @ c # mem)"
  by (simp add: env_put_char_def)

lemma shift_loop_at:
  "no_double body \<Longrightarrow> X \<noteq> [] \<Longrightarrow>
   \<exists>tail. shift_loop (A @ X @ body @ NUL # NUL # mem) (length A) (length A + length X) = Some (A @ body @ NUL # tail, length A + length body) \<and>
     tail \<noteq> []  \<and> length (A @ body @ NUL # tail) = length (A @ X @ body @ NUL # NUL # mem)"
proof (induction body arbitrary: A X)
  case Nil
  then obtain x X' where X: "X = x # X'" by (cases X) auto
  have 1: "env_get_char (A @ X @ NUL # NUL # mem) (length A + length X) = Some NUL"
    using get_append [of "A @ X" NUL "NUL # mem"] by simp
  have 2: "env_get_char (A @ NUL # X' @ NUL # NUL # mem) (Suc (length A + length X)) = Some NUL"
    using get_append [of "A @ NUL # X' @ [NUL]" NUL mem] by (simp add: X)
  show ?case
    using 1 2 by (intro exI [of _ "X' @ NUL # NUL # mem"]) (subst shift_loop.simps, simp add: X)
next
  case (Cons c body)
  then obtain x X' where X: "X = x # X'" by (cases X) auto
  let ?m = "A @ X @ (c # body) @ NUL # NUL # mem" and ?m' = "(A @ [c]) @ (X' @ [c]) @ body @ NUL # NUL # mem"
  obtain d rest where d: "body @ NUL # NUL # mem = d # rest" by (cases body) auto
  have 1: "env_get_char ?m (length A + length X) = Some c" using get_append [of "A @ X" c "body @ NUL # NUL # mem"] by simp
  have 2: "env_put_char ?m (length A) c = Some ?m'" by (simp add: X)
  have 3: "env_get_char ?m' (length A + length X + 1) = Some d"
    using get_append [of "A @ [c] @ X' @ [c]" d rest] by (simp add: X d)
  have nd: "\<not> (c = NUL \<and> d = NUL)" "no_double body"
    using Cons.prems(1) d by (cases body; auto)+
  have "shift_loop ?m (length A) (length A + length X) = shift_loop ?m' (length A + 1) (length A + length X + 1)"
    using 1 2 3 nd by (subst shift_loop.simps) auto
  moreover obtain tail where "shift_loop ?m' (length (A @ [c])) (length (A @ [c]) + length (X' @ [c])) =
      Some ((A @ [c]) @ body @ NUL # tail, length (A @ [c]) + length body)" "tail \<noteq> []"
      "length ((A @ [c]) @ body @ NUL # tail) = length ((A @ [c]) @ (X' @ [c]) @ body @ NUL # NUL # mem)"
    using Cons.IH [OF nd(2), of "X' @ [c]" "A @ [c]"] by auto
  ultimately show ?case by (intro exI [of _ tail]) (simp add: X)
qed

lemma delete_var_at:
  assumes "list_all entry_ok (as @ e # bs)"
  shows "\<exists>tail. delete_var (encode (as @ e # bs) @ NUL # mem) (length (encode as)) (length (encode as) + length (text_of e)) =
      Some (encode (as @ bs) @ NUL # tail) \<and> (as @ bs = [] \<longrightarrow> prefix [NUL] tail) \<and>
      length (encode (as @ bs) @ NUL # tail) = length (encode (as @ e # bs) @ NUL # mem)"
proof (cases "bs = []")
  case True
  let ?m = "encode as @ text_of e @ NUL # NUL # mem"
  obtain c cs where c: "text_of e @ [NUL] = c # cs" "cs \<noteq> []" using text_of_Cons [of e] by auto
  then have m: "?m = encode as @ c # cs @ NUL # mem" by simp
  have 1: "env_get_char ?m (Suc (length (encode as) + length (text_of e))) = Some NUL"
    using get_append2 [of "encode as @ text_of e" NUL NUL mem] by simp
  obtain x xs where cs: "cs = x # xs" using c(2) by (cases cs) auto
  show ?thesis
  proof (cases "as = []")
    case T: True
    have m': "encode (as @ e # bs) @ NUL # mem = c # x # xs @ NUL # mem" using m T True cs by simp
    have "env_get_char (c # x # xs @ NUL # mem) (Suc (length (text_of e))) = Some NUL" using 1 unfolding m by (simp add: T cs)
    then show ?thesis
      unfolding m' using T True by (intro exI [of _ "NUL # xs @ NUL # mem"]) (simp add: delete_var_def env_put_char_def)
  next
    case F: False
    then have "0 < length (encode as)" using text_of_Cons by (cases as) auto
    then show ?thesis
      using 1 m True F c by (intro exI [of _ "cs @ NUL # mem"]) (auto simp: delete_var_def)
  qed
next
  case False
  then obtain body where b: "encode bs = body @ [NUL]" "no_double body" "body \<noteq> []" "hd body \<noteq> NUL"
    using encode_butlast [of bs] assms by auto
  let ?m = "encode as @ (text_of e @ [NUL]) @ body @ NUL # NUL # mem"
  have 1: "env_get_char ?m (Suc (length (encode as) + length (text_of e))) = Some (hd body)"
    using b(3) get_append2 [of "encode as @ text_of e" NUL "hd body" "tl body @ NUL # NUL # mem"] by (cases body) simp_all
  obtain tail where t: "shift_loop ?m (length (encode as)) (length (encode as) + length (text_of e @ [NUL])) =
      Some (encode as @ body @ NUL # tail, length (encode as) + length body)" "tail \<noteq> []"
      "length (encode as @ body @ NUL # tail) = length ?m"
    using shift_loop_at [OF b(2), of "text_of e @ [NUL]" "encode as" mem] by auto
  obtain t0 ts where ts: "tail = t0 # ts" using t(2) by (cases tail) auto
  have "env_put_char (encode as @ body @ NUL # t0 # ts) (Suc (length (encode as) + length body)) NUL =
      Some (encode as @ body @ NUL # NUL # ts)"
    using put_append [of "encode as @ body @ [NUL]" t0 ts NUL] by simp
  then show ?thesis
    using 1 t b ts False by (intro exI [of _ ts]) (auto simp: delete_var_def)
qed

section \<open>Appending\<close>

lemma end_loop_at:
  "no_double body \<Longrightarrow> end_loop (A @ body @ NUL # NUL # mem) (length A) = Some (length A + length body)"
proof (induction body arbitrary: A)
  case Nil
  then show ?case by (subst end_loop.simps) simp
next
  case (Cons c body)
  obtain d rest where d: "body @ NUL # NUL # mem = d # rest" by (cases body) auto
  have nd: "\<not> (c = NUL \<and> d = NUL)" "no_double body"
    using Cons.prems(1) d by (cases body; auto)+
  have "end_loop (A @ c # d # rest) (length A) = end_loop (A @ c # d # rest) (length A + 1)"
    using nd(1) by (subst end_loop.simps) auto
  with Cons.IH [OF nd(2), of "A @ [c]"] show ?case by (simp add: d)
qed

text \<open>Where a new definition goes.\<close>

lemma end_of_entries:
  assumes "represents mem es"
  shows "\<exists>i. end_loop mem 0 = Some i \<and> (if i > 0 then i + 1 else i) = length (encode es)"
proof (cases "es = []")
  case True
  with assms obtain m where "mem = NUL # NUL # m" by (auto simp: represents_def prefix_def)
  with end_loop_at [of "[]" "[]" m] True show ?thesis by simp
next
  case False
  then obtain body where b: "encode es = body @ [NUL]" "no_double body" "body \<noteq> []"
    using encode_butlast [of es] assms by (auto simp: represents_def)
  obtain m where "mem = body @ NUL # NUL # m" using assms b(1) by (auto simp: represents_def prefix_def)
  with end_loop_at [OF b(2), of "[]" m] b show ?thesis by simp
qed

lemma put_string_at:
  "length s < length old \<Longrightarrow> put_string (pre @ old) (length pre) s = Some (pre @ s @ NUL # drop (length s + 1) old, length pre + length s)"
proof (induction s arbitrary: pre old)
  case Nil
  then show ?case by (cases old) auto
next
  case (Cons c s)
  then obtain x old' where o: "old = x # old'" by (cases old) auto
  with Cons.IH [of old' "pre @ [c]"] Cons.prems show ?case by simp
qed

text \<open>The values as they are stored.\<close>

fun joined :: "char list list \<Rightarrow> char list" where
  "joined [] = []"
| "joined [v] = v"
| "joined (v # vs) = v @ CHR '' '' # joined vs"

lemma joined_Cons: "vs \<noteq> [] \<Longrightarrow> joined (v # vs) = v @ CHR '' '' # joined vs"
  by (cases vs) simp_all

lemma joined_length: "vs \<noteq> [] \<Longrightarrow> Suc (length (joined vs)) = sum_list (map (\<lambda>v. length v + 1) vs)"
proof (induction vs)
  case (Cons v vs)
  then show ?case by (cases "vs = []") (auto simp: joined_Cons)
qed simp

lemma joined_set: "set (joined vs) \<subseteq> insert (CHR '' '') (\<Union>(set ` set vs))"
  by (induction vs rule: joined.induct) auto

lemma put_values_at:
  "vs \<noteq> [] \<Longrightarrow> length (joined vs) + 1 < length old \<Longrightarrow>
   put_values (pre @ old) (length pre) sep vs =
     Some (pre @ sep # joined vs @ NUL # drop (length (joined vs) + 2) old, length pre + length (joined vs) + 1)"
proof (induction vs arbitrary: pre old sep)
  case (Cons v vs)
  then obtain x old' where o: "old = x # old'" by (cases old) auto
  have v: "length v < length old'" using Cons.prems by (cases "vs = []") (auto simp: o joined_Cons)
  have p: "put_string (pre @ sep # old') (Suc (length pre)) v = Some (pre @ sep # v @ NUL # drop (length v + 1) old', Suc (length pre) + length v)"
    using put_string_at [OF v, of "pre @ [sep]"] by simp
  show ?case
  proof (cases "vs = []")
    case True
    then show ?thesis using p by (simp add: o)
  next
    case False
    have "length (joined vs) + 1 < length (NUL # drop (length v + 1) old')"
      using Cons.prems v False by (simp add: o joined_Cons)
    from Cons.IH [OF False this, of "pre @ sep # v" "CHR '' ''"] show ?thesis
      using p False by (simp add: o joined_Cons ac_simps)
  qed
qed simp

lemma append_var_at:
  assumes "represents mem es" and "length mem = limit" and "vs \<noteq> []" and "entry_ok (name, joined vs)" and "name \<notin> fst ` set es"
  shows "if length (encode es) + length (text_of (name, joined vs)) + 2 \<le> limit
    then \<exists>mem'. append_var limit mem name vs = Some (Some mem') \<and> represents mem' (es @ [(name, joined vs)]) \<and> length mem' = limit
    else append_var limit mem name vs = Some None"
proof -
  obtain i where i: "end_loop mem 0 = Some i" "(if i > 0 then i + 1 else i) = length (encode es)"
    using end_of_entries [OF assms(1)] by blast
  obtain old where m: "mem = encode es @ old" using assms(1) by (auto simp: represents_def prefix_def)
  let ?t = "length (text_of (name, joined vs))"
  have len: "length name + 2 + sum_list (map (\<lambda>v. length v + 1) vs) = ?t + 2"
    using joined_length [OF assms(3)] by (simp add: text_of_def)
  show ?thesis
  proof (cases "length (encode es) + ?t + 2 \<le> limit")
    case True
    then have old: "?t + 2 \<le> length old" using m assms(2) by simp
    have n: "length name < length old" using old by (simp add: text_of_def)
    have 1: "put_string mem (length (encode es)) name = Some (encode es @ name @ NUL # drop (length name + 1) old, length (encode es) + length name)"
      using put_string_at [OF n] by (simp add: m)
    have "length (joined vs) + 1 < length (NUL # drop (length name + 1) old)" using old by (simp add: text_of_def)
    from put_values_at [OF assms(3) this, of "encode es @ name" "CHR ''=''"]
    have 2: "put_values (encode es @ name @ NUL # drop (length name + 1) old) (length (encode es) + length name) (CHR ''='') vs =
        Some (encode es @ text_of (name, joined vs) @ NUL # drop (?t + 1) old, length (encode es) + ?t)"
      by (simp add: text_of_def ac_simps)
    obtain x xs where x: "drop (?t + 1) old = x # xs" "length old = ?t + 2 + length xs"
    proof (cases "drop (?t + 1) old")
      case Nil
      with old show ?thesis by simp
    next
      case (Cons x xs)
      then have "length (drop (?t + 1) old) = Suc (length xs)" by simp
      with that [OF Cons] old show ?thesis by simp
    qed
    have 3: "env_put_char (encode es @ text_of (name, joined vs) @ NUL # x # xs) (Suc (length (encode es) + ?t)) NUL =
        Some (encode es @ text_of (name, joined vs) @ NUL # NUL # xs)"
      using put_append [of "encode es @ text_of (name, joined vs) @ [NUL]" x xs NUL] by simp
    have "append_var limit mem name vs = Some (Some (encode es @ text_of (name, joined vs) @ NUL # NUL # xs))"
      using i True len 1 2 3 x by (simp add: append_var_def)
    moreover have "represents (encode es @ text_of (name, joined vs) @ NUL # NUL # xs) (es @ [(name, joined vs)])"
      using assms by (auto simp: represents_def prefix_def)
    ultimately show ?thesis using True m x assms(2) by simp
  next
    case False
    then show ?thesis using i len by (simp add: append_var_def)
  qed
qed

end
