(* ===== verification/Stores.thy ===== *)
theory Stores
  imports Prelude
begin

text \<open>
  The interface of a store of values under keys, which the environment of the boot loader provides for its
  variables and the tree of tnodes for the chunks of a file: the laws of its operations, and
  what follows from them for sequences of operations.
\<close>

locale variable_store =
  fixes inv :: "'s \<Rightarrow> bool" and key_ok :: "'k \<Rightarrow> bool" and value_ok :: "'v \<Rightarrow> bool"
    and lookup :: "'s \<Rightarrow> 'k \<Rightarrow> 'v option" and assign :: "'k \<Rightarrow> 'v \<Rightarrow> 's \<Rightarrow> 's option"
    and remove :: "'k \<Rightarrow> 's \<Rightarrow> 's option"
  assumes assign_inv: "inv s \<Longrightarrow> key_ok k \<Longrightarrow> value_ok v \<Longrightarrow> assign k v s = Some s' \<Longrightarrow> inv s'"
    and lookup_assign: "inv s \<Longrightarrow> key_ok k \<Longrightarrow> value_ok v \<Longrightarrow> assign k v s = Some s' \<Longrightarrow> key_ok j \<Longrightarrow>
      lookup s' j = (if j = k then Some v else lookup s j)"
    and remove_inv: "inv s \<Longrightarrow> key_ok k \<Longrightarrow> remove k s = Some s' \<Longrightarrow> inv s'"
    and lookup_remove: "inv s \<Longrightarrow> key_ok k \<Longrightarrow> remove k s = Some s' \<Longrightarrow> key_ok j \<Longrightarrow>
      lookup s' j = (if j = k then None else lookup s j)"
begin

text \<open>A script of assignments, each of which succeeds, leaves the last value of every variable.\<close>

lemma lookup_script:
  "inv s \<Longrightarrow> \<forall>(k, v) \<in> set kvs. key_ok k \<and> value_ok v \<Longrightarrow>
   foldl (\<lambda>so (k, v). Option.bind so (assign k v)) (Some s) kvs = Some s' \<Longrightarrow> key_ok j \<Longrightarrow>
   inv s' \<and> lookup s' j = (case map_of (rev kvs) j of Some v \<Rightarrow> Some v | None \<Rightarrow> lookup s j)"
proof (induction kvs arbitrary: s' rule: rev_induct)
  case (snoc kv kvs)
  obtain k v where kv: "kv = (k, v)" by (cases kv)
  obtain s1 where s1: "foldl (\<lambda>so (k, v). Option.bind so (assign k v)) (Some s) kvs = Some s1" "assign k v s1 = Some s'"
    using snoc.prems(3) by (auto simp: kv bind_eq_Some_conv)
  have IH: "inv s1" "lookup s1 j = (case map_of (rev kvs) j of Some v \<Rightarrow> Some v | None \<Rightarrow> lookup s j)"
    using snoc.IH [OF snoc.prems(1) _ s1(1) snoc.prems(4)] snoc.prems(2) by auto
  then show ?case
    using assign_inv [OF IH(1) _ _ s1(2)] lookup_assign [OF IH(1) _ _ s1(2) snoc.prems(4)] snoc.prems(2) by (auto simp: kv)
qed simp

lemma remove_assign:
  "inv s \<Longrightarrow> key_ok k \<Longrightarrow> value_ok v \<Longrightarrow> assign k v s = Some s1 \<Longrightarrow> remove k s1 = Some s2 \<Longrightarrow> key_ok j \<Longrightarrow>
   lookup s2 j = (if j = k then None else lookup s j)"
  using assign_inv [of s k v s1] lookup_assign [of s k v s1 j] lookup_remove [of s1 k s2 j] by simp

end

end
