(* ===== verification/EnvProps.thy ===== *)
theory EnvProps
  imports EnvRefine Stores
begin

text \<open>
  The properties of the environment: reading, setting and deleting variables implement the
  operations of a finite map, as the interface of a variable store states them; what happens at
  the end of the space; and the copying variant of getenv.
\<close>

section \<open>Setting a variable\<close>

text \<open>Variables without side effects on the console, and not protected against change.\<close>

definition plain :: "'w config \<Rightarrow> char list \<Rightarrow> bool" where
  "plain cfg name \<longleftrightarrow> name_ok name \<and> (ENV_OVERWRITE cfg \<or> name \<notin> {''serial#'', ''ethaddr''}) \<and>
     stdio_index name = None \<and> name \<noteq> ''baudrate''"

definition env_ok :: "'w env_state \<Rightarrow> entry list \<Rightarrow> bool" where
  "env_ok st es \<longleftrightarrow> env_valid st \<noteq> 0 \<and> represents (env_data (env st)) es"

definition crc_ok :: "'w env_state \<Rightarrow> bool" where
  "crc_ok st \<longleftrightarrow> hdr_crc (env st) = crc32 0 (map of_char (env_data (env st)))"

definition without :: "char list \<Rightarrow> entry list \<Rightarrow> entry list" where
  "without name es = filter (\<lambda>e. fst e \<noteq> name) es"

text \<open>The operation on the entries: the return value and the entries afterwards.\<close>

definition set_spec :: "nat \<Rightarrow> char list \<Rightarrow> char list list \<Rightarrow> entry list \<Rightarrow> int \<times> entry list" where
  "set_spec limit name vs es =
     (if vs = [] then (0, without name es)
      else if length (encode (without name es)) + length (text_of (name, joined vs)) + 2 \<le> limit
      then (0, without name es @ [(name, joined vs)])
      else (1, without name es))"

lemma representsD:
  assumes "represents mem es"
  shows "list_all entry_ok es" "distinct (map fst es)" "\<exists>t. mem = encode es @ NUL # t"
  using assms by (auto simp: represents_def prefix_def)

lemma split_at_name:
  assumes "distinct (map fst es)" and "name \<in> fst ` set es"
  obtains as v bs where "es = as @ (name, v) # bs" "name \<notin> fst ` set as" "without name es = as @ bs"
proof -
  obtain v where "(name, v) \<in> set es" using assms(2) by force
  then obtain as bs where es: "es = as @ (name, v) # bs" by (meson split_list)
  with assms(1) have "name \<notin> fst ` set as" "name \<notin> fst ` set bs" by auto
  then have "filter (\<lambda>e. fst e \<noteq> name) as = as" "filter (\<lambda>e. fst e \<noteq> name) bs = bs" by (auto simp: filter_id_conv)
  with es that \<open>name \<notin> fst ` set as\<close> show ?thesis by (simp add: without_def)
qed

lemma without_absent: "name \<notin> fst ` set es \<Longrightarrow> without name es = es"
  by (auto simp: without_def filter_id_conv)

lemma before_replace_plain: "plain cfg name \<Longrightarrow> before_replace cfg name vals st = Some (True, st)"
  by (auto simp: plain_def before_replace_def)

lemma env_addr: "env_valid st \<noteq> 0 \<Longrightarrow> env_get_addr st = env_data (env st) \<and>
    env_set_addr st m = st\<lparr>env := (env st)\<lparr>env_data := m\<rparr>\<rparr>"
  by (simp add: env_get_addr_def env_set_addr_def)

text \<open>The first half, which removes an existing entry.\<close>

lemma remove_stage:
  assumes "env_ok st es" and "plain cfg name"
  shows "\<exists>old mem. find_var (env_get_addr st) name 0 = Some old \<and>
    (case old of None \<Rightarrow> Some (True, st)
     | Some (i, oldval, nxt) \<Rightarrow> do {
         (ok, st) \<leftarrow> before_replace cfg name vals st;
         if ok then map_option (\<lambda>mem. (True, env_set_addr st mem)) (delete_var (env_get_addr st) i nxt) else Some (False, st)
       }) = Some (True, st\<lparr>env := (env st)\<lparr>env_data := mem\<rparr>\<rparr>) \<and>
    represents mem (without name es) \<and> length mem = length (env_data (env st)) \<and> (name \<notin> fst ` set es \<longrightarrow> mem = env_data (env st))"
proof -
  have v: "env_valid st \<noteq> 0" and r: "represents (env_data (env st)) es" using assms(1) by (simp_all add: env_ok_def)
  note d = representsD [OF r]
  obtain t where t: "env_data (env st) = encode es @ NUL # t" using d(3) by blast
  have n: "name_ok name" using assms(2) by (simp add: plain_def)
  show ?thesis
  proof (cases "name \<in> fst ` set es")
    case True
    obtain as x bs where es: "es = as @ (name, x) # bs" "name \<notin> fst ` set as" "without name es = as @ bs"
      using split_at_name [OF d(2) True] by blast
    obtain tail where tl: "delete_var (encode es @ NUL # t) (length (encode as)) (length (encode as) + length (text_of (name, x))) =
        Some (encode (as @ bs) @ NUL # tail)" "as @ bs = [] \<longrightarrow> prefix [NUL] tail"
        "length (encode (as @ bs) @ NUL # tail) = length (encode es @ NUL # t)"
      using delete_var_at [of as "(name, x)" bs t] d(1) es(1) by blast
    have "represents (encode (as @ bs) @ NUL # tail) (as @ bs)"
      using d(1,2) tl(2) es(1) by (auto simp: represents_def prefix_def)
    then show ?thesis
      using True find_var_some [OF d(1)[unfolded es(1)] n es(2), of "NUL # t"] tl es v t before_replace_plain [OF assms(2)]
      by (intro exI [of _ "Some (length (encode as), length (encode as) + length name + 1, length (encode as) + length (text_of (name, x)))"]
          exI [of _ "encode (as @ bs) @ NUL # tail"]) (simp add: env_addr)
  next
    case False
    then show ?thesis
      using find_var_none [OF d(1) n, of t] r v t by (intro exI [of _ None] exI [of _ "env_data (env st)"])
        (simp add: env_addr without_absent)
  qed
qed

lemma followup_env [simp]: "env (env_followup cfg name val st) = env st" "env_valid (env_followup cfg name val st) = env_valid st"
  by (simp_all add: env_followup_def)

lemma those_Some [simp]: "those (map Some vs) = Some vs"
  by (induction vs) simp_all

lemma do_setenv_spec:
  assumes "env_ok st es" and "plain cfg name" and "list_all (\<lambda>v. NUL \<notin> set v) vs"
  shows "\<exists>st'. do_setenv_args cfg (length (env_data (env st))) name (map Some vs) st =
      Some (fst (set_spec (length (env_data (env st))) name vs es), st') \<and>
    env_ok st' (snd (set_spec (length (env_data (env st))) name vs es)) \<and>
    length (env_data (env st')) = length (env_data (env st)) \<and>
    (fst (set_spec (length (env_data (env st))) name vs es) = 0 \<longrightarrow> crc_ok st') \<and>
    (fst (set_spec (length (env_data (env st))) name vs es) \<noteq> 0 \<longrightarrow> hdr_crc (env st') = hdr_crc (env st))"
proof -
  let ?limit = "length (env_data (env st))"
  obtain old mem where o: "find_var (env_get_addr st) name 0 = Some old"
    "(case old of None \<Rightarrow> Some (True, st)
     | Some (i, oldval, nxt) \<Rightarrow> do {
         (ok, st) \<leftarrow> before_replace cfg name (map Some vs) st;
         if ok then map_option (\<lambda>mem. (True, env_set_addr st mem)) (delete_var (env_get_addr st) i nxt) else Some (False, st)
       }) = Some (True, st\<lparr>env := (env st)\<lparr>env_data := mem\<rparr>\<rparr>)"
    "represents mem (without name es)" "length mem = ?limit"
    using remove_stage [OF assms(1,2), of "map Some vs"] by blast
  define st1 where "st1 = st\<lparr>env := (env st)\<lparr>env_data := mem\<rparr>\<rparr>"
  have v: "env_valid st \<noteq> 0" "env_valid st1 \<noteq> 0" and n: "CHR ''='' \<notin> set name"
    using assms(1,2) by (simp_all add: env_ok_def plain_def name_ok_def st1_def)
  have a1: "env_get_addr st1 = mem" using v(2) by (simp add: env_addr) (simp add: st1_def)
  have run: "do_setenv_args cfg ?limit name (map Some vs) st =
      (if vs = [] then Some (0, env_crc_update st1)
       else do { new \<leftarrow> append_var ?limit mem name vs;
         case new of None \<Rightarrow> Some (1, st1)
         | Some mem \<Rightarrow> Some (0, env_followup cfg name (hd vs) (env_crc_update (env_set_addr st1 mem))) })"
    unfolding do_setenv_args_def if_not_P [OF n] o(1) bind.bind_lunit o(2) prod.case st1_def [symmetric]
    using a1 by (cases vs) simp_all
  show ?thesis
  proof (cases "vs = []")
    case True
    then show ?thesis using run o(3,4) v by (simp add: set_spec_def env_crc_update_def env_ok_def crc_ok_def st1_def)
  next
    case False
    have eo: "entry_ok (name, joined vs)"
      using assms(2,3) joined_set [of vs] by (auto simp: entry_ok_def plain_def name_ok_def list_all_iff NUL_def)
    have "name \<notin> fst ` set (without name es)" by (auto simp: without_def)
    note ap = append_var_at [OF o(3,4) False eo this]
    show ?thesis
    proof (cases "length (encode (without name es)) + length (text_of (name, joined vs)) + 2 \<le> ?limit")
      case True
      with ap obtain mem' where "append_var ?limit mem name vs = Some (Some mem')"
        "represents mem' (without name es @ [(name, joined vs)])" "length mem' = ?limit" by auto
      with False run True v show ?thesis
        by (simp add: set_spec_def env_crc_update_def env_ok_def crc_ok_def env_addr)
    next
      case ov: False
      with ap False run o(3,4) v show ?thesis by (simp add: set_spec_def env_ok_def st1_def)
    qed
  qed
qed


text \<open>
  C7: Setting a variable implements the operation on the list of entries. On an environment that
  represents some entries, the command returns; with values, the new entry replaces the
  old one at the end if it fits with its two null characters, and otherwise the old one is gone
  and the command fails; without values the variable is deleted. The size of the array
  never changes, and after success the checksum is that of the data.
\<close>

theorem setenv_refines:
  assumes "env_ok st es" and "plain cfg name" and "list_all (\<lambda>v. NUL \<notin> set v) vs"
  shows "\<exists>st'. do_setenv_args cfg (length (env_data (env st))) name (map Some vs) st =
      Some (fst (set_spec (length (env_data (env st))) name vs es), st') \<and>
    env_ok st' (snd (set_spec (length (env_data (env st))) name vs es)) \<and>
    length (env_data (env st')) = length (env_data (env st)) \<and>
    (fst (set_spec (length (env_data (env st))) name vs es) = 0 \<longrightarrow> crc_ok st')"
  using do_setenv_spec [OF assms] by blast

text \<open>A board configuration and a small environment for the witnesses.\<close>

definition demo_config :: "unit config" where
  "demo_config = \<lparr>CFG_ENV_SIZE = 64, ENV_OVERWRITE = False, baudrate_table = [9600, 115200], sizeof_BootFile = 128,
     console_assign = \<lambda>i dev w. (0, w)\<rparr>"

definition demo_env :: "char list \<Rightarrow> unit env_state" where
  "demo_env mem = \<lparr>env = \<lparr>hdr_crc = crc32 0 (map of_char mem), env_flags = 0, env_data = mem\<rparr>, env_valid = 1,
     default_environment = [NUL, NUL], bi_enetaddr = [0, 0, 0, 0, 0, 0], bi_ip_addr = 0, load_addr = 0, BootFile = [],
     baudrate = 115200, input = [], console = ()\<rparr>"

definition demo_mem :: "char list" where
  "demo_mem = ''a=1'' @ [NUL] @ ''bc=2'' @ replicate 8 NUL"

lemma demo_env_ok: "env_ok (demo_env demo_mem) [(''a'', ''1''), (''bc'', ''2'')]"
  by (simp add: env_ok_def demo_env_def demo_mem_def represents_def entry_ok_def text_of_def prefix_def NUL_def eval_nat_numeral)

lemma demo_mem_length: "length (env_data (env (demo_env demo_mem))) = 16"
  by (simp add: demo_env_def demo_mem_def)

theorem setenv_refines_witness:
  "\<exists>st'. do_setenv_args demo_config 16 ''a'' [Some ''x'', Some ''y''] (demo_env demo_mem) = Some (0, st') \<and>
     env_ok st' [(''bc'', ''2''), (''a'', ''x y'')] \<and> crc_ok st'"
proof -
  have p: "plain demo_config ''a''" by (simp add: plain_def name_ok_def demo_config_def stdio_index_def NUL_def)
  have sp: "set_spec 16 ''a'' [''x'', ''y''] [(''a'', ''1''), (''bc'', ''2'')] = (0, [(''bc'', ''2''), (''a'', ''x y'')])"
    by (simp add: set_spec_def without_def text_of_def)
  show ?thesis
    using setenv_refines [OF demo_env_ok p, of "[''x'', ''y'']", unfolded demo_mem_length sp] by (auto simp: NUL_def)
qed

section \<open>Reading a variable\<close>

lemma represents_entry:
  assumes "represents mem es"
  shows "case map_of es name of
      None \<Rightarrow> name \<notin> fst ` set es
    | Some v \<Rightarrow> \<exists>as bs t. es = as @ (name, v) # bs \<and> name \<notin> fst ` set as \<and> mem = encode (as @ (name, v) # bs) @ NUL # t"
proof (cases "map_of es name")
  case None
  then have "name \<notin> fst ` set es" by (simp add: map_of_eq_None_iff)
  then show ?thesis unfolding None by simp
next
  case (Some v)
  then have "name \<in> fst ` set es" by (metis domI dom_map_of_conv_image_fst)
  then obtain as w bs where es: "es = as @ (name, w) # bs" "name \<notin> fst ` set as"
    using split_at_name representsD(2) [OF assms] by metis
  then have "map_of as name = None" by (simp add: map_of_eq_None_iff)
  with Some es representsD(3) [OF assms] show ?thesis by (auto simp: map_add_def)
qed

lemma getenv_entries:
  assumes "env_ok st es" and "name_ok name" and "length (env_data (env st)) \<le> CFG_ENV_SIZE cfg"
  shows "case map_of es name of
      None \<Rightarrow> getenv cfg st name = Some None
    | Some v \<Rightarrow> NUL \<notin> set v \<and> (\<exists>A t. getenv cfg st name = Some (Some (length A)) \<and> env_get_addr st = A @ v @ NUL # t)"
proof -
  have r: "represents (env_data (env st)) es" and a: "env_get_addr st = env_data (env st)"
    using assms(1) by (simp_all add: env_ok_def env_addr)
  obtain t where t: "env_data (env st) = encode es @ NUL # t" using representsD(3) [OF r] by blast
  then have l: "length (encode es) \<le> CFG_ENV_SIZE cfg" using assms(3) by simp
  note e = represents_entry [OF r, of name]
  show ?thesis
  proof (cases "map_of es name")
    case None
    with e have "name \<notin> fst ` set es" by simp
    from getenv_none [OF representsD(1) [OF r] assms(2) this l, of t] show ?thesis unfolding None by (simp add: getenv_def a t)
  next
    case (Some v)
    with e obtain as bs t where s: "es = as @ (name, v) # bs" "name \<notin> fst ` set as"
      "env_data (env st) = encode (as @ (name, v) # bs) @ NUL # t" by auto
    have "NUL \<notin> set v" using representsD(1) [OF r] s(1) by (simp add: entry_ok_def)
    with getenv_some [OF representsD(1) [OF r, unfolded s(1)] assms(2) s(2) l [unfolded s(1)], of "NUL # t"] show ?thesis
      unfolding Some by (simp add: getenv_def a s(3))
  qed
qed

text \<open>
  C8: Looking a variable up returns the address of a string equal to its value, or the null pointer
  exactly if the environment has no such variable; the search stays inside the array.
\<close>

theorem getenv_refines:
  assumes "env_ok st es" and "name_ok name" and "length (env_data (env st)) \<le> CFG_ENV_SIZE cfg"
  shows "case map_of es name of
      None \<Rightarrow> getenv cfg st name = Some None
    | Some v \<Rightarrow> \<exists>i. getenv cfg st name = Some (Some i) \<and> c_string_at (env_get_addr st) i = v"
  using getenv_entries [OF assms] c_string_at_end by (fastforce split: option.splits)

theorem getenv_refines_witness:
  "\<exists>i. getenv demo_config (demo_env demo_mem) ''bc'' = Some (Some i) \<and> c_string_at (env_get_addr (demo_env demo_mem)) i = ''2''"
proof -
  have n: "name_ok ''bc''" by (simp add: name_ok_def NUL_def)
  show ?thesis
    using getenv_refines [OF demo_env_ok n, of demo_config] by (simp add: demo_mem_length) (simp add: demo_config_def)
qed

section \<open>The environment is a variable store\<close>

definition store_inv :: "'w config \<Rightarrow> nat \<Rightarrow> 'w env_state \<Rightarrow> bool" where
  "store_inv cfg limit st \<longleftrightarrow> (\<exists>es. env_ok st es) \<and> length (env_data (env st)) = limit \<and> limit \<le> CFG_ENV_SIZE cfg"

definition env_lookup :: "'w config \<Rightarrow> 'w env_state \<Rightarrow> char list \<Rightarrow> char list option" where
  "env_lookup cfg st name = (case getenv cfg st name of Some (Some i) \<Rightarrow> Some (c_string_at (env_get_addr st) i) | _ \<Rightarrow> None)"

definition env_assign :: "'w config \<Rightarrow> nat \<Rightarrow> char list \<Rightarrow> char list \<Rightarrow> 'w env_state \<Rightarrow> 'w env_state option" where
  "env_assign cfg limit name v st = (case do_setenv_args cfg limit name [Some v] st of Some (r, st') \<Rightarrow> if r = 0 then Some st' else None | None \<Rightarrow> None)"

definition env_remove :: "'w config \<Rightarrow> nat \<Rightarrow> char list \<Rightarrow> 'w env_state \<Rightarrow> 'w env_state option" where
  "env_remove cfg limit name st = (case do_setenv_args cfg limit name [] st of Some (r, st') \<Rightarrow> if r = 0 then Some st' else None | None \<Rightarrow> None)"

lemma lookup_entries:
  assumes "env_ok st es" and "name_ok name" and "length (env_data (env st)) \<le> CFG_ENV_SIZE cfg"
  shows "env_lookup cfg st name = map_of es name"
proof (cases "map_of es name")
  case None
  with getenv_entries [OF assms] have "getenv cfg st name = Some None" by simp
  then show ?thesis unfolding None by (simp add: env_lookup_def)
next
  case (Some v)
  with getenv_entries [OF assms] show ?thesis by (auto simp: env_lookup_def c_string_at_end)
qed

lemma map_of_without: "map_of (without k es) j = (if j = k then None else map_of es j)"
  by (induction es) (auto simp: without_def)

text \<open>One run of the command, seen through lookups.\<close>

lemma set_lookup:
  assumes "store_inv cfg limit st" and "plain cfg k" and "list_all (\<lambda>v. NUL \<notin> set v) vs"
    and run: "do_setenv_args cfg limit k (map Some vs) st = Some (0, st')"
  shows "store_inv cfg limit st'" and "name_ok j \<Longrightarrow>
    env_lookup cfg st' j = (if j = k then (if vs = [] then None else Some (joined vs)) else env_lookup cfg st j)"
proof -
  obtain es where es: "env_ok st es" and l: "length (env_data (env st)) = limit" "limit \<le> CFG_ENV_SIZE cfg"
    using assms(1) by (auto simp: store_inv_def)
  let ?sp = "set_spec limit k vs es"
  have st': "fst ?sp = 0" "env_ok st' (snd ?sp)" "length (env_data (env st')) = limit"
    using do_setenv_spec [OF es assms(2,3), unfolded l(1)] run by auto
  then show "store_inv cfg limit st'" using l(2) by (auto simp: store_inv_def)
  assume j: "name_ok j"
  have "env_lookup cfg st' j = map_of (snd ?sp) j" "env_lookup cfg st j = map_of es j"
    using lookup_entries [OF st'(2) j] lookup_entries [OF es j] st'(3) l by simp_all
  moreover have "map_of (snd ?sp) j = (if j = k then (if vs = [] then None else Some (joined vs)) else map_of es j)"
    using st'(1) by (auto simp: set_spec_def map_add_def map_of_without split: if_splits option.splits)
  ultimately show "env_lookup cfg st' j = (if j = k then (if vs = [] then None else Some (joined vs)) else env_lookup cfg st j)" by simp
qed

lemma env_assign_run: "env_assign cfg limit k v st = Some st' \<Longrightarrow> do_setenv_args cfg limit k (map Some [v]) st = Some (0, st')"
  by (auto simp: env_assign_def split: option.splits if_splits)

lemma env_remove_run: "env_remove cfg limit k st = Some st' \<Longrightarrow> do_setenv_args cfg limit k (map Some []) st = Some (0, st')"
  by (auto simp: env_remove_def split: option.splits if_splits)

lemma plain_name_ok: "plain cfg k \<Longrightarrow> name_ok k"
  by (simp add: plain_def)

interpretation environment: variable_store "store_inv cfg limit" "plain cfg" "\<lambda>v. NUL \<notin> set v" "env_lookup cfg"
  "env_assign cfg limit" "env_remove cfg limit" for cfg :: "'w config" and limit
proof
  fix s s' :: "'w env_state" and k v j
  assume a: "store_inv cfg limit s" "plain cfg k"
  show "store_inv cfg limit s'" "plain cfg j \<Longrightarrow> env_lookup cfg s' j = (if j = k then Some v else env_lookup cfg s j)"
    if "NUL \<notin> set v" "env_assign cfg limit k v s = Some s'"
    using set_lookup(1) [OF a _ env_assign_run [OF that(2)]] set_lookup(2) [OF a _ env_assign_run [OF that(2)], of j]
      that(1) plain_name_ok [of cfg j] by simp_all
  show "store_inv cfg limit s'" "plain cfg j \<Longrightarrow> env_lookup cfg s' j = (if j = k then None else env_lookup cfg s j)"
    if "env_remove cfg limit k s = Some s'"
    using set_lookup(1) [OF a _ env_remove_run [OF that]] set_lookup(2) [OF a _ env_remove_run [OF that], of j]
      plain_name_ok [of cfg j] by simp_all
qed

text \<open>
  C10: After a script of setenv commands that all succeed, every variable of the script has the value
  of its last assignment and every other variable has the value it had before.
\<close>

theorem setenv_script:
  assumes "store_inv cfg limit st" and "\<forall>(k, v) \<in> set kvs. plain cfg k \<and> NUL \<notin> set v" and "plain cfg j"
    and "foldl (\<lambda>so (k, v). Option.bind so (env_assign cfg limit k v)) (Some st) kvs = Some st'"
  shows "env_lookup cfg st' j = (case map_of (rev kvs) j of Some v \<Rightarrow> Some v | None \<Rightarrow> env_lookup cfg st j)"
  using environment.lookup_script [OF assms(1,2,4,3)] by blast

lemma demo_store: "store_inv demo_config 16 (demo_env demo_mem)"
  unfolding store_inv_def using demo_env_ok demo_mem_length by (auto simp: demo_config_def)

theorem setenv_script_witness:
  "\<exists>st'. foldl (\<lambda>so (k, v). Option.bind so (env_assign demo_config 16 k v)) (Some (demo_env demo_mem)) [(''a'', ''x''), (''a'', ''y'')] = Some st' \<and>
     env_lookup demo_config st' ''a'' = Some ''y''"
proof -
  have p: "plain demo_config ''a''" by (simp add: plain_def name_ok_def demo_config_def stdio_index_def NUL_def)
  have ok: "list_all (\<lambda>v. NUL \<notin> set v) [''x'']" "list_all (\<lambda>v. NUL \<notin> set v) [''y'']" by (simp_all add: NUL_def)
  have "set_spec 16 ''a'' [''x''] [(''a'', ''1''), (''bc'', ''2'')] = (0, [(''bc'', ''2''), (''a'', ''x'')])"
    by (simp add: set_spec_def without_def text_of_def)
  with do_setenv_spec [OF demo_env_ok p ok(1), unfolded demo_mem_length] obtain s1 where
    1: "do_setenv_args demo_config 16 ''a'' [Some ''x''] (demo_env demo_mem) = Some (0, s1)" "env_ok s1 [(''bc'', ''2''), (''a'', ''x'')]"
    "length (env_data (env s1)) = 16" by auto
  have "set_spec 16 ''a'' [''y''] [(''bc'', ''2''), (''a'', ''x'')] = (0, [(''bc'', ''2''), (''a'', ''y'')])"
    by (simp add: set_spec_def without_def text_of_def)
  with do_setenv_spec [OF 1(2) p ok(2), unfolded 1(3)] obtain s2 where
    2: "do_setenv_args demo_config 16 ''a'' [Some ''y''] s1 = Some (0, s2)" by auto
  have run: "foldl (\<lambda>so (k, v). Option.bind so (env_assign demo_config 16 k v)) (Some (demo_env demo_mem)) [(''a'', ''x''), (''a'', ''y'')] = Some s2"
    using 1(1) 2 by (simp add: env_assign_def)
  from setenv_script [OF demo_store _ p run] run p show ?thesis by (auto simp: NUL_def)
qed

section \<open>No room\<close>

lemma represents_other:
  assumes "represents mem es" and "represents mem' fs" and "name_ok name" and "name \<in> fst ` set es" and "name \<notin> fst ` set fs"
  shows "mem' \<noteq> mem"
proof -
  obtain as v bs where es: "es = as @ (name, v) # bs" "name \<notin> fst ` set as"
    using split_at_name [OF representsD(2) [OF assms(1)] assms(4)] by metis
  obtain t t' where "mem = encode es @ NUL # t" "mem' = encode fs @ NUL # t'"
    using representsD(3) [OF assms(1)] representsD(3) [OF assms(2)] by blast
  with find_var_some [OF representsD(1) [OF assms(1), unfolded es(1)] assms(3) es(2), of "NUL # t"]
    find_var_none [OF representsD(1) [OF assms(2)] assms(3,5), of t'] show ?thesis by (auto simp: es(1))
qed

text \<open>
  C23: When a variable is replaced by a value that does not fit, the command fails after it has
  removed the old definition, and it leaves the checksum of the old contents in the header. On
  the example the checksum is then wrong, so saving the environment would store a copy that is
  rejected at the next start.
\<close>

theorem setenv_overflow_stale_crc:
  assumes "env_ok st es" and "plain cfg name" and "vs \<noteq> []" and "list_all (\<lambda>v. NUL \<notin> set v) vs" and "name \<in> fst ` set es"
    and "length (env_data (env st)) < length (encode (without name es)) + length (text_of (name, joined vs)) + 2"
  shows "\<exists>st'. do_setenv_args cfg (length (env_data (env st))) name (map Some vs) st = Some (1, st') \<and>
    env_ok st' (without name es) \<and> env_data (env st') \<noteq> env_data (env st) \<and> hdr_crc (env st') = hdr_crc (env st)"
proof -
  have sp: "set_spec (length (env_data (env st))) name vs es = (1, without name es)" using assms(3,6) by (simp add: set_spec_def)
  obtain st' where st': "do_setenv_args cfg (length (env_data (env st))) name (map Some vs) st = Some (1, st')"
    "env_ok st' (without name es)" "hdr_crc (env st') = hdr_crc (env st)"
    using do_setenv_spec [OF assms(1,2,4)] sp by auto
  have "name \<notin> fst ` set (without name es)" by (auto simp: without_def)
  then have "env_data (env st') \<noteq> env_data (env st)"
    using represents_other [of "env_data (env st)" es "env_data (env st')" "without name es" name] assms(1,2,5) st'(2)
    by (simp add: env_ok_def plain_def)
  with st' show ?thesis by blast
qed

theorem setenv_overflow_stale_crc_witness:
  "\<exists>st'. do_setenv_args demo_config 16 ''a'' [Some ''123456789''] (demo_env demo_mem) = Some (1, st') \<and>
     hdr_crc (env st') = hdr_crc (env (demo_env demo_mem)) \<and> \<not> crc_ok st'"
proof -
  have p: "plain demo_config ''a''" by (simp add: plain_def name_ok_def demo_config_def stdio_index_def NUL_def)
  obtain st' where st': "do_setenv_args demo_config 16 ''a'' [Some ''123456789''] (demo_env demo_mem) = Some (1, st')"
    "hdr_crc (env st') = hdr_crc (env (demo_env demo_mem))"
    using setenv_overflow_stale_crc [OF demo_env_ok p, of "[''123456789'']", unfolded demo_mem_length]
    by (auto simp: without_def text_of_def NUL_def)
  have "map_option (\<lambda>(r, st). hdr_crc (env st) = crc32 0 (map of_char (env_data (env st))))
      (do_setenv_args demo_config 16 ''a'' [Some ''123456789''] (demo_env demo_mem)) = Some False" by code_simp
  with st' show ?thesis by (auto simp: crc_ok_def)
qed


section \<open>Copying a value out\<close>

lemma getenv_copy_at:
  assumes "NUL \<notin> set v" and "length buf = len"
  shows "getenv_copy (A @ v @ NUL # t) (out @ buf) (length out) (length A) n (n + len) =
    (if length v < len then Some (out @ v @ NUL # drop (length v + 1) buf, length out + length v + 1, n + length v + 1)
     else Some (out @ take len v, length out + len, n + len + 1))"
  using assms
proof (induction v arbitrary: A buf out n len)
  case Nil
  show ?case
  proof (cases len)
    case 0
    then show ?thesis using Nil by (subst getenv_copy.simps) simp
  next
    case (Suc k)
    then obtain x b where "buf = x # b" using Nil by (cases buf) auto
    then show ?thesis using Suc by (subst getenv_copy.simps) simp
  qed
next
  case (Cons c v)
  show ?case
  proof (cases len)
    case 0
    then show ?thesis using Cons.prems by (subst getenv_copy.simps) simp
  next
    case (Suc k)
    then obtain x b where b: "buf = x # b" "length b = k" using Cons.prems by (cases buf) auto
    have "getenv_copy (A @ (c # v) @ NUL # t) (out @ buf) (length out) (length A) n (n + len) =
        getenv_copy ((A @ [c]) @ v @ NUL # t) ((out @ [c]) @ b) (length (out @ [c])) (length (A @ [c])) (n + 1) (n + 1 + k)"
      using Cons.prems b Suc by (subst getenv_copy.simps) auto
    also have "\<dots> = (if length v < k then Some ((out @ [c]) @ v @ NUL # drop (length v + 1) b, length (out @ [c]) + length v + 1, n + 1 + length v + 1)
        else Some ((out @ [c]) @ take k v, length (out @ [c]) + k, n + 1 + k + 1))"
      using Cons.IH [of b k "A @ [c]" "out @ [c]" "n + 1"] Cons.prems b(2) by simp
    finally show ?thesis using b Suc by simp
  qed
qed

text \<open>
  The copying lookup is right only if the buffer has room to spare. If the value with its null
  character is shorter than the buffer, the buffer holds the string and its length with
  the null character is returned. If it fits exactly, the code stores one more null character
  behind the end of the buffer; and if it does not fit, the buffer is left without one and the
  number returned exceeds its length.
\<close>

theorem getenv_r_cases:
  assumes "env_ok st es" and "map_of es name = Some v" and "name_ok name"
    and "length (env_data (env st)) \<le> CFG_ENV_SIZE cfg"
  shows "(length v + 1 < length buf \<longrightarrow>
      getenv_r cfg st name buf (length buf) = Some (int (length v) + 1, v @ NUL # drop (length v + 1) buf)) \<and>
    (length v + 1 = length buf \<longrightarrow> getenv_r cfg st name buf (length buf) = None) \<and>
    (length v \<ge> length buf \<longrightarrow> getenv_r cfg st name buf (length buf) = Some (int (length buf) + 1, take (length buf) v) \<and>
      NUL \<notin> set (take (length buf) v))"
proof -
  obtain A t where A: "getenv_loop (CFG_ENV_SIZE cfg) (env_get_addr st) name 0 = Some (Some (length A))"
    "env_get_addr st = A @ v @ NUL # t" and v: "NUL \<notin> set v"
    using getenv_entries [OF assms(1,3,4)] assms(2) by (auto simp: getenv_def)
  have c: "getenv_copy (env_get_addr st) buf 0 (length A) 0 (length buf) =
      (if length v < length buf then Some (v @ NUL # drop (length v + 1) buf, length v + 1, length v + 1)
       else Some (take (length buf) v, length buf, length buf + 1))"
    using getenv_copy_at [OF v refl, of A t "[]" buf 0] by (simp add: A(2))
  show ?thesis
    using A(1) c v by (auto simp: getenv_r_def env_put_char_def dest: in_set_takeD)
qed

theorem getenv_r_cases_witness:
  "getenv_r demo_config (demo_env demo_mem) ''bc'' ''????'' 4 = Some (2, ''2'' @ NUL # ''??'') \<and>
   getenv_r demo_config (demo_env demo_mem) ''bc'' ''??'' 2 = None"
proof -
  have n: "name_ok ''bc''" by (simp add: name_ok_def NUL_def)
  have l: "length (env_data (env (demo_env demo_mem))) \<le> CFG_ENV_SIZE demo_config"
    unfolding demo_mem_length by (simp add: demo_config_def)
  show ?thesis
    using getenv_r_cases [OF demo_env_ok _ n l, of "''2''" "''????''"] getenv_r_cases [OF demo_env_ok _ n l, of "''2''" "''??''"] by (simp add: eval_nat_numeral)
qed

section \<open>Printing\<close>

lemma printall_at:
  "list_all entry_ok es \<Longrightarrow> polls = replicate (length polls) False \<Longrightarrow>
   printall_loop polls (pre @ encode es @ NUL # t) (length pre) =
     Some (concat (map (\<lambda>e. text_of e @ [CHR 0x0A]) es), length pre + length (encode es), False)"
proof (induction es arbitrary: pre polls)
  case Nil
  then show ?case by (subst printall_loop.simps) simp
next
  case (Cons e es)
  let ?m = "pre @ text_of e @ NUL # encode es @ NUL # t"
  have ok: "entry_ok e" using Cons.prems by simp
  note at = at_entry(1,3) [OF ok, of "[]" pre "encode es @ NUL # t"]
  have p: "\<not> (polls \<noteq> [] \<and> hd polls)" "tl polls = replicate (length (tl polls)) False"
    using Cons.prems(2) by (cases polls; auto)+
  have "printall_loop (tl polls) ?m (Suc (length pre + length (text_of e))) =
      Some (concat (map (\<lambda>e. text_of e @ [CHR 0x0A]) es), Suc (length pre + length (text_of e)) + length (encode es), False)"
    using Cons.IH [of "tl polls" "pre @ text_of e @ [NUL]"] Cons.prems(1) p(2) by simp
  then show ?case
    using at p(1) by (subst printall_loop.simps) (auto simp: name_ok_def)
qed

text \<open>
  Without arguments and interrupts, printenv prints every entry of the environment on a line of its
  own, in the order of the array, and reports the bytes they take.
\<close>

theorem printenv_all:
  assumes "env_ok st es"
  shows "do_printenv [] st [cmd] = Some (0, concat (map (\<lambda>e. text_of e @ [CHR 0x0A]) es), Some (length (encode es)))"
proof -
  have r: "represents (env_data (env st)) es" and a: "env_get_addr st = env_data (env st)"
    using assms by (simp_all add: env_ok_def env_addr)
  obtain t where "env_data (env st) = encode es @ NUL # t" using representsD(3) [OF r] by blast
  with printall_at [OF representsD(1) [OF r], of "[]" "[]" t] show ?thesis by (simp add: do_printenv_def a)
qed

theorem printenv_all_witness:
  "do_printenv [] (demo_env demo_mem) [''printenv''] = Some (0, ''a=1'' @ [CHR 0x0A] @ ''bc=2'' @ [CHR 0x0A], Some 9)"
  using printenv_all [OF demo_env_ok, of "''printenv''"] by (simp add: text_of_def)

end
