(* ===== verification/EnvNand.thy ===== *)
theory EnvNand
  imports EnvProps
begin

text \<open>
  The environment in NAND flash (common/env_nand.c) and its set-up after relocation
  (common/env_common.c). The flash driver is a parameter: erasing, writing and reading at an
  offset. A read gives its return code, the length read, and the bytes as an environment
  structure. Both builds are modelled, with one copy and with a redundant one.
\<close>

record 'n nand_ops =
  nand_erase :: "'n \<Rightarrow> nat \<Rightarrow> nat \<Rightarrow> int \<times> 'n"
  nand_write :: "'n \<Rightarrow> nat \<Rightarrow> nat \<Rightarrow> env_t \<Rightarrow> int \<times> nat \<times> 'n"
  nand_read :: "'n \<Rightarrow> nat \<Rightarrow> nat \<Rightarrow> int \<times> nat \<times> env_t"

record env_layout =
  CFG_ENV_OFFSET :: nat
  CFG_ENV_OFFSET_REDUND :: nat
  layout_size :: nat
  ENV_SIZE :: nat

definition copy_ok :: "env_t \<Rightarrow> bool" where
  "copy_ok e \<longleftrightarrow> crc32 0 (map of_char (env_data e)) = hdr_crc e"

text \<open>
  The default environment goes into a cleared structure. The copy is undefined if it is longer than
  the data of the structure; the code compares it with the size including the header.
\<close>

definition use_default :: "env_layout \<Rightarrow> 'w env_state \<Rightarrow> 'w env_state option" where
  "use_default lay st =
     (if length (default_environment st) > layout_size lay then Some st
      else if length (default_environment st) > ENV_SIZE lay then None
      else (let mem = default_environment st @ replicate (ENV_SIZE lay - length (default_environment st)) NUL
            in Some (st\<lparr>env := \<lparr>hdr_crc = crc32 0 (map of_char mem), env_flags = 0, env_data = mem\<rparr>, env_valid := 1\<rparr>)))"

section \<open>One copy\<close>

definition saveenv :: "'n nand_ops \<Rightarrow> env_layout \<Rightarrow> 'w env_state \<Rightarrow> 'n \<Rightarrow> int \<times> 'n" where
  "saveenv ops lay st n =
     (let (r, n) = nand_erase ops n (CFG_ENV_OFFSET lay) (layout_size lay)
      in if r \<noteq> 0 then (1, n)
         else (let (ret, total, n) = nand_write ops n (CFG_ENV_OFFSET lay) (layout_size lay) (env st)
               in if ret \<noteq> 0 \<or> total \<noteq> layout_size lay then (1, n) else (ret, n)))"

definition env_relocate_spec :: "'n nand_ops \<Rightarrow> env_layout \<Rightarrow> 'n \<Rightarrow> 'w env_state \<Rightarrow> 'w env_state option" where
  "env_relocate_spec ops lay n st =
     (let (ret, total, e) = nand_read ops n (CFG_ENV_OFFSET lay) (layout_size lay);
          st = st\<lparr>env := e\<rparr>
      in if ret \<noteq> 0 \<or> total \<noteq> layout_size lay then use_default lay st
         else if \<not> copy_ok e then use_default lay st
         else Some st)"

section \<open>Two copies\<close>

text \<open>Which of the two copies counts: 0 for none.\<close>

definition select_copy :: "env_t \<Rightarrow> env_t \<Rightarrow> nat" where
  "select_copy e1 e2 =
     (if \<not> copy_ok e1 \<and> \<not> copy_ok e2 then 0
      else if copy_ok e1 \<and> \<not> copy_ok e2 then 1
      else if \<not> copy_ok e1 \<and> copy_ok e2 then 2
      else if env_flags e1 = 255 \<and> env_flags e2 = 0 then 2
      else if env_flags e2 = 255 \<and> env_flags e1 = 0 then 1
      else if env_flags e1 > env_flags e2 then 1
      else if env_flags e2 > env_flags e1 then 2
      else 1)"

definition env_relocate_spec_redund :: "'n nand_ops \<Rightarrow> env_layout \<Rightarrow> 'n \<Rightarrow> 'w env_state \<Rightarrow> 'w env_state option" where
  "env_relocate_spec_redund ops lay n st =
     (let (r1, t1, e1) = nand_read ops n (CFG_ENV_OFFSET lay) (layout_size lay);
          (r2, t2, e2) = nand_read ops n (CFG_ENV_OFFSET_REDUND lay) (layout_size lay);
          v = select_copy e1 e2
      in if v = 0 then use_default lay st
         else Some (st\<lparr>env_valid := v, env := (if v = 1 then e1 else e2)\<rparr>))"

definition saveenv_redund :: "'n nand_ops \<Rightarrow> env_layout \<Rightarrow> 'w env_state \<Rightarrow> 'n \<Rightarrow> int \<times> 'w env_state \<times> 'n" where
  "saveenv_redund ops lay st n =
     (let st = st\<lparr>env := (env st)\<lparr>env_flags := env_flags (env st) + 1\<rparr>\<rparr>;
          offset = (if env_valid st = 1 then CFG_ENV_OFFSET_REDUND lay else CFG_ENV_OFFSET lay);
          (r, n) = nand_erase ops n offset (layout_size lay)
      in if r \<noteq> 0 then (1, st, n)
         else (let (ret, total, n) = nand_write ops n offset (layout_size lay) (env st)
               in if ret \<noteq> 0 \<or> total \<noteq> layout_size lay then (1, st, n)
                  else (ret, st\<lparr>env_valid := (if env_valid st = 2 then 1 else 2)\<rparr>, n)))"

section \<open>After relocation\<close>

text \<open>
  The set-up of the RAM copy (common/env_common.c). The spec argument is the relocation of the
  storage, for which there are the two versions above.
\<close>

definition env_relocate ::
    "bool \<Rightarrow> env_layout \<Rightarrow> ('w env_state \<Rightarrow> 'w env_state option) \<Rightarrow> 'w env_state \<Rightarrow> 'w env_state option" where
  "env_relocate redundant lay spec st =
     (if env_valid st = 0 then
        (if length (default_environment st) > ENV_SIZE lay then Some st
         else (let mem = default_environment st @ replicate (ENV_SIZE lay - length (default_environment st)) NUL;
                   st = st\<lparr>env := \<lparr>hdr_crc = 0, env_flags = (if redundant then 0xFF else 0), env_data = mem\<rparr>\<rparr>
               in Some ((env_crc_update st)\<lparr>env_valid := 1\<rparr>)))
      else spec st)"

section \<open>Properties\<close>

text \<open>What the code relies on in the driver: a slot is not touched by erasing or writing another one, and a complete write can be read.\<close>

definition slots_apart :: "'n nand_ops \<Rightarrow> env_layout \<Rightarrow> bool" where
  "slots_apart ops lay \<longleftrightarrow>
     (\<forall>n a b. {a, b} = {CFG_ENV_OFFSET lay, CFG_ENV_OFFSET_REDUND lay} \<longrightarrow>
        nand_read ops (snd (nand_erase ops n a (layout_size lay))) b (layout_size lay) = nand_read ops n b (layout_size lay) \<and>
        (\<forall>e. nand_read ops (snd (snd (nand_write ops n a (layout_size lay) e))) b (layout_size lay) = nand_read ops n b (layout_size lay)))"

definition writes_read :: "'n nand_ops \<Rightarrow> env_layout \<Rightarrow> bool" where
  "writes_read ops lay \<longleftrightarrow>
     (\<forall>n a e n'. nand_write ops n a (layout_size lay) e = (0, layout_size lay, n') \<longrightarrow>
        nand_read ops n' a (layout_size lay) = (0, layout_size lay, e))"



text \<open>The slot in use and the other one.\<close>

definition slot :: "env_layout \<Rightarrow> nat \<Rightarrow> nat" where
  "slot lay v = (if v = 1 then CFG_ENV_OFFSET lay else CFG_ENV_OFFSET_REDUND lay)"

definition other_slot :: "env_layout \<Rightarrow> nat \<Rightarrow> nat" where
  "other_slot lay v = (if v = 1 then CFG_ENV_OFFSET_REDUND lay else CFG_ENV_OFFSET lay)"

lemma slot_pair: "v \<in> {1, 2} \<Longrightarrow> {other_slot lay v, slot lay v} = {CFG_ENV_OFFSET lay, CFG_ENV_OFFSET_REDUND lay}"
  by (auto simp: slot_def other_slot_def)

text \<open>What a save does to the two slots.\<close>

lemma saveenv_slots:
  assumes "slots_apart ops lay" and "writes_read ops lay" and v: "env_valid st \<in> {1, 2}" and run: "saveenv_redund ops lay st n = (r, st', n')"
  shows "nand_read ops n' (slot lay (env_valid st)) (layout_size lay) = nand_read ops n (slot lay (env_valid st)) (layout_size lay)"
    and "env st' = (env st)\<lparr>env_flags := env_flags (env st) + 1\<rparr>"
    and "r = 0 \<Longrightarrow> nand_read ops n' (other_slot lay (env_valid st)) (layout_size lay) = (0, layout_size lay, env st') \<and>
      env_valid st' = (if env_valid st = 2 then 1 else 2)"
proof -
  let ?o = "other_slot lay (env_valid st)" and ?s = "slot lay (env_valid st)" and ?l = "layout_size lay"
    and ?e = "(env st)\<lparr>env_flags := env_flags (env st) + 1\<rparr>"
  obtain er n1 where er: "nand_erase ops n ?o ?l = (er, n1)" by (metis surj_pair)
  obtain ret total n2 where wr: "nand_write ops n1 ?o ?l ?e = (ret, total, n2)" by (metis prod_cases3)
  have ap: "nand_read ops (snd (nand_erase ops m ?o ?l)) ?s ?l = nand_read ops m ?s ?l"
    "nand_read ops (snd (snd (nand_write ops m ?o ?l e))) ?s ?l = nand_read ops m ?s ?l" for m e
    using assms(1) slot_pair [OF v, of lay] by (auto simp: slots_apart_def)
  have keep: "nand_read ops n1 ?s ?l = nand_read ops n ?s ?l" "nand_read ops n2 ?s ?l = nand_read ops n1 ?s ?l"
    using ap(1) [of n] ap(2) [of n1 ?e] er wr by simp_all
  have r: "(r, st', n') = (if er \<noteq> 0 then (1, st\<lparr>env := ?e\<rparr>, n1)
      else if ret \<noteq> 0 \<or> total \<noteq> ?l then (1, st\<lparr>env := ?e\<rparr>, n2)
      else (ret, st\<lparr>env := ?e, env_valid := (if env_valid st = 2 then 1 else 2)\<rparr>, n2))"
    using run er wr by (simp add: saveenv_redund_def other_slot_def Let_def split: if_splits)
  show "nand_read ops n' ?s ?l = nand_read ops n ?s ?l" using r keep by (auto split: if_splits)
  show "env st' = ?e" using r by (auto split: if_splits)
  show "nand_read ops n' ?o ?l = (0, ?l, env st') \<and> env_valid st' = (if env_valid st = 2 then 1 else 2)" if "r = 0"
    using r that assms(2) wr by (auto simp: writes_read_def split: if_splits)
qed



text \<open>A flash with two slots, for the witnesses.\<close>

definition demo_nand :: "(nat \<Rightarrow> env_t) nand_ops" where
  "demo_nand = \<lparr>nand_erase = \<lambda>n a l. (0, n(a := \<lparr>hdr_crc = 0, env_flags = 255, env_data = ''erased''\<rparr>)),
     nand_write = \<lambda>n a l e. (0, l, n(a := e)), nand_read = \<lambda>n a l. (0, l, n a)\<rparr>"

definition demo_layout :: env_layout where
  "demo_layout = \<lparr>CFG_ENV_OFFSET = 0, CFG_ENV_OFFSET_REDUND = 100, layout_size = 21, ENV_SIZE = 16\<rparr>"

lemma demo_slots: "slots_apart demo_nand demo_layout" "writes_read demo_nand demo_layout"
  by (auto simp: slots_apart_def writes_read_def demo_nand_def demo_layout_def doubleton_eq_iff)

definition demo_old :: env_t where
  "demo_old = env (demo_env demo_mem)"

lemma demo_old_ok: "copy_ok demo_old" "crc_ok (demo_env demo_mem)"
  by (simp_all add: copy_ok_def crc_ok_def demo_old_def demo_env_def)


text \<open>
  A save that follows a failed one can be lost. The serial number was counted up by the failed
  save already, so it runs two ahead of the copy in use; when it wraps around on the way, the next
  start prefers the old copy although the save reported success.
\<close>

theorem saveenv_retry_lost:
  assumes "slots_apart ops lay" and "writes_read ops lay" and "env_valid st \<in> {1, 2}"
    and "nand_read ops n (slot lay (env_valid st)) (layout_size lay) = (r0, t0, old)"
    and "copy_ok old" and "env_flags old \<in> {254, 255}" and "env_flags (env st) = env_flags old + 1" and "crc_ok st"
    and "saveenv_redund ops lay st n = (0, st', n')"
  shows "env_relocate_spec_redund ops lay n' boot = Some (boot\<lparr>env_valid := env_valid st, env := old\<rparr>)"
proof -
  note s = saveenv_slots [OF assms(1-3,9)]
  have new: "copy_ok (env st')" using assms(8) by (simp add: copy_ok_def crc_ok_def s(2))
  have "env_flags (env st') = env_flags old + 2" using assms(7) by (simp add: s(2))
  then have "select_copy old (env st') = 1" "select_copy (env st') old = 2"
    using assms(5,6) new by (auto simp: select_copy_def)
  then show ?thesis
    using s(1,3) assms(3,4) by (auto simp: env_relocate_spec_redund_def slot_def other_slot_def Let_def)
qed

theorem saveenv_retry_lost_witness:
  "\<exists>st' n'. saveenv_redund demo_nand demo_layout (demo_env demo_mem) (\<lambda>_. demo_old\<lparr>env_flags := 255\<rparr>) = (0, st', n') \<and>
     env_relocate_spec_redund demo_nand demo_layout n' (demo_env []) = Some ((demo_env [])\<lparr>env_valid := 1, env := demo_old\<lparr>env_flags := 255\<rparr>\<rparr>)"
proof -
  let ?st = "demo_env demo_mem" and ?old = "demo_old\<lparr>env_flags := 255\<rparr>" and ?e = "demo_old\<lparr>env_flags := 1\<rparr>"
  have v: "env_valid ?st = 1" "env ?st = demo_old" "env_flags demo_old = 0" by (simp_all add: demo_env_def demo_old_def)
  have run: "saveenv_redund demo_nand demo_layout ?st (\<lambda>_. ?old) = (0, ?st\<lparr>env := ?e, env_valid := 2\<rparr>, (\<lambda>_. ?old)(100 := ?e))"
    using v by (simp add: saveenv_redund_def demo_nand_def demo_layout_def Let_def)
  have rd: "nand_read demo_nand (\<lambda>_. ?old) (slot demo_layout (env_valid ?st)) (layout_size demo_layout) = (0, 21, ?old)"
    using v by (simp add: demo_nand_def demo_layout_def slot_def)
  have "copy_ok ?old" using demo_old_ok(1) by (simp add: copy_ok_def)
  from saveenv_retry_lost [OF demo_slots _ rd this _ _ demo_old_ok(2) run, of "demo_env []"] v run show ?thesis
    by (intro exI [of _ "?st\<lparr>env := ?e, env_valid := 2\<rparr>"] exI [of _ "(\<lambda>_. ?old)(100 := ?e)"]) simp
qed

text \<open>
  Falling back to the default environment is safe only if the default fits the data part. A
  default that fits the structure with its header but not the data part passes the check of the code
  and the copy runs over the end; a default that fits is loaded with a valid checksum.
\<close>

theorem use_default_cases:
  "(length (default_environment st) \<le> ENV_SIZE lay \<and> ENV_SIZE lay \<le> layout_size lay \<longrightarrow>
     (\<exists>st'. use_default lay st = Some st' \<and> crc_ok st' \<and> env_valid st' = 1 \<and> length (env_data (env st')) = ENV_SIZE lay \<and>
       take (length (default_environment st)) (env_data (env st')) = default_environment st)) \<and>
   (ENV_SIZE lay < length (default_environment st) \<and> length (default_environment st) \<le> layout_size lay \<longrightarrow> use_default lay st = None)"
  by (auto simp: use_default_def crc_ok_def Let_def)

theorem use_default_cases_witness:
  "use_default demo_layout ((demo_env [])\<lparr>default_environment := replicate 20 (CHR ''x'')\<rparr>) = None"
  using use_default_cases [where lay = demo_layout and st = "(demo_env [])\<lparr>default_environment := replicate 20 (CHR ''x'')\<rparr>"]
  by (simp add: demo_layout_def)

end
