(* ===== verification/CommandLine.thy ===== *)
theory CommandLine
  imports EnvProps
begin

text \<open>
  The command line of U-Boot (common/main.c, common/command.c): splitting a line into arguments,
  expanding variables, looking commands up and running a sequence of commands. A line is a
  list of characters without the terminating null character.
\<close>

section \<open>Arguments\<close>

definition blank :: "char \<Rightarrow> bool" where
  "blank c \<longleftrightarrow> c = CHR '' '' \<or> c = CHR 0x09"

text \<open>
  The arguments from position nargs on, and whether the array was ended with a null pointer: it is
  not when there were too many of them.
\<close>

function parse_args :: "nat \<Rightarrow> nat \<Rightarrow> char list \<Rightarrow> char list list \<times> bool" where
  "parse_args maxargs nargs line =
     (if nargs < maxargs then
        (let line = dropWhile blank line
         in if line = [] then ([], True)
            else (let arg = takeWhile (\<lambda>c. \<not> blank c) line; rest = dropWhile (\<lambda>c. \<not> blank c) line
                  in if rest = [] then ([arg], True)
                     else (let (args, ended) = parse_args maxargs (nargs + 1) (tl rest) in (arg # args, ended))))
      else ([], False))"
  by pat_completeness auto
termination
  by (relation "measure (\<lambda>(maxargs, nargs, line). maxargs - nargs)") auto

declare parse_args.simps [simp del]

definition parse_line :: "nat \<Rightarrow> char list \<Rightarrow> char list list \<times> bool" where
  "parse_line CFG_MAXARGS line = parse_args CFG_MAXARGS 0 line"

section \<open>Variables in a line\<close>

text \<open>
  One character in one of the states of the scanner: 0 waits for a dollar sign, 1 for an opening
  bracket, 2 for a closing one, 3 for a closing quote. prev is the character before, vs
  the input from the start of the variable name on and rest the input after the character.
  The result has what is to be written, the next state and the next vs.
\<close>

definition macro_step ::
    "(char list \<Rightarrow> char list option) \<Rightarrow> nat \<Rightarrow> char \<Rightarrow> char list \<Rightarrow> char list \<Rightarrow> char \<Rightarrow> char list \<times> nat \<times> char list" where
  "macro_step look state prev vs rest c =
     (if state = 0 then
        (if c = CHR 0x27 \<and> prev \<noteq> CHR 0x5C then ([], 3, vs)
         else if c = CHR ''$'' \<and> prev \<noteq> CHR 0x5C then ([], 1, vs)
         else ([c], 0, vs))
      else if state = 1 then
        (if c = CHR ''('' \<or> c = CHR ''{'' then ([], 2, rest) else ([CHR ''$'', c], 0, vs))
      else if state = 2 then
        (if c = CHR '')'' \<or> c = CHR ''}'' then
           (case look (take (length vs - length rest - 1) vs) of Some envval \<Rightarrow> (envval, 0, vs) | None \<Rightarrow> ([], 0, vs))
         else ([], 2, vs))
      else
        (if c = CHR 0x27 \<and> prev \<noteq> CHR 0x5C then ([], 0, vs) else ([c], 3, vs)))"

fun macros_loop ::
    "(char list \<Rightarrow> char list option) \<Rightarrow> nat \<Rightarrow> char \<Rightarrow> char list \<Rightarrow> nat \<Rightarrow> char list \<Rightarrow> char list" where
  "macros_loop look state prev vs outputcnt [] = []"
| "macros_loop look state prev vs outputcnt (c # inp) =
     (if outputcnt = 0 then []
      else if state \<noteq> 3 \<and> c = CHR 0x5C \<and> prev \<noteq> CHR 0x5C then
        (case inp of
           [] \<Rightarrow> []
         | d # inp \<Rightarrow>
             (let (emit, state, vs) = macro_step look state (CHR 0x5C) vs inp d;
                  out = take outputcnt emit
              in out @ macros_loop look state d vs (outputcnt - length out) inp))
      else
        (let (emit, state, vs) = macro_step look state prev vs inp c;
             out = take outputcnt emit
         in out @ macros_loop look state c vs (outputcnt - length out) inp))"

text \<open>What is written to the output, which is ended by a null character only if it is shorter than the buffer.\<close>

definition process_macros :: "nat \<Rightarrow> (char list \<Rightarrow> char list option) \<Rightarrow> char list \<Rightarrow> char list" where
  "process_macros CFG_CBSIZE look inp = macros_loop look 0 NUL [] CFG_CBSIZE inp"

section \<open>Commands\<close>

record 's cmd_tbl =
  cmd_name :: "char list"
  maxargs :: nat
  repeatable :: bool
  is_bootd :: bool
  cmd :: "nat \<Rightarrow> char list list \<Rightarrow> 's \<Rightarrow> int \<times> 's"

fun find_cmd_loop :: "char list \<Rightarrow> 's cmd_tbl option \<Rightarrow> nat \<Rightarrow> 's cmd_tbl list \<Rightarrow> 's cmd_tbl option" where
  "find_cmd_loop key found n_found [] = (if n_found = 1 then found else None)"
| "find_cmd_loop key found n_found (c # tbl) =
     (if take (length key) (cmd_name c) = key then
        (if length key = length (cmd_name c) then Some c else find_cmd_loop key (Some c) (n_found + 1) tbl)
      else find_cmd_loop key found n_found tbl)"

definition find_cmd :: "'s cmd_tbl list \<Rightarrow> char list \<Rightarrow> 's cmd_tbl option" where
  "find_cmd tbl name = find_cmd_loop (takeWhile (\<lambda>c. c \<noteq> CHR ''.'') name) None 0 tbl"

text \<open>
  The next command of a sequence: its text and what follows the separator. prev is the character
  before, which at the start of the buffer lies outside of it.
\<close>

fun find_sep :: "char \<Rightarrow> bool \<Rightarrow> bool \<Rightarrow> char list \<Rightarrow> char list \<times> char list" where
  "find_sep prev inquotes first [] = ([], [])"
| "find_sep prev inquotes first (c # s) =
     (let inquotes = (if c = CHR 0x27 \<and> prev \<noteq> CHR 0x5C then \<not> inquotes else inquotes)
      in if \<not> inquotes \<and> c = CHR '';'' \<and> \<not> first \<and> prev \<noteq> CHR 0x5C then ([], s)
         else (let (token, rest) = find_sep c inquotes False s in (c # token, rest)))"

lemma find_sep_length: "find_sep prev q first s = (token, rest) \<Longrightarrow> length rest \<le> length s"
  by (induction prev q first s arbitrary: token rest rule: find_sep.induct) (fastforce simp: Let_def split: if_splits prod.splits)+

lemma find_sep_shorter: "s \<noteq> [] \<Longrightarrow> find_sep prev q True s = (token, rest) \<Longrightarrow> length rest < length s"
  by (cases s) (auto simp: Let_def split: if_splits prod.splits dest!: find_sep_length)

definition CMD_FLAG_BOOTD :: nat where "CMD_FLAG_BOOTD = 2"

text \<open>The machine around the commands: variables, and the state of the interrupt key.\<close>

record 's shell =
  CFG_CBSIZE :: nat
  CFG_MAXARGS :: nat
  cmd_table :: "'s cmd_tbl list"
  lookup_var :: "'s \<Rightarrow> char list \<Rightarrow> char list option"
  had_ctrlc :: "'s \<Rightarrow> bool"
  clear_ctrlc :: "'s \<Rightarrow> 's"

text \<open>The loop over the commands of a line; None if the expanded command fills the buffer and is not ended.\<close>

function run_loop ::
    "'s shell \<Rightarrow> char \<Rightarrow> nat \<Rightarrow> bool \<Rightarrow> int \<Rightarrow> char list \<Rightarrow> 's \<Rightarrow> (int \<times> 's) option" where
  "run_loop sh prev flag rep rc str s =
     (if str = [] then Some (if rc \<noteq> 0 then rc else if rep then 1 else 0, s)
      else
        (let (token, rest) = find_sep prev False True str;
             finaltoken = process_macros (CFG_CBSIZE sh) (lookup_var sh s) token
         in if length finaltoken \<ge> CFG_CBSIZE sh then None
            else
              (let (argv, ended) = parse_line (CFG_MAXARGS sh) finaltoken
               in if argv = [] then run_loop sh NUL flag rep (-1) rest s
                  else case find_cmd (cmd_table sh) (hd argv) of
                         None \<Rightarrow> run_loop sh NUL flag rep (-1) rest s
                       | Some cmdtp \<Rightarrow>
                           if length argv > maxargs cmdtp then run_loop sh NUL flag rep (-1) rest s
                           else if is_bootd cmdtp \<and> flag AND CMD_FLAG_BOOTD \<noteq> 0 then run_loop sh NUL flag rep (-1) rest s
                           else
                             (let flag = (if is_bootd cmdtp then flag OR CMD_FLAG_BOOTD else flag);
                                  (r, s) = cmd cmdtp flag argv s;
                                  rc = (if r \<noteq> 0 then -1 else rc)
                              in if had_ctrlc sh s then Some (0, s)
                                 else run_loop sh NUL flag (rep \<and> repeatable cmdtp) rc rest s))))"
  by pat_completeness auto
termination
  by (relation "measure (\<lambda>(sh, prev, flag, rep, rc, str, s). length str)") (auto dest: find_sep_shorter [OF _ sym])

declare run_loop.simps [simp del]

text \<open>A null pointer as the command is None; below is the byte before the working copy.\<close>

definition run_command :: "'s shell \<Rightarrow> char \<Rightarrow> char list option \<Rightarrow> nat \<Rightarrow> 's \<Rightarrow> (int \<times> 's) option" where
  "run_command sh below command flag s =
     (let s = clear_ctrlc sh s
      in case command of
           None \<Rightarrow> Some (-1, s)
         | Some c \<Rightarrow> if c = [] then Some (-1, s)
                     else if length c \<ge> CFG_CBSIZE sh then Some (-1, s)
                     else run_loop sh below flag True 0 c s)"

fun do_run_loop :: "'s shell \<Rightarrow> char \<Rightarrow> nat \<Rightarrow> char list list \<Rightarrow> 's \<Rightarrow> (int \<times> 's) option" where
  "do_run_loop sh below flag [] s = Some (0, s)"
| "do_run_loop sh below flag (name # names) s =
     (case lookup_var sh s name of
        None \<Rightarrow> Some (1, s)
      | Some arg \<Rightarrow> do {
          (r, s) \<leftarrow> run_command sh below (Some arg) flag s;
          if r = -1 then Some (1, s) else do_run_loop sh below flag names s
        })"

definition do_run :: "'s shell \<Rightarrow> char \<Rightarrow> nat \<Rightarrow> char list list \<Rightarrow> 's \<Rightarrow> (int \<times> 's) option" where
  "do_run sh below flag argv s = (if length argv < 2 then Some (1, s) else do_run_loop sh below flag (drop 1 argv) s)"

end
