(* ===== verification/CommandProps.thy ===== *)
theory CommandProps
  imports CommandLine
begin

text \<open>
  What the command line does with its input: words are split as they should, variables are replaced
  by their values within the bounds of the buffer, and a variable that was just set is seen.
\<close>

section \<open>Splitting\<close>

definition word_ok :: "char list \<Rightarrow> bool" where
  "word_ok w \<longleftrightarrow> w \<noteq> [] \<and> list_all (\<lambda>c. \<not> blank c) w"

lemma parse_args_words:
  "list_all word_ok ws \<Longrightarrow> ws \<noteq> [] \<Longrightarrow> parse_args m n (joined ws) = (take (m - n) ws, n + length ws \<le> m)"
proof (induction ws arbitrary: n)
  case (Cons w ws)
  have w: "w \<noteq> []" "\<forall>c\<in>set w. \<not> blank c" using Cons.prems by (simp_all add: word_ok_def list_all_iff)
  then have d: "dropWhile blank (w @ x) = w @ x" for x by (cases w) auto
  show ?case
  proof (cases "ws = []")
    case True
    have "takeWhile (\<lambda>c. \<not> blank c) w = w" "dropWhile (\<lambda>c. \<not> blank c) w = []" using w(2) by auto
    then show ?thesis
      using True d [of "[]"] w(1) by (subst parse_args.simps) (auto simp: Let_def)
  next
    case False
    have b: "blank (CHR '' '')" by (simp add: blank_def)
    have "takeWhile (\<lambda>c. \<not> blank c) (w @ CHR '' '' # joined ws) = w" "dropWhile (\<lambda>c. \<not> blank c) (w @ CHR '' '' # joined ws) = CHR '' '' # joined ws"
      using w(2) b by (simp_all add: takeWhile_tail dropWhile_append3)
    moreover have "parse_args m (Suc n) (joined ws) = (take (m - Suc n) ws, Suc n + length ws \<le> m)"
      using Cons.IH [of "Suc n"] Cons.prems False by simp
    ultimately show ?thesis
      using w(1) d [of "CHR '' '' # joined ws"] False
      by (subst parse_args.simps) (auto simp: joined_Cons take_Suc Suc_diff_Suc take_Cons' Let_def)
  qed
qed simp

text \<open>
  A line of words separated by blanks is split into exactly these words and the array is ended by
  a null pointer, if they are not more than the maximum. A line with more words gives
  the first ones only, and the array is then not ended.
\<close>

theorem parse_line_words:
  assumes "list_all word_ok ws" and "ws \<noteq> []"
  shows "parse_line m (joined ws) = (take m ws, length ws \<le> m)"
  using parse_args_words [OF assms, of m 0] by (simp add: parse_line_def)

theorem parse_line_words_witness: "parse_line 16 ''setenv a b'' = ([''setenv'', ''a'', ''b''], True)"
  using parse_line_words [of "[''setenv'', ''a'', ''b'']" 16] by (simp add: word_ok_def blank_def)

section \<open>Expansion\<close>

definition plain_char :: "char \<Rightarrow> bool" where
  "plain_char c \<longleftrightarrow> c \<noteq> CHR ''$'' \<and> c \<noteq> CHR 0x27 \<and> c \<noteq> CHR 0x5C"

definition bare_name :: "char list \<Rightarrow> bool" where
  "bare_name name \<longleftrightarrow> list_all (\<lambda>c. c \<noteq> CHR 0x5C \<and> c \<noteq> CHR '')'' \<and> c \<noteq> CHR ''}'') name"

lemma macros_none [simp]: "macros_loop look state p vs 0 inp = []"
  by (cases inp) simp_all

lemma macros_plain:
  assumes "plain_char c"
  shows "macros_loop look 0 p vs (Suc n) (c # inp) = c # macros_loop look 0 c vs n inp"
  using assms by (simp add: plain_char_def macro_step_def)

text \<open>A run of plain text is copied; the character before the rest is then the last one of the run.\<close>

lemma macros_copy:
  "list_all plain_char pre \<Longrightarrow>
   macros_loop look 0 p vs n (pre @ rest) = take n pre @ macros_loop look 0 (last (p # pre)) vs (n - length pre) rest"
proof (induction pre arbitrary: p n)
  case (Cons c pre)
  then show ?case by (cases n) (simp_all add: macros_plain del: macros_loop.simps)
qed simp

lemma last_plain: "list_all plain_char pre \<Longrightarrow> p \<noteq> CHR 0x5C \<Longrightarrow> last (p # pre) \<noteq> CHR 0x5C"
  by (induction pre arbitrary: p) (auto simp: plain_char_def)

lemma macros_name:
  assumes "bare_name name" and "vs = before @ name @ CHR ''}'' # rest" and "0 < n" and "p \<noteq> CHR 0x5C"
  shows "macros_loop look 2 p vs n (name @ CHR ''}'' # rest) =
     (let v = (case look (before @ name) of Some v \<Rightarrow> v | None \<Rightarrow> [])
      in take n v @ macros_loop look 0 (CHR ''}'') vs (n - length v) rest)"
  using assms
proof (induction name arbitrary: p before)
  case Nil
  then show ?case by (simp add: macro_step_def Let_def min_def split: option.splits)
next
  case (Cons c name)
  have c: "c \<noteq> CHR 0x5C" "c \<noteq> CHR '')''" "c \<noteq> CHR ''}''" using Cons.prems(1) by (simp_all add: bare_name_def)
  have "macros_loop look 2 p vs n ((c # name) @ CHR ''}'' # rest) = macros_loop look 2 c vs n (name @ CHR ''}'' # rest)"
    using c Cons.prems(3) by (simp add: macro_step_def)
  with Cons.IH [of "before @ [c]" c] Cons.prems c(1) show ?case by (simp add: bare_name_def)
qed

lemma macros_variable:
  assumes "bare_name name" and "p \<noteq> CHR 0x5C"
  shows "macros_loop look 0 p vs n (''${'' @ name @ CHR ''}'' # rest) =
     (let v = (case look name of Some v \<Rightarrow> v | None \<Rightarrow> [])
      in take n v @ macros_loop look 0 (CHR ''}'') (name @ CHR ''}'' # rest) (n - length v) rest)"
proof (cases n)
  case (Suc k)
  have "macros_loop look 0 p vs n (''${'' @ name @ CHR ''}'' # rest) =
    macros_loop look 2 (CHR ''{'') (name @ CHR ''}'' # rest) n (name @ CHR ''}'' # rest)"
    using Suc assms(2) by (simp add: macro_step_def)
  then show ?thesis
    using macros_name [OF assms(1), of _ "[]" rest n "CHR ''{''" look] Suc by simp
qed simp

lemma expand_variable:
  assumes "list_all plain_char pre" and "list_all plain_char post" and "bare_name name"
  shows "process_macros n look (pre @ ''${'' @ name @ ''}'' @ post) =
    take n (pre @ (case look name of Some v \<Rightarrow> v | None \<Rightarrow> []) @ post)"
proof -
  have "last (NUL # pre) \<noteq> CHR 0x5C" using assms(1) by (rule last_plain) code_simp
  note var = macros_variable [OF assms(3) this]
  have post: "macros_loop look 0 p vs k post = take k post" for p vs k
    using macros_copy [OF assms(2), of look p vs k "[]"] by simp
  have "process_macros n look (pre @ ''${'' @ name @ ''}'' @ post) =
    take n pre @ macros_loop look 0 (last (NUL # pre)) [] (n - length pre) (''${'' @ name @ CHR ''}'' # post)"
    by (simp only: process_macros_def macros_copy [OF assms(1)] append_Cons append_Nil)
  then show ?thesis unfolding var Let_def post by simp
qed

text \<open>
  C26: A variable in a line of plain text is replaced by its value, and a variable that does not exist by
  nothing. The result is cut off at the size of the buffer, so that it is never overrun; a
  result that fills the buffer is not ended by a null character.
\<close>

theorem macro_expansion:
  assumes "list_all plain_char pre" and "list_all plain_char post" and "bare_name name"
  shows "process_macros n look (pre @ ''${'' @ name @ ''}'' @ post) =
    take n (pre @ (case look name of Some v \<Rightarrow> v | None \<Rightarrow> []) @ post)"
  using assms by (rule expand_variable)

theorem macro_expansion_witness:
  "process_macros 10 [''dir'' \<mapsto> ''/images''] ''load ${dir}/kernel'' = ''load /imag''"
  using macro_expansion [of "''load ''" "''/kernel''" "''dir''" 10 "[''dir'' \<mapsto> ''/images'']"]
  by (simp add: plain_char_def bare_name_def)

section \<open>Commands\<close>

definition exact :: "char list \<Rightarrow> 's cmd_tbl list \<Rightarrow> 's cmd_tbl list" where
  "exact key tbl = filter (\<lambda>c. cmd_name c = key) tbl"

definition abbreviated :: "char list \<Rightarrow> 's cmd_tbl list \<Rightarrow> 's cmd_tbl list" where
  "abbreviated key tbl = filter (\<lambda>c. prefix key (cmd_name c)) tbl"

lemma take_prefix: "take (length k) n = k \<longleftrightarrow> prefix k n"
  by (metis append_eq_conv_conj append_take_drop_id prefix_def)

lemma find_cmd_loop_spec:
  "find_cmd_loop key found n tbl =
     (case exact key tbl of
        c # _ \<Rightarrow> Some c
      | [] \<Rightarrow> if n + length (abbreviated key tbl) = 1 then (if abbreviated key tbl = [] then found else Some (last (abbreviated key tbl))) else None)"
proof (induction tbl arbitrary: found n)
  case (Cons c tbl)
  have "prefix key (cmd_name c) \<Longrightarrow> (length key = length (cmd_name c)) = (cmd_name c = key)"
    by (auto simp: prefix_def)
  moreover have "cmd_name c = key \<Longrightarrow> prefix key (cmd_name c)" by simp
  ultimately show ?case
    using Cons.IH by (auto simp: exact_def abbreviated_def take_prefix split: list.splits)
qed (simp add: exact_def abbreviated_def)

text \<open>
  A command is looked up by the part of its name before the first dot. The first entry with
  exactly this name is found even if other names begin with it; without one, an
  abbreviation is accepted if it is that of a single command, and otherwise nothing is found.
\<close>

theorem find_cmd_cases:
  "find_cmd tbl name =
     (let key = takeWhile (\<lambda>c. c \<noteq> CHR ''.'') name
      in case exact key tbl of
           c # _ \<Rightarrow> Some c
         | [] \<Rightarrow> (case abbreviated key tbl of [c] \<Rightarrow> Some c | _ \<Rightarrow> None))"
  by (simp add: find_cmd_def find_cmd_loop_spec Let_def split: list.splits)

section \<open>Sequences of commands\<close>

text \<open>A sequence of commands, each given by its words, as the text of a line and as it should be carried out.\<close>

fun sequence_text :: "char list list list \<Rightarrow> char list" where
  "sequence_text [] = []"
| "sequence_text [ws] = joined ws"
| "sequence_text (ws # cmds) = joined ws @ CHR '';'' # sequence_text cmds"

fun carry_out :: "'s shell \<Rightarrow> nat \<Rightarrow> bool \<Rightarrow> bool \<Rightarrow> char list list list \<Rightarrow> 's \<Rightarrow> int \<times> 's" where
  "carry_out sh flag rep failed [] s = (if failed then -1 else of_bool rep, s)"
| "carry_out sh flag rep failed (ws # cmds) s =
     (case find_cmd (cmd_table sh) (hd ws) of
        None \<Rightarrow> carry_out sh flag rep True cmds s
      | Some c \<Rightarrow>
          if length ws > maxargs c \<or> (is_bootd c \<and> flag AND CMD_FLAG_BOOTD \<noteq> 0) then carry_out sh flag rep True cmds s
          else
            (let flag = (if is_bootd c then flag OR CMD_FLAG_BOOTD else flag); (r, s) = cmd c flag ws s
             in if had_ctrlc sh s then (0, s) else carry_out sh flag (rep \<and> repeatable c) (failed \<or> r \<noteq> 0) cmds s))"

definition simple_word :: "char list \<Rightarrow> bool" where
  "simple_word w \<longleftrightarrow> word_ok w \<and> list_all (\<lambda>c. plain_char c \<and> c \<noteq> CHR '';'') w"

definition simple_command :: "nat \<Rightarrow> char list list \<Rightarrow> bool" where
  "simple_command m ws \<longleftrightarrow> ws \<noteq> [] \<and> length ws \<le> m \<and> list_all simple_word ws"

lemma find_sep_plain:
  "list_all (\<lambda>c. plain_char c \<and> c \<noteq> CHR '';'') t \<Longrightarrow>
   find_sep p False first (t @ s) = (if t = [] then find_sep p False first s
     else let (token, rest) = find_sep (last t) False False s in (t @ token, rest))"
  by (induction t arbitrary: p first) (auto simp: plain_char_def Let_def split: prod.splits)

lemma joined_plain: "list_all simple_word ws \<Longrightarrow> list_all (\<lambda>c. plain_char c \<and> c \<noteq> CHR '';'') (joined ws)"
  by (induction ws rule: joined.induct) (auto simp: simple_word_def plain_char_def)

lemma joined_nonempty: "simple_command m ws \<Longrightarrow> joined ws \<noteq> []"
  by (cases ws rule: joined.cases) (auto simp: simple_command_def simple_word_def word_ok_def)

lemma sequence_token:
  assumes "simple_command m ws"
  shows "find_sep p False True (sequence_text (ws # cmds)) = (joined ws, sequence_text cmds)"
proof -
  have t: "list_all (\<lambda>c. plain_char c \<and> c \<noteq> CHR '';'') (joined ws)" "joined ws \<noteq> []"
    using assms joined_plain joined_nonempty by (auto simp: simple_command_def)
  then have "last (joined ws) \<noteq> CHR 0x5C" by (auto simp: list_all_iff plain_char_def)
  with find_sep_plain [OF t(1), of p True "[]"] find_sep_plain [OF t(1), of p True "CHR '';'' # sequence_text cmds"] t(2)
  show ?thesis by (cases cmds) simp_all
qed

lemma sequence_words:
  assumes "simple_command m ws" and "length (joined ws) < n"
  shows "process_macros n look (joined ws) = joined ws" "parse_line m (joined ws) = (ws, True)"
proof -
  have p: "list_all plain_char (joined ws)"
    using joined_plain [of ws] assms(1) by (auto simp: simple_command_def list_all_iff)
  show "process_macros n look (joined ws) = joined ws"
    using macros_copy [OF p, of look NUL "[]" n "[]"] assms(2) by (simp add: process_macros_def)
  have "list_all word_ok ws" using assms(1) by (auto simp: simple_command_def simple_word_def list_all_iff)
  with parse_args_words [of ws m 0] assms(1) show "parse_line m (joined ws) = (ws, True)"
    by (simp add: parse_line_def simple_command_def)
qed

lemma run_loop_sequence:
  "list_all (simple_command (CFG_MAXARGS sh)) cmds \<Longrightarrow> length (sequence_text cmds) < CFG_CBSIZE sh \<Longrightarrow>
   run_loop sh p flag rep (if failed then -1 else 0) (sequence_text cmds) s = Some (carry_out sh flag rep failed cmds s)"
proof (induction cmds arbitrary: p flag rep failed s)
  case Nil
  then show ?case by (subst run_loop.simps) simp
next
  case (Cons ws cmds)
  have ws: "simple_command (CFG_MAXARGS sh) ws" using Cons.prems by simp
  have l: "length (joined ws) < CFG_CBSIZE sh" "length (sequence_text cmds) < CFG_CBSIZE sh"
    using Cons.prems(2) by (cases cmds; simp)+
  have ne: "sequence_text (ws # cmds) \<noteq> []" "ws \<noteq> []"
    using joined_nonempty [OF ws] ws by (cases cmds; simp add: simple_command_def)+
  note IH = Cons.IH [OF _ l(2)]
  have fail: "run_loop sh p flag rep (-1) (sequence_text cmds) s = Some (carry_out sh flag rep True cmds s)" for p flag rep s
    using IH [of p flag rep True s] Cons.prems(1) by simp
  have ok: "run_loop sh p flag rep 0 (sequence_text cmds) s = Some (carry_out sh flag rep False cmds s)" for p flag rep s
    using IH [of p flag rep False s] Cons.prems(1) by simp
  show ?case
    apply (subst run_loop.simps)
    unfolding if_not_P [OF ne(1)] sequence_token [OF ws] Let_def prod.case sequence_words [OF ws l(1)] if_not_P [OF ne(2)]
    using l(1) by (auto simp: fail ok Let_def split: option.splits prod.splits)
qed

text \<open>
  C25: A line of simple commands separated by semicolons is carried out command by command with exactly
  the words it was written from. A command that is unknown, has too many arguments or fails
  does not stop the ones after it, and the result then is -1; otherwise it tells whether all
  commands are repeatable. An interrupt stops the line with result 0.
\<close>

theorem run_command_sequence:
  assumes "list_all (simple_command (CFG_MAXARGS sh)) cmds" and "cmds \<noteq> []" and "length (sequence_text cmds) < CFG_CBSIZE sh"
  shows "run_command sh below (Some (sequence_text cmds)) flag s = Some (carry_out sh flag True False cmds (clear_ctrlc sh s))"
proof -
  have "sequence_text cmds \<noteq> []"
    using assms(1,2) joined_nonempty by (cases cmds rule: sequence_text.cases) auto
  with run_loop_sequence [OF assms(1,3), of below flag True False] assms(3) show ?thesis by (simp add: run_command_def)
qed

text \<open>A shell with two commands that append to a log, of which the second one fails.\<close>

definition demo_shell :: "char list list shell" where
  "demo_shell = \<lparr>CFG_CBSIZE = 64, CFG_MAXARGS = 4,
     cmd_table = [\<lparr>cmd_name = ''say'', maxargs = 3, repeatable = True, is_bootd = False, cmd = \<lambda>flag argv s. (0, s @ tl argv)\<rparr>,
       \<lparr>cmd_name = ''stop'', maxargs = 1, repeatable = False, is_bootd = False, cmd = \<lambda>flag argv s. (1, s @ [''stopped''])\<rparr>],
     lookup_var = \<lambda>s name. None, had_ctrlc = \<lambda>s. False, clear_ctrlc = \<lambda>s. s\<rparr>"

theorem run_command_sequence_witness:
  "run_command demo_shell NUL (Some ''st;say one two;quit'') 0 [] = Some (-1, [''stopped'', ''one'', ''two''])"
  using run_command_sequence [of demo_shell "[[''st''], [''say'', ''one'', ''two''], [''quit'']]" NUL 0 "[]"]
  by (simp add: demo_shell_def simple_command_def simple_word_def word_ok_def blank_def plain_char_def find_cmd_def Let_def)

section \<open>Variables that were set\<close>

text \<open>
  C27: A variable that was set with setenv is replaced by its new value in the next command, whatever
  the environment held before.
\<close>

theorem setenv_then_expand:
  assumes "store_inv cfg limit st" and "plain cfg k" and "NUL \<notin> set v" and "env_assign cfg limit k v st = Some st'"
    and "bare_name k" and "list_all plain_char pre" and "list_all plain_char post"
  shows "process_macros n (env_lookup cfg st') (pre @ ''${'' @ k @ ''}'' @ post) = take n (pre @ v @ post)"
  using expand_variable [OF assms(6,7,5), of n "env_lookup cfg st'"] environment.lookup_assign [OF assms(1-4) assms(2)] by simp

theorem setenv_then_expand_witness:
  "\<exists>st'. env_assign demo_config 16 ''a'' ''x'' (demo_env demo_mem) = Some st' \<and>
     process_macros 64 (env_lookup demo_config st') ''run ${a}1'' = ''run x1''"
proof -
  have p: "plain demo_config ''a''" by (simp add: plain_def name_ok_def demo_config_def stdio_index_def NUL_def)
  have v: "NUL \<notin> set ''x''" by (simp add: NUL_def)
  have "set_spec 16 ''a'' [''x''] [(''a'', ''1''), (''bc'', ''2'')] = (0, [(''bc'', ''2''), (''a'', ''x'')])"
    by (simp add: set_spec_def without_def text_of_def)
  with do_setenv_spec [OF demo_env_ok p, of "[''x'']", unfolded demo_mem_length] v obtain st' where
    st': "env_assign demo_config 16 ''a'' ''x'' (demo_env demo_mem) = Some st'" by (auto simp: env_assign_def)
  from setenv_then_expand [OF demo_store p v st', of "''run ''" "''1''" 64] st' show ?thesis
    by (simp add: bare_name_def plain_char_def)
qed

end
