(* ===== verification/TnodeTree.thy ===== *)
theory TnodeTree
  imports Tnode
begin

text \<open>
  The tree of tnodes as an index from positions in a file to groups of chunks: well-formed trees, the
  entry of a position, and what each operation does to them and to the stock of spare nodes.
\<close>

section \<open>Paths\<close>

text \<open>A position is within reach of a tree with l levels above level 0.\<close>

definition reaches :: "nat \<Rightarrow> u32 \<Rightarrow> bool" where
  "reaches l c \<longleftrightarrow> drop_bit (4 + 3 * l) c = 0"

lemma branch_bits: "branch c (Suc l) = unat (take_bit 3 (drop_bit (4 + 3 * l) c))"
  by (simp add: branch_def tnode_constants take_bit_eq_mask mask_numeral mult.commute)

lemma branch_less [simp]: "branch c l < 8"
proof -
  have "unat (take_bit 3 w) < 2 ^ 3" for w :: u32 unfolding unsigned_take_bit_eq by (rule take_bit_nat_less_exp)
  then show ?thesis by (simp add: branch_def tnode_constants take_bit_eq_mask mask_numeral)
qed

lemma tallness_le: "tallness x \<le> l \<longleftrightarrow> drop_bit (3 * l) x = 0"
proof (induction l arbitrary: x)
  case 0
  then show ?case by (subst tallness.simps) simp
next
  case (Suc l)
  show ?case
  proof (cases "x = 0")
    case False
    then have "tallness x \<le> Suc l \<longleftrightarrow> tallness (drop_bit 3 x) \<le> l"
      by (subst tallness.simps) (simp add: tnode_constants)
    with Suc.IH [of "drop_bit 3 x"] show ?thesis by (simp add: add.commute)
  qed (simp add: tallness.simps)
qed

lemma requiredTallness_le: "requiredTallness c \<le> l \<longleftrightarrow> reaches l c"
  by (simp add: requiredTallness_def tallness_le reaches_def tnode_constants add.commute)

lemma reaches_Suc: "reaches l c \<longleftrightarrow> reaches (Suc l) c \<and> branch c (Suc l) = 0"
proof -
  have "drop_bit k c = 0 \<longleftrightarrow> drop_bit (k + 3) c = 0 \<and> take_bit 3 (drop_bit k c) = 0" for k
  proof -
    have "drop_bit k c = take_bit 3 (drop_bit k c) XOR push_bit 3 (drop_bit 3 (drop_bit k c))" by (rule split_at_bit)
    moreover have "drop_bit (k + 3) c = 0" if "drop_bit k c = 0"
      using arg_cong [OF that, of "drop_bit 3"] by (simp add: add.commute)
    ultimately show ?thesis by (auto simp: add.commute)
  qed
  from this [of "4 + 3 * l"] show ?thesis
    by (simp add: reaches_def branch_bits unat_eq_0 add.commute add.left_commute)
qed

definition same_path :: "nat \<Rightarrow> u32 \<Rightarrow> u32 \<Rightarrow> bool" where
  "same_path l c d \<longleftrightarrow> (\<forall>i\<in>{1..l}. branch c i = branch d i)"

lemma same_path_Suc: "same_path (Suc l) c d \<longleftrightarrow> branch c (Suc l) = branch d (Suc l) \<and> same_path l c d"
  by (auto simp: same_path_def le_Suc_eq)

lemma slot_bits: "slot c = unat (take_bit 4 c)"
  by (simp add: slot_def YAFFS_TNODES_LEVEL0_MASK_def take_bit_eq_mask mask_numeral)

lemma same_path_bits: "same_path l c d \<Longrightarrow> slot c = slot d \<Longrightarrow> take_bit (4 + 3 * l) c = take_bit (4 + 3 * l) d"
proof (induction l)
  case 0
  then show ?case by (simp add: slot_bits word_unat_eq_iff)
next
  case (Suc l)
  then have IH: "take_bit (4 + 3 * l) c = take_bit (4 + 3 * l) d"
    and b: "take_bit 3 (drop_bit (4 + 3 * l) c) = take_bit 3 (drop_bit (4 + 3 * l) d)"
    by (simp_all add: same_path_Suc branch_bits word_unat_eq_iff)
  show ?case
  proof (rule bit_word_eqI)
    fix n
    show "bit (take_bit (4 + 3 * Suc l) c) n = bit (take_bit (4 + 3 * Suc l) d) n"
      using arg_cong [OF IH, of "\<lambda>w. bit w n"] arg_cong [OF b, of "\<lambda>w. bit w (n - (4 + 3 * l))"]
      by (cases "n < 4 + 3 * l") (auto simp: bit_take_bit_iff bit_drop_bit_eq)
  qed
qed

lemma same_position: "same_path l c d \<Longrightarrow> slot c = slot d \<Longrightarrow> reaches l c \<Longrightarrow> reaches l d \<Longrightarrow> c = d"
  using same_path_bits [of l c d] split_at_bit [of c "4 + 3 * l"] split_at_bit [of d "4 + 3 * l"]
  by (simp add: reaches_def)

section \<open>Well-formed trees\<close>

fun wf_tree :: "'f yaffs_Device \<Rightarrow> nat \<Rightarrow> yaffs_Tnode \<Rightarrow> bool" where
  "wf_tree dev l Null = True"
| "wf_tree dev 0 (Level0 wmap) = (length wmap = tnode_words dev)"
| "wf_tree dev (Suc l) (Internal ch) = (length ch = 8 \<and> (\<forall>c\<in>set ch. wf_tree dev l c))"
| "wf_tree dev l tn = False"

text \<open>The first pointers lead down to level 0 without a gap.\<close>

fun spine :: "nat \<Rightarrow> yaffs_Tnode \<Rightarrow> bool" where
  "spine 0 tn = (tn \<noteq> Null)"
| "spine (Suc l) (Internal ch) = spine l (ch ! 0)"
| "spine (Suc l) tn = False"

fun tree_entry :: "'f yaffs_Device \<Rightarrow> u32 \<Rightarrow> nat \<Rightarrow> yaffs_Tnode \<Rightarrow> u32" where
  "tree_entry dev c 0 (Level0 wmap) = entry_at dev wmap (slot c)"
| "tree_entry dev c (Suc l) (Internal ch) = tree_entry dev c l (ch ! branch c (Suc l))"
| "tree_entry dev c l tn = 0"

fun tree_nodes :: "yaffs_Tnode \<Rightarrow> nat" where
  "tree_nodes Null = 0"
| "tree_nodes (Level0 wmap) = 1"
| "tree_nodes (Internal ch) = 1 + sum_list (map tree_nodes ch)"

definition file_ok :: "'f yaffs_Device \<Rightarrow> yaffs_FileStructure \<Rightarrow> bool" where
  "file_ok dev fs \<longleftrightarrow> 0 \<le> topLevel fs \<and> topLevel fs \<le> 6 \<and> wf_tree dev (nat (topLevel fs)) (top fs) \<and> spine (nat (topLevel fs)) (top fs)"

definition file_entry :: "'f yaffs_Device \<Rightarrow> yaffs_FileStructure \<Rightarrow> u32 \<Rightarrow> u32" where
  "file_entry dev fs c = (if reaches (nat (topLevel fs)) c then tree_entry dev c (nat (topLevel fs)) (top fs) else 0)"

text \<open>The part of the device the shape of nodes depends on.\<close>

definition same_shape :: "'f yaffs_Device \<Rightarrow> 'f yaffs_Device \<Rightarrow> bool" where
  "same_shape dev dev' \<longleftrightarrow> tnodeWidth dev' = tnodeWidth dev \<and> tnodeMask dev' = tnodeMask dev \<and> chunkGroupBits dev' = chunkGroupBits dev"

lemma same_shape_refl [simp]: "same_shape dev dev"
  by (simp add: same_shape_def)

lemma same_shape_trans [trans]: "same_shape a b \<Longrightarrow> same_shape b c \<Longrightarrow> same_shape a c"
  by (simp add: same_shape_def)

lemma same_shape_words: "same_shape dev dev' \<Longrightarrow> tnode_words dev' = tnode_words dev"
  by (simp add: same_shape_def tnode_words_def)

lemma same_shape_width: "same_shape dev dev' \<Longrightarrow> width_ok dev' = width_ok dev"
  by (simp add: same_shape_def width_ok_def)

lemma same_shape_wf: "same_shape dev dev' \<Longrightarrow> wf_tree dev' l tn = wf_tree dev l tn"
  by (induction dev l tn rule: wf_tree.induct) (auto simp: same_shape_words)

lemma same_shape_entry: "same_shape dev dev' \<Longrightarrow> tree_entry dev' c l tn = tree_entry dev c l tn"
  by (induction dev c l tn rule: tree_entry.induct) (auto simp: same_shape_def entry_at_def)

lemma roomy_words: "width_ok dev \<Longrightarrow> length wmap = tnode_words dev \<Longrightarrow> roomy dev wmap"
  by (auto simp: width_ok_def roomy_def tnode_words_def tnode_constants Let_def elim!: evenE)

lemma entry_at_zero:
  assumes "roomy dev (replicate n 0)" and "p < 16"
  shows "entry_at dev (replicate n 0) p = 0"
proof -
  have "map_bit (replicate n 0) (p * width dev + j) = False" if "j < width dev" for j
  proof -
    have "(p * width dev + j) div 32 < n"
      using slot_in_map [OF assms that] by (simp add: less_mult_imp_div_less mult.commute)
    then show ?thesis by (simp add: map_bit_def)
  qed
  then have "horner_sum of_bool 2 (map (\<lambda>j. map_bit (replicate n 0) (p * width dev + j)) [0..<width dev]) = (0 :: u32)"
    by (intro bit_word_eqI) (auto simp: bit_horner_sum_bit_word_iff)
  then show ?thesis by (simp add: entry_at_def)
qed

section \<open>The stock of nodes\<close>

text \<open>Nodes handed out, and nodes that can be had without a failure of the allocator.\<close>

definition nodes_out :: "'f yaffs_Device \<Rightarrow> int" where
  "nodes_out dev = nTnodesCreated dev - int (freeTnodes dev)"

definition counted :: "'f yaffs_Device \<Rightarrow> bool" where
  "counted dev \<longleftrightarrow> nFreeTnodes dev = int (freeTnodes dev)"

definition spare :: "'f yaffs_Device \<Rightarrow> nat" where
  "spare dev = freeTnodes dev + (case ymalloc dev of True # _ \<Rightarrow> YAFFS_ALLOCATION_NTNODES | _ \<Rightarrow> 0)"

text \<open>What every operation on nodes keeps: the shape of nodes and the agreement of the counters.\<close>

definition node_frame :: "'f yaffs_Device \<Rightarrow> 'f yaffs_Device \<Rightarrow> bool" where
  "node_frame dev dev' \<longleftrightarrow> same_shape dev dev' \<and> (counted dev \<longrightarrow> counted dev')"

lemma node_frame_refl [simp]: "node_frame dev dev"
  by (simp add: node_frame_def)

lemma node_frame_trans [trans]: "node_frame a b \<Longrightarrow> node_frame b c \<Longrightarrow> node_frame a c"
  by (auto simp: node_frame_def intro: same_shape_trans)

lemma node_frame_shape: "node_frame dev dev' \<Longrightarrow> same_shape dev dev'"
  by (simp add: node_frame_def)

lemma CreateTnodes_stock:
  assumes "yaffs_CreateTnodes dev n = (r, dev')"
  shows "node_frame dev dev' \<and> nodes_out dev' = nodes_out dev"
  using assms by (auto simp: yaffs_CreateTnodes_def yMalloc_def node_frame_def same_shape_def counted_def nodes_out_def Let_def split: if_splits list.splits)

lemma GetTnodeRaw_stock:
  assumes "yaffs_GetTnodeRaw dev = (ok, dev')"
  shows "node_frame dev dev'" "nodes_out dev' = nodes_out dev + of_bool ok" "spare dev > 0 \<Longrightarrow> ok" "spare dev \<le> spare dev' + 1"
proof -
  obtain r d1 where d1: "yaffs_CreateTnodes dev YAFFS_ALLOCATION_NTNODES = (r, d1)" by (cases "yaffs_CreateTnodes dev YAFFS_ALLOCATION_NTNODES")
  note st = CreateTnodes_stock [OF d1]
  show "node_frame dev dev'" "nodes_out dev' = nodes_out dev + of_bool ok"
    using assms st by (auto simp: yaffs_GetTnodeRaw_def d1 node_frame_def same_shape_def counted_def nodes_out_def Let_def split: if_splits)
  show "spare dev > 0 \<Longrightarrow> ok" "spare dev \<le> spare dev' + 1"
    using assms by (auto simp: yaffs_GetTnodeRaw_def yaffs_CreateTnodes_def yMalloc_def spare_def YAFFS_ALLOCATION_NTNODES_def Let_def
        split: if_splits list.splits bool.splits)
qed

lemma clean_tnode_simps [simp]: "clean_tnode dev l \<noteq> Null" "tree_nodes (clean_tnode dev l) = 1"
  by (simp_all add: clean_tnode_def sum_list_replicate)

lemma GetTnode_stock:
  assumes "yaffs_GetTnode dev l = (tn, dev')"
  shows "node_frame dev dev'" "nodes_out dev' = nodes_out dev + int (tree_nodes tn)" "tn = Null \<or> tn = clean_tnode dev l"
    "spare dev > 0 \<Longrightarrow> tn = clean_tnode dev l" "spare dev \<le> spare dev' + 1"
proof -
  obtain ok d where d: "yaffs_GetTnodeRaw dev = (ok, d)" by (cases "yaffs_GetTnodeRaw dev")
  have tn: "tn = (if ok then clean_tnode d l else Null)" "dev' = d" using assms d by (auto simp: yaffs_GetTnode_def)
  have c: "clean_tnode d l = clean_tnode dev l"
    using same_shape_words [OF node_frame_shape [OF GetTnodeRaw_stock(1) [OF d]]] by (simp add: clean_tnode_def)
  show "node_frame dev dev'" "nodes_out dev' = nodes_out dev + int (tree_nodes tn)" "tn = Null \<or> tn = clean_tnode dev l"
    "spare dev > 0 \<Longrightarrow> tn = clean_tnode dev l" "spare dev \<le> spare dev' + 1"
    using GetTnodeRaw_stock [OF d] by (auto simp: tn c)
qed

lemma FreeTnode_stock:
  "node_frame dev (yaffs_FreeTnode dev tn)" "nodes_out (yaffs_FreeTnode dev tn) = nodes_out dev - of_bool (tn \<noteq> Null)"
  by (simp_all add: yaffs_FreeTnode_def node_frame_def same_shape_def counted_def nodes_out_def Let_def)

lemma clean_tnode_tree:
  assumes "width_ok dev"
  shows "wf_tree dev l (clean_tnode dev l)" "tree_entry dev c l (clean_tnode dev l) = 0"
    "l = 0 \<Longrightarrow> spine l (clean_tnode dev l)"
proof -
  have "roomy dev (replicate (tnode_words dev) 0)" by (rule roomy_words [OF assms]) simp
  then have "entry_at dev (replicate (tnode_words dev) 0) (slot c) = 0" using slot_less by (rule entry_at_zero)
  then show "tree_entry dev c l (clean_tnode dev l) = 0"
    by (cases l) (simp_all add: clean_tnode_def tnode_constants)
  show "wf_tree dev l (clean_tnode dev l)" by (cases l) (simp_all add: clean_tnode_def tnode_constants)
  show "l = 0 \<Longrightarrow> spine l (clean_tnode dev l)" by simp
qed

section \<open>Finding\<close>

lemma find_down_tree:
  "wf_tree dev l tn \<Longrightarrow>
   (find_down c l tn = Some Null \<and> tree_entry dev c l tn = 0) \<or>
   (\<exists>wmap. find_down c l tn = Some (Level0 wmap) \<and> length wmap = tnode_words dev \<and> tree_entry dev c l tn = entry_at dev wmap (slot c))"
proof (induction dev l tn rule: wf_tree.induct)
  case (3 dev l ch)
  then have "branch c (Suc l) < length ch" "wf_tree dev l (ch ! branch c (Suc l))" by simp_all
  with 3 show ?case by auto
next
  case (1 dev l)
  then show ?case by (cases l) simp_all
qed simp_all

lemma find_down_path: "same_path l c d \<Longrightarrow> find_down c l tn = find_down d l tn"
proof (induction l arbitrary: tn)
  case (Suc l)
  then show ?case by (cases tn) (simp_all add: same_path_Suc)
qed simp

lemma FindLevel0Tnode_entry:
  assumes "file_ok dev fs" and "c \<le> YAFFS_MAX_CHUNK_ID"
  shows "(yaffs_FindLevel0Tnode dev fs c = Some Null \<and> file_entry dev fs c = 0) \<or>
   (\<exists>wmap. yaffs_FindLevel0Tnode dev fs c = Some (Level0 wmap) \<and> length wmap = tnode_words dev \<and>
      file_entry dev fs c = entry_at dev wmap (slot c) \<and> reaches (nat (topLevel fs)) c \<and>
      find_down c (nat (topLevel fs)) (top fs) = Some (Level0 wmap))"
proof -
  have t: "0 \<le> topLevel fs" "topLevel fs \<le> 6" "wf_tree dev (nat (topLevel fs)) (top fs)" using assms(1) by (auto simp: file_ok_def)
  then have r: "int (requiredTallness c) > topLevel fs \<longleftrightarrow> \<not> reaches (nat (topLevel fs)) c"
    by (simp flip: requiredTallness_le) linarith
  show ?thesis
    using find_down_tree [OF t(3), of c] t(1,2) assms(2) r
    by (auto simp: yaffs_FindLevel0Tnode_def file_entry_def YAFFS_TNODES_MAX_LEVEL_def)
qed

section \<open>Storing\<close>

lemma wf_tree_update: "wf_tree dev (Suc l) (Internal ch) \<Longrightarrow> wf_tree dev l t \<Longrightarrow> wf_tree dev (Suc l) (Internal (ch[i := t]))"
  by (auto dest: set_update_subset_insert [THEN subsetD])

lemma store_down_tree:
  assumes "wf_tree dev l tn" and "find_down c l tn = Some (Level0 wmap)" and "length wmap' = length wmap"
  shows "wf_tree dev l (store_down c l tn (Level0 wmap'))"
    "tree_entry dev d l (store_down c l tn (Level0 wmap')) = (if same_path l c d then entry_at dev wmap' (slot d) else tree_entry dev d l tn)"
    "spine l (store_down c l tn (Level0 wmap')) = spine l tn"
    "tree_nodes (store_down c l tn (Level0 wmap')) = tree_nodes tn"
    "find_down c l (store_down c l tn (Level0 wmap')) = Some (Level0 wmap')"
  using assms
proof (induction c l tn rule: find_down.induct)
  case (1 c tn)
  {
    case 1 then show ?case by simp
  next
    case 2 then show ?case by (simp add: same_path_def)
  next
    case 3 then show ?case by simp
  next
    case 4 then show ?case by simp
  next
    case 5 then show ?case by simp
  }
next
  case (3 c l ch)
  let ?x = "branch c (Suc l)" and ?t = "store_down c l (ch ! branch c (Suc l)) (Level0 wmap')"
  have *: "?x < length ch" "wf_tree dev l (ch ! ?x)" "find_down c l (ch ! ?x) = Some (Level0 wmap)"
    if "wf_tree dev (Suc l) (Internal ch)" "find_down c (Suc l) (Internal ch) = Some (Level0 wmap)"
    using that by (auto split: if_splits)
  {
    case 1 then show ?case using 3(1) * wf_tree_update [of dev l ch ?t ?x] by (auto split: if_splits)
  next
    case 2 then show ?case using 3(2) * by (auto simp: same_path_Suc nth_list_update split: if_splits)
  next
    case 3 then show ?case using "3.IH"(3) * by (auto simp: nth_list_update split: if_splits)
  next
    case 4
    have "map tree_nodes (ch[?x := ?t]) = map tree_nodes ch"
      using 4 "3.IH"(4) * by (auto simp: map_update list_update_same_conv split: if_splits)
    then show ?case by simp
  next
    case 5 then show ?case using "3.IH"(5) * by (auto split: if_splits)
  }
qed auto

section \<open>Growing\<close>

lemma sum_list_map_update:
  "i < length xs \<Longrightarrow> sum_list (map f (xs[i := x])) + f (xs ! i) = sum_list (map f xs) + (f x :: nat)"
proof (induction xs arbitrary: i)
  case (Cons a xs)
  then show ?case by (cases i) auto
qed simp

lemma taller_tree:
  assumes "wf_tree dev l tp" and "spine l tp"
  shows "wf_tree dev (Suc l) (Internal ((replicate 8 Null)[0 := tp]))" "spine (Suc l) (Internal ((replicate 8 Null)[0 := tp]))"
    "tree_entry dev c (Suc l) (Internal ((replicate 8 Null)[0 := tp])) = (if branch c (Suc l) = 0 then tree_entry dev c l tp else 0)"
    "tree_nodes (Internal ((replicate 8 Null)[0 := tp])) = Suc (tree_nodes tp)"
proof -
  show "wf_tree dev (Suc l) (Internal ((replicate 8 Null)[0 := tp]))"
    using assms(1) by (intro wf_tree_update) simp_all
  show "spine (Suc l) (Internal ((replicate 8 Null)[0 := tp]))" using assms(2) by (simp add: eval_nat_numeral)
  show "tree_entry dev c (Suc l) (Internal ((replicate 8 Null)[0 := tp])) = (if branch c (Suc l) = 0 then tree_entry dev c l tp else 0)"
    by (simp add: nth_list_update)
  show "tree_nodes (Internal ((replicate 8 Null)[0 := tp])) = Suc (tree_nodes tp)" by (simp add: eval_nat_numeral)
qed

lemma grow_tree:
  "width_ok dev \<Longrightarrow> wf_tree dev l tp \<Longrightarrow> spine l tp \<Longrightarrow> n \<le> spare dev \<Longrightarrow> grow n tp dev = (tp', dev') \<Longrightarrow>
   node_frame dev dev' \<and> wf_tree dev (l + n) tp' \<and> spine (l + n) tp' \<and> spare dev \<le> spare dev' + n \<and>
   nodes_out dev' - int (tree_nodes tp') = nodes_out dev - int (tree_nodes tp) \<and>
   (\<forall>c. reaches (l + n) c \<longrightarrow> tree_entry dev c (l + n) tp' = (if reaches l c then tree_entry dev c l tp else 0))"
proof (induction n arbitrary: l tp dev)
  case (Suc n)
  let ?t = "Internal ((replicate 8 Null)[0 := tp])"
  obtain tn d where g: "yaffs_GetTnode dev 1 = (tn, d)" by (cases "yaffs_GetTnode dev 1")
  have tn: "tn = Internal (replicate 8 Null)" using GetTnode_stock(4) [OF g] Suc.prems(4) by (simp add: clean_tnode_def tnode_constants)
  have u: "nodes_out d = nodes_out dev + 1" using GetTnode_stock(2) [OF g] by (simp add: tn sum_list_replicate)
  note st = GetTnode_stock(1,5) [OF g]
  note sh = node_frame_shape [OF st(1)]
  note tt = taller_tree [OF Suc.prems(2,3)]
  have IH: "node_frame d dev' \<and> wf_tree d (Suc l + n) tp' \<and> spine (Suc l + n) tp' \<and> spare d \<le> spare dev' + n \<and>
    nodes_out dev' - int (tree_nodes tp') = nodes_out d - int (tree_nodes ?t) \<and>
    (\<forall>c. reaches (Suc l + n) c \<longrightarrow> tree_entry d c (Suc l + n) tp' = (if reaches (Suc l) c then tree_entry d c (Suc l) ?t else 0))"
    by (rule Suc.IH) (use Suc.prems g tn tt st(2) in \<open>auto simp: same_shape_width [OF sh] same_shape_wf [OF sh]\<close>)
  have "tree_entry dev c (l + Suc n) tp' = (if reaches l c then tree_entry dev c l tp else 0)" if "reaches (l + Suc n) c" for c
    using IH that tt(3) [of c] reaches_Suc [of l c] by (auto simp: same_shape_entry [OF sh])
  then show ?case
    using IH st(2) u tt(4) node_frame_trans [OF st(1)] by (auto simp: same_shape_wf [OF sh])
qed simp

section \<open>Adding\<close>

text \<open>The way down with nothing passed in: what is found or made at each level.\<close>

definition child_at :: "nat \<Rightarrow> yaffs_Tnode \<Rightarrow> 'f yaffs_Device \<Rightarrow> yaffs_Tnode \<times> 'f yaffs_Device" where
  "child_at l c dev = (if c = Null then yaffs_GetTnode dev l else (c, dev))"

lemma add_down_Internal:
  "add_down c Null (Suc l) (Internal ch) dev =
     (if branch c (Suc l) < length ch then do {
        let (child, dev) = child_at l (ch ! branch c (Suc l)) dev;
        (child, tn, dev) \<leftarrow> add_down c Null l child dev;
        Some (Internal (ch[branch c (Suc l) := child]), tn, dev)
      } else None)"
  by (auto simp: child_at_def Let_def)

declare add_down.simps(3) [simp del]

lemma child_at_tree:
  assumes "width_ok dev" and "wf_tree dev l t" and "child_at l t dev = (child, dev')"
  shows "node_frame dev dev'" "wf_tree dev l child" "nodes_out dev' - int (tree_nodes child) = nodes_out dev - int (tree_nodes t)"
    "spare dev > 0 \<Longrightarrow> child \<noteq> Null" "spare dev \<le> spare dev' + 1" "tree_entry dev c l child = tree_entry dev c l t"
    "t \<noteq> Null \<Longrightarrow> child = t"
proof -
  have e: "tree_entry dev c l Null = 0" by (cases l) simp_all
  show "node_frame dev dev'" "wf_tree dev l child" "nodes_out dev' - int (tree_nodes child) = nodes_out dev - int (tree_nodes t)"
    "spare dev > 0 \<Longrightarrow> child \<noteq> Null" "spare dev \<le> spare dev' + 1" "tree_entry dev c l child = tree_entry dev c l t"
    "t \<noteq> Null \<Longrightarrow> child = t"
    using assms(2,3) GetTnode_stock [of dev l child dev'] clean_tnode_tree [OF assms(1), where l = l]
    by (auto simp: child_at_def e split: if_splits)
qed

lemma add_down_tree:
  "width_ok dev \<Longrightarrow> wf_tree dev l tn \<Longrightarrow> \<exists>tn' t dev'. add_down c Null l tn dev = Some (tn', t, dev') \<and>
     node_frame dev dev' \<and> wf_tree dev l tn' \<and> (\<forall>d. tree_entry dev d l tn' = tree_entry dev d l tn) \<and>
     nodes_out dev' - int (tree_nodes tn') = nodes_out dev - int (tree_nodes tn) \<and> (spine l tn \<longrightarrow> spine l tn') \<and>
     find_down c l tn' = Some t \<and> (tn \<noteq> Null \<and> l \<le> spare dev \<longrightarrow> t \<noteq> Null)"
proof (induction l arbitrary: tn dev)
  case 0
  then show ?case by simp
next
  case (Suc l)
  show ?case
  proof (cases tn)
    case (Internal ch)
    let ?x = "branch c (Suc l)"
    have x: "?x < length ch" "wf_tree dev l (ch ! ?x)" using Suc.prems Internal by simp_all
    obtain child d1 where c1: "child_at l (ch ! ?x) dev = (child, d1)" by (cases "child_at l (ch ! ?x) dev")
    note ct = child_at_tree [OF Suc.prems(1) x(2) c1]
    note sh = node_frame_shape [OF ct(1)]
    obtain tn' t d2 where IH: "add_down c Null l child d1 = Some (tn', t, d2)" "node_frame d1 d2" "wf_tree dev l tn'"
      "\<And>d. tree_entry dev d l tn' = tree_entry dev d l child" "nodes_out d2 - int (tree_nodes tn') = nodes_out d1 - int (tree_nodes child)"
      "spine l child \<longrightarrow> spine l tn'" "find_down c l tn' = Some t" "child \<noteq> Null \<and> l \<le> spare d1 \<longrightarrow> t \<noteq> Null"
      using Suc.IH [of d1 child] Suc.prems(1) ct(2) by (auto simp: same_shape_width [OF sh] same_shape_wf [OF sh] same_shape_entry [OF sh])
    have run: "add_down c Null (Suc l) tn dev = Some (Internal (ch[?x := tn']), t, d2)"
      by (simp add: Internal add_down_Internal x(1) c1 IH(1))
    have e: "tree_entry dev d (Suc l) (Internal (ch[?x := tn'])) = tree_entry dev d (Suc l) tn" for d
      using x(1) IH(4) ct(6) by (auto simp: Internal nth_list_update)
    have u: "nodes_out d2 - int (tree_nodes (Internal (ch[?x := tn']))) = nodes_out dev - int (tree_nodes tn)"
      using sum_list_map_update [OF x(1), of tree_nodes tn'] IH(5) ct(3) by (simp add: Internal)
    have sp: "spine (Suc l) tn \<longrightarrow> spine (Suc l) (Internal (ch[?x := tn']))"
    proof
      assume s: "spine (Suc l) tn"
      then have "ch ! 0 \<noteq> Null" by (cases l) (auto simp: Internal)
      with s IH(6) ct(7) x(1) show "spine (Suc l) (Internal (ch[?x := tn']))" by (auto simp: Internal nth_list_update)
    qed
    have w: "wf_tree dev (Suc l) (Internal (ch[?x := tn']))"
      using Suc.prems(2) IH(3) unfolding Internal by (rule wf_tree_update)
    have f: "find_down c (Suc l) (Internal (ch[?x := tn'])) = Some t" using x(1) IH(7) by simp
    have n: "tn \<noteq> Null \<and> Suc l \<le> spare dev \<longrightarrow> t \<noteq> Null" using IH(8) ct(4,5) by auto
    show ?thesis
      using run node_frame_trans [OF ct(1) IH(2)] e u sp w f n by blast
  next
    case Null
    then show ?thesis by simp
  next
    case (Level0 wmap)
    then show ?thesis using Suc.prems by simp
  qed
qed

end
