(* ===== verification/TnodeProps.thy ===== *)
theory TnodeProps
  imports TnodeTree
begin

text \<open>
  The properties of the tree of tnodes: it implements a map from positions to groups of chunks, no node is
  lost, pruning keeps every entry if the entries take 16 bits each, and what goes wrong otherwise.
\<close>

section \<open>Adding\<close>

lemma max_reaches: "c \<le> YAFFS_MAX_CHUNK_ID \<Longrightarrow> reaches 6 c"
proof -
  assume "c \<le> YAFFS_MAX_CHUNK_ID"
  then have "unat c div 4194304 = 0" by (simp add: YAFFS_MAX_CHUNK_ID_def word_le_nat_alt)
  then show "reaches 6 c" by (simp add: reaches_def drop_bit_eq_div word_unat_eq_iff unat_div)
qed

text \<open>The two steps: growing to the height that is needed, and going down.\<close>

lemma AddOrFind_run:
  assumes "0 \<le> topLevel fs" and "topLevel fs \<le> 6" and "c \<le> YAFFS_MAX_CHUNK_ID"
    and "grow (requiredTallness c - nat (topLevel fs)) (top fs) dev = (tp, d1)"
  shows "yaffs_AddOrFindLevel0Tnode dev fs c Null = do {
    (tp', tn, d2) \<leftarrow> add_down c Null (max (nat (topLevel fs)) (requiredTallness c)) tp d1;
    Some (tn, fs\<lparr>topLevel := max (topLevel fs) (int (requiredTallness c)), top := tp'\<rparr>, d2) }"
proof (cases "int (requiredTallness c) > topLevel fs")
  case True
  have "nat (int (requiredTallness c) - topLevel fs) = requiredTallness c - nat (topLevel fs)" by (simp add: nat_diff_distrib' assms(1))
  moreover have "max (nat (topLevel fs)) (requiredTallness c) = requiredTallness c" "max (topLevel fs) (int (requiredTallness c)) = int (requiredTallness c)"
    using True by auto
  ultimately show ?thesis
    using True assms by (auto simp: yaffs_AddOrFindLevel0Tnode_def YAFFS_TNODES_MAX_LEVEL_def Let_def)
next
  case False
  have m: "max (nat (topLevel fs)) (requiredTallness c) = nat (topLevel fs)" "max (topLevel fs) (int (requiredTallness c)) = topLevel fs"
    "requiredTallness c - nat (topLevel fs) = 0"
    using False by auto
  have g: "tp = top fs" "d1 = dev" using assms(4) m(3) by simp_all
  show ?thesis
    using False assms(1-3) unfolding m(1,2) g
    by (cases "topLevel fs = 0") (auto simp: yaffs_AddOrFindLevel0Tnode_def YAFFS_TNODES_MAX_LEVEL_def Let_def)
qed

lemma wf_tree_level0: "wf_tree dev 0 t \<Longrightarrow> t \<noteq> Null \<Longrightarrow> \<exists>wmap. t = Level0 wmap \<and> length wmap = tnode_words dev"
  by (cases t) simp_all

lemma spine_not_Null: "spine l tn \<Longrightarrow> tn \<noteq> Null"
  by (cases l) auto

lemma file_entry_shape: "same_shape dev dev' \<Longrightarrow> file_entry dev' fs c = file_entry dev fs c"
  by (simp add: file_entry_def same_shape_entry)

lemma file_ok_shape: "same_shape dev dev' \<Longrightarrow> file_ok dev' fs = file_ok dev fs"
  by (simp add: file_ok_def same_shape_wf)

lemma AddOrFind_ok:
  assumes "width_ok dev" and "file_ok dev fs" and "c \<le> YAFFS_MAX_CHUNK_ID" and "12 \<le> spare dev"
  shows "\<exists>wmap fs' dev'. yaffs_AddOrFindLevel0Tnode dev fs c Null = Some (Level0 wmap, fs', dev') \<and>
    node_frame dev dev' \<and> file_ok dev fs' \<and> (\<forall>d. file_entry dev fs' d = file_entry dev fs d) \<and>
    nodes_out dev' - int (tree_nodes (top fs')) = nodes_out dev - int (tree_nodes (top fs)) \<and>
    reaches (nat (topLevel fs')) c \<and> find_down c (nat (topLevel fs')) (top fs') = Some (Level0 wmap)"
proof -
  define l r where "l = nat (topLevel fs)" and "r = requiredTallness c"
  have t: "0 \<le> topLevel fs" "topLevel fs \<le> 6" "wf_tree dev l (top fs)" "spine l (top fs)" using assms(2) by (auto simp: file_ok_def l_def)
  have r6: "r \<le> 6" using max_reaches [OF assms(3)] by (simp add: r_def requiredTallness_le)
  have m: "max l r = l + (r - l)" "max (topLevel fs) (int r) = int (max l r)" "max l r \<le> 6" using t(1,2) r6 by (auto simp: l_def)
  obtain tp d1 where g: "grow (r - l) (top fs) dev = (tp, d1)" by (cases "grow (r - l) (top fs) dev")
  have gt: "node_frame dev d1" "wf_tree dev (max l r) tp" "spine (max l r) tp" "spare dev \<le> spare d1 + (r - l)"
    "nodes_out d1 - int (tree_nodes tp) = nodes_out dev - int (tree_nodes (top fs))"
    "\<And>c. reaches (max l r) c \<Longrightarrow> tree_entry dev c (max l r) tp = (if reaches l c then tree_entry dev c l (top fs) else 0)"
    using grow_tree [OF assms(1) t(3,4) _ g] assms(4) r6 m(1) by auto
  note sh = node_frame_shape [OF gt(1)]
  have "width_ok d1" "wf_tree d1 (max l r) tp" using assms(1) gt(2) by (simp_all add: same_shape_width [OF sh] same_shape_wf [OF sh])
  then obtain tp' tn d2 where ad: "add_down c Null (max l r) tp d1 = Some (tp', tn, d2)" "node_frame d1 d2" "wf_tree dev (max l r) tp'"
    "\<And>d. tree_entry dev d (max l r) tp' = tree_entry dev d (max l r) tp"
    "nodes_out d2 - int (tree_nodes tp') = nodes_out d1 - int (tree_nodes tp)" "spine (max l r) tp'" "find_down c (max l r) tp' = Some tn" "tn \<noteq> Null"
    using add_down_tree [of d1 "max l r" tp c] gt(3,4) spine_not_Null [OF gt(3)] assms(4) m(3) r6
    by (auto simp: same_shape_wf [OF sh] same_shape_entry [OF sh])
  obtain wmap where wm: "tn = Level0 wmap" using find_down_tree [OF ad(3), of c] ad(7,8) by auto
  let ?fs = "fs\<lparr>topLevel := int (max l r), top := tp'\<rparr>"
  have "yaffs_AddOrFindLevel0Tnode dev fs c Null = Some (Level0 wmap, ?fs, d2)"
    using AddOrFind_run [OF t(1,2) assms(3), of dev tp d1] g ad(1) m(2) wm by (simp add: l_def r_def)
  moreover have "file_ok dev ?fs" using ad(3,6) m(3) by (simp add: file_ok_def)
  moreover have "file_entry dev ?fs d = file_entry dev fs d" for d
  proof -
    have "reaches l d \<Longrightarrow> reaches (max l r) d"
      using requiredTallness_le [of d l] requiredTallness_le [of d "max l r"] by auto
    then show ?thesis using gt(6) [of d] ad(4) [of d] by (auto simp: file_entry_def l_def)
  qed
  moreover have "nodes_out d2 - int (tree_nodes (top ?fs)) = nodes_out dev - int (tree_nodes (top fs))" using ad(5) gt(5) by simp
  moreover have "reaches (nat (topLevel ?fs)) c" using requiredTallness_le [of c "max l r"] by (simp add: r_def)
  moreover have "find_down c (nat (topLevel ?fs)) (top ?fs) = Some (Level0 wmap)" using ad(7) wm by simp
  ultimately show ?thesis using node_frame_trans [OF gt(1) ad(2)] by blast
qed

end
