(* ===== verification/FileFrame.thy ===== *)
theory FileFrame
  imports FileChunks BlockDelete TnodeProps
begin

text \<open>
  The operations on blocks and chunks do not touch the stock of tnodes, so that trees keep their shape
  and their meaning across them.
\<close>

lemma tnode_part_frame:
  assumes "tnode_part d' = tnode_part d"
  shows "node_frame d d'" "nodes_out d' = nodes_out d" "spare d' = spare d" "same_shape d d'" "chunkGroupSize d' = chunkGroupSize d"
  using assms by (simp_all add: node_frame_def same_shape_def counted_def nodes_out_def spare_def)

declare tnode_part_def [simp del]

lemma tnode_part_core: "same_core d d' \<Longrightarrow> tnode_part d' = tnode_part d"
  by (rule same_coreD(20))

lemma tnode_part_set [simp]: "tnode_part (setBlockInfo d b bi) = tnode_part d"
  by (simp add: tnode_part_def setBlockInfo_def)

lemma tnode_part_update [simp]:
  "tnode_part (d\<lparr>nDeletions := x\<rparr>) = tnode_part d" "tnode_part (d\<lparr>nErasedBlocks := x\<rparr>) = tnode_part d"
  "tnode_part (d\<lparr>nFreeChunks := x\<rparr>) = tnode_part d" "tnode_part (d\<lparr>nErasureFailures := x\<rparr>) = tnode_part d"
  "tnode_part (d\<lparr>nRetiredBlocks := x\<rparr>) = tnode_part d" "tnode_part (d\<lparr>blocksInCheckpoint := x\<rparr>) = tnode_part d"
  "tnode_part (d\<lparr>isCheckpointed := b\<rparr>) = tnode_part d" "tnode_part (d\<lparr>genericDevice := f\<rparr>) = tnode_part d"
  "tnode_part (d\<lparr>chunkBits := bs\<rparr>) = tnode_part d"
  by (simp_all add: tnode_part_def)

lemma checkpointErase_step_part: "checkpointErase_step i d = Some d' \<Longrightarrow> tnode_part d' = tnode_part d"
  by (auto simp: checkpointErase_step_def Let_def split: bind_splits if_splits prod.splits)

lemma checkpointErase_loop_part: "checkpointErase_loop is d = Some d' \<Longrightarrow> tnode_part d' = tnode_part d"
  by (induction "is" d rule: checkpointErase_loop.induct) (auto simp: bind_eq_Some_conv dest: checkpointErase_step_part)

lemma InvalidateCheckpoint_part: "yaffs_InvalidateCheckpoint d = Some d' \<Longrightarrow> tnode_part d' = tnode_part d"
  by (auto simp: yaffs_InvalidateCheckpoint_def yaffs_CheckpointInvalidateStream_def yaffs_CheckpointErase_def bind_eq_Some_conv
      split: if_splits dest!: checkpointErase_loop_part)

lemma RetireBlock_part: "yaffs_RetireBlock d b = Some d' \<Longrightarrow> tnode_part d' = tnode_part d"
  by (auto simp: yaffs_RetireBlock_def bind_eq_Some_conv dest!: InvalidateCheckpoint_part MarkBlockBad_core [THEN tnode_part_core])

lemma ClearChunkBits_part: "yaffs_ClearChunkBits d b = Some d' \<Longrightarrow> tnode_part d' = tnode_part d"
  "yaffs_ClearChunkBit d b p = Some d' \<Longrightarrow> tnode_part d' = tnode_part d"
  by (auto simp: yaffs_ClearChunkBits_def yaffs_ClearChunkBit_def bind_eq_Some_conv Let_def)

lemma BlockBecameDirty_part:
  assumes "yaffs_BlockBecameDirty d b = Some d'"
  shows "tnode_part d' = tnode_part d"
proof -
  obtain bi where bi: "yaffs_GetBlockInfo d b = Some bi" using assms by (auto simp: yaffs_BlockBecameDirty_def bind_eq_Some_conv)
  define d0 where "d0 = setBlockInfo d b (bi\<lparr>blockState := YAFFS_BLOCK_STATE_DIRTY\<rparr>)"
  obtain e d1 d2 where
    1: "(if \<not> needsRetiring bi then do {
          dev \<leftarrow> yaffs_InvalidateCheckpoint d0;
          (r, dev) \<leftarrow> yaffs_EraseBlockInNAND dev b;
          Some (r, if r = 0 then dev\<lparr>nErasureFailures := nErasureFailures dev + 1\<rparr> else dev)
        } else Some (0, d0)) = Some (e, d1)"
    and 2: "(if e \<noteq> 0 \<and> ((yaffs_traceMask d1 AND YAFFS_TRACE_ERASE) \<noteq> 0 \<or> \<not> yaffs_SkipVerification d1)
             then checkErased_loop [b * nChunksPerBlock d1..b * nChunksPerBlock d1 + nChunksPerBlock d1 - 1] d1
             else Some d1) = Some d2"
    and 3: "(if e \<noteq> (0 :: int) then do {
       bi \<leftarrow> yaffs_GetBlockInfo d2 b;
       let dev = (setBlockInfo d2 b (bi\<lparr>blockState := YAFFS_BLOCK_STATE_EMPTY, pagesInUse := 0, softDeletions := 0,
                    hasShrinkHeader := False, skipErasedCheck := True, gcPrioritise := False\<rparr>))
                 \<lparr>nErasedBlocks := nErasedBlocks d2 + 1\<rparr>;
       yaffs_ClearChunkBits dev b
     } else
       yaffs_RetireBlock (d2\<lparr>nFreeChunks := nFreeChunks d2 - nChunksPerBlock d2\<rparr>) b) = Some d'"
    using assms unfolding yaffs_BlockBecameDirty_def bi bind.bind_lunit
      Let_def [of "setBlockInfo d b _"] d0_def [symmetric]
    by (elim bind_eq_Some_conv [THEN iffD1, THEN exE]) (auto simp: bind_eq_Some_conv split del: if_split)
  have "tnode_part d1 = tnode_part d0"
  proof (cases "needsRetiring bi")
    case True
    then show ?thesis using 1 by simp
  next
    case False
    then obtain da r db where "yaffs_InvalidateCheckpoint d0 = Some da" "yaffs_EraseBlockInNAND da b = Some (r, db)"
      "d1 = db \<or> d1 = db\<lparr>nErasureFailures := nErasureFailures db + 1\<rparr>"
      using 1 by (auto simp: bind_eq_Some_conv split: if_split_asm)
    then show ?thesis using InvalidateCheckpoint_part tnode_part_core [OF EraseBlockInNAND_core] tnode_part_update(4) by metis
  qed
  then have "tnode_part d1 = tnode_part d" by (simp add: d0_def)
  moreover have "tnode_part d2 = tnode_part d1"
    using 2 tnode_part_core [OF checkErased_loop_core] by (simp split: if_split_asm)
  moreover have "tnode_part d' = tnode_part d2"
  proof (cases "e = 0")
    case True
    with 3 show ?thesis by (auto dest!: RetireBlock_part)
  next
    case False
    with 3 show ?thesis by (auto simp: bind_eq_Some_conv Let_def dest!: ClearChunkBits_part(1))
  qed
  ultimately show ?thesis by simp
qed

lemma DeleteChunk_part:
  assumes "yaffs_DeleteChunk d chunk m = Some d'"
  shows "tnode_part d' = tnode_part d"
proof (cases "chunk \<le> 0")
  case False
  let ?d = "d\<lparr>nDeletions := nDeletions d + 1\<rparr>"
  obtain bi d1 where "markDeleted ?d chunk bi m = Some d1" and r: "removePage d1 (chunk div nChunksPerBlock d) (chunk mod nChunksPerBlock d) bi = Some d'"
    using assms False by (auto simp: yaffs_DeleteChunk_def Let_def bind_eq_Some_conv)
  then have "tnode_part d1 = tnode_part ?d" using markDeleted_core tnode_part_core by blast
  moreover have "tnode_part d' = tnode_part d1"
    using r by (auto simp: removePage_def Let_def bind_eq_Some_conv split: if_splits dest!: ClearChunkBits_part BlockBecameDirty_part)
  ultimately show ?thesis by simp
qed (use assms in \<open>simp add: yaffs_DeleteChunk_def\<close>)

lemma SoftDeleteChunk_part: "yaffs_SoftDeleteChunk d chunk = Some d' \<Longrightarrow> tnode_part d' = tnode_part d"
  by (auto simp: yaffs_SoftDeleteChunk_def Let_def bind_eq_Some_conv)

lemma findChunk_loop_part: "findChunk_loop n obj c chunk tags d = Some (r, t, d') \<Longrightarrow> tnode_part d' = tnode_part d"
proof (induction n arbitrary: chunk tags d)
  case (Suc n)
  then show ?case
    by (auto simp: bind_eq_Some_conv split: if_split_asm dest!: ReadChunkWithTags_core [THEN tnode_part_core] Suc.IH)
qed simp

lemma FindChunkInGroup_part: "yaffs_FindChunkInGroup d chunk tags obj c = Some (r, t, d') \<Longrightarrow> tnode_part d' = tnode_part d"
  by (simp add: yaffs_FindChunkInGroup_def findChunk_loop_part)

lemma FindChunkInFile_part:
  assumes "yaffs_FindChunkInFile obj c tags d = Some (r, t, d')"
  shows "tnode_part d' = tnode_part d"
proof -
  obtain tn where tn: "yaffs_FindLevel0Tnode d (fileVariant obj) (word_of_int c) = Some tn"
    using assms by (auto simp: yaffs_FindChunkInFile_def Let_def bind_eq_Some_conv)
  show ?thesis
    using assms by (cases tn) (auto simp: yaffs_FindChunkInFile_def tn Let_def bind_eq_Some_conv dest!: FindChunkInGroup_part)
qed

lemma scanDuplicate_part:
  assumes "scanDuplicate obj c n sc e d = Some (e', useNew, d')"
  shows "tnode_part d' = tnode_part d"
proof -
  obtain x nt et d1 where
    1: "(if sc > 0 then do {
          (r, buf, newTags, dev) \<leftarrow> yaffs_ReadChunkWithTagsFromNAND d n None (stackExtTags d);
          (existing, tags, dev) \<leftarrow> yaffs_FindChunkInFile obj c (Some (stackExtTags dev)) dev;
          Some (existing, newTags, the tags, dev)
        } else Some (e, stackExtTags d, stackExtTags d, d)) = Some (x, nt, et, d1)"
    and 2: "\<exists>k. yaffs_DeleteChunk d1 k True = Some d'"
    using assms unfolding scanDuplicate_def
    by (elim bind_eq_Some_conv [THEN iffD1, THEN exE]) (auto simp: bind_eq_Some_conv split: if_splits prod.splits)
  have "tnode_part d1 = tnode_part d"
    using 1 by (auto simp: bind_eq_Some_conv split: if_splits dest!: ReadChunkWithTags_core [THEN tnode_part_core] FindChunkInFile_part)
  with 2 show ?thesis using DeleteChunk_part by metis
qed

end
