(* ===== verification/PruneProps.thy ===== *)
theory PruneProps
  imports TnodeProps
begin

text \<open>
  Pruning the tree of tnodes. With entries of 16 bits a level 0 node has as many words as a node has
  pointers, and pruning removes exactly the nodes without entries; with wider entries it looks
  at a part of the node only and loses chunks.
\<close>

lemma count_set_ok:
  "\<forall>i\<in>set is. internal_set tn i \<noteq> None \<Longrightarrow> \<exists>n. count_set tn is = Some n \<and> (n = 0 \<longleftrightarrow> (\<forall>i\<in>set is. internal_set tn i = Some False))"
  by (induction "is") auto

lemma wf_internal_set:
  assumes "wf_tree dev l tn" and "tn \<noteq> Null" and "tnode_words dev = 8" and "i < 8"
  shows "internal_set tn i \<noteq> None"
  using assms by (cases l; cases tn) auto

lemma all_eight: "(\<forall>i\<in>set [0..<8]. P i) \<longleftrightarrow> (\<forall>i < 8. P i)" for P :: "nat \<Rightarrow> bool"
  by auto

lemma prune_end_ok:
  assumes "width_ok dev" and "wf_tree dev l tn" and "tn \<noteq> Null" and "tnode_words dev = 8"
  shows "\<exists>tn' dev'. prune_end del0 tn dev = Some (tn', dev') \<and> node_frame dev dev' \<and> wf_tree dev l tn' \<and>
    (\<forall>c. tree_entry dev c l tn' = tree_entry dev c l tn) \<and>
    nodes_out dev' - int (tree_nodes tn') = nodes_out dev - int (tree_nodes tn) \<and> (\<not> del0 \<longrightarrow> tn' = tn)"
proof -
  obtain n where n: "count_set tn [0..<YAFFS_NTNODES_INTERNAL] = Some n" "n = 0 \<longleftrightarrow> (\<forall>i < 8. internal_set tn i = Some False)"
    using count_set_ok [of "[0..<8]" tn] wf_internal_set [OF assms(2-4)] unfolding all_eight by (auto simp: tnode_constants)
  show ?thesis
  proof (cases "n = 0 \<and> del0")
    case False
    then show ?thesis using n(1) assms(2) by (auto simp: prune_end_def)
  next
    case True
    then have z: "\<forall>i < 8. internal_set tn i = Some False" using n(2) by simp
    have "tree_nodes tn = 1 \<and> (\<forall>c. tree_entry dev c l tn = 0)"
    proof (cases tn)
      case (Level0 wmap)
      then have l: "l = 0" "length wmap = 8" using assms(2,4) by (cases l; simp)+
      then have "wmap = replicate 8 0" using z Level0 by (auto simp: list_eq_iff_nth_eq)
      then show ?thesis
        using Level0 l entry_at_zero [OF roomy_words [OF assms(1)], of 8, OF _ slot_less] assms(4) by simp
    next
      case (Internal ch)
      then obtain k where l: "l = Suc k" "length ch = 8" using assms(2) by (cases l) auto
      then have "ch = replicate 8 Null" using z Internal by (auto simp: list_eq_iff_nth_eq)
      then show ?thesis using Internal l(1) by (cases k) (simp_all add: sum_list_replicate)
    qed (use assms(3) in simp)
    then show ?thesis
      using True n(1) FreeTnode_stock [of dev tn] assms(3)
      by (intro exI [of _ Null] exI [of _ "yaffs_FreeTnode dev tn"]) (cases l; simp add: prune_end_def)
  qed
qed

text \<open>What a worker must do to a node for the loop over the pointers to be right.\<close>

definition prunes :: "'f yaffs_Device \<Rightarrow> nat \<Rightarrow> (yaffs_Tnode \<Rightarrow> bool \<Rightarrow> 'f yaffs_Device \<Rightarrow> (yaffs_Tnode \<times> 'f yaffs_Device) option) \<Rightarrow> bool" where
  "prunes d0 l worker \<longleftrightarrow> (\<forall>dev tn del0. same_shape d0 dev \<and> wf_tree d0 l tn \<longrightarrow>
     (\<exists>tn' dev'. worker tn del0 dev = Some (tn', dev') \<and> node_frame dev dev' \<and> wf_tree d0 l tn' \<and>
        (\<forall>c. tree_entry d0 c l tn' = tree_entry d0 c l tn) \<and>
        nodes_out dev' - int (tree_nodes tn') = nodes_out dev - int (tree_nodes tn) \<and>
        (\<not> del0 \<and> spine l tn \<longrightarrow> spine l tn')))"

lemma prune_children_ok:
  assumes "prunes d0 l worker"
  shows "same_shape d0 dev \<Longrightarrow> \<forall>c\<in>set ch. wf_tree d0 l c \<Longrightarrow>
    \<exists>ch' dev'. prune_children worker del0 i ch dev = Some (ch', dev') \<and> node_frame dev dev' \<and> length ch' = length ch \<and>
      (\<forall>c\<in>set ch'. wf_tree d0 l c) \<and> (\<forall>k < length ch. \<forall>c. tree_entry d0 c l (ch' ! k) = tree_entry d0 c l (ch ! k)) \<and>
      nodes_out dev' - int (sum_list (map tree_nodes ch')) = nodes_out dev - int (sum_list (map tree_nodes ch)) \<and>
      (i = 0 \<and> \<not> del0 \<and> ch \<noteq> [] \<and> spine l (ch ! 0) \<longrightarrow> spine l (ch' ! 0))"
proof (induction ch arbitrary: i dev)
  case (Cons t ch)
  have wt: "wf_tree d0 l t" using Cons.prems by simp
  obtain t' d1 where t: "(if t \<noteq> Null then worker t (if i = 0 then del0 else True) dev else Some (t, dev)) = Some (t', d1)"
    "node_frame dev d1" "wf_tree d0 l t'" "\<forall>c. tree_entry d0 c l t' = tree_entry d0 c l t"
    "nodes_out d1 - int (tree_nodes t') = nodes_out dev - int (tree_nodes t)" "i = 0 \<and> \<not> del0 \<and> spine l t \<longrightarrow> spine l t'"
  proof (cases "t = Null")
    case True
    then show ?thesis using that [of t dev] by simp
  next
    case False
    obtain t' d1 where "worker t (if i = 0 then del0 else True) dev = Some (t', d1)" "node_frame dev d1" "wf_tree d0 l t'"
      "\<forall>c. tree_entry d0 c l t' = tree_entry d0 c l t" "nodes_out d1 - int (tree_nodes t') = nodes_out dev - int (tree_nodes t)"
      "\<not> (if i = 0 then del0 else True) \<and> spine l t \<longrightarrow> spine l t'"
      using assms [unfolded prunes_def, rule_format, of dev t "if i = 0 then del0 else True"] Cons.prems(1) wt by blast
    then show ?thesis using that [of t' d1] False by simp
  qed
  have "same_shape d0 d1" using Cons.prems(1) node_frame_shape [OF t(2)] by (rule same_shape_trans)
  note IH = Cons.IH [OF this, of "i + 1"]
  obtain ch' d2 where
    r: "prune_children worker del0 (i + 1) ch d1 = Some (ch', d2)" "node_frame d1 d2" "length ch' = length ch"
      "\<forall>c\<in>set ch'. wf_tree d0 l c" "\<forall>k < length ch. \<forall>c. tree_entry d0 c l (ch' ! k) = tree_entry d0 c l (ch ! k)"
      "nodes_out d2 - int (sum_list (map tree_nodes ch')) = nodes_out d1 - int (sum_list (map tree_nodes ch))"
    using IH Cons.prems(2) by (metis list.set_intros(2))
  have "\<forall>k < length (t # ch). \<forall>c. tree_entry d0 c l ((t' # ch') ! k) = tree_entry d0 c l ((t # ch) ! k)"
    using t(4) r(5) by (auto simp: nth_Cons split: nat.split)
  moreover have "prune_children worker del0 i (t # ch) dev = Some (t' # ch', d2)" using t(1) r(1) by simp
  moreover have "nodes_out d2 - int (sum_list (map tree_nodes (t' # ch'))) = nodes_out dev - int (sum_list (map tree_nodes (t # ch)))"
    using r(6) t(5) by simp
  moreover have "length (t' # ch') = length (t # ch)" "\<forall>c\<in>set (t' # ch'). wf_tree d0 l c" using r(3,4) t(3) by simp_all
  moreover have "i = 0 \<and> \<not> del0 \<and> t # ch \<noteq> [] \<and> spine l ((t # ch) ! 0) \<longrightarrow> spine l ((t' # ch') ! 0)" using t(6) by simp
  ultimately show ?case using node_frame_trans [OF t(2) r(2)] by blast
qed simp

lemma PruneWorker_ok:
  assumes "width_ok d0" and "tnode_words d0 = 8"
  shows "prunes d0 l (yaffs_PruneWorker l)"
proof (induction l)
  case 0
  show ?case unfolding prunes_def
  proof (intro allI impI)
    fix dev :: "'a yaffs_Device" and tn del0
    assume a: "same_shape d0 dev \<and> wf_tree d0 0 tn"
    then have sh: "same_shape d0 dev" by simp
    show "\<exists>tn' dev'. yaffs_PruneWorker 0 tn del0 dev = Some (tn', dev') \<and> node_frame dev dev' \<and> wf_tree d0 0 tn' \<and>
        (\<forall>c. tree_entry d0 c 0 tn' = tree_entry d0 c 0 tn) \<and>
        nodes_out dev' - int (tree_nodes tn') = nodes_out dev - int (tree_nodes tn) \<and> (\<not> del0 \<and> spine 0 tn \<longrightarrow> spine 0 tn')"
    proof (cases "tn = Null")
      case False
      with prune_end_ok [of dev 0 tn del0] a assms show ?thesis
        by (auto simp: same_shape_width [OF sh] same_shape_wf [OF sh] same_shape_words [OF sh] same_shape_entry [OF sh])
    qed simp
  qed
next
  case (Suc l)
  show ?case unfolding prunes_def
  proof (intro allI impI)
    fix dev :: "'a yaffs_Device" and tn del0
    assume a: "same_shape d0 dev \<and> wf_tree d0 (Suc l) tn"
    then have sh: "same_shape d0 dev" by simp
    show "\<exists>tn' dev'. yaffs_PruneWorker (Suc l) tn del0 dev = Some (tn', dev') \<and> node_frame dev dev' \<and> wf_tree d0 (Suc l) tn' \<and>
        (\<forall>c. tree_entry d0 c (Suc l) tn' = tree_entry d0 c (Suc l) tn) \<and>
        nodes_out dev' - int (tree_nodes tn') = nodes_out dev - int (tree_nodes tn) \<and> (\<not> del0 \<and> spine (Suc l) tn \<longrightarrow> spine (Suc l) tn')"
    proof (cases tn)
      case (Internal ch)
      then have ch: "length ch = 8" "\<forall>c\<in>set ch. wf_tree d0 l c" using a by simp_all
      obtain ch' d1 where p: "prune_children (yaffs_PruneWorker l) del0 0 ch dev = Some (ch', d1)" "node_frame dev d1" "length ch' = length ch"
        "\<forall>c\<in>set ch'. wf_tree d0 l c" "\<forall>k < length ch. \<forall>c. tree_entry d0 c l (ch' ! k) = tree_entry d0 c l (ch ! k)"
        "nodes_out d1 - int (sum_list (map tree_nodes ch')) = nodes_out dev - int (sum_list (map tree_nodes ch))"
        "\<not> del0 \<and> ch \<noteq> [] \<and> spine l (ch ! 0) \<longrightarrow> spine l (ch' ! 0)"
        using prune_children_ok [OF Suc.IH sh ch(2), of del0 0] by auto
      have sh1: "same_shape d0 d1" using sh node_frame_shape [OF p(2)] by (rule same_shape_trans)
      obtain tn' d2 where e: "prune_end del0 (Internal ch') d1 = Some (tn', d2)" "node_frame d1 d2" "wf_tree d0 (Suc l) tn'"
        "\<forall>c. tree_entry d0 c (Suc l) tn' = tree_entry d0 c (Suc l) (Internal ch')"
        "nodes_out d2 - int (tree_nodes tn') = nodes_out d1 - int (tree_nodes (Internal ch'))" "\<not> del0 \<longrightarrow> tn' = Internal ch'"
        using prune_end_ok [of d1 "Suc l" "Internal ch'" del0] assms p(3,4) ch(1)
        by (auto simp: same_shape_width [OF sh1] same_shape_wf [OF sh1] same_shape_words [OF sh1] same_shape_entry [OF sh1])
      have "\<forall>c. tree_entry d0 c (Suc l) tn' = tree_entry d0 c (Suc l) tn" using e(4) p(5) ch(1) by (simp add: Internal)
      moreover have "nodes_out d2 - int (tree_nodes tn') = nodes_out dev - int (tree_nodes tn)" using e(5) p(6) by (simp add: Internal)
      moreover have "\<not> del0 \<and> spine (Suc l) tn \<longrightarrow> spine (Suc l) tn'" using e(6) p(7) ch(1) by (auto simp: Internal)
      moreover have "yaffs_PruneWorker (Suc l) tn del0 dev = Some (tn', d2)" using p(1) e(1) by (simp add: Internal)
      ultimately show ?thesis using node_frame_trans [OF p(2) e(2)] e(3) by blast
    qed (use a in simp_all)
  qed
qed

section \<open>Shortening the tree\<close>

lemma trim_ok:
  "wf_tree d0 l tp \<Longrightarrow> spine l tp \<Longrightarrow> \<exists>l' tp' dev'. trim l tp dev = Some (l', tp', dev') \<and> l' \<le> l \<and> node_frame dev dev' \<and>
     wf_tree d0 l' tp' \<and> spine l' tp' \<and> nodes_out dev' - int (tree_nodes tp') = nodes_out dev - int (tree_nodes tp) \<and>
     (\<forall>c. (if reaches l' c then tree_entry d0 c l' tp' else 0) = (if reaches l c then tree_entry d0 c l tp else 0))"
proof (induction l arbitrary: tp dev)
  case (Suc l)
  obtain ch where ch: "tp = Internal ch" "length ch = 8" "\<forall>c\<in>set ch. wf_tree d0 l c" "spine l (ch ! 0)"
    using Suc.prems by (cases tp) auto
  obtain n where n: "count_set tp [1..<YAFFS_NTNODES_INTERNAL] = Some n" "n = 0 \<longleftrightarrow> (\<forall>i\<in>set [1..<8]. internal_set tp i = Some False)"
    using count_set_ok [of "[1..<8]" tp] ch(1,2) by (auto simp: tnode_constants)
  show ?case
  proof (cases "n = 0")
    case False
    then show ?thesis using n(1) Suc.prems by simp
  next
    case True
    then have z: "i < 8 \<Longrightarrow> i \<noteq> 0 \<Longrightarrow> ch ! i = Null" for i using n(2) ch(1,2) by auto
    have "ch = (replicate 8 Null)[0 := ch ! 0]"
      by (rule nth_equalityI) (auto simp: ch(2) z nth_list_update)
    then have tp: "tp = Internal ((replicate 8 Null)[0 := ch ! 0])" using ch(1) by simp
    have w: "wf_tree d0 l (ch ! 0)" using ch(2,3) by simp
    note tt = taller_tree [OF w ch(4)]
    obtain l' tp' dev' where IH: "trim l (ch ! 0) (yaffs_FreeTnode dev tp) = Some (l', tp', dev')" "l' \<le> l"
      "node_frame (yaffs_FreeTnode dev tp) dev'" "wf_tree d0 l' tp'" "spine l' tp'"
      "nodes_out dev' - int (tree_nodes tp') = nodes_out (yaffs_FreeTnode dev tp) - int (tree_nodes (ch ! 0))"
      "\<And>c. (if reaches l' c then tree_entry d0 c l' tp' else 0) = (if reaches l c then tree_entry d0 c l (ch ! 0) else 0)"
      using Suc.IH [OF w ch(4), of "yaffs_FreeTnode dev tp"] by blast
    have "trim (Suc l) tp dev = Some (l', tp', dev')" using n(1) True IH(1) ch(1,2) by auto
    moreover have "nodes_out dev' - int (tree_nodes tp') = nodes_out dev - int (tree_nodes tp)"
      using IH(6) FreeTnode_stock(2) [of dev tp] tt(4) by (simp add: tp)
    moreover have "(if reaches l' c then tree_entry d0 c l' tp' else 0) = (if reaches (Suc l) c then tree_entry d0 c (Suc l) tp else 0)" for c
      using IH(7) [of c] tt(3) [of c] reaches_Suc [of l c] by (auto simp: tp)
    ultimately show ?thesis
      using IH(2,4,5) node_frame_trans [OF FreeTnode_stock(1) IH(3)] by (intro exI [of _ l'] exI [of _ tp'] exI [of _ dev']) simp
  qed
qed simp

lemma prune_structure:
  assumes "width_ok dev" and "width dev = 16" and "file_ok dev fs"
  shows "\<exists>fs' dev'. yaffs_PruneFileStructure dev fs = Some (YAFFS_OK, fs', dev') \<and> node_frame dev dev' \<and> file_ok dev fs' \<and>
    topLevel fs' \<le> topLevel fs \<and> (\<forall>c. file_entry dev fs' c = file_entry dev fs c) \<and>
    nodes_out dev' - int (tree_nodes (top fs')) = nodes_out dev - int (tree_nodes (top fs))"
proof (cases "topLevel fs > 0")
  case False
  then show ?thesis using assms(3) by (simp add: yaffs_PruneFileStructure_def)
next
  case True
  let ?l = "nat (topLevel fs)"
  have w8: "tnode_words dev = 8" using assms(2) by (simp add: tnode_words_def tnode_constants)
  have wf: "wf_tree dev ?l (top fs)" "spine ?l (top fs)" "topLevel fs \<le> 6" using assms(3) by (simp_all add: file_ok_def)
  obtain tp d1 where p: "yaffs_PruneWorker ?l (top fs) False dev = Some (tp, d1)" "node_frame dev d1" "wf_tree dev ?l tp"
    "\<forall>c. tree_entry dev c ?l tp = tree_entry dev c ?l (top fs)"
    "nodes_out d1 - int (tree_nodes tp) = nodes_out dev - int (tree_nodes (top fs))" "spine ?l tp"
    using PruneWorker_ok [OF assms(1) w8, of ?l, unfolded prunes_def, rule_format, of dev "top fs" False] wf(1,2) by auto
  obtain l' tp' d2 where t: "trim ?l tp d1 = Some (l', tp', d2)" "l' \<le> ?l" "node_frame d1 d2" "wf_tree dev l' tp'" "spine l' tp'"
    "nodes_out d2 - int (tree_nodes tp') = nodes_out d1 - int (tree_nodes tp)"
    "\<And>c. (if reaches l' c then tree_entry dev c l' tp' else 0) = (if reaches ?l c then tree_entry dev c ?l tp else 0)"
    using trim_ok [OF p(3,6), of d1] by blast
  let ?fs = "fs\<lparr>top := tp', topLevel := int l'\<rparr>"
  have "yaffs_PruneFileStructure dev fs = Some (YAFFS_OK, ?fs, d2)" using True p(1) t(1) by (simp add: yaffs_PruneFileStructure_def)
  moreover have "file_ok dev ?fs" "topLevel ?fs \<le> topLevel fs" using t(2,4,5) wf(3) True by (simp_all add: file_ok_def)
  moreover have "file_entry dev ?fs c = file_entry dev fs c" for c
  proof -
    have "file_entry dev ?fs c = (if reaches l' c then tree_entry dev c l' tp' else 0)" by (simp add: file_entry_def)
    also note t(7) [of c]
    finally show ?thesis using p(4) by (simp add: file_entry_def)
  qed
  moreover have "nodes_out d2 - int (tree_nodes (top ?fs)) = nodes_out dev - int (tree_nodes (top fs))" using t(6) p(5) by simp
  ultimately show ?thesis using node_frame_trans [OF p(2) t(3)] by blast
qed

text \<open>
  C30: With entries of 16 bits, pruning the tree of a file always returns, keeps the chunk of every
  position, never follows a null pointer and gives every node it removes back to the stock.
\<close>

theorem PruneFileStructure_keeps:
  assumes "width_ok dev" and "width dev = 16" and "file_ok dev fs"
  shows "\<exists>fs' dev'. yaffs_PruneFileStructure dev fs = Some (YAFFS_OK, fs', dev') \<and> file_ok dev fs' \<and>
    topLevel fs' \<le> topLevel fs \<and> (\<forall>c. file_entry dev fs' c = file_entry dev fs c) \<and>
    nodes_out dev' - int (tree_nodes (top fs')) = nodes_out dev - int (tree_nodes (top fs))"
  using prune_structure [OF assms] by blast

text \<open>A device whose entries take 16 bits or w bits, and a file with a single chunk at position 12.\<close>

definition tree_device :: "u32 \<Rightarrow> unit yaffs_Device" where
  "tree_device w = (zero_device ())\<lparr>tnodeWidth := w, tnodeMask := mask (unat w), chunkGroupSize := 1,
     freeTnodes := 20, nFreeTnodes := 20, nTnodesCreated := 20\<rparr>"

definition empty_file :: "unit yaffs_Device \<Rightarrow> yaffs_FileStructure" where
  "empty_file dev = \<lparr>fileSize = 0, scannedFileSize = 0, shrinkSize = 0, topLevel = 0, top = clean_tnode dev 0\<rparr>"

lemma tree_device_ok: "width_ok (tree_device 16)" "width_ok (tree_device 18)" "spare (tree_device w) = 20"
  by (simp_all add: tree_device_def zero_device_def width_ok_def spare_def)

lemma empty_file_ok: "file_ok (tree_device w) (empty_file (tree_device w))"
  by (simp add: file_ok_def empty_file_def clean_tnode_def)

text \<open>A taller file, which has a second level although its only node would do.\<close>

definition tall_file :: "unit yaffs_Device \<Rightarrow> yaffs_FileStructure" where
  "tall_file dev = (empty_file dev)\<lparr>topLevel := 1, top := Internal ((replicate 8 Null)[0 := clean_tnode dev 0])\<rparr>"

lemma tall_file_ok: "width_ok dev \<Longrightarrow> file_ok dev (tall_file dev)"
  using taller_tree(1,2) [OF clean_tnode_tree(1,3) [of dev 0]] by (simp add: file_ok_def tall_file_def)

theorem PruneFileStructure_keeps_witness:
  "\<exists>fs' dev'. yaffs_PruneFileStructure (tree_device 16) (tall_file (tree_device 16)) = Some (YAFFS_OK, fs', dev') \<and> topLevel fs' \<le> 1"
proof -
  have "width (tree_device 16) = 16" by (simp add: tree_device_def)
  from PruneFileStructure_keeps [OF tree_device_ok(1) this tall_file_ok [OF tree_device_ok(1)]] show ?thesis
    by (auto simp: tall_file_def)
qed

section \<open>Wide entries\<close>

lemma put_last_words:
  assumes "width_ok dev" and "16 < width dev"
  shows "\<exists>wmap. yaffs_PutLevel0Tnode dev (replicate (tnode_words dev) 0) 31 v = Some wmap \<and> length wmap = tnode_words dev \<and>
    8 \<le> tnode_words dev \<and> (\<forall>i < 8. wmap ! i = 0) \<and> entry_at dev wmap 15 = group_base dev v"
proof -
  have w: "8 \<le> tnode_words dev" "18 \<le> width dev"
    using assms by (auto simp: width_ok_def tnode_words_def tnode_constants Let_def elim!: evenE)
  have r: "roomy dev (replicate (tnode_words dev) 0)" by (rule roomy_words [OF assms(1)]) simp
  have slot: "slot 31 = 15" by (simp add: slot_def YAFFS_TNODES_LEVEL0_MASK_def)
  obtain wmap where m: "yaffs_PutLevel0Tnode dev (replicate (tnode_words dev) 0) 31 v = Some wmap" "length wmap = tnode_words dev"
    "\<And>k. k < 32 * tnode_words dev \<Longrightarrow> map_bit wmap k \<longleftrightarrow> (if 15 * width dev \<le> k \<and> k < 15 * width dev + width dev
       then bit (drop_bit (chunkGroupBits dev) v) (k - 15 * width dev) else map_bit (replicate (tnode_words dev) 0) k)"
    using PutLevel0Tnode_bits [OF assms(1) r, of 31 v] slot by auto
  have "entry_at dev wmap 15 = group_base dev v"
    using PutLevel0Tnode_entry [OF assms(1) r, of 31 v] m(1) slot by auto
  moreover have "wmap ! i = 0" if "i < 8" for i
  proof (rule bit_word_eqI)
    fix n assume n: "n < LENGTH(32)"
    then have "32 * i + n < 15 * width dev" "32 * i + n < 32 * tnode_words dev" "i < tnode_words dev" using that w by simp_all
    with m(3) [of "32 * i + n"] n show "bit (wmap ! i) n = bit (0 :: u32) n" by (simp add: map_bit_def)
  qed
  ultimately show ?thesis using m(1,2) w(1) by blast
qed

text \<open>
  C31: With entries wider than 16 bits, pruning can lose data: for every such device there is a
  well-formed file with a chunk at position 31 that has none after pruning, because only the
  first eight words of a level 0 node are looked at to decide whether it is empty.
\<close>

theorem PruneFileStructure_loses:
  assumes "width_ok dev" and "16 < width dev" and "group_base dev v \<noteq> 0"
  shows "\<exists>fs fs' dev'. file_ok dev fs \<and> file_entry dev fs 31 = group_base dev v \<and>
    yaffs_PruneFileStructure dev fs = Some (YAFFS_OK, fs', dev') \<and> file_entry dev fs' 31 = 0"
proof -
  obtain wmap where m: "length wmap = tnode_words dev" "8 \<le> tnode_words dev" "\<And>i. i < 8 \<Longrightarrow> wmap ! i = 0"
    "entry_at dev wmap 15 = group_base dev v"
    using put_last_words [OF assms(1,2), of v] by blast
  let ?c = "clean_tnode dev 0"
  let ?t = "Internal [?c, Level0 wmap, Null, Null, Null, Null, Null, Null]"
  let ?fs = "\<lparr>fileSize = 0, scannedFileSize = 0, shrinkSize = 0, topLevel = 1, top = ?t\<rparr>"
  have eight: "[0..<YAFFS_NTNODES_INTERNAL] = [0, 1, 2, 3, 4, 5, 6, 7]" "[1..<YAFFS_NTNODES_INTERNAL] = [1, 2, 3, 4, 5, 6, 7]"
    by (simp_all add: tnode_constants upt_rec)
  have b: "branch 31 1 = 1" "slot 31 = 15" "reaches (Suc 0) 31" "\<not> reaches 0 31"
    by (simp_all add: branch_def slot_def reaches_def tnode_constants YAFFS_TNODES_LEVEL0_MASK_def drop_bit_eq_div)
  have ok: "file_ok dev ?fs" "file_entry dev ?fs 31 = group_base dev v"
    using m(1,4) b by (simp_all add: file_ok_def file_entry_def clean_tnode_def)
  have empty: "count_set (Level0 wmap) [0..<YAFFS_NTNODES_INTERNAL] = Some 0"
    unfolding eight using m by simp
  obtain n where n: "count_set ?c [0..<YAFFS_NTNODES_INTERNAL] = Some n"
    unfolding eight using m(2) by (simp add: clean_tnode_def)
  let ?t' = "Internal [?c, Null, Null, Null, Null, Null, Null, Null]"
  obtain k where k: "count_set ?t' [0..<YAFFS_NTNODES_INTERNAL] = Some k" unfolding eight by simp
  have z: "count_set ?t' [1..<YAFFS_NTNODES_INTERNAL] = Some 0" unfolding eight by simp
  have "yaffs_PruneWorker 1 ?t False dev = Some (?t', yaffs_FreeTnode dev (Level0 wmap))"
    using n k by (simp add: prune_end_def empty)
  then have "\<exists>dev'. yaffs_PruneFileStructure dev ?fs = Some (YAFFS_OK, ?fs\<lparr>top := ?c, topLevel := 0\<rparr>, dev')"
    using z by (simp add: yaffs_PruneFileStructure_def)
  moreover have "file_entry dev (?fs\<lparr>top := ?c, topLevel := 0\<rparr>) 31 = 0" using b(4) by (simp add: file_entry_def)
  ultimately show ?thesis using ok by blast
qed

theorem PruneFileStructure_loses_witness:
  "\<exists>fs fs' dev'. file_ok (tree_device 18) fs \<and> file_entry (tree_device 18) fs 31 = 70000 \<and>
    yaffs_PruneFileStructure (tree_device 18) fs = Some (YAFFS_OK, fs', dev') \<and> file_entry (tree_device 18) fs' 31 = 0"
proof -
  have "16 < width (tree_device 18)" "group_base (tree_device 18) 70000 = 70000"
    by (simp_all add: tree_device_def zero_device_def group_base_def take_bit_eq_mod)
  with PruneFileStructure_loses [OF tree_device_ok(2), of 70000] show ?thesis by simp
qed

section \<open>No memory\<close>

text \<open>
  When a tree has to grow and no node can be had, the height of the file is raised all the
  same, and the code then uses a level 0 node as if it held pointers: the model has no result.
\<close>

theorem AddOrFind_no_memory:
  assumes "file_ok dev fs" and "topLevel fs = 0" and "c \<le> YAFFS_MAX_CHUNK_ID" and "15 < c"
    and "freeTnodes dev = 0" and "ymalloc dev = []"
  shows "yaffs_AddOrFindLevel0Tnode dev fs c Null = None"
proof -
  have g: "yaffs_GetTnode d l = (Null, d\<lparr>nCheckpointBlocksRequired := 0\<rparr>)" if "freeTnodes d = 0" "ymalloc d = []" for d :: "'a yaffs_Device" and l
    using that by (simp add: yaffs_GetTnode_def yaffs_GetTnodeRaw_def yaffs_CreateTnodes_def yMalloc_def YAFFS_ALLOCATION_NTNODES_def)
  have grow: "\<exists>d'. grow n tp d = (tp, d')" if "freeTnodes d = 0" "ymalloc d = []" for n tp and d :: "'a yaffs_Device"
    using that by (induction n arbitrary: d) (simp_all add: g)
  have "\<not> reaches 0 c"
    using assms(4) by (simp add: reaches_def drop_bit_eq_div word_unat_eq_iff unat_div word_less_nat_alt)
  then obtain r where r: "requiredTallness c = Suc r" using requiredTallness_le [of c 0] by (cases "requiredTallness c") auto
  obtain wmap where "top fs = Level0 wmap" using assms(1,2) wf_tree_level0 [of dev "top fs"] by (auto simp: file_ok_def)
  moreover obtain d1 where "grow (requiredTallness c - nat (topLevel fs)) (top fs) dev = (top fs, d1)" using grow [OF assms(5,6)] by blast
  ultimately show ?thesis using AddOrFind_run [of fs c dev "top fs" d1] assms(2,3) r by simp
qed

theorem AddOrFind_no_memory_witness:
  "yaffs_AddOrFindLevel0Tnode ((tree_device 16)\<lparr>freeTnodes := 0\<rparr>) (empty_file (tree_device 16)) 16 Null = None"
proof -
  let ?d = "(tree_device 16)\<lparr>freeTnodes := 0\<rparr>"
  have "same_shape (tree_device 16) ?d" by (simp add: same_shape_def)
  then have "file_ok ?d (empty_file (tree_device 16))" using empty_file_ok file_ok_shape by blast
  moreover have "topLevel (empty_file (tree_device 16)) = 0" "ymalloc ?d = []"
    by (simp_all add: empty_file_def tree_device_def zero_device_def)
  ultimately show ?thesis by (intro AddOrFind_no_memory) (simp_all add: YAFFS_MAX_CHUNK_ID_def)
qed

end
