(* ===== verification/FileProps.thy ===== *)
theory FileProps
  imports FileFrame PruneProps Stores
begin

text \<open>
  The properties of files as trees of chunks: putting, finding and deleting chunks implement a map from
  positions to groups of chunks.
\<close>

section \<open>Storing an entry\<close>

lemma store_entry_ok:
  assumes "width_ok dev" and "file_ok dev fs" and "reaches (nat (topLevel fs)) c"
    and "find_down c (nat (topLevel fs)) (top fs) = Some (Level0 wmap)"
  shows "\<exists>fs'. store_entry dev fs c wmap val = Some fs' \<and> file_ok dev fs' \<and> tree_nodes (top fs') = tree_nodes (top fs) \<and>
    (\<forall>d. file_entry dev fs' d = (if d = c then group_base dev val else file_entry dev fs d))"
proof -
  let ?l = "nat (topLevel fs)"
  have wf: "wf_tree dev ?l (top fs)" using assms(2) by (simp add: file_ok_def)
  with find_down_tree [OF wf, of c] assms(4) have len: "length wmap = tnode_words dev"
    and old: "tree_entry dev c ?l (top fs) = entry_at dev wmap (slot c)" by auto
  obtain wmap' where w: "yaffs_PutLevel0Tnode dev wmap c val = Some wmap'" "length wmap' = length wmap"
    "\<And>p. p < 16 \<Longrightarrow> entry_at dev wmap' p = (if p = slot c then group_base dev val else entry_at dev wmap p)"
    using PutLevel0Tnode_entry [OF assms(1) roomy_words [OF assms(1) len], of c val] by blast
  note st = store_down_tree [OF wf assms(4) w(2)]
  let ?fs = "fs\<lparr>top := store_down c ?l (top fs) (Level0 wmap')\<rparr>"
  have path: "tree_entry dev d ?l (top fs) = entry_at dev wmap (slot d)" if "same_path ?l c d" for d
    using find_down_tree [OF wf, of d] find_down_path [OF that, of "top fs"] assms(4) by auto
  have "file_entry dev ?fs d = (if d = c then group_base dev val else file_entry dev fs d)" for d
  proof (cases "reaches ?l d \<and> same_path ?l c d")
    case True
    then have "slot d = slot c \<longleftrightarrow> d = c" using same_position [of ?l c d] assms(3) by auto
    then show ?thesis using True st(2) [of d] w(3) [OF slot_less [of d]] path by (simp add: file_entry_def)
  next
    case False
    then have "d \<noteq> c" using assms(3) by (auto simp: same_path_def)
    then show ?thesis using False st(2) [of d] by (auto simp: file_entry_def)
  qed
  moreover have "store_entry dev fs c wmap val = Some ?fs" by (simp add: store_entry_def w(1))
  moreover have "file_ok dev ?fs" using st(1,3) assms(2) by (simp add: file_ok_def)
  ultimately show ?thesis using st(4) by (intro exI [of _ ?fs]) simp
qed

section \<open>Putting\<close>

definition position_ok :: "int \<Rightarrow> bool" where
  "position_ok c \<longleftrightarrow> 0 \<le> c \<and> c \<le> 0xFFFFF"

lemma position_word: "position_ok c \<Longrightarrow> (word_of_int c :: u32) \<le> YAFFS_MAX_CHUNK_ID"
  by (simp add: position_ok_def YAFFS_MAX_CHUNK_ID_def word_le_def uint_word_of_int_eq take_bit_int_eq_self)

lemma position_inj: "position_ok c \<Longrightarrow> position_ok d \<Longrightarrow> (word_of_int c :: u32) = word_of_int d \<longleftrightarrow> c = d"
proof -
  assume "position_ok c" "position_ok d"
  then have "uint (word_of_int c :: u32) = c" "uint (word_of_int d :: u32) = d"
    by (simp_all add: position_ok_def uint_word_of_int_eq take_bit_int_eq_self)
  then show ?thesis by metis
qed

lemma group_base_shape: "same_shape dev dev' \<Longrightarrow> group_base dev' v = group_base dev v"
  by (simp add: group_base_def same_shape_def)

lemma sint_eq_0_iff: "sint w = 0 \<longleftrightarrow> w = (0 :: u32)"
  by (metis sint_0 signed_word_eqI)

lemma PutChunk_ok:
  assumes "width_ok dev" and "file_ok dev (fileVariant obj)" and "variantType obj = FILE" and "position_ok c" and "12 \<le> spare dev"
  shows "\<exists>obj' dev'. yaffs_PutChunkIntoFile obj c n 0 dev = Some (YAFFS_OK, obj', dev') \<and>
    node_frame dev dev' \<and> file_ok dev (fileVariant obj') \<and> variantType obj' = FILE \<and> ob_objectId obj' = ob_objectId obj \<and>
    (\<forall>d. file_entry dev (fileVariant obj') d =
       (if d = word_of_int c then group_base dev (word_of_int n) else file_entry dev (fileVariant obj) d)) \<and>
    nDataChunks obj' = nDataChunks obj + of_bool (file_entry dev (fileVariant obj) (word_of_int c) = 0) \<and>
    nodes_out dev' - int (tree_nodes (top (fileVariant obj'))) = nodes_out dev - int (tree_nodes (top (fileVariant obj)))"
proof -
  let ?c = "word_of_int c :: u32" and ?fs = "fileVariant obj"
  obtain wmap fs1 d1 where a: "yaffs_AddOrFindLevel0Tnode dev ?fs ?c Null = Some (Level0 wmap, fs1, d1)"
    "node_frame dev d1" "file_ok dev fs1" "\<And>d. file_entry dev fs1 d = file_entry dev ?fs d"
    "nodes_out d1 - int (tree_nodes (top fs1)) = nodes_out dev - int (tree_nodes (top ?fs))"
    "reaches (nat (topLevel fs1)) ?c" "find_down ?c (nat (topLevel fs1)) (top fs1) = Some (Level0 wmap)"
    using AddOrFind_ok [OF assms(1,2) position_word [OF assms(4)] assms(5)] by blast
  note sh = node_frame_shape [OF a(2)]
  have ok: "width_ok d1" "file_ok d1 fs1" using assms(1) a(3) by (simp_all add: same_shape_width [OF sh] file_ok_shape [OF sh])
  obtain fs2 where s: "store_entry d1 fs1 ?c wmap (word_of_int n) = Some fs2" "file_ok d1 fs2" "tree_nodes (top fs2) = tree_nodes (top fs1)"
    "\<And>d. file_entry d1 fs2 d = (if d = ?c then group_base d1 (word_of_int n) else file_entry d1 fs1 d)"
    using store_entry_ok [OF ok a(6,7)] by blast
  have wf: "wf_tree d1 (nat (topLevel fs1)) (top fs1)" using ok(2) by (simp add: file_ok_def)
  with find_down_tree [OF wf, of ?c] a(7) have len: "length wmap = tnode_words d1"
    and e: "entry_at d1 wmap (slot ?c) = tree_entry d1 ?c (nat (topLevel fs1)) (top fs1)" by auto
  have g: "yaffs_GetChunkGroupBase d1 wmap ?c = Some (file_entry dev ?fs ?c)"
    using GetChunkGroupBase_entry [OF ok(1) roomy_words [OF ok(1) len]] e a(4) [of ?c] a(6)
    by (simp add: file_entry_def same_shape_entry [OF sh])
  define obj' where "obj' = obj\<lparr>fileVariant := fs2, nDataChunks := nDataChunks obj + of_bool (file_entry dev ?fs ?c = 0)\<rparr>"
  have "yaffs_PutChunkIntoFile obj c n 0 dev = Some (YAFFS_OK, obj', d1)"
    using assms(3) a(1) g s(1) by (simp add: yaffs_PutChunkIntoFile_def Let_def sint_eq_0_iff obj'_def)
  then show ?thesis
    using a(2,5) s(2-4) assms(3) a(4)
    by (intro exI [of _ obj'] exI [of _ d1])
      (simp add: obj'_def file_ok_shape [OF sh] file_entry_shape [OF sh] group_base_shape [OF sh])
qed

text \<open>
  C28: Putting a chunk into a file outside of a scan implements the update of a map. If twelve nodes can be
  had, it succeeds; the position then has the group of the new chunk and all others have what they
  had; the number of data chunks grows only for a position that was empty; and no node is lost.
\<close>

theorem PutChunkIntoFile_refines:
  assumes "width_ok dev" and "file_ok dev (fileVariant obj)" and "variantType obj = FILE" and "position_ok c" and "12 \<le> spare dev"
  shows "\<exists>obj' dev'. yaffs_PutChunkIntoFile obj c n 0 dev = Some (YAFFS_OK, obj', dev') \<and> file_ok dev' (fileVariant obj') \<and>
    (\<forall>d. file_entry dev' (fileVariant obj') d =
       (if d = word_of_int c then group_base dev (word_of_int n) else file_entry dev (fileVariant obj) d)) \<and>
    nDataChunks obj' = nDataChunks obj + of_bool (file_entry dev (fileVariant obj) (word_of_int c) = 0) \<and>
    nodes_out dev' - int (tree_nodes (top (fileVariant obj'))) = nodes_out dev - int (tree_nodes (top (fileVariant obj)))"
proof -
  obtain obj' dev' where "yaffs_PutChunkIntoFile obj c n 0 dev = Some (YAFFS_OK, obj', dev')" and sh: "same_shape dev dev'"
    and "file_ok dev (fileVariant obj')"
    "\<And>d. file_entry dev (fileVariant obj') d = (if d = word_of_int c then group_base dev (word_of_int n) else file_entry dev (fileVariant obj) d)"
    "nDataChunks obj' = nDataChunks obj + of_bool (file_entry dev (fileVariant obj) (word_of_int c) = 0)"
    "nodes_out dev' - int (tree_nodes (top (fileVariant obj'))) = nodes_out dev - int (tree_nodes (top (fileVariant obj)))"
    using PutChunk_ok [OF assms, of n] node_frame_shape by blast
  then show ?thesis by (simp add: file_ok_shape [OF sh] file_entry_shape [OF sh])
qed

definition demo_object :: "unit yaffs_Device \<Rightarrow> yaffs_Object" where
  "demo_object dev = zero_object\<lparr>ob_objectId := 257, variantType := FILE, fileVariant := empty_file dev\<rparr>"

lemma demo_object_simps [simp]: "variantType (demo_object dev) = FILE" "fileVariant (demo_object dev) = empty_file dev" "nDataChunks (demo_object dev) = 0"
  by (simp_all add: demo_object_def zero_object_def)

lemma demo_entry: "width_ok dev \<Longrightarrow> file_entry dev (empty_file dev) c = 0"
  using clean_tnode_tree(2) [of dev c 0] by (simp add: file_entry_def empty_file_def)

theorem PutChunkIntoFile_refines_witness:
  "\<exists>obj' dev'. yaffs_PutChunkIntoFile (demo_object (tree_device 16)) 300 77 0 (tree_device 16) = Some (YAFFS_OK, obj', dev') \<and>
    file_entry dev' (fileVariant obj') 300 = 77 \<and> file_entry dev' (fileVariant obj') 301 = 0 \<and> nDataChunks obj' = 1"
proof -
  have "group_base (tree_device 16) 77 = 77" by (simp add: tree_device_def zero_device_def group_base_def take_bit_eq_mod)
  with PutChunkIntoFile_refines [of "tree_device 16" "demo_object (tree_device 16)" 300 77] tree_device_ok(1) tree_device_ok(3) [of 16] empty_file_ok [of 16]
    demo_entry [OF tree_device_ok(1)]
  show ?thesis by (auto simp: position_ok_def)
qed

section \<open>Deleting\<close>

lemma GetChunkGroupBase_find:
  assumes "width_ok dev" and "file_ok dev fs" and "c \<le> YAFFS_MAX_CHUNK_ID" and "yaffs_FindLevel0Tnode dev fs c = Some (Level0 wmap)"
  shows "yaffs_GetChunkGroupBase dev wmap c = Some (file_entry dev fs c)" "reaches (nat (topLevel fs)) c"
    "find_down c (nat (topLevel fs)) (top fs) = Some (Level0 wmap)"
proof -
  have f: "length wmap = tnode_words dev" "file_entry dev fs c = entry_at dev wmap (slot c)" "reaches (nat (topLevel fs)) c"
    "find_down c (nat (topLevel fs)) (top fs) = Some (Level0 wmap)"
    using FindLevel0Tnode_entry [OF assms(2,3)] assms(4) by auto
  then show "reaches (nat (topLevel fs)) c" "find_down c (nat (topLevel fs)) (top fs) = Some (Level0 wmap)" by simp_all
  show "yaffs_GetChunkGroupBase dev wmap c = Some (file_entry dev fs c)"
    using GetChunkGroupBase_entry [OF assms(1) roomy_words [OF assms(1) f(1)], of c] f(2) by simp
qed

lemma FindAndDelete_ok:
  assumes "width_ok dev" and "file_ok dev (fileVariant obj)" and "position_ok c"
    and run: "yaffs_FindAndDeleteChunkInFile obj c tags dev = Some (r, t, obj', dev')"
  shows "tnode_part dev' = tnode_part dev \<and> file_ok dev (fileVariant obj') \<and>
    variantType obj' = variantType obj \<and> ob_objectId obj' = ob_objectId obj \<and> nDataChunks obj' = nDataChunks obj \<and>
    tree_nodes (top (fileVariant obj')) = tree_nodes (top (fileVariant obj)) \<and>
    (\<forall>d. file_entry dev (fileVariant obj') d =
       (if d = word_of_int c \<and> r \<noteq> -1 then 0 else file_entry dev (fileVariant obj) d))"
proof -
  let ?c = "word_of_int c :: u32"
  obtain tn where tn: "yaffs_FindLevel0Tnode dev (fileVariant obj) ?c = Some tn"
    using run by (auto simp: yaffs_FindAndDeleteChunkInFile_def Let_def bind_eq_Some_conv)
  show ?thesis
  proof (cases tn)
    case Null
    then show ?thesis using run tn assms(2) by (simp add: yaffs_FindAndDeleteChunkInFile_def Let_def)
  next
    case (Internal ch)
    then show ?thesis using run tn by (simp add: yaffs_FindAndDeleteChunkInFile_def Let_def)
  next
    case (Level0 wmap)
    obtain base :: u32 and u d1 where 1: "yaffs_FindChunkInGroup dev (sint base) (case tags of None \<Rightarrow> stackExtTags dev | Some t \<Rightarrow> t) (ob_objectId obj) c = Some (r, u, d1)"
      "(if r \<noteq> -1 then store_entry d1 (fileVariant obj) ?c wmap 0 else Some (fileVariant obj)) = Some (fileVariant obj')"
      "obj' = obj\<lparr>fileVariant := fileVariant obj'\<rparr>" "dev' = d1"
      using run tn Level0 by (auto simp: yaffs_FindAndDeleteChunkInFile_def Let_def bind_eq_Some_conv split del: if_split)
    have o: "variantType obj' = variantType obj" "ob_objectId obj' = ob_objectId obj" "nDataChunks obj' = nDataChunks obj"
      using arg_cong [OF 1(3), of variantType] arg_cong [OF 1(3), of ob_objectId] arg_cong [OF 1(3), of nDataChunks] by simp_all
    have part: "tnode_part d1 = tnode_part dev" using 1(1) by (rule FindChunkInGroup_part)
    note sh = tnode_part_frame(4) [OF part]
    have ok: "width_ok d1" "file_ok d1 (fileVariant obj)" using assms(1,2) by (simp_all add: same_shape_width [OF sh] file_ok_shape [OF sh])
    have z: "group_base d1 0 = 0" by (simp add: group_base_def)
    show ?thesis
    proof (cases "r = -1")
      case True
      then show ?thesis using 1(2,4) o part assms(2) by simp
    next
      case False
      with store_entry_ok [OF ok GetChunkGroupBase_find(2,3) [OF assms(1,2) position_word [OF assms(3)]], where val = 0] tn Level0
      obtain fs' where "store_entry d1 (fileVariant obj) ?c wmap 0 = Some fs'" "file_ok d1 fs'" "tree_nodes (top fs') = tree_nodes (top (fileVariant obj))"
        "\<And>d. file_entry d1 fs' d = (if d = ?c then 0 else file_entry d1 (fileVariant obj) d)" by (auto simp: z)
      with 1(2,4) o False part show ?thesis by (simp add: file_ok_shape [OF sh] file_entry_shape [OF sh])
    qed
  qed
qed

section \<open>A file as a store of chunks\<close>

text \<open>The state is an object with its device; entries are w bits wide and name groups of 2 to the power of g chunks.\<close>

type_synonym 'f file_state = "yaffs_Object \<times> 'f yaffs_Device"

fun index_inv :: "nat \<Rightarrow> nat \<Rightarrow> 'f file_state \<Rightarrow> bool" where
  "index_inv w g (obj, dev) \<longleftrightarrow> width_ok dev \<and> width dev = w \<and> chunkGroupBits dev = g \<and> file_ok dev (fileVariant obj) \<and> variantType obj = FILE"

definition group_ok :: "nat \<Rightarrow> nat \<Rightarrow> u32 \<Rightarrow> bool" where
  "group_ok w g v \<longleftrightarrow> v \<noteq> 0 \<and> push_bit g (take_bit w (drop_bit g v)) = v"

text \<open>The group of a position, found as the code finds it.\<close>

fun index_lookup :: "'f file_state \<Rightarrow> int \<Rightarrow> u32 option" where
  "index_lookup (obj, dev) c =
     (case yaffs_FindLevel0Tnode dev (fileVariant obj) (word_of_int c) of
        Some (Level0 wmap) \<Rightarrow> (case yaffs_GetChunkGroupBase dev wmap (word_of_int c) of Some v \<Rightarrow> if v = 0 then None else Some v | None \<Rightarrow> None)
      | _ \<Rightarrow> None)"

fun index_assign :: "int \<Rightarrow> u32 \<Rightarrow> 'f file_state \<Rightarrow> 'f file_state option" where
  "index_assign c v (obj, dev) =
     (if spare dev < 12 then None
      else case yaffs_PutChunkIntoFile obj c (sint v) 0 dev of
             Some (r, obj, dev) \<Rightarrow> if r = YAFFS_OK then Some (obj, dev) else None
           | None \<Rightarrow> None)"

fun index_remove :: "int \<Rightarrow> 'f file_state \<Rightarrow> 'f file_state option" where
  "index_remove c (obj, dev) =
     (case yaffs_FindAndDeleteChunkInFile obj c None dev of
        Some (r, t, obj, dev) \<Rightarrow> if r \<noteq> -1 then Some (obj, dev) else None
      | None \<Rightarrow> None)"

lemma index_lookup_entry:
  assumes "index_inv w g (obj, dev)" and "position_ok c"
  shows "index_lookup (obj, dev) c = (let v = file_entry dev (fileVariant obj) (word_of_int c) in if v = 0 then None else Some v)"
  using FindLevel0Tnode_entry [of dev "fileVariant obj" "word_of_int c"] GetChunkGroupBase_find(1) [of dev "fileVariant obj" "word_of_int c"]
    assms position_word [OF assms(2)] by (auto simp: Let_def)

lemma index_inv_shape: "same_shape dev dev' \<Longrightarrow> index_inv w g (obj, dev') = index_inv w g (obj, dev)"
  by (auto simp: same_shape_width file_ok_shape) (simp_all add: same_shape_def)

lemma index_assign_ok:
  assumes "index_inv w g (obj, dev)" and "position_ok c" and "group_ok w g v" and "index_assign c v (obj, dev) = Some (obj', dev')"
  shows "index_inv w g (obj', dev')"
    "position_ok j \<Longrightarrow> index_lookup (obj', dev') j = (if j = c then Some v else index_lookup (obj, dev) j)"
proof -
  have sp: "12 \<le> spare dev" and run: "yaffs_PutChunkIntoFile obj c (sint v) 0 dev = Some (YAFFS_OK, obj', dev')"
    using assms(4) by (auto split: if_splits option.splits)
  have inv: "width_ok dev" "file_ok dev (fileVariant obj)" "variantType obj = FILE" "width dev = w" "chunkGroupBits dev = g"
    using assms(1) by simp_all
  have g: "group_base dev (word_of_int (sint v)) = v" "v \<noteq> 0" using assms(3) inv(4,5) by (simp_all add: group_base_def group_ok_def)
  have sh: "same_shape dev dev'" and k: "file_ok dev (fileVariant obj')" "variantType obj' = FILE"
    "\<And>d. file_entry dev (fileVariant obj') d = (if d = word_of_int c then v else file_entry dev (fileVariant obj) d)"
    using PutChunk_ok [OF inv(1-3) assms(2) sp, of "sint v"] run g(1) node_frame_shape by auto
  have "index_inv w g (obj', dev)" using inv k(1,2) by simp
  then show inv': "index_inv w g (obj', dev')" using index_inv_shape [OF sh] by blast
  show "index_lookup (obj', dev') j = (if j = c then Some v else index_lookup (obj, dev) j)" if j: "position_ok j"
    using index_lookup_entry [OF inv' j] index_lookup_entry [OF assms(1) j] k(3) position_inj [OF j assms(2)] g(2)
    by (simp add: file_entry_shape [OF sh] Let_def)
qed

lemma index_remove_ok:
  assumes "index_inv w g (obj, dev)" and "position_ok c" and "index_remove c (obj, dev) = Some (obj', dev')"
  shows "index_inv w g (obj', dev')"
    "position_ok j \<Longrightarrow> index_lookup (obj', dev') j = (if j = c then None else index_lookup (obj, dev) j)"
proof -
  obtain r t where run: "yaffs_FindAndDeleteChunkInFile obj c None dev = Some (r, t, obj', dev')" "r \<noteq> -1"
    using assms(3) by (auto split: if_splits option.splits)
  have inv: "width_ok dev" "file_ok dev (fileVariant obj)" "variantType obj = FILE" "width dev = w" "chunkGroupBits dev = g"
    using assms(1) by simp_all
  note k = FindAndDelete_ok [OF inv(1,2) assms(2) run(1)]
  have sh: "same_shape dev dev'" using k by (intro tnode_part_frame(4)) simp
  then have "index_inv w g (obj', dev)" using inv k by simp
  then show inv': "index_inv w g (obj', dev')" using index_inv_shape [OF sh] by blast
  show "index_lookup (obj', dev') j = (if j = c then None else index_lookup (obj, dev) j)" if j: "position_ok j"
    using index_lookup_entry [OF inv' j] index_lookup_entry [OF assms(1) j] k run(2) position_inj [OF j assms(2)]
    by (simp add: file_entry_shape [OF sh] Let_def)
qed

interpretation file_index: variable_store "index_inv w g" position_ok "group_ok w g" index_lookup index_assign index_remove for w g
proof
  fix s s' :: "'a file_state" and k j v
  assume a: "index_inv w g s" "position_ok k"
  obtain obj dev obj' dev' where s: "s = (obj, dev)" "s' = (obj', dev')" by (cases s, cases s')
  show "index_inv w g s'" "position_ok j \<Longrightarrow> index_lookup s' j = (if j = k then Some v else index_lookup s j)"
    if "group_ok w g v" "index_assign k v s = Some s'"
    using index_assign_ok a that unfolding s by blast+
  show "index_inv w g s'" "position_ok j \<Longrightarrow> index_lookup s' j = (if j = k then None else index_lookup s j)"
    if "index_remove k s = Some s'"
    using index_remove_ok a that unfolding s by blast+
qed

text \<open>
  C29: After any sequence of chunks put into a file, every position of the sequence leads to the last
  group put there, and every other position to what it led to before.
\<close>

theorem file_index_script:
  assumes "index_inv w g s" and "\<forall>(c, v) \<in> set cvs. position_ok c \<and> group_ok w g v" and "position_ok j"
    and "foldl (\<lambda>so (c, v). Option.bind so (index_assign c v)) (Some s) cvs = Some s'"
  shows "index_lookup s' j = (case map_of (rev cvs) j of Some v \<Rightarrow> Some v | None \<Rightarrow> index_lookup s j)"
  using file_index.lookup_script [OF assms(1,2,4,3)] by blast

theorem file_index_script_witness:
  "\<exists>s'. foldl (\<lambda>so (c, v). Option.bind so (index_assign c v)) (Some (demo_object (tree_device 16), tree_device 16)) [(3, 77), (300, 78), (3, 79)] = Some s' \<and>
    index_lookup s' 3 = Some 79 \<and> index_lookup s' 300 = Some 78"
proof -
  let ?s = "(demo_object (tree_device 16), tree_device 16)"
  have "\<not> Option.is_none (foldl (\<lambda>so (c, v). Option.bind so (index_assign c v)) (Some ?s) [(3, 77), (300, 78), (3, 79)])" by code_simp
  then obtain s' where s': "foldl (\<lambda>so (c, v). Option.bind so (index_assign c v)) (Some ?s) [(3, 77), (300, 78), (3, 79)] = Some s'"
    by (metis is_none_code(1) not_None_eq)
  have i: "index_inv 16 0 ?s" using tree_device_ok(1) empty_file_ok [of 16] by (simp add: tree_device_def zero_device_def)
  have ok: "\<forall>(c, v) \<in> set [(3, 77), (300, 78), (3, 79)]. position_ok c \<and> group_ok 16 0 v"
    by (simp add: position_ok_def group_ok_def take_bit_eq_mod)
  show ?thesis using file_index_script [OF i ok _ s', of 3] file_index_script [OF i ok _ s', of 300] s' by (simp add: position_ok_def)
qed

end
