(* ===== verification/FileDelete.thy ===== *)
theory FileDelete
  imports FileProps
begin

text \<open>
  Soft deletion of a file: it always finishes, releases every chunk of the file once, empties the tree
  and gives back every node but the top one.
\<close>

section \<open>What soft deletion works on\<close>

definition block_known :: "'f yaffs_Device \<Rightarrow> u32 \<Rightarrow> bool" where
  "block_known dev chunk \<longleftrightarrow> yaffs_GetBlockInfo dev (sint chunk div nChunksPerBlock dev) \<noteq> None"

definition soft_frame :: "'f yaffs_Device \<Rightarrow> 'f yaffs_Device \<Rightarrow> bool" where
  "soft_frame d d' \<longleftrightarrow> node_frame d d' \<and> nChunksPerBlock d' = nChunksPerBlock d \<and> internalStartBlock d' = internalStartBlock d \<and>
     internalEndBlock d' = internalEndBlock d \<and> length (blockInfo d') = length (blockInfo d)"

lemma soft_frame_refl [simp]: "soft_frame d d"
  by (simp add: soft_frame_def)

lemma soft_frame_trans: "soft_frame a b \<Longrightarrow> soft_frame b c \<Longrightarrow> soft_frame a c"
  by (auto simp: soft_frame_def intro: node_frame_trans)

lemma soft_frame_shape: "soft_frame d d' \<Longrightarrow> same_shape d d'"
  by (simp add: soft_frame_def node_frame_def)

lemma soft_frame_known: "soft_frame d d' \<Longrightarrow> block_known d' c = block_known d c"
  by (simp add: soft_frame_def block_known_def yaffs_GetBlockInfo_def)

lemma SoftDeleteChunk_ok:
  assumes "block_known d c"
  shows "\<exists>d'. yaffs_SoftDeleteChunk d (sint c) = Some d' \<and> soft_frame d d' \<and> nodes_out d' = nodes_out d \<and> nFreeChunks d' = nFreeChunks d + 1"
proof -
  obtain bi where bi: "yaffs_GetBlockInfo d (sint c div nChunksPerBlock d) = Some bi" using assms by (auto simp: block_known_def)
  then obtain d' where d': "yaffs_SoftDeleteChunk d (sint c) = Some d'" by (simp add: yaffs_SoftDeleteChunk_def Let_def)
  have "nChunksPerBlock d' = nChunksPerBlock d" "internalStartBlock d' = internalStartBlock d" "internalEndBlock d' = internalEndBlock d"
    "length (blockInfo d') = length (blockInfo d)" "nFreeChunks d' = nFreeChunks d + 1"
    using d' bi by (auto simp: yaffs_SoftDeleteChunk_def Let_def setBlockInfo_def)
  then show ?thesis using tnode_part_frame(1,2) [OF SoftDeleteChunk_part [OF d']] d' by (auto simp: soft_frame_def)
qed

lemma yaffs_FreeTnode_soft: "soft_frame d (yaffs_FreeTnode d tn)" "nFreeChunks (yaffs_FreeTnode d tn) = nFreeChunks d"
  using FreeTnode_stock(1) [of d tn] by (simp_all add: soft_frame_def) (simp_all add: yaffs_FreeTnode_def Let_def)

section \<open>The chunks of a tree\<close>

definition level0_chunks :: "'f yaffs_Device \<Rightarrow> u32 list \<Rightarrow> nat list \<Rightarrow> int" where
  "level0_chunks dev wmap is = sum_list (map (\<lambda>p. of_bool (entry_at dev wmap p \<noteq> 0)) is)"

fun tree_chunks :: "'f yaffs_Device \<Rightarrow> yaffs_Tnode \<Rightarrow> int" where
  "tree_chunks dev Null = 0"
| "tree_chunks dev (Level0 wmap) = level0_chunks dev wmap [0..<16]"
| "tree_chunks dev (Internal ch) = sum_list (map (tree_chunks dev) ch)"

fun tree_known :: "'f yaffs_Device \<Rightarrow> yaffs_Tnode \<Rightarrow> bool" where
  "tree_known dev Null = True"
| "tree_known dev (Level0 wmap) = (\<forall>p < 16. entry_at dev wmap p \<noteq> 0 \<longrightarrow> block_known dev (entry_at dev wmap p))"
| "tree_known dev (Internal ch) = (\<forall>c\<in>set ch. tree_known dev c)"

lemma entry_at_shape: "same_shape d d' \<Longrightarrow> entry_at d' wmap p = entry_at d wmap p"
  by (simp add: entry_at_def same_shape_def)

lemma tree_chunks_shape: "same_shape d d' \<Longrightarrow> tree_chunks d' tn = tree_chunks d tn"
  by (induction tn) (simp_all add: level0_chunks_def entry_at_shape cong: map_cong)

lemma tree_known_soft: "soft_frame d d' \<Longrightarrow> tree_known d' tn = tree_known d tn"
  by (induction tn) (simp_all add: entry_at_shape [OF soft_frame_shape] soft_frame_known)

section \<open>Entries\<close>

lemma slot_of_nat: "p < 16 \<Longrightarrow> slot (of_nat p) = p"
proof -
  assume p: "p < 16"
  then have "unat (of_nat p :: u32) = p" by (simp add: unat_of_nat)
  then have "slot (of_nat p) = take_bit 4 p" by (simp add: slot_bits unsigned_take_bit_eq)
  with p show ?thesis by (simp add: take_bit_eq_mod)
qed

lemma soft_delete_entries_ok:
  assumes "width_ok d0"
  shows "soft_frame d0 dev \<Longrightarrow> length wmap = tnode_words d0 \<Longrightarrow> distinct is \<Longrightarrow> \<forall>p\<in>set is. p < 16 \<Longrightarrow>
    \<forall>p\<in>set is. entry_at d0 wmap p \<noteq> 0 \<longrightarrow> block_known d0 (entry_at d0 wmap p) \<Longrightarrow>
    \<exists>wmap' dev'. soft_delete_entries is wmap dev = Some (wmap', dev') \<and> soft_frame dev dev' \<and> length wmap' = length wmap \<and>
      (\<forall>p < 16. entry_at d0 wmap' p = (if p \<in> set is then 0 else entry_at d0 wmap p)) \<and>
      nodes_out dev' = nodes_out dev \<and> nFreeChunks dev' = nFreeChunks dev + level0_chunks d0 wmap is"
proof (induction "is" arbitrary: wmap dev)
  case Nil
  then show ?case by (simp add: level0_chunks_def)
next
  case (Cons i js)
  note sh = soft_frame_shape [OF Cons.prems(1)]
  have i: "i < 16" "slot (of_nat i) = i" using Cons.prems(4) slot_of_nat by auto
  have w: "width_ok dev" "roomy dev wmap"
    using assms Cons.prems(2) roomy_words [of dev wmap] by (simp_all add: same_shape_width [OF sh] same_shape_words [OF sh])
  have g: "yaffs_GetChunkGroupBase dev wmap (of_nat i) = Some (entry_at d0 wmap i)"
    using GetChunkGroupBase_entry [OF w, of "of_nat i"] i(2) by (simp add: entry_at_shape [OF sh])
  show ?case
  proof (cases "entry_at d0 wmap i = 0")
    case True
    have run: "soft_delete_entries (i # js) wmap dev = soft_delete_entries js wmap dev" by (simp add: g True)
    obtain wmap' dev' where "soft_delete_entries js wmap dev = Some (wmap', dev')" "soft_frame dev dev'" "length wmap' = length wmap"
      "\<forall>p < 16. entry_at d0 wmap' p = (if p \<in> set js then 0 else entry_at d0 wmap p)" "nodes_out dev' = nodes_out dev"
      "nFreeChunks dev' = nFreeChunks dev + level0_chunks d0 wmap js"
      using Cons.IH [OF Cons.prems(1,2)] Cons.prems(3-5) by auto
    then show ?thesis using True unfolding run by (auto simp: level0_chunks_def)
  next
    case False
    have "block_known dev (entry_at d0 wmap i)" using Cons.prems(1,5) False by (simp add: soft_frame_known)
    then obtain d1 where d1: "yaffs_SoftDeleteChunk dev (sint (entry_at d0 wmap i)) = Some d1" "soft_frame dev d1" "nodes_out d1 = nodes_out dev"
      "nFreeChunks d1 = nFreeChunks dev + 1" using SoftDeleteChunk_ok by blast
    have f1: "soft_frame d0 d1" using Cons.prems(1) d1(2) by (rule soft_frame_trans)
    note sh1 = soft_frame_shape [OF f1]
    have w1: "width_ok d1" "roomy d1 wmap"
      using assms Cons.prems(2) roomy_words [of d1 wmap] by (simp_all add: same_shape_width [OF sh1] same_shape_words [OF sh1])
    have "group_base d1 0 = 0" by (simp add: group_base_def)
    then obtain w2 where w2: "yaffs_PutLevel0Tnode d1 wmap (of_nat i) 0 = Some w2" "length w2 = length wmap"
      "\<And>p. p < 16 \<Longrightarrow> entry_at d0 w2 p = (if p = i then 0 else entry_at d0 wmap p)"
      using PutLevel0Tnode_entry [OF w1, of "of_nat i" 0] i(2) by (auto simp: entry_at_shape [OF sh1])
    have same: "map (\<lambda>p. of_bool (entry_at d0 w2 p \<noteq> 0) :: int) js = map (\<lambda>p. of_bool (entry_at d0 wmap p \<noteq> 0)) js"
      using Cons.prems(3,4) by (intro map_cong) (auto simp: w2(3))
    have known: "\<forall>p\<in>set js. entry_at d0 w2 p \<noteq> 0 \<longrightarrow> block_known d0 (entry_at d0 w2 p)"
      using Cons.prems(4,5) by (auto simp: w2(3))
    have len: "length w2 = tnode_words d0" and dis: "distinct js" using w2(2) Cons.prems(2,3) by simp_all
    obtain wmap' dev' where IH: "soft_delete_entries js w2 d1 = Some (wmap', dev')" "soft_frame d1 dev'" "length wmap' = length w2"
      "\<forall>p < 16. entry_at d0 wmap' p = (if p \<in> set js then 0 else entry_at d0 w2 p)" "nodes_out dev' = nodes_out d1"
      "nFreeChunks dev' = nFreeChunks d1 + level0_chunks d0 w2 js"
      using Cons.IH [OF f1 len dis _ known] Cons.prems(4) by auto
    have "soft_delete_entries (i # js) wmap dev = Some (wmap', dev')"
      using False d1(1) w2(1) IH(1) by (simp add: g sint_eq_0_iff)
    moreover have "nFreeChunks dev' = nFreeChunks dev + level0_chunks d0 wmap (i # js)"
      using IH(6) d1(4) False by (simp add: level0_chunks_def same)
    ultimately show ?thesis
      using soft_frame_trans [OF d1(2) IH(2)] IH(3-5) w2(2,3) d1(3) by auto
  qed
qed

section \<open>Nodes\<close>

text \<open>What a worker must do to a node for the loop over the pointers to be right.\<close>

definition soft_deletes :: "'f yaffs_Device \<Rightarrow> nat \<Rightarrow> (yaffs_Tnode \<Rightarrow> 'f yaffs_Device \<Rightarrow> (bool \<times> yaffs_Tnode \<times> 'f yaffs_Device) option) \<Rightarrow> bool" where
  "soft_deletes d0 l worker \<longleftrightarrow> (\<forall>dev tn. soft_frame d0 dev \<and> wf_tree d0 l tn \<and> tn \<noteq> Null \<and> tree_known d0 tn \<longrightarrow>
     (\<exists>tn' dev'. worker tn dev = Some (True, tn', dev') \<and> soft_frame dev dev' \<and> wf_tree d0 l tn' \<and> tn' \<noteq> Null \<and> tree_nodes tn' = 1 \<and>
        (\<forall>c. tree_entry d0 c l tn' = 0) \<and>
        nodes_out dev' = nodes_out dev - int (tree_nodes tn) + 1 \<and> nFreeChunks dev' = nFreeChunks dev + tree_chunks d0 tn))"

lemma soft_delete_children_ok:
  assumes "soft_deletes d0 l worker"
  shows "soft_frame d0 dev \<Longrightarrow> distinct is \<Longrightarrow> \<forall>i\<in>set is. i < length ch \<Longrightarrow> \<forall>c\<in>set ch. wf_tree d0 l c \<and> tree_known d0 c \<Longrightarrow>
    \<exists>ch' dev'. soft_delete_children worker is ch dev = Some (True, ch', dev') \<and> soft_frame dev dev' \<and> length ch' = length ch \<and>
      (\<forall>k < length ch. ch' ! k = (if k \<in> set is then Null else ch ! k)) \<and>
      nodes_out dev' = nodes_out dev - int (sum_list (map (\<lambda>i. tree_nodes (ch ! i)) is)) \<and>
      nFreeChunks dev' = nFreeChunks dev + sum_list (map (\<lambda>i. tree_chunks d0 (ch ! i)) is)"
proof (induction "is" arbitrary: ch dev)
  case (Cons i js)
  have i: "i < length ch" "i \<notin> set js" "distinct js" using Cons.prems(2,3) by auto
  show ?case
  proof (cases "ch ! i = Null")
    case True
    have run: "soft_delete_children worker (i # js) ch dev = soft_delete_children worker js ch dev" using i(1) True by simp
    obtain ch' dev' where "soft_delete_children worker js ch dev = Some (True, ch', dev')" "soft_frame dev dev'" "length ch' = length ch"
      "\<forall>k < length ch. ch' ! k = (if k \<in> set js then Null else ch ! k)"
      "nodes_out dev' = nodes_out dev - int (sum_list (map (\<lambda>i. tree_nodes (ch ! i)) js))"
      "nFreeChunks dev' = nFreeChunks dev + sum_list (map (\<lambda>i. tree_chunks d0 (ch ! i)) js)"
      using Cons.IH [OF Cons.prems(1) i(3) _ Cons.prems(4)] Cons.prems(3) by auto
    then show ?thesis using True unfolding run by auto
  next
    case False
    have "wf_tree d0 l (ch ! i)" "tree_known d0 (ch ! i)" using Cons.prems(4) i(1) by auto
    then obtain t d1 where t: "worker (ch ! i) dev = Some (True, t, d1)" "soft_frame dev d1" "t \<noteq> Null"
      "nodes_out d1 = nodes_out dev - int (tree_nodes (ch ! i)) + 1" "nFreeChunks d1 = nFreeChunks dev + tree_chunks d0 (ch ! i)"
      using assms [unfolded soft_deletes_def, rule_format, of dev "ch ! i"] Cons.prems(1) False by blast
    let ?d = "yaffs_FreeTnode d1 t"
    have f: "soft_frame dev ?d" "soft_frame d0 ?d"
      using soft_frame_trans [OF t(2) yaffs_FreeTnode_soft(1)] soft_frame_trans [OF Cons.prems(1)] by blast+
    have w: "\<forall>c\<in>set (ch[i := Null]). wf_tree d0 l c \<and> tree_known d0 c"
      using Cons.prems(4) by (auto dest: set_update_subset_insert [THEN subsetD])
    have b: "\<forall>j\<in>set js. j < length (ch[i := Null])" using Cons.prems(3) by simp
    have same: "map (\<lambda>j. h (ch[i := Null] ! j)) js = map (\<lambda>j. h (ch ! j)) js" for h :: "yaffs_Tnode \<Rightarrow> 'c"
      using i(2) by (intro map_cong refl arg_cong [of _ _ h] nth_list_update_neq) auto
    obtain ch' dev' where IH: "soft_delete_children worker js (ch[i := Null]) ?d = Some (True, ch', dev')" "soft_frame ?d dev'"
      "length ch' = length (ch[i := Null])" "\<forall>k < length (ch[i := Null]). ch' ! k = (if k \<in> set js then Null else ch[i := Null] ! k)"
      "nodes_out dev' = nodes_out ?d - int (sum_list (map (\<lambda>j. tree_nodes (ch[i := Null] ! j)) js))"
      "nFreeChunks dev' = nFreeChunks ?d + sum_list (map (\<lambda>j. tree_chunks d0 (ch[i := Null] ! j)) js)"
      using Cons.IH [OF f(2) i(3) b w] by blast
    have "soft_delete_children worker (i # js) ch dev = Some (True, ch', dev')" using i(1) False t(1) IH(1) by simp
    moreover have "\<forall>k < length ch. ch' ! k = (if k \<in> set (i # js) then Null else ch ! k)" using IH(4) by auto
    moreover have "nodes_out dev' = nodes_out dev - int (sum_list (map (\<lambda>i. tree_nodes (ch ! i)) (i # js)))"
      using IH(5) t(3,4) FreeTnode_stock(2) [of d1 t] by (simp add: same)
    moreover have "nFreeChunks dev' = nFreeChunks dev + sum_list (map (\<lambda>i. tree_chunks d0 (ch ! i)) (i # js))"
      using IH(6) t(5) yaffs_FreeTnode_soft(2) [of d1 t] by (simp add: same)
    moreover have "length ch' = length ch" using IH(3) by simp
    ultimately show ?thesis using soft_frame_trans [OF f(1) IH(2)] by blast
  qed
qed simp

lemma sum_list_rev_upt: "sum_list (map f (rev [0..<length xs])) = sum_list (map f [0..<length xs])" for f :: "nat \<Rightarrow> 'a::comm_monoid_add"
  by (simp add: sum_list.rev flip: rev_map)

lemma sum_list_children: "sum_list (map (\<lambda>i. f (xs ! i)) (rev [0..<length xs])) = sum_list (map f xs)" for f :: "'b \<Rightarrow> 'a::comm_monoid_add"
proof -
  have "map (\<lambda>i. f (xs ! i)) [0..<length xs] = map f xs" by (rule nth_equalityI) simp_all
  then show ?thesis by (simp add: rev_map [symmetric] sum_list.rev)
qed

lemma SoftDeleteWorker_ok:
  assumes "width_ok d0"
  shows "soft_deletes d0 l (yaffs_SoftDeleteWorker l)"
proof (induction l)
  case 0
  show ?case unfolding soft_deletes_def
  proof (intro allI impI)
    fix dev :: "'a yaffs_Device" and tn
    assume a: "soft_frame d0 dev \<and> wf_tree d0 0 tn \<and> tn \<noteq> Null \<and> tree_known d0 tn"
    then obtain wmap where tn: "tn = Level0 wmap" "length wmap = tnode_words d0" using wf_tree_level0 by blast
    have r: "rev [0..<16] = rev [0..<YAFFS_NTNODES_LEVEL0]" by (simp add: YAFFS_NTNODES_LEVEL0_def)
    obtain wmap' dev' where s: "soft_delete_entries (rev [0..<16]) wmap dev = Some (wmap', dev')" "soft_frame dev dev'" "length wmap' = length wmap"
      "\<forall>p < 16. entry_at d0 wmap' p = (if p \<in> set (rev [0..<16]) then 0 else entry_at d0 wmap p)"
      "nodes_out dev' = nodes_out dev" "nFreeChunks dev' = nFreeChunks dev + level0_chunks d0 wmap (rev [0..<16])"
      using soft_delete_entries_ok [OF assms, of dev wmap "rev [0..<16]"] a tn by auto
    have "level0_chunks d0 wmap (rev [0..<16]) = level0_chunks d0 wmap [0..<16]"
      by (simp add: level0_chunks_def sum_list.rev flip: rev_map)
    moreover have "entry_at d0 wmap' (slot c) = 0" for c using s(4) slot_less [of c] by simp
    ultimately show "\<exists>tn' dev'. yaffs_SoftDeleteWorker 0 tn dev = Some (True, tn', dev') \<and> soft_frame dev dev' \<and> wf_tree d0 0 tn' \<and> tn' \<noteq> Null \<and>
        tree_nodes tn' = 1 \<and> (\<forall>c. tree_entry d0 c 0 tn' = 0) \<and>
        nodes_out dev' = nodes_out dev - int (tree_nodes tn) + 1 \<and> nFreeChunks dev' = nFreeChunks dev + tree_chunks d0 tn"
      using s tn by (intro exI [of _ "Level0 wmap'"] exI [of _ dev']) (simp add: r [symmetric])
  qed
next
  case (Suc l)
  show ?case unfolding soft_deletes_def
  proof (intro allI impI)
    fix dev :: "'a yaffs_Device" and tn
    assume a: "soft_frame d0 dev \<and> wf_tree d0 (Suc l) tn \<and> tn \<noteq> Null \<and> tree_known d0 tn"
    then obtain ch where tn: "tn = Internal ch" "length ch = 8" "\<forall>c\<in>set ch. wf_tree d0 l c \<and> tree_known d0 c" by (cases tn) auto
    have r: "rev [0..<length ch] = rev [0..<YAFFS_NTNODES_INTERNAL]" by (simp add: tn(2) tnode_constants)
    obtain ch' dev' where s: "soft_delete_children (yaffs_SoftDeleteWorker l) (rev [0..<length ch]) ch dev = Some (True, ch', dev')" "soft_frame dev dev'"
      "length ch' = length ch" "\<forall>k < length ch. ch' ! k = (if k \<in> set (rev [0..<length ch]) then Null else ch ! k)"
      "nodes_out dev' = nodes_out dev - int (sum_list (map (\<lambda>i. tree_nodes (ch ! i)) (rev [0..<length ch])))"
      "nFreeChunks dev' = nFreeChunks dev + sum_list (map (\<lambda>i. tree_chunks d0 (ch ! i)) (rev [0..<length ch]))"
      using soft_delete_children_ok [OF Suc.IH, of dev "rev [0..<length ch]" ch] a tn(3) by auto
    have ch': "ch' = replicate 8 Null" using s(3,4) tn(2) by (auto simp: list_eq_iff_nth_eq)
    have "tree_entry d0 c l Null = 0" for c by (cases l) simp_all
    then show "\<exists>tn' dev'. yaffs_SoftDeleteWorker (Suc l) tn dev = Some (True, tn', dev') \<and> soft_frame dev dev' \<and> wf_tree d0 (Suc l) tn' \<and> tn' \<noteq> Null \<and>
        tree_nodes tn' = 1 \<and> (\<forall>c. tree_entry d0 c (Suc l) tn' = 0) \<and>
        nodes_out dev' = nodes_out dev - int (tree_nodes tn) + 1 \<and> nFreeChunks dev' = nFreeChunks dev + tree_chunks d0 tn"
      using s(1,2,5,6) tn(1)
      by (intro exI [of _ "Internal ch'"] exI [of _ dev']) (simp add: r [symmetric] ch' sum_list_replicate sum_list_children)
  qed
qed

text \<open>
  C32: Soft deletion of a well-formed tree whose chunks lie in blocks of the device always finishes: it
  reports that all is done, counts every chunk of the tree as free once, leaves no entry in the
  tree and gives all nodes but the top one back to the stock.
\<close>

theorem SoftDeleteWorker_finishes:
  assumes "width_ok dev" and "wf_tree dev level tn" and "tn \<noteq> Null" and "tree_known dev tn"
  shows "\<exists>tn' dev'. yaffs_SoftDeleteWorker level tn dev = Some (True, tn', dev') \<and> wf_tree dev level tn' \<and>
    (\<forall>c. tree_entry dev c level tn' = 0) \<and> tree_nodes tn' = 1 \<and>
    nodes_out dev' = nodes_out dev - int (tree_nodes tn) + 1 \<and> nFreeChunks dev' = nFreeChunks dev + tree_chunks dev tn"
  using SoftDeleteWorker_ok [OF assms(1), of level, unfolded soft_deletes_def, rule_format, of dev tn] assms(2-4) by auto

text \<open>A device with one block, and a tree of two levels that leads to the chunks 3 and 5.\<close>

definition soft_device :: "unit yaffs_Device" where
  "soft_device = (tree_device 16)\<lparr>nChunksPerBlock := 32, internalStartBlock := 0, internalEndBlock := 0,
     blockInfo := [zero_blockInfo\<lparr>blockState := YAFFS_BLOCK_STATE_FULL, pagesInUse := 32\<rparr>]\<rparr>"

definition two_chunks :: yaffs_Tnode where
  "two_chunks = Internal [Level0 [0x00050003, 0, 0, 0, 0, 0, 0, 0], Null, Null, Null, Null, Null, Null, Null]"

theorem SoftDeleteWorker_finishes_witness:
  "\<exists>tn' dev'. yaffs_SoftDeleteWorker 1 two_chunks soft_device = Some (True, tn', dev') \<and> tree_nodes tn' = 1 \<and>
    nodes_out dev' = nodes_out soft_device - 1 \<and> nFreeChunks dev' = nFreeChunks soft_device + 2"
proof -
  have w: "width_ok soft_device" by (simp add: soft_device_def tree_device_def zero_device_def width_ok_def)
  have "list_all (\<lambda>p. entry_at soft_device [0x00050003, 0, 0, 0, 0, 0, 0, 0] p \<noteq> 0 \<longrightarrow>
      block_known soft_device (entry_at soft_device [0x00050003, 0, 0, 0, 0, 0, 0, 0] p)) [0..<16]" by code_simp
  then have k: "tree_known soft_device two_chunks" by (auto simp: two_chunks_def list_all_iff)
  have "wf_tree soft_device 1 two_chunks" by code_simp
  moreover have "tree_chunks soft_device two_chunks = 2" by code_simp
  moreover have "tree_nodes two_chunks = 2" "two_chunks \<noteq> Null" by (simp_all add: two_chunks_def)
  ultimately show ?thesis using SoftDeleteWorker_finishes [OF w, of 1 two_chunks] k by auto
qed

end
