(* ===== verification/Geometry.thy ===== *)
theory Geometry
  imports TnodeBits
begin

text \<open>
  The numbers yaffs_GutsInitialise computes from the geometry of the flash (yaffs_guts.c): shifts and
  masks that split a position in a file into chunk and offset, and the width of the entries of a
  tnode with the size of chunk groups.
\<close>

section \<open>Shifts\<close>

lemma unat_drop_bit: "unat (drop_bit n x) = unat x div 2 ^ n" for x :: "'a::len word"
  using unat_drop_bit_eq [of n x] by (simp only: drop_bit_eq_div)

lemma drop_bit_smaller: "0 < n \<Longrightarrow> x \<noteq> 0 \<Longrightarrow> unat (drop_bit n x) < unat x" for x :: "'a::len word"
proof -
  assume "0 < n" "x \<noteq> 0"
  then have "0 < unat x" "1 < (2 :: nat) ^ n" using one_less_power [of "2 :: nat" n] by (simp_all add: unat_gt_0)
  then show ?thesis unfolding unat_drop_bit by (intro div_less_dividend)
qed

function shiftsGE_loop :: "u32 \<Rightarrow> nat \<Rightarrow> nat \<Rightarrow> nat \<times> nat" where
  "shiftsGE_loop x extraBits nShifts =
     (if x > 1 then shiftsGE_loop (drop_bit 1 x) (if x AND 1 \<noteq> 0 then extraBits + 1 else extraBits) (nShifts + 1)
      else (extraBits, nShifts))"
  by pat_completeness auto
termination
  by (relation "measure (\<lambda>(x, e, n). unat x)") (auto intro: drop_bit_smaller)

declare shiftsGE_loop.simps [simp del]

definition ShiftsGE :: "u32 \<Rightarrow> nat" where
  "ShiftsGE x = (let (extraBits, nShifts) = shiftsGE_loop x 0 0 in if extraBits \<noteq> 0 then nShifts + 1 else nShifts)"

text \<open>The loop runs only for a number that is not 0.\<close>

function shiftDiv_loop :: "u32 \<Rightarrow> nat" where
  "shiftDiv_loop x = (if x = 0 then 0 else if x AND 1 = 0 then Suc (shiftDiv_loop (drop_bit 1 x)) else 0)"
  by pat_completeness auto
termination
  by (relation "measure unat") (auto intro: drop_bit_smaller)

declare shiftDiv_loop.simps [simp del]

definition ShiftDiv :: "u32 \<Rightarrow> nat" where
  "ShiftDiv x = (if x = 0 then 0 else shiftDiv_loop x)"

section \<open>Chunks and offsets\<close>

definition sizeof_PackedTags2TagsPart :: u32 where "sizeof_PackedTags2TagsPart = 16"

definition setup_chunk_sizes :: "'f yaffs_Device \<Rightarrow> 'f yaffs_Device" where
  "setup_chunk_sizes dev =
     (let dev = dev\<lparr>chunkShift := ShiftDiv (word_of_int (nDataBytesPerChunk dev))\<rparr>;
          dev = dev\<lparr>chunkMask := push_bit (chunkShift dev) 1 - 1\<rparr>
      in if (word_of_int (nDataBytesPerChunk dev) :: u32) = chunkMask dev + 1
         then dev\<lparr>crumbMask := 0, crumbShift := 0, crumbsPerChunk := 0\<rparr>
         else
           (let dev = dev\<lparr>crumbShift := ShiftDiv sizeof_PackedTags2TagsPart\<rparr>;
                dev = dev\<lparr>crumbMask := push_bit (crumbShift dev) 1 - 1\<rparr>
            in dev\<lparr>crumbsPerChunk := word_of_int (nDataBytesPerChunk dev div 2 ^ crumbShift dev), chunkShift := 0, chunkMask := 0\<rparr>))"

text \<open>Chunk and offset of a position; None if the sizes were not set up.\<close>

definition yaffs_AddrToChunk :: "'f yaffs_Device \<Rightarrow> int \<Rightarrow> (u32 \<times> u32) option" where
  "yaffs_AddrToChunk dev addr =
     (if chunkShift dev \<noteq> 0 then
        Some (word_of_int (drop_bit (chunkShift dev) addr), word_of_int (addr AND uint (chunkMask dev)))
      else if crumbsPerChunk dev \<noteq> 0 then
        (let offset = word_of_int (addr AND uint (crumbMask dev));
             addr = drop_bit (crumbShift dev) addr;
             chunk = word_of_int addr div crumbsPerChunk dev;
             offset = offset + word_of_int (push_bit (crumbShift dev) (addr - uint (chunk * crumbsPerChunk dev)))
         in Some (chunk, offset))
      else None)"

section \<open>Tnodes\<close>

text \<open>None if the mask is shifted by its whole width; otherwise whether the geometry is accepted.\<close>

definition setup_tnodes :: "'f yaffs_Device \<Rightarrow> (int \<times> 'f yaffs_Device) option" where
  "setup_tnodes dev =
     (let x = word_of_int (nChunksPerBlock dev * (internalEndBlock dev + 1));
          bits = ShiftsGE x;
          (bits, dev) =
            (if \<not> wideTnodesDisabled dev then
               (let bits = (if odd bits then bits + 1 else bits)
                in (bits, dev\<lparr>tnodeWidth := (if bits < 16 then 16 else of_nat bits)\<rparr>))
             else (bits, dev\<lparr>tnodeWidth := 16\<rparr>))
      in if 32 \<le> unat (tnodeWidth dev) then None
         else
           (let dev = dev\<lparr>tnodeMask := push_bit (unat (tnodeWidth dev)) 1 - 1\<rparr>;
                dev = dev\<lparr>chunkGroupBits := (if bits \<le> unat (tnodeWidth dev) then 0 else bits - unat (tnodeWidth dev))\<rparr>;
                dev = dev\<lparr>chunkGroupSize := 2 ^ chunkGroupBits dev mod 65536\<rparr>
            in if nChunksPerBlock dev < chunkGroupSize dev then Some (YAFFS_FAIL, dev) else Some (YAFFS_OK, dev)))"

section \<open>Properties of the shifts\<close>

lemma shiftsGE_loop_value:
  "x \<noteq> 0 \<Longrightarrow> \<exists>k. snd (shiftsGE_loop x e n) = n + k \<and> 2 ^ k \<le> unat x \<and> unat x < 2 ^ Suc k \<and>
     (fst (shiftsGE_loop x e n) = 0 \<longleftrightarrow> e = 0 \<and> unat x = 2 ^ k)"
proof (induction x e n rule: shiftsGE_loop.induct)
  case (1 x e n)
  show ?case
  proof (cases "x > 1")
    case False
    then have "unat x = 1" using 1(2) by (metis linorder_neqE_nat nat_less_le less_one unat_1 unat_eq_0 word_less_nat_alt)
    then show ?thesis using False by (subst (1 2) shiftsGE_loop.simps) auto
  next
    case True
    then have x2: "2 \<le> unat x" by (simp add: word_less_nat_alt)
    have h: "unat (drop_bit 1 x) = unat x div 2" by (simp only: unat_drop_bit) simp
    then have nz: "drop_bit 1 x \<noteq> 0" using x2 by (metis div_greater_zero_iff less_numeral_extra(3) unat_0 zero_less_numeral)
    have "x AND 1 \<noteq> 0 \<longleftrightarrow> bit (unat x) 0" unfolding low_bit_test by (simp add: bit_unsigned_iff)
    then have odd: "x AND 1 \<noteq> 0 \<longleftrightarrow> odd (unat x)" by (simp only: bit_0)
    have step: "shiftsGE_loop x e n = shiftsGE_loop (drop_bit 1 x) (if x AND 1 \<noteq> 0 then e + 1 else e) (n + 1)"
      using True by (subst shiftsGE_loop.simps) simp
    obtain k where k: "snd (shiftsGE_loop x e n) = Suc n + k" "2 ^ k \<le> unat x div 2" "unat x div 2 < 2 ^ Suc k"
      "fst (shiftsGE_loop x e n) = 0 \<longleftrightarrow> (if x AND 1 \<noteq> 0 then e + 1 else e) = 0 \<and> unat x div 2 = 2 ^ k"
      using 1(1) [OF True nz] unfolding step h by (elim exE conjE) simp
    have "unat x div 2 = 2 ^ k \<and> even (unat x) \<longleftrightarrow> unat x = 2 ^ Suc k" by auto
    then show ?thesis using k odd by (intro exI [of _ "Suc k"]) auto
  qed
qed

lemma ShiftsGE_value:
  assumes "x \<noteq> 0"
  shows "unat x \<le> 2 ^ ShiftsGE x" "ShiftsGE x \<noteq> 0 \<Longrightarrow> 2 ^ (ShiftsGE x - 1) < unat x"
proof -
  obtain k where "snd (shiftsGE_loop x 0 0) = k" "2 ^ k \<le> unat x" "unat x < 2 ^ Suc k" "fst (shiftsGE_loop x 0 0) = 0 \<longleftrightarrow> unat x = 2 ^ k"
    using shiftsGE_loop_value [OF assms, of 0 0] by auto
  then show "unat x \<le> 2 ^ ShiftsGE x" "ShiftsGE x \<noteq> 0 \<Longrightarrow> 2 ^ (ShiftsGE x - 1) < unat x"
    by (cases "unat x = 2 ^ k"; cases k; simp add: ShiftsGE_def case_prod_beta)+
qed

text \<open>
  For every number except 0, ShiftsGE is the least exponent of a power of two that is not smaller
  than the number.
\<close>

theorem ShiftsGE_least:
  assumes "x \<noteq> 0"
  shows "unat x \<le> 2 ^ m \<longleftrightarrow> ShiftsGE x \<le> m"
proof
  show "ShiftsGE x \<le> m \<Longrightarrow> unat x \<le> 2 ^ m"
    using order_trans [OF ShiftsGE_value(1) [OF assms] power_increasing [of "ShiftsGE x" m "2 :: nat"]] by simp
  assume m: "unat x \<le> 2 ^ m"
  show "ShiftsGE x \<le> m"
  proof (rule ccontr)
    assume "\<not> ShiftsGE x \<le> m"
    then have "2 ^ m \<le> (2 :: nat) ^ (ShiftsGE x - 1)" "ShiftsGE x \<noteq> 0" by (simp_all add: power_increasing)
    with ShiftsGE_value(2) [OF assms] m show False by linarith
  qed
qed

lemma shiftDiv_loop_value: "x \<noteq> 0 \<Longrightarrow> \<exists>q. unat x = 2 ^ shiftDiv_loop x * q \<and> odd q"
proof (induction x rule: shiftDiv_loop.induct)
  case (1 x)
  have "x AND 1 \<noteq> 0 \<longleftrightarrow> bit (unat x) 0" unfolding low_bit_test by (simp add: bit_unsigned_iff)
  then have odd: "x AND 1 \<noteq> 0 \<longleftrightarrow> odd (unat x)" by (simp only: bit_0)
  show ?case
  proof (cases "x AND 1 = 0")
    case True
    then obtain y where y: "unat x = 2 * y" using odd by (auto elim!: evenE)
    then have y0: "y \<noteq> 0" using 1(2) by (metis mult_0_right unat_eq_0)
    have h: "unat (drop_bit 1 x) = y" by (simp only: unat_drop_bit) (simp add: y)
    then have "drop_bit 1 x \<noteq> 0" using y0 by auto
    from 1(1) [OF 1(2) True this] obtain q where "y = 2 ^ shiftDiv_loop (drop_bit 1 x) * q" "odd q" using h by auto
    then show ?thesis using True 1(2) y by (subst shiftDiv_loop.simps) auto
  next
    case False
    then show ?thesis using 1(2) odd by (subst shiftDiv_loop.simps) auto
  qed
qed

lemma ShiftDiv_value: "x \<noteq> 0 \<Longrightarrow> \<exists>q. unat x = 2 ^ ShiftDiv x * q \<and> odd q"
  by (simp add: ShiftDiv_def shiftDiv_loop_value)

section \<open>Splitting positions\<close>

text \<open>Chunk sizes the code can handle: powers of two, and multiples of the size of a crumb.\<close>

definition chunk_size_ok :: "int \<Rightarrow> bool" where
  "chunk_size_ok n \<longleftrightarrow> 1 < n \<and> n < 2 ^ 31 \<and> ((\<exists>k. n = 2 ^ k) \<or> 16 dvd n)"

lemma mask_of:
  assumes "k < 32"
  shows "(push_bit k 1 - 1 :: u32) = mask k" "uint (mask k :: u32) = mask k"
proof -
  show "(push_bit k 1 - 1 :: u32) = mask k" by (simp add: mask_eq_exp_minus_1 push_bit_eq_mult)
  show "uint (mask k :: u32) = mask k" using assms by (simp only: uint_mask_eq) simp
qed

lemma ShiftDiv_power:
  assumes "0 < n" and "n < 2 ^ 31"
  shows "ShiftDiv (word_of_int n) < 31" "(word_of_int n :: u32) = push_bit (ShiftDiv (word_of_int n)) 1 - 1 + 1 \<longleftrightarrow> n = 2 ^ ShiftDiv (word_of_int n)"
    "n = 2 ^ k \<Longrightarrow> n = 2 ^ ShiftDiv (word_of_int n)"
proof -
  let ?x = "word_of_int n :: u32" and ?k = "ShiftDiv (word_of_int n)"
  have u: "uint ?x = n" using assms by (simp add: uint_word_of_int_eq take_bit_int_eq_self)
  then have un: "int (unat ?x) = n" by simp
  have "?x \<noteq> 0" using u assms(1) by auto
  then obtain q where q: "unat ?x = 2 ^ ?k * q" "odd q" using ShiftDiv_value by blast
  have n: "n = 2 ^ ?k * int q" using un q(1) by (metis of_nat_mult of_nat_numeral of_nat_power)
  have "1 \<le> int q" using q(2) by (cases q) auto
  then have "2 ^ ?k * 1 \<le> 2 ^ ?k * int q" by (intro mult_left_mono) simp_all
  then have "2 ^ ?k \<le> n" using n by linarith
  then have "(2 :: int) ^ ?k < 2 ^ 31" using assms(2) by simp
  then show k: "?k < 31" by (rule power_less_imp_less_exp [rotated]) simp
  have p: "push_bit ?k 1 - 1 + (1 :: u32) = word_of_int (2 ^ ?k)" by (simp add: push_bit_eq_mult)
  have "uint (word_of_int (2 ^ ?k) :: u32) = 2 ^ ?k"
    using k power_strict_increasing [of ?k 32 "2 :: int"] by (simp only: uint_word_of_int_eq) (simp add: take_bit_int_eq_self)
  then show "?x = push_bit ?k 1 - 1 + 1 \<longleftrightarrow> n = 2 ^ ?k" unfolding p using u by metis
  show "n = 2 ^ ?k" if "n = 2 ^ k"
  proof -
    have "2 ^ ?k \<le> (2 :: int) ^ k" using \<open>2 ^ ?k \<le> n\<close> that by simp
    then have le: "?k \<le> k" by (rule power_le_imp_le_exp [rotated]) simp
    have "2 ^ ?k * int q = 2 ^ ?k * 2 ^ (k - ?k)" using that n le by (metis le_add_diff_inverse power_add)
    then have iq: "int q = 2 ^ (k - ?k)" by simp
    have "odd (int q)" using q(2) by simp
    then have "k - ?k = 0" unfolding iq by (cases "k - ?k") simp_all
    then show ?thesis using that le by simp
  qed
qed

lemma setup_power:
  assumes "0 < k" and "k < 31" and "nDataBytesPerChunk dev = 2 ^ k"
  shows "chunkShift (setup_chunk_sizes dev) = k" "chunkMask (setup_chunk_sizes dev) = mask k"
proof -
  have n: "(2 :: int) ^ k < 2 ^ 31" using assms(2) by (intro power_strict_increasing) simp_all
  let ?k = "ShiftDiv (word_of_int (2 ^ k))"
  note s = ShiftDiv_power [of "2 ^ k", OF _ n]
  have "(2 :: int) ^ k = 2 ^ ?k" using s(3) [of k] by simp
  then have k: "?k = k" by simp
  then have e: "(word_of_int (2 ^ k) :: u32) = push_bit k 1 - 1 + 1" using s(2) by simp
  show "chunkShift (setup_chunk_sizes dev) = k" "chunkMask (setup_chunk_sizes dev) = mask k"
    using mask_of(1) [of k] assms(2,3) k e by (simp_all add: setup_chunk_sizes_def Let_def)
qed

lemma setup_crumbs:
  assumes "1 < n" and "n < 2 ^ 31" and "16 dvd n" and "\<nexists>k. n = 2 ^ k" and "nDataBytesPerChunk dev = n"
  shows "chunkShift (setup_chunk_sizes dev) = 0" "crumbShift (setup_chunk_sizes dev) = 4" "crumbMask (setup_chunk_sizes dev) = mask 4"
    "crumbsPerChunk (setup_chunk_sizes dev) = word_of_int (n div 16)"
proof -
  have s4: "ShiftDiv sizeof_PackedTags2TagsPart = 4"
    by (simp add: ShiftDiv_def sizeof_PackedTags2TagsPart_def shiftDiv_loop.simps)
  have e: "(word_of_int n :: u32) \<noteq> push_bit (ShiftDiv (word_of_int n)) 1 - 1 + 1"
    using ShiftDiv_power(2) [of n] assms(1,2,4) by auto
  have m: "(push_bit 4 1 - 1 :: u32) = mask 4" by (rule mask_of) simp
  show "chunkShift (setup_chunk_sizes dev) = 0" "crumbShift (setup_chunk_sizes dev) = 4" "crumbMask (setup_chunk_sizes dev) = mask 4"
    "crumbsPerChunk (setup_chunk_sizes dev) = word_of_int (n div 16)"
    using assms(5) e unfolding setup_chunk_sizes_def Let_def s4 m by (simp_all add: s4 mask_eq_exp_minus_1)
qed

text \<open>
  After the chunk sizes were set up, a position in a file is split into its quotient and remainder
  by the chunk size, for sizes that are powers of two and for multiples of 16, as long as the
  position is below 64 GB and its chunk number fits 32 bits.
\<close>

theorem AddrToChunk_divides:
  assumes "chunk_size_ok (nDataBytesPerChunk dev)" and "0 \<le> addr" and "addr < 2 ^ 32 * 16" and "addr < 2 ^ 32 * nDataBytesPerChunk dev"
  shows "yaffs_AddrToChunk (setup_chunk_sizes dev) addr =
    Some (word_of_int (addr div nDataBytesPerChunk dev), word_of_int (addr mod nDataBytesPerChunk dev))"
proof -
  define n where "n = nDataBytesPerChunk dev"
  have n: "1 < n" "n < 2 ^ 31" using assms(1) by (simp_all add: chunk_size_ok_def n_def)
  show ?thesis
  proof (cases "\<exists>k. n = 2 ^ k")
    case True
    then obtain k where k: "n = 2 ^ k" by blast
    then have "0 < k" using n(1) by (cases k) auto
    moreover have "(2 :: int) ^ k < 2 ^ 31" using n(2) k by simp
    then have "k < 31" by (rule power_less_imp_less_exp [rotated]) simp
    ultimately have st: "chunkShift (setup_chunk_sizes dev) = k" "chunkMask (setup_chunk_sizes dev) = mask k" "0 < k" "k < 31"
      using setup_power [of k dev] k by (simp_all add: n_def)
    have "addr AND uint (mask k :: u32) = addr mod 2 ^ k" using mask_of(2) [of k] st(4) by (simp flip: take_bit_eq_mask take_bit_eq_mod)
    then show ?thesis using st k by (simp add: yaffs_AddrToChunk_def drop_bit_eq_div flip: n_def)
  next
    case False
    then have d: "16 dvd n" using assms(1) by (auto simp: chunk_size_ok_def n_def)
    note st = setup_crumbs [OF n d False, of dev, OF n_def [symmetric]]
    define m where "m = n div 16"
    have m: "n = 16 * m" "0 < m" "m < 2 ^ 27" using d n by (auto simp: m_def)
    define a where "a = addr div 16"
    have a: "0 \<le> a" "a < 2 ^ 32" using assms(2,3) by (simp_all add: a_def)
    have ua: "uint (word_of_int a :: u32) = a" "uint (word_of_int m :: u32) = m"
      using a m by (simp_all add: uint_word_of_int_eq take_bit_int_eq_self)
    have c: "word_of_int a div word_of_int m = (word_of_int (a div m) :: u32)" by (simp add: word_div_def ua)
    have "0 \<le> a mod m" using m(2) by simp
    then have q: "0 \<le> a div m" "a div m * m \<le> a"
      using a m(2) minus_mod_eq_div_mult [of a m] by (simp add: pos_imp_zdiv_nonneg_iff, linarith)
    have cm: "uint (word_of_int (a div m) * word_of_int m :: u32) = a div m * m"
      unfolding wi_hom_mult uint_word_of_int_eq using q a m(2) by (intro take_bit_int_eq_self) auto
    have nz: "(word_of_int m :: u32) \<noteq> 0" using ua(2) m(2) by auto
    have off: "addr AND uint (mask 4 :: u32) = addr mod 16" using mask_of(2) [of 4] by (simp add: take_bit_eq_mod flip: take_bit_eq_mask)
    have dv: "addr div n = a div m" using m(2) by (simp add: a_def m(1) zdiv_zmult2_eq)
    have md: "addr mod n = addr mod 16 + 16 * (a - a div m * m)"
      using m(2) zmod_zmult2_eq [of m addr 16] minus_div_mult_eq_mod [of a m] by (simp add: a_def m(1))
    show ?thesis
      unfolding yaffs_AddrToChunk_def Let_def st(1-3) st(4) [folded m_def] using nz
      by (simp add: drop_bit_eq_div a_def [symmetric] c cm off dv md n_def [symmetric] push_bit_eq_mult wi_hom_add mult.commute)
  qed
qed

theorem AddrToChunk_divides_witness:
  "yaffs_AddrToChunk (setup_chunk_sizes ((zero_device ())\<lparr>nDataBytesPerChunk := 2048\<rparr>)) 5000 = Some (2, 904) \<and>
   yaffs_AddrToChunk (setup_chunk_sizes ((zero_device ())\<lparr>nDataBytesPerChunk := 1040\<rparr>)) 5000 = Some (4, 840)"
proof -
  have "chunk_size_ok 2048" "chunk_size_ok 1040"
    by (auto simp: chunk_size_ok_def intro: exI [of _ 11])
  then show ?thesis
    using AddrToChunk_divides [of "(zero_device ())\<lparr>nDataBytesPerChunk := 2048\<rparr>" 5000]
      AddrToChunk_divides [of "(zero_device ())\<lparr>nDataBytesPerChunk := 1040\<rparr>" 5000] by simp
qed

section \<open>Groups of chunks\<close>

lemma group_base_below:
  assumes "unat c < 2 ^ (width dev + chunkGroupBits dev)"
  shows "unat (group_base dev c) = unat c - unat c mod 2 ^ chunkGroupBits dev"
proof -
  let ?g = "chunkGroupBits dev"
  have "unat c div 2 ^ ?g < 2 ^ width dev"
    using assms by (simp add: less_mult_imp_div_less power_add)
  then have "take_bit (width dev) (drop_bit ?g c) = drop_bit ?g c"
    by (simp only: word_unat_eq_iff unsigned_take_bit_eq unat_drop_bit take_bit_nat_eq_self)
  then have b: "group_base dev c = push_bit ?g (drop_bit ?g c)" by (simp add: group_base_def)
  have "unat c < 2 ^ LENGTH(32)" by (rule unsigned_less)
  then have "unat c < 2 ^ 32" by simp
  moreover have "unat c div 2 ^ ?g * 2 ^ ?g \<le> unat c" by (rule div_times_less_eq_dividend)
  ultimately have "unat c div 2 ^ ?g * 2 ^ ?g < 2 ^ 32" by (rule order_le_less_trans [rotated])
  then have "take_bit 32 (push_bit ?g (unat c div 2 ^ ?g)) = unat c div 2 ^ ?g * 2 ^ ?g"
    unfolding push_bit_eq_mult by (rule take_bit_nat_eq_self)
  then have "unat (push_bit ?g (drop_bit ?g c)) = unat c div 2 ^ ?g * 2 ^ ?g"
    by (simp only: unsigned_push_bit_eq unat_drop_bit len_of_numeral_defs) simp
  then show ?thesis by (simp add: b minus_mod_eq_div_mult)
qed

lemma setup_tnodes_shape:
  assumes "1 < x" and "x \<le> 2 ^ 30" and "x = nChunksPerBlock dev * (internalEndBlock dev + 1)"
  shows "\<exists>dev'. setup_tnodes dev = Some (if nChunksPerBlock dev < chunkGroupSize dev' then YAFFS_FAIL else YAFFS_OK, dev') \<and>
    width_ok dev' \<and> x \<le> 2 ^ (width dev' + chunkGroupBits dev') \<and> chunkGroupSize dev' = 2 ^ chunkGroupBits dev' \<and>
    (\<not> wideTnodesDisabled dev \<longrightarrow> chunkGroupBits dev' = 0) \<and> (wideTnodesDisabled dev \<longrightarrow> width dev' = 16)"
proof -
  define b where "b = ShiftsGE (word_of_int x)"
  have u: "int (unat (word_of_int x :: u32)) = x" using assms(1,2) by (simp add: uint_word_of_int_eq take_bit_int_eq_self)
  then have nz: "(word_of_int x :: u32) \<noteq> 0" using assms(1) by auto
  have "int (unat (word_of_int x :: u32)) \<le> int (2 ^ 30)" unfolding u using assms(2) by simp
  then have b30: "b \<le> 30" using ShiftsGE_least [OF nz, of 30] unfolding b_def of_nat_le_iff by blast
  have "int (unat (word_of_int x :: u32)) \<le> int (2 ^ b)" using ShiftsGE_value(1) [OF nz] unfolding b_def of_nat_le_iff .
  then have xb: "x \<le> 2 ^ b" unfolding u by simp
  have mask: "k < 32 \<Longrightarrow> (push_bit k 1 - 1 :: u32) = mask k" for k by (rule mask_of)
  show ?thesis
  proof (cases "wideTnodesDisabled dev")
    case False
    define w where "w = (if odd b then b + 1 else b)"
    define v where "v = (if w < 16 then 16 else w)"
    have w: "even w" "w \<le> 30" "b \<le> w"
    proof -
      show "even w" "b \<le> w" by (simp_all add: w_def)
      have "odd b \<Longrightarrow> b \<noteq> 30" by auto
      then show "w \<le> 30" using b30 by (auto simp: w_def)
    qed
    have v: "even v" "16 \<le> v" "v < 32" "w \<le> v" using w by (auto simp: v_def)
    define W :: u32 where "W = (if w < 16 then 16 else of_nat w)"
    have uv: "unat W = v" using w(2) by (auto simp: W_def v_def unat_of_nat)
    have first: "(if \<not> wideTnodesDisabled dev then
               (let bits = (if odd b then b + 1 else b)
                in (bits, dev\<lparr>tnodeWidth := (if bits < 16 then 16 else of_nat bits)\<rparr>))
             else (b, dev\<lparr>tnodeWidth := 16\<rparr>)) = (w, dev\<lparr>tnodeWidth := W\<rparr>)"
      using False by (simp only: Let_def w_def [symmetric] W_def [symmetric]) simp
    define dev' where "dev' = dev\<lparr>tnodeWidth := W, tnodeMask := mask v, chunkGroupBits := 0, chunkGroupSize := 1\<rparr>"
    have "setup_tnodes dev = Some (if nChunksPerBlock dev < chunkGroupSize dev' then YAFFS_FAIL else YAFFS_OK, dev')"
      unfolding setup_tnodes_def assms(3) [symmetric] Let_def [of "word_of_int x :: u32"] Let_def [of "ShiftsGE (word_of_int x)"] b_def [symmetric] Let_def [of b]
        first prod.case
      using v(3,4) mask [of v] by (simp add: Let_def uv dev'_def)
    moreover have "x \<le> 2 ^ v" using xb w(3) v(4) order_trans [OF xb power_increasing [of b v "2 :: int"]] by simp
    ultimately show ?thesis using False v uv by (intro exI [of _ dev']) (simp add: width_ok_def dev'_def)
  next
    case True
    define g where "g = (if b \<le> 16 then 0 else b - 16)"
    have g: "g \<le> 14" "b \<le> 16 + g" using b30 by (auto simp: g_def)
    have "(2 :: int) ^ g \<le> 2 ^ 14" using g(1) by (intro power_increasing) simp_all
    then have gm: "(2 :: int) ^ g mod 65536 = 2 ^ g" by simp
    have second: "(if \<not> wideTnodesDisabled dev then
               (let bits = (if odd b then b + 1 else b)
                in (bits, dev\<lparr>tnodeWidth := (if bits < 16 then 16 else of_nat bits)\<rparr>))
             else (b, dev\<lparr>tnodeWidth := 16\<rparr>)) = (b, dev\<lparr>tnodeWidth := 16\<rparr>)"
      using True by (simp only: not_True_eq_False if_False)
    define dev' where "dev' = dev\<lparr>tnodeWidth := 16, tnodeMask := mask 16, chunkGroupBits := g, chunkGroupSize := 2 ^ g\<rparr>"
    have "setup_tnodes dev = Some (if nChunksPerBlock dev < chunkGroupSize dev' then YAFFS_FAIL else YAFFS_OK, dev')"
      unfolding setup_tnodes_def assms(3) [symmetric] Let_def [of "word_of_int x :: u32"] Let_def [of "ShiftsGE (word_of_int x)"] b_def [symmetric] Let_def [of b]
        second prod.case
      using mask [of 16] gm by (cases "b \<le> 16") (simp_all add: Let_def dev'_def g_def)
    moreover have "x \<le> 2 ^ (16 + g)" using order_trans [OF xb power_increasing [OF g(2), of "2 :: int"]] by simp
    ultimately show ?thesis using True g(1) by (intro exI [of _ dev']) (simp add: width_ok_def dev'_def)
  qed
qed

text \<open>
  Setting up the tnodes for a device of at most a billion chunks always gives entries of a width the
  code can work with, and the geometry is accepted exactly if a group of chunks is not larger than a
  block. The entry of every chunk of the device then names the group the chunk lies in, so that
  looking through the group finds it.
\<close>

theorem setup_tnodes_covers:
  assumes "1 < nChunksPerBlock dev * (internalEndBlock dev + 1)" and "nChunksPerBlock dev * (internalEndBlock dev + 1) \<le> 2 ^ 30"
  shows "\<exists>r dev'. setup_tnodes dev = Some (r, dev') \<and> width_ok dev' \<and> (r = YAFFS_OK \<longleftrightarrow> chunkGroupSize dev' \<le> nChunksPerBlock dev) \<and>
    (\<forall>c. int (unat c) < nChunksPerBlock dev * (internalEndBlock dev + 1) \<longrightarrow>
       int (unat (group_base dev' c)) \<le> int (unat c) \<and> int (unat c) < int (unat (group_base dev' c)) + chunkGroupSize dev')"
proof -
  let ?x = "nChunksPerBlock dev * (internalEndBlock dev + 1)"
  obtain dev' where d: "setup_tnodes dev = Some (if nChunksPerBlock dev < chunkGroupSize dev' then YAFFS_FAIL else YAFFS_OK, dev')"
    "width_ok dev'" "?x \<le> 2 ^ (width dev' + chunkGroupBits dev')" "chunkGroupSize dev' = 2 ^ chunkGroupBits dev'"
    using setup_tnodes_shape [OF assms refl] by blast
  have "int (unat (group_base dev' c)) \<le> int (unat c) \<and> int (unat c) < int (unat (group_base dev' c)) + chunkGroupSize dev'"
    if c: "int (unat c) < ?x" for c
  proof -
    have "int (unat c) < int (2 ^ (width dev' + chunkGroupBits dev'))" using c d(3) by simp
    then have "unat c < 2 ^ (width dev' + chunkGroupBits dev')" unfolding of_nat_less_iff .
    note g = group_base_below [OF this]
    have "unat c mod 2 ^ chunkGroupBits dev' < 2 ^ chunkGroupBits dev'" by simp
    then have "unat c < unat (group_base dev' c) + 2 ^ chunkGroupBits dev'" unfolding g
      using mod_less_eq_dividend [of "unat c" "2 ^ chunkGroupBits dev'"] by linarith
    then have "int (unat c) < int (unat (group_base dev' c) + 2 ^ chunkGroupBits dev')" unfolding of_nat_less_iff .
    then show ?thesis using g by (simp add: d(4))
  qed
  then show ?thesis using d(1,2) by (auto simp: YAFFS_OK_def YAFFS_FAIL_def)
qed

theorem setup_tnodes_covers_witness:
  "\<exists>r dev'. setup_tnodes ((zero_device ())\<lparr>nChunksPerBlock := 64, internalEndBlock := 2048\<rparr>) = Some (r, dev') \<and> width_ok dev' \<and>
    int (unat (group_base dev' 131135)) \<le> 131135"
proof -
  obtain r dev' where "setup_tnodes ((zero_device ())\<lparr>nChunksPerBlock := 64, internalEndBlock := 2048\<rparr>) = Some (r, dev')" "width_ok dev'"
    "\<forall>c. int (unat c) < 131136 \<longrightarrow> int (unat (group_base dev' c)) \<le> int (unat c)"
    using setup_tnodes_covers [of "(zero_device ())\<lparr>nChunksPerBlock := 64, internalEndBlock := 2048\<rparr>"] by auto
  moreover from this(3) have "int (unat (131135 :: u32)) < 131136 \<longrightarrow> int (unat (group_base dev' 131135)) \<le> int (unat (131135 :: u32))" by blast
  then have "int (unat (group_base dev' 131135)) \<le> 131135" by simp
  ultimately show ?thesis by blast
qed

end
