(* ===== verification/ObjectInvariant.thy ===== *)
theory ObjectInvariant
  imports Objects
begin

text \<open>
  The invariant of the objects in memory. B gives the objects hashed into each bucket, F the stock of free
  objects in its order, and D the children of each directory. An object is live if it is not free.
\<close>

section \<open>The invariant\<close>

definition live :: "'f yaffs_System \<Rightarrow> nat list \<Rightarrow> nat \<Rightarrow> yaffs_Object \<Rightarrow> bool" where
  "live s F a ob \<longleftrightarrow> objects s a = Some ob \<and> a \<notin> set F"

definition heads :: "nat \<Rightarrow> list_ptr set" where
  "heads a = {HashLink a, HardLinks a, Siblings a, Children a}"

definition memory_ok :: "'f yaffs_System \<Rightarrow> bool" where
  "memory_ok s \<longleftrightarrow> 0 < nextObject s \<and> (\<forall>a\<in>dom (objects s). 0 < a \<and> a < nextObject s \<and> heads a \<subseteq> dom (lists s))"

definition hash_ok :: "'f yaffs_System \<Rightarrow> nat list \<Rightarrow> (nat \<Rightarrow> nat list) \<Rightarrow> bool" where
  "hash_ok s F B \<longleftrightarrow> length (bucketCount s) = YAFFS_NOBJECT_BUCKETS \<and>
     (\<forall>k<YAFFS_NOBJECT_BUCKETS. ring (lists s) (Bucket k) (map HashLink (B k)) \<and> bucketCount s ! k = int (length (B k)) \<and>
        (\<forall>a\<in>set (B k). \<exists>ob. live s F a ob \<and> bucket_of ob = k)) \<and>
     (\<forall>a ob. live s F a ob \<longrightarrow> a \<in> set (B (bucket_of ob)) \<or> ring (lists s) (HashLink a) [])"

fun free_chain :: "list_ptr list_store \<Rightarrow> nat \<Rightarrow> nat list \<Rightarrow> bool" where
  "free_chain l p [] = (p = 0)"
| "free_chain l p (a # as) = (p = a \<and> (\<exists>q. next_of l (Siblings a) = Some (to_list_ptr q) \<and> free_chain l q as))"

definition free_ok :: "'f yaffs_System \<Rightarrow> nat list \<Rightarrow> bool" where
  "free_ok s F \<longleftrightarrow> free_chain (lists s) (freeObjects s) F \<and> distinct F \<and> set F \<subseteq> dom (objects s)"

definition directory_ok :: "'f yaffs_System \<Rightarrow> nat list \<Rightarrow> (nat \<Rightarrow> nat list) \<Rightarrow> bool" where
  "directory_ok s F D \<longleftrightarrow>
     (\<forall>d ob. live s F d ob \<and> variantType ob = DIRECTORY \<longrightarrow> ring (lists s) (Children d) (map Siblings (D d))) \<and>
     (\<forall>d. D d \<noteq> [] \<longrightarrow> (\<exists>ob. live s F d ob \<and> variantType ob = DIRECTORY)) \<and>
     (\<forall>d. \<forall>a\<in>set (D d). \<exists>ob. live s F a ob \<and> parent ob = d) \<and>
     (\<forall>a ob. live s F a ob \<longrightarrow> a \<in> set (D (parent ob)) \<or> ring (lists s) (Siblings a) []) \<and>
     (lostNFoundDir s \<noteq> 0 \<longrightarrow> (\<exists>ob. live s F (lostNFoundDir s) ob \<and> variantType ob = DIRECTORY))"

definition objects_ok :: "'f yaffs_System \<Rightarrow> nat list \<Rightarrow> (nat \<Rightarrow> nat list) \<Rightarrow> (nat \<Rightarrow> nat list) \<Rightarrow> bool" where
  "objects_ok s F B D \<longleftrightarrow> memory_ok s \<and> free_ok s F \<and> hash_ok s F B \<and> directory_ok s F D"

lemma bucket_of_less: "bucket_of ob < YAFFS_NOBJECT_BUCKETS"
  by (simp add: bucket_of_def yaffs_HashFunction_def YAFFS_NOBJECT_BUCKETS_def nat_less_iff)

lemma hash_less: "yaffs_HashFunction n < YAFFS_NOBJECT_BUCKETS"
  by (simp add: yaffs_HashFunction_def YAFFS_NOBJECT_BUCKETS_def nat_less_iff)

section \<open>What each part depends on\<close>

definition agree :: "list_ptr set \<Rightarrow> list_ptr list_store \<Rightarrow> list_ptr list_store \<Rightarrow> bool" where
  "agree P l l' \<longleftrightarrow> (\<forall>x\<in>P. next_of l' x = next_of l x \<and> prev_of l' x = prev_of l x)"

lemma agree_ring:
  assumes "agree P l l'" and "ring l h xs" and "insert h (set xs) \<subseteq> P"
  shows "ring l' h xs"
proof (rule ring_frame [OF assms(2)])
  show "next_of l' x = next_of l x \<and> prev_of l' x = prev_of l x" if "x \<in> insert h (set xs)" for x
    using subsetD [OF assms(3) that] assms(1) by (simp add: agree_def)
qed

lemma changed_agree: "changed A l l' \<Longrightarrow> A \<inter> P = {} \<Longrightarrow> agree P l l'"
  by (auto simp: changed_def agree_def)

definition hash_heads :: "list_ptr set" where
  "hash_heads = range HashLink \<union> range Bucket"

definition dir_heads :: "list_ptr set" where
  "dir_heads = range Siblings \<union> range Children"

lemma hash_frame:
  assumes "hash_ok s F B" and "agree hash_heads (lists s) (lists s')" and "bucketCount s' = bucketCount s"
    and "\<And>a. a \<notin> set F \<Longrightarrow> map_option bucket_of (objects s' a) = map_option bucket_of (objects s a)"
  shows "hash_ok s' F B"
proof -
  have ob: "(\<exists>ob. live s' F a ob \<and> bucket_of ob = k) = (\<exists>ob. live s F a ob \<and> bucket_of ob = k)" for a k
    using assms(4) [of a] by (cases "objects s a"; cases "objects s' a") (auto simp: live_def)
  have 1: "ring (lists s') (Bucket k) (map HashLink (B k))" if "ring (lists s) (Bucket k) (map HashLink (B k))" for k
    by (rule agree_ring [OF assms(2) that]) (auto simp: hash_heads_def)
  have 2: "ring (lists s') (HashLink a) []" if "ring (lists s) (HashLink a) []" for a
    by (rule agree_ring [OF assms(2) that]) (auto simp: hash_heads_def)
  have 3: "a \<in> set (B (bucket_of ob)) \<or> ring (lists s') (HashLink a) []" if l: "live s' F a ob" for a ob
  proof -
    obtain ob0 where "live s F a ob0" "bucket_of ob0 = bucket_of ob" using ob [of a "bucket_of ob"] l by blast
    then show ?thesis using assms(1) 2 by (metis hash_ok_def)
  qed
  show ?thesis unfolding hash_ok_def using assms(1,3) 1 3 by (simp add: hash_ok_def ob)
qed

lemma free_frame:
  assumes "free_ok s F" and "freeObjects s' = freeObjects s" and "dom (objects s) \<subseteq> dom (objects s')"
    and "\<And>a. a \<in> set F \<Longrightarrow> next_of (lists s') (Siblings a) = next_of (lists s) (Siblings a)"
  shows "free_ok s' F"
proof -
  have "free_chain l' p G = free_chain l p G" if "\<And>a. a \<in> set G \<Longrightarrow> next_of l' (Siblings a) = next_of l (Siblings a)" for l l' p G
    using that by (induction G arbitrary: p) auto
  from this [of F, OF assms(4)] show ?thesis using assms(1-3) by (simp add: free_ok_def subset_trans [OF _ assms(3)])
qed

lemma directory_frame:
  assumes "directory_ok s F D" and "agree (dir_heads - Siblings ` set F) (lists s) (lists s')" and "lostNFoundDir s' = lostNFoundDir s"
    and "\<And>a. a \<notin> set F \<Longrightarrow> map_option (\<lambda>ob. (variantType ob, parent ob)) (objects s' a) = map_option (\<lambda>ob. (variantType ob, parent ob)) (objects s a)"
  shows "directory_ok s' F D"
proof -
  have ob: "(\<exists>ob. live s' F a ob \<and> Q (variantType ob) (parent ob)) = (\<exists>ob. live s F a ob \<and> Q (variantType ob) (parent ob))" for a Q
    using assms(4) [of a] by (cases "objects s a"; cases "objects s' a") (auto simp: live_def)
  have bk: "\<exists>ob0. live s F a ob0 \<and> variantType ob0 = variantType ob \<and> parent ob0 = parent ob" if "live s' F a ob" for a ob
    using that ob [of a "\<lambda>v p. v = variantType ob \<and> p = parent ob"] by blast
  have mem: "a \<notin> set F" if "a \<in> set (D d)" for a d using assms(1) that by (auto simp: directory_ok_def live_def)
  have 1: "ring (lists s') (Children d) (map Siblings (D d))" if "ring (lists s) (Children d) (map Siblings (D d))" for d
    by (rule agree_ring [OF assms(2) that]) (use mem in \<open>auto simp: dir_heads_def\<close>)
  have 2: "ring (lists s') (Siblings a) []" if "ring (lists s) (Siblings a) []" "a \<notin> set F" for a
    by (rule agree_ring [OF assms(2) that(1)]) (use that(2) in \<open>auto simp: dir_heads_def\<close>)
  have nf: "a \<notin> set F" if "live s' F a ob" for a ob using that by (simp add: live_def)
  have "\<forall>d ob. live s' F d ob \<and> variantType ob = DIRECTORY \<longrightarrow> ring (lists s') (Children d) (map Siblings (D d))"
    using bk 1 assms(1) unfolding directory_ok_def by metis
  moreover have "\<forall>a ob. live s' F a ob \<longrightarrow> a \<in> set (D (parent ob)) \<or> ring (lists s') (Siblings a) []"
    using bk 2 nf assms(1) unfolding directory_ok_def by metis
  moreover have "(\<exists>ob. live s' F a ob \<and> variantType ob = v) = (\<exists>ob. live s F a ob \<and> variantType ob = v)"
    "(\<exists>ob. live s' F a ob \<and> parent ob = d) = (\<exists>ob. live s F a ob \<and> parent ob = d)" for a v d
    using ob [of a "\<lambda>x p. x = v"] ob [of a "\<lambda>x p. p = d"] by simp_all
  ultimately show ?thesis using assms(1,3) unfolding directory_ok_def by simp
qed

lemma memory_frame:
  "memory_ok s \<Longrightarrow> dom (objects s') = dom (objects s) \<Longrightarrow> dom (lists s) \<subseteq> dom (lists s') \<Longrightarrow> nextObject s' = nextObject s \<Longrightarrow> memory_ok s'"
  unfolding memory_ok_def by (simp only:) (meson subset_trans)

text \<open>Changes of fields that the invariant does not mention.\<close>

lemma objects_ok_other:
  assumes "objects_ok s F B D"
    and "lists s' = lists s" "bucketCount s' = bucketCount s" "freeObjects s' = freeObjects s" "nextObject s' = nextObject s"
      "lostNFoundDir s' = lostNFoundDir s"
    and "\<And>a. map_option (\<lambda>ob. (ob_objectId ob, variantType ob, parent ob)) (objects s' a) =
      map_option (\<lambda>ob. (ob_objectId ob, variantType ob, parent ob)) (objects s a)"
  shows "objects_ok s' F B D"
proof -
  have "map_option f (objects s' a) = map_option f (objects s a)" if "\<And>ob. f ob = g (ob_objectId ob, variantType ob, parent ob)" for f g a
  proof -
    have "f = g \<circ> (\<lambda>ob. (ob_objectId ob, variantType ob, parent ob))" using that by auto
    then show ?thesis using arg_cong [OF assms(7), of "map_option g" a] by (simp only: option.map_comp)
  qed
  note g = this
  have m: "map_option bucket_of (objects s' a) = map_option bucket_of (objects s a)"
    "map_option (\<lambda>ob. (variantType ob, parent ob)) (objects s' a) = map_option (\<lambda>ob. (variantType ob, parent ob)) (objects s a)" for a
    by (rule g [of bucket_of "\<lambda>(i, _). yaffs_HashFunction (sint i)"], simp add: bucket_of_def)
      (rule g [of "\<lambda>ob. (variantType ob, parent ob)" "\<lambda>(i, v, p). (v, p)"], simp)
  have d: "dom (objects s') = dom (objects s)"
  proof (rule set_eqI)
    show "a \<in> dom (objects s') \<longleftrightarrow> a \<in> dom (objects s)" for a
      using assms(7) [of a] by (cases "objects s a"; cases "objects s' a") auto
  qed
  have parts: "memory_ok s" "free_ok s F" "hash_ok s F B" "directory_ok s F D" using assms(1) by (simp_all add: objects_ok_def)
  have "memory_ok s'" by (rule memory_frame [OF parts(1) d]) (simp_all add: assms(2,5))
  moreover have "free_ok s' F" by (rule free_frame [OF parts(2)]) (simp_all add: assms(2,4) d)
  moreover have "hash_ok s' F B" by (rule hash_frame [OF parts(3)]) (simp_all add: assms(2,3) m agree_def)
  moreover have "directory_ok s' F D" by (rule directory_frame [OF parts(4)]) (simp_all add: assms(2,6) m agree_def)
  ultimately show ?thesis by (simp add: objects_ok_def)
qed

lemma upd_object_ok:
  assumes "objects_ok s F B D" and "objects s a = Some ob"
    and "\<And>ob. ob_objectId (f ob) = ob_objectId ob \<and> variantType (f ob) = variantType ob \<and> parent (f ob) = parent ob"
  shows "\<exists>s'. upd_object a f s = Some s' \<and> objects_ok s' F B D \<and> s' = s\<lparr>objects := (objects s)(a \<mapsto> f ob)\<rparr>"
  using assms(2) objects_ok_other [OF assms(1), of "s\<lparr>objects := (objects s)(a \<mapsto> f ob)\<rparr>"] by (simp add: upd_object_def assms(3))

section \<open>Looking up\<close>

fun find_id :: "'f yaffs_System \<Rightarrow> u32 \<Rightarrow> nat list \<Rightarrow> nat" where
  "find_id s number [] = 0"
| "find_id s number (a # as) = (if map_option ob_objectId (objects s a) = Some number then a else find_id s number as)"

lemma find_id_0: "0 \<notin> set as \<Longrightarrow> find_id s number as = 0 \<longleftrightarrow> (\<forall>a\<in>set as. map_option ob_objectId (objects s a) \<noteq> Some number)"
  by (induction as) auto

lemma find_id_cong: "(\<And>a. a \<in> set as \<Longrightarrow> map_option ob_objectId (objects s' a) = map_option ob_objectId (objects s a)) \<Longrightarrow>
    find_id s' number as = find_id s number as"
  by (induction as) auto

lemma FindObjectByNumber_find:
  assumes "hash_ok s F B"
  shows "yaffs_FindObjectByNumber number s = Some (find_id s number (B (yaffs_HashFunction (sint number))))"
proof -
  let ?k = "yaffs_HashFunction (sint number)"
  let ?body = "\<lambda>i (u :: unit). do { a \<leftarrow> hashLink_entry i; ob \<leftarrow> objects s a; Some (if ob_objectId ob = number then Some a else None, u) }"
  have r: "ring (lists s) (Bucket ?k) (map HashLink (B ?k))" "\<forall>a\<in>set (B ?k). objects s a \<noteq> None"
    using assms hash_less [of "sint number"] by (fastforce simp: hash_ok_def live_def)+
  have "visit ?body (map HashLink as) () = Some (if \<forall>a\<in>set as. map_option ob_objectId (objects s a) \<noteq> Some number
      then None else Some (find_id s number as), ())"
    if "\<forall>a\<in>set as. objects s a \<noteq> None" for as
    using that
  proof (induction as)
    case (Cons a as)
    then obtain ob where "objects s a = Some ob" by auto
    with Cons show ?case by (simp add: hashLink_entry_def)
  qed simp
  moreover have "list_for_each (\<lambda>_. lists s) (Bucket ?k) ?body () = visit ?body (map HashLink (B ?k)) ()"
    by (rule list_for_each_ring) (use r in simp_all)
  moreover have "find_id s number as = 0" if "\<forall>a\<in>set as. map_option ob_objectId (objects s a) \<noteq> Some number" for as
    using that by (induction as) auto
  ultimately show ?thesis using r(2) by (simp add: yaffs_FindObjectByNumber_def)
qed

end
