(* ===== verification/ObjectOps.thy ===== *)
theory ObjectOps
  imports ObjectInvariant
begin

text \<open>
  What each operation on objects does under the invariant: moving objects between directories, taking
  objects from the stock and giving them back, and the hash table.
\<close>

section \<open>Directories\<close>

definition detach :: "nat \<Rightarrow> (nat \<Rightarrow> nat list) \<Rightarrow> nat \<Rightarrow> nat list" where
  "detach a D d = remove1 a (D d)"

lemma directory_okD:
  assumes "directory_ok s F D"
  shows "live s F d ob \<Longrightarrow> variantType ob = DIRECTORY \<Longrightarrow> ring (lists s) (Children d) (map Siblings (D d))"
    "D d \<noteq> [] \<Longrightarrow> \<exists>ob. live s F d ob \<and> variantType ob = DIRECTORY"
    "a \<in> set (D d) \<Longrightarrow> \<exists>ob. live s F a ob \<and> parent ob = d"
    "live s F a ob \<Longrightarrow> a \<in> set (D (parent ob)) \<or> ring (lists s) (Siblings a) []"
    "lostNFoundDir s \<noteq> 0 \<Longrightarrow> \<exists>ob. live s F (lostNFoundDir s) ob \<and> variantType ob = DIRECTORY"
  using assms by (auto simp: directory_ok_def)

lemma objects_okD:
  assumes "objects_ok s F B D"
  shows "memory_ok s" "free_ok s F" "hash_ok s F B" "directory_ok s F D"
  using assms by (simp_all add: objects_ok_def)

lemma in_directory:
  "directory_ok s F D \<Longrightarrow> live s F a ob \<Longrightarrow> a \<in> set (D d) \<Longrightarrow> d = parent ob"
  using directory_okD(3) [of s F D a d] by (auto simp: live_def)

lemma member_ring:
  assumes "directory_ok s F D" and "a \<in> set (D d)"
  shows "ring (lists s) (Children d) (map Siblings (D d))" "\<exists>ob. live s F d ob \<and> variantType ob = DIRECTORY"
proof -
  have "D d \<noteq> []" using assms(2) by auto
  then show "\<exists>ob. live s F d ob \<and> variantType ob = DIRECTORY" using directory_okD(2) [OF assms(1)] by blast
  then show "ring (lists s) (Children d) (map Siblings (D d))" using directory_okD(1) [OF assms(1)] by blast
qed

lemma alone_nowhere: "directory_ok s F D \<Longrightarrow> ring (lists s) (Siblings a) [] \<Longrightarrow> a \<notin> set (D d)"
  using member_ring(1) [of s F D a d] ring_alone [of "lists s" "Siblings a" "Children d" "map Siblings (D d)"] by auto

lemma detach_nowhere: "directory_ok s F D \<Longrightarrow> ring (lists s) (Siblings a) [] \<Longrightarrow> detach a D = D"
  using alone_nowhere by (fastforce simp: detach_def remove1_idem)

lemma live_dom: "live s F a ob \<Longrightarrow> a \<in> dom (objects s)"
  by (auto simp: live_def)

lemma Remove_ok:
  assumes ok: "objects_ok s F B D" and l: "live s F a ob"
  shows "\<exists>ls. yaffs_RemoveObjectFromDirectory a s = Some (s\<lparr>lists := ls, objects := (objects s)(a \<mapsto> ob\<lparr>parent := 0\<rparr>)\<rparr>) \<and>
    objects_ok (s\<lparr>lists := ls, objects := (objects s)(a \<mapsto> ob\<lparr>parent := 0\<rparr>)\<rparr>) F B (detach a D) \<and> ring ls (Siblings a) [] \<and>
    dom ls = dom (lists s) \<and> agree (- dir_heads) (lists s) ls"
proof -
  note p = objects_okD [OF ok]
  let ?d = "parent ob"
  have nf: "a \<notin> set F" "objects s a = Some ob" using l by (auto simp: live_def)
  \<comment> \<open>the new pointers\<close>
  obtain ls A where ls: "list_del_init (Siblings a) (lists s) = Some ls" "ring ls (Siblings a) []" "changed A (lists s) ls"
      "A = (if a \<in> set (D ?d) then insert (Children ?d) (Siblings ` set (D ?d)) else {Siblings a})"
      "a \<in> set (D ?d) \<longrightarrow> ring ls (Children ?d) (map Siblings (remove1 a (D ?d)))"
  proof (cases "a \<in> set (D ?d)")
    case True
    then obtain as bs where D: "D ?d = as @ a # bs" "a \<notin> set as" by (metis split_list_first)
    obtain ob' where "live s F ?d ob'" "variantType ob' = DIRECTORY" using directory_okD(2) [OF p(4), of ?d] D by auto
    then have "ring (lists s) (Children ?d) (map Siblings as @ Siblings a # map Siblings bs)" using directory_okD(1) [OF p(4)] D by fastforce
    from list_del_init_ring [OF this] show thesis using that True D by (auto simp: remove1_append image_Un)
  next
    case False
    then have "ring (lists s) (Siblings a) []" using directory_okD(4) [OF p(4) l] by simp
    from list_del_init_self [OF this] show thesis using that False by auto
  qed
  let ?s = "s\<lparr>lists := ls, objects := (objects s)(a \<mapsto> ob\<lparr>parent := 0\<rparr>)\<rparr>"
  have A: "A \<subseteq> dir_heads - Siblings ` set F"
    using ls(4) nf directory_okD(3) [OF p(4), of _ ?d] by (auto simp: dir_heads_def live_def split: if_splits)
  have ag: "agree (- dir_heads) (lists s) ls" "agree hash_heads (lists s) ls"
    by (rule changed_agree [OF ls(3)], use A in \<open>auto simp: dir_heads_def hash_heads_def\<close>)+
  have dm: "dom ls = dom (lists s)" using ls(3) by (simp add: changed_def)
  have live': "live ?s F b ob' \<longleftrightarrow> (if b = a then ob' = ob\<lparr>parent := 0\<rparr> else live s F b ob')" for b ob'
    using nf by (auto simp: live_def)
  have nx: "next_of ls (Siblings b) = next_of (lists s) (Siblings b)" if "b \<in> set F" for b
    using ls(3) A that by (auto simp: changed_def)
  have dirs: "ring ls (Children d) (map Siblings (detach a D d))" if "live s F d ob'" "variantType ob' = DIRECTORY" for d ob'
  proof (cases "d = ?d \<and> a \<in> set (D ?d)")
    case False
    have "a \<notin> set (D d)" using False in_directory [OF p(4) l] by auto
    moreover have "set (D d) \<inter> set (D ?d) = {}" if "d \<noteq> ?d"
      using that directory_okD(3) [OF p(4)] in_directory [OF p(4)] by blast
    then have "insert (Children d) (set (map Siblings (D d))) \<inter> A = {}"
      using ls(4) False \<open>a \<notin> set (D d)\<close> by auto
    ultimately show ?thesis
      using changed_ring [OF ls(3) directory_okD(1) [OF p(4) that]] by (simp add: detach_def remove1_idem)
  qed (use ls(5) in \<open>auto simp: detach_def\<close>)
  have alone: "ring ls (Siblings b) []" if "ring (lists s) (Siblings b) []" "b \<noteq> a" "live s F b ob'" "b \<notin> set (D (parent ob'))" for b ob'
  proof (rule changed_ring [OF ls(3) that(1)])
    show "insert (Siblings b) (set []) \<inter> A = {}"
      using ls(4) that in_directory [OF p(4) that(3)] by auto
  qed
  have "directory_ok ?s F (detach a D)"
    unfolding directory_ok_def
  proof (intro conjI allI impI ballI)
    fix d ob' assume "live ?s F d ob' \<and> variantType ob' = DIRECTORY"
    then show "ring (lists ?s) (Children d) (map Siblings (detach a D d))"
      using dirs l live' by (auto split: if_splits)
  next
    fix d assume "detach a D d \<noteq> []"
    then have "D d \<noteq> []" by (auto simp: detach_def)
    then obtain ob' where "live s F d ob'" "variantType ob' = DIRECTORY" using directory_okD(2) [OF p(4)] by blast
    then show "\<exists>ob'. live ?s F d ob' \<and> variantType ob' = DIRECTORY" using l unfolding live' by (cases "d = a") (auto simp: live_def)
  next
    fix d b assume b: "b \<in> set (detach a D d)"
    then have "b \<in> set (D d)" using set_remove1_subset [of a "D d"] by (auto simp: detach_def)
    then obtain ob' where ob': "live s F b ob'" "parent ob' = d" using directory_okD(3) [OF p(4)] by blast
    have "b \<noteq> a"
    proof
      assume "b = a"
      with ob' l have "d = ?d" by (auto simp: live_def)
      moreover have "distinct (D ?d)"
      proof -
        have "D ?d \<noteq> []" using \<open>b \<in> set (D d)\<close> \<open>d = ?d\<close> by auto
        then obtain o2 where "live s F ?d o2" "variantType o2 = DIRECTORY" using directory_okD(2) [OF p(4)] by blast
        from directory_okD(1) [OF p(4) this] show ?thesis by (simp add: ring_def distinct_map)
      qed
      ultimately show False using b \<open>b = a\<close> by (simp add: detach_def)
    qed
    with ob' show "\<exists>ob'. live ?s F b ob' \<and> parent ob' = d" unfolding live' by auto
  next
    fix b ob' assume b: "live ?s F b ob'"
    show "b \<in> set (detach a D (parent ob')) \<or> ring (lists ?s) (Siblings b) []"
    proof (cases "b = a")
      case False
      with b have b': "live s F b ob'" unfolding live' by simp
      show ?thesis using directory_okD(4) [OF p(4) b'] alone [OF _ False b'] False by (auto simp: detach_def)
    qed (use ls(2) in simp)
  next
    assume "lostNFoundDir ?s \<noteq> 0"
    then obtain o2 where "live s F (lostNFoundDir s) o2" "variantType o2 = DIRECTORY" using directory_okD(5) [OF p(4)] by auto
    then show "\<exists>ob'. live ?s F (lostNFoundDir ?s) ob' \<and> variantType ob' = DIRECTORY"
      using l unfolding live' by (cases "lostNFoundDir s = a") (auto simp: live_def)
  qed
  moreover have "memory_ok ?s" by (rule memory_frame [OF p(1)]) (use nf dm in auto)
  moreover have "free_ok ?s F" by (rule free_frame [OF p(2)]) (use nx in auto)
  moreover have "hash_ok ?s F B" by (rule hash_frame [OF p(3)]) (use ag nf in \<open>auto simp: bucket_of_def\<close>)
  ultimately have "objects_ok ?s F B (detach a D)" by (simp add: objects_ok_def)
  moreover have "yaffs_RemoveObjectFromDirectory a s = Some ?s"
    by (simp add: yaffs_RemoveObjectFromDirectory_def upd_lists_def upd_object_def ls(1) nf(2))
  ultimately show ?thesis using ls(2) dm ag(1) by blast
qed


text \<open>Hooking an object that is in no directory into one.\<close>

lemma attach_ok:
  assumes ok: "objects_ok s F B D" and l: "live s F a ob" and self: "ring (lists s) (Siblings a) []"
    and d: "live s F d dob" "variantType dob = DIRECTORY"
  shows "\<exists>ls. list_add (Siblings a) (Children d) (lists s) = Some ls \<and>
    objects_ok (s\<lparr>lists := ls, objects := (objects s)(a \<mapsto> ob\<lparr>parent := d\<rparr>)\<rparr>) F B (D(d := a # D d)) \<and>
    dom ls = dom (lists s) \<and> agree (- dir_heads) (lists s) ls"
proof -
  note p = objects_okD [OF ok]
  have nf: "a \<notin> set F" "objects s a = Some ob" using l by (auto simp: live_def)
  have none: "a \<notin> set (D e)" for e by (rule alone_nowhere [OF p(4) self])
  have ring: "ring (lists s) (Children d) (map Siblings (D d))" using directory_okD(1) [OF p(4) d] .
  have "Siblings a \<in> dom (lists s)" using ring_dom [OF self] by simp
  then obtain ls where ls: "list_add (Siblings a) (Children d) (lists s) = Some ls" "ring ls (Children d) (Siblings a # map Siblings (D d))"
    "changed (insert (Siblings a) (insert (Children d) (set (map Siblings (D d))))) (lists s) ls"
    using list_add_ring [OF ring, of "Siblings a"] none by auto
  let ?A = "insert (Siblings a) (insert (Children d) (set (map Siblings (D d))))"
  let ?s = "s\<lparr>lists := ls, objects := (objects s)(a \<mapsto> ob\<lparr>parent := d\<rparr>)\<rparr>"
  have A: "?A \<subseteq> dir_heads - Siblings ` set F"
    using nf directory_okD(3) [OF p(4), of _ d] by (auto simp: dir_heads_def live_def)
  have ag: "agree (- dir_heads) (lists s) ls" "agree hash_heads (lists s) ls"
    by (rule changed_agree [OF ls(3)], use A in \<open>auto simp: dir_heads_def hash_heads_def\<close>)+
  have dm: "dom ls = dom (lists s)" using ls(3) by (simp add: changed_def)
  have live': "live ?s F b ob' \<longleftrightarrow> (if b = a then ob' = ob\<lparr>parent := d\<rparr> else live s F b ob')" for b ob'
    using nf by (auto simp: live_def)
  have nx: "next_of ls (Siblings b) = next_of (lists s) (Siblings b)" if "b \<in> set F" for b
  proof -
    have "Siblings b \<notin> ?A" using A that by blast
    then show ?thesis using ls(3) unfolding changed_def by blast
  qed
  have type: "(\<exists>o2. live ?s F e o2 \<and> variantType o2 = DIRECTORY) = (\<exists>o2. live s F e o2 \<and> variantType o2 = DIRECTORY)" for e
  proof (cases "e = a")
    case True
    have "live s F a o2 \<longleftrightarrow> o2 = ob" for o2 using nf by (auto simp: live_def)
    with True show ?thesis unfolding live' by simp
  qed (simp add: live')
  have disj: "set (D e) \<inter> set (D d) = {}" if "e \<noteq> d" for e
    using that directory_okD(3) [OF p(4)] in_directory [OF p(4)] by blast
  have "directory_ok ?s F (D(d := a # D d))"
    unfolding directory_ok_def
  proof (intro conjI allI impI ballI)
    fix e ob' assume e: "live ?s F e ob' \<and> variantType ob' = DIRECTORY"
    show "ring (lists ?s) (Children e) (map Siblings ((D(d := a # D d)) e))"
    proof (cases "e = d")
      case False
      obtain o2 where "live s F e o2" "variantType o2 = DIRECTORY" using e type by blast
      from directory_okD(1) [OF p(4) this] have "ring ls (Children e) (map Siblings (D e))"
        by (rule changed_ring [OF ls(3)]) (use disj [OF False] none False in auto)
      with False show ?thesis by simp
    qed (use ls(2) in simp)
  next
    fix e assume "(D(d := a # D d)) e \<noteq> []"
    then show "\<exists>ob'. live ?s F e ob' \<and> variantType ob' = DIRECTORY"
      unfolding type using d directory_okD(2) [OF p(4), of e] by (auto split: if_splits)
  next
    fix e b assume b: "b \<in> set ((D(d := a # D d)) e)"
    show "\<exists>ob'. live ?s F b ob' \<and> parent ob' = e"
    proof (cases "b = a")
      case True
      then have "e = d" using b none by (auto split: if_splits)
      with True show ?thesis unfolding live' by simp
    next
      case False
      then have "b \<in> set (D e)" using b by (auto split: if_splits)
      then show ?thesis using directory_okD(3) [OF p(4)] False unfolding live' by auto
    qed
  next
    fix b ob' assume b: "live ?s F b ob'"
    show "b \<in> set ((D(d := a # D d)) (parent ob')) \<or> ring (lists ?s) (Siblings b) []"
    proof (cases "b = a")
      case True
      with b show ?thesis unfolding live' by simp
    next
      case False
      with b have b': "live s F b ob'" unfolding live' by simp
      show ?thesis
      proof (cases "b \<in> set (D (parent ob'))")
        case out: False
        then have "ring (lists s) (Siblings b) []" using directory_okD(4) [OF p(4) b'] by simp
        moreover have "b \<notin> set (D d)" using out in_directory [OF p(4) b'] by blast
        ultimately have "ring ls (Siblings b) []" using False by (intro changed_ring [OF ls(3)]) auto
        then show ?thesis by simp
      qed auto
    qed
  next
    assume "lostNFoundDir ?s \<noteq> 0"
    then show "\<exists>ob'. live ?s F (lostNFoundDir ?s) ob' \<and> variantType ob' = DIRECTORY"
      unfolding type using directory_okD(5) [OF p(4)] by simp
  qed
  moreover have "memory_ok ?s" by (rule memory_frame [OF p(1)]) (use nf dm in auto)
  moreover have "free_ok ?s F" by (rule free_frame [OF p(2)]) (use nx in auto)
  moreover have "hash_ok ?s F B" by (rule hash_frame [OF p(3)]) (use ag nf in \<open>auto simp: bucket_of_def\<close>)
  ultimately have "objects_ok ?s F B (D(d := a # D d))" by (simp add: objects_ok_def)
  then show ?thesis using ls(1) dm ag(1) by blast
qed

text \<open>An object is moved into a directory from wherever it is.\<close>

lemma Add_ok:
  assumes ok: "objects_ok s F B D" and l: "live s F a ob" and d: "live s F d dob" "variantType dob = DIRECTORY"
  shows "\<exists>s'. yaffs_AddObjectToDirectory d a s = Some s' \<and> objects_ok s' F B ((detach a D)(d := a # detach a D d)) \<and>
    bucketCount s' = bucketCount s \<and> freeObjects s' = freeObjects s \<and> nextObject s' = nextObject s \<and> device s' = device s \<and>
    lostNFoundDir s' = lostNFoundDir s \<and> agree (- dir_heads) (lists s) (lists s') \<and> dom (lists s') = dom (lists s) \<and>
    (\<exists>ob'. objects s' = (objects s)(a \<mapsto> ob') \<and> ob_objectId ob' = ob_objectId ob \<and> variantType ob' = variantType ob \<and> parent ob' = d)"
proof -
  note p = objects_okD [OF ok]
  have nf: "a \<notin> set F" "objects s a = Some ob" using l by (auto simp: live_def)
  have dob: "objects s d = Some dob" using d(1) by (simp add: live_def)
  \<comment> \<open>after the object has been unhooked\<close>
  let ?unhook = "do { prev \<leftarrow> prev_of (lists s) (Siblings a);
     (if prev = NULL then upd_lists (INIT_LIST_HEAD (Siblings a)) s
      else do { e \<leftarrow> list_empty (Siblings a) (lists s); if \<not> e then yaffs_RemoveObjectFromDirectory a s else Some s }) }"
  obtain ls ob1 where s1: "?unhook = Some (s\<lparr>lists := ls, objects := (objects s)(a \<mapsto> ob1)\<rparr>)"
    "objects_ok (s\<lparr>lists := ls, objects := (objects s)(a \<mapsto> ob1)\<rparr>) F B (detach a D)" "ring ls (Siblings a) []"
    "dom ls = dom (lists s)" "agree (- dir_heads) (lists s) ls" "ob1 = ob \<or> ob1 = ob\<lparr>parent := 0\<rparr>"
  proof (cases "ring (lists s) (Siblings a) []")
    case True
    then have "prev_of (lists s) (Siblings a) = Some (Siblings a)" "list_empty (Siblings a) (lists s) = Some True"
      using ring_empty_iff [OF True] by (simp_all add: ring_def)
    then have "?unhook = Some s" by simp
    moreover have "s\<lparr>lists := lists s, objects := (objects s)(a \<mapsto> ob)\<rparr> = s" using nf(2) by (simp add: fun_upd_idem)
    ultimately show thesis using ok True detach_nowhere [OF p(4) True] by (intro that [of ob "lists s"]) (simp_all add: agree_def)
  next
    case False
    then have m: "a \<in> set (D (parent ob))" using directory_okD(4) [OF p(4) l] by simp
    note r = member_ring(1) [OF p(4) m]
    obtain y where y: "prev_of (lists s) (Siblings a) = Some y" "y \<noteq> NULL" using ring_prev [OF r, of "Siblings a"] m by auto
    have "list_empty (Siblings a) (lists s) = Some False" using ring_member [OF r] m by auto
    then show thesis using that Remove_ok [OF ok l] y by auto
  qed
  let ?s1 = "s\<lparr>lists := ls, objects := (objects s)(a \<mapsto> ob1)\<rparr>"
  have l1: "live ?s1 F a ob1" using nf by (simp add: live_def)
  obtain dob1 where d1: "live ?s1 F d dob1" "variantType dob1 = DIRECTORY" "objects ?s1 d = Some dob1"
  proof (cases "d = a")
    case True
    then have "variantType ob = DIRECTORY" using d dob nf by simp
    then show thesis using that [of ob1] True l1 s1(6) by auto
  next
    case False
    then show thesis using that [of dob] d dob by (simp add: live_def)
  qed
  obtain ls2 where ls2: "list_add (Siblings a) (Children d) ls = Some ls2"
    "objects_ok (?s1\<lparr>lists := ls2, objects := (objects ?s1)(a \<mapsto> ob1\<lparr>parent := d\<rparr>)\<rparr>) F B ((detach a D)(d := a # detach a D d))"
    "dom ls2 = dom ls" "agree (- dir_heads) ls ls2"
    using attach_ok [OF s1(2) l1 _ d1(1,2)] s1(3) by auto
  let ?s2 = "s\<lparr>lists := ls2, objects := (objects s)(a \<mapsto> ob1\<lparr>parent := d\<rparr>)\<rparr>"
  have ok2: "objects_ok ?s2 F B ((detach a D)(d := a # detach a D d))" using ls2(2) by simp
  define ob2 where "ob2 = (if d = unlinkedDir s \<or> d = deletedDir s then ob1\<lparr>parent := d, unlinked := True, renameAllowed := False\<rparr> else ob1\<lparr>parent := d\<rparr>)"
  define s' where "s' = s\<lparr>lists := ls2, objects := (objects s)(a \<mapsto> ob2),
    nUnlinkedFiles := nUnlinkedFiles s + (if d = unlinkedDir s \<or> d = deletedDir s then 1 else 0)\<rparr>"
  have "yaffs_AddObjectToDirectory d a s = do { s1 \<leftarrow> ?unhook;
      s \<leftarrow> upd_lists (list_add (Siblings a) (Children d)) s1;
      s \<leftarrow> upd_object a (\<lambda>ob. ob\<lparr>parent := d\<rparr>) s;
      if d = unlinkedDir s \<or> d = deletedDir s then do {
        s \<leftarrow> upd_object a (\<lambda>ob. ob\<lparr>unlinked := True, renameAllowed := False\<rparr>) s;
        Some (s\<lparr>nUnlinkedFiles := nUnlinkedFiles s + 1\<rparr>)
      } else Some s }"
    using dob by (simp add: yaffs_AddObjectToDirectory_def)
  then have "yaffs_AddObjectToDirectory d a s = Some s'"
    unfolding s1(1) by (simp add: upd_lists_def ls2(1) upd_object_def s'_def ob2_def)
  moreover have "objects_ok s' F B ((detach a D)(d := a # detach a D d))"
    by (rule objects_ok_other [OF ok2]) (simp_all add: s'_def ob2_def)
  moreover have "agree (- dir_heads) (lists s) ls2" using s1(5) ls2(4) by (simp add: agree_def)
  moreover have "ob_objectId ob2 = ob_objectId ob \<and> variantType ob2 = variantType ob \<and> parent ob2 = d" using s1(6) by (auto simp: ob2_def)
  ultimately show ?thesis by (auto simp: s'_def s1(4) ls2(3))
qed

section \<open>Objects that become live or free\<close>

lemma hash_okD:
  assumes "hash_ok s F B"
  shows "k < YAFFS_NOBJECT_BUCKETS \<Longrightarrow> ring (lists s) (Bucket k) (map HashLink (B k))"
    "k < YAFFS_NOBJECT_BUCKETS \<Longrightarrow> bucketCount s ! k = int (length (B k))"
    "k < YAFFS_NOBJECT_BUCKETS \<Longrightarrow> a \<in> set (B k) \<Longrightarrow> \<exists>ob. live s F a ob \<and> bucket_of ob = k"
    "live s F a ob \<Longrightarrow> a \<in> set (B (bucket_of ob)) \<or> ring (lists s) (HashLink a) []"
    "length (bucketCount s) = YAFFS_NOBJECT_BUCKETS"
  using assms by (auto simp: hash_ok_def)

lemma hash_extend:
  assumes h: "hash_ok s F B" and ag: "agree (hash_heads - {HashLink a}) (lists s) (lists s')" and "bucketCount s' = bucketCount s"
    and live': "\<And>b ob. live s' F' b ob \<longleftrightarrow> (if b = a then ob = x else live s F b ob)"
    and no: "\<And>ob. \<not> live s F a ob" and self: "ring (lists s') (HashLink a) []"
  shows "hash_ok s' F' B"
proof -
  have nin: "b \<noteq> a" if "k < YAFFS_NOBJECT_BUCKETS" "b \<in> set (B k)" for b k using hash_okD(3) [OF h that] no by auto
  have "ring (lists s') (Bucket k) (map HashLink (B k))" if "k < YAFFS_NOBJECT_BUCKETS" for k
    by (rule agree_ring [OF ag hash_okD(1) [OF h that]]) (use nin [OF that] in \<open>auto simp: hash_heads_def\<close>)
  moreover have "\<exists>ob. live s' F' b ob \<and> bucket_of ob = k" if "k < YAFFS_NOBJECT_BUCKETS" "b \<in> set (B k)" for b k
    using hash_okD(3) [OF h that] nin [OF that] unfolding live' by auto
  moreover have "b \<in> set (B (bucket_of ob)) \<or> ring (lists s') (HashLink b) []" if l: "live s' F' b ob" for b ob
  proof (cases "b = a")
    case False
    then have "ring (lists s) (HashLink b) [] \<Longrightarrow> ring (lists s') (HashLink b) []"
      by (intro agree_ring [OF ag]) (auto simp: hash_heads_def)
    then show ?thesis using hash_okD(4) [OF h, of b ob] l False unfolding live' by auto
  qed (use self in simp)
  ultimately show ?thesis using hash_okD(2,5) [OF h] assms(3) by (simp add: hash_ok_def)
qed

lemma hash_shrink:
  assumes h: "hash_ok s F B" and ag: "agree hash_heads (lists s) (lists s')" and "bucketCount s' = bucketCount s"
    and live': "\<And>b ob. live s' F' b ob \<longleftrightarrow> b \<noteq> a \<and> live s F b ob" and self: "ring (lists s) (HashLink a) []"
  shows "hash_ok s' F' B"
proof -
  have nin: "b \<noteq> a" if "k < YAFFS_NOBJECT_BUCKETS" "b \<in> set (B k)" for b k
    using ring_alone [OF self hash_okD(1) [OF h that(1)]] that by auto
  have "ring (lists s') (Bucket k) (map HashLink (B k))" if "k < YAFFS_NOBJECT_BUCKETS" for k
    by (rule agree_ring [OF ag hash_okD(1) [OF h that]]) (auto simp: hash_heads_def)
  moreover have "\<exists>ob. live s' F' b ob \<and> bucket_of ob = k" if "k < YAFFS_NOBJECT_BUCKETS" "b \<in> set (B k)" for b k
    using hash_okD(3) [OF h that] nin [OF that] unfolding live' by auto
  moreover have "b \<in> set (B (bucket_of ob)) \<or> ring (lists s') (HashLink b) []" if l: "live s' F' b ob" for b ob
  proof -
    have "ring (lists s) (HashLink b) [] \<Longrightarrow> ring (lists s') (HashLink b) []"
      by (rule agree_ring [OF ag]) (auto simp: hash_heads_def)
    then show ?thesis using hash_okD(4) [OF h, of b ob] l unfolding live' by auto
  qed
  ultimately show ?thesis using hash_okD(2,5) [OF h] assms(3) by (simp add: hash_ok_def)
qed

lemma directory_extend:
  assumes p: "directory_ok s F D" and ag: "agree (dir_heads - Siblings ` insert a (set F') - {Children a}) (lists s) (lists s')"
    and lf: "lostNFoundDir s' = lostNFoundDir s" and F: "set F' \<subseteq> set F"
    and live': "\<And>b ob. live s' F' b ob \<longleftrightarrow> (if b = a then ob = x else live s F b ob)"
    and no: "\<And>ob. \<not> live s F a ob" and self: "ring (lists s') (Siblings a) []" and x: "variantType x \<noteq> DIRECTORY"
  shows "directory_ok s' F' D"
proof -
  have nin: "b \<noteq> a \<and> b \<notin> set F'" if "b \<in> set (D d)" for b d
    using directory_okD(3) [OF p that] no F by (auto simp: live_def)
  have type: "(\<exists>ob. live s' F' d ob \<and> variantType ob = DIRECTORY) = (\<exists>ob. live s F d ob \<and> variantType ob = DIRECTORY)" for d
    unfolding live' using x no by auto
  have 1: "ring (lists s') (Children d) (map Siblings (D d))" if "ring (lists s) (Children d) (map Siblings (D d))" "d \<noteq> a" for d
    by (rule agree_ring [OF ag that(1)]) (use nin that(2) in \<open>auto simp: dir_heads_def\<close>)
  have 2: "ring (lists s') (Siblings b) []" if "ring (lists s) (Siblings b) []" "b \<noteq> a" "b \<notin> set F'" for b
    by (rule agree_ring [OF ag that(1)]) (use that in \<open>auto simp: dir_heads_def\<close>)
  have "b \<in> set (D (parent ob)) \<or> ring (lists s') (Siblings b) []" if l: "live s' F' b ob" for b ob
  proof (cases "b = a")
    case False
    then have "live s F b ob" using l unfolding live' by simp
    moreover have "b \<notin> set F'" using l by (simp add: live_def)
    ultimately show ?thesis using directory_okD(4) [OF p] 2 False by blast
  qed (use self in simp)
  moreover have "ring (lists s') (Children d) (map Siblings (D d))" if "live s' F' d ob" "variantType ob = DIRECTORY" for d ob
  proof -
    have "d \<noteq> a" using that x unfolding live' by auto
    then show ?thesis using that(2) 1 directory_okD(1) [OF p, of d ob] that(1) unfolding live' by simp
  qed
  moreover have "\<exists>ob. live s' F' b ob \<and> parent ob = d" if "b \<in> set (D d)" for b d
    using directory_okD(3) [OF p that] nin [OF that] unfolding live' by auto
  ultimately show ?thesis unfolding directory_ok_def type lf using directory_okD(2,5) [OF p] by blast
qed

lemma directory_shrink:
  assumes p: "directory_ok s F D" and ag: "agree (dir_heads - Siblings ` insert a (set F)) (lists s) (lists s')"
    and lf: "lostNFoundDir s' = lostNFoundDir s" "lostNFoundDir s \<noteq> a" and F: "set F' = insert a (set F)"
    and live': "\<And>b ob. live s' F' b ob \<longleftrightarrow> b \<noteq> a \<and> live s F b ob"
    and self: "ring (lists s) (Siblings a) []" and empty: "D a = []"
  shows "directory_ok s' F' D"
proof -
  have nin: "b \<noteq> a \<and> b \<notin> set F" if "b \<in> set (D d)" for b d
    using alone_nowhere [OF p self] directory_okD(3) [OF p that] that by (auto simp: live_def)
  have 1: "ring (lists s') (Children d) (map Siblings (D d))" if "ring (lists s) (Children d) (map Siblings (D d))" for d
    by (rule agree_ring [OF ag that]) (use nin in \<open>auto simp: dir_heads_def\<close>)
  have 2: "ring (lists s') (Siblings b) []" if "ring (lists s) (Siblings b) []" "b \<noteq> a" "b \<notin> set F" for b
    by (rule agree_ring [OF ag that(1)]) (use that in \<open>auto simp: dir_heads_def\<close>)
  have "b \<in> set (D (parent ob)) \<or> ring (lists s') (Siblings b) []" if l: "live s' F' b ob" for b ob
  proof -
    have "live s F b ob" "b \<noteq> a" "b \<notin> set F" using l unfolding live' by (auto simp: live_def)
    then show ?thesis using directory_okD(4) [OF p] 2 by blast
  qed
  moreover have "ring (lists s') (Children d) (map Siblings (D d))" if "live s' F' d ob" "variantType ob = DIRECTORY" for d ob
    using that 1 directory_okD(1) [OF p] unfolding live' by metis
  moreover have "\<exists>ob. live s' F' b ob \<and> parent ob = d" if "b \<in> set (D d)" for b d
    using directory_okD(3) [OF p that] nin [OF that] unfolding live' by auto
  moreover have "\<exists>ob. live s' F' d ob \<and> variantType ob = DIRECTORY" if "D d \<noteq> []" for d
    using directory_okD(2) [OF p that] empty that unfolding live' by (cases "d = a") auto
  moreover have "\<exists>ob. live s' F' (lostNFoundDir s') ob \<and> variantType ob = DIRECTORY" if "lostNFoundDir s' \<noteq> 0"
    using directory_okD(5) [OF p] that lf unfolding live' by auto
  ultimately show ?thesis unfolding directory_ok_def by blast
qed

end
