(* ===== verification/ObjectAlloc.thy ===== *)
theory ObjectAlloc
  imports ObjectOps
begin

text \<open>
  Hashing and unhashing, giving objects back to the stock, and taking them from it, under the invariant.
\<close>

section \<open>The hash table\<close>

lemma live_fun: "live s F a ob \<Longrightarrow> live s F a ob' \<Longrightarrow> ob' = ob"
  by (simp add: live_def)

lemma in_bucket: "hash_ok s F B \<Longrightarrow> live s F a ob \<Longrightarrow> k < YAFFS_NOBJECT_BUCKETS \<Longrightarrow> a \<in> set (B k) \<Longrightarrow> k = bucket_of ob"
  using hash_okD(3) [of s F B k a] live_fun by blast

lemma bucket_disjoint:
  assumes "hash_ok s F B" "j < YAFFS_NOBJECT_BUCKETS" "k < YAFFS_NOBJECT_BUCKETS" "j \<noteq> k"
  shows "set (B j) \<inter> set (B k) = {}"
proof (rule ccontr)
  assume "set (B j) \<inter> set (B k) \<noteq> {}"
  then obtain a where a: "a \<in> set (B j)" "a \<in> set (B k)" by blast
  obtain ob where "live s F a ob" using hash_okD(3) [OF assms(1,2) a(1)] by blast
  then show False using in_bucket [OF assms(1)] assms(2-4) a by metis
qed

lemma Unhash_ok:
  assumes ok: "objects_ok s F B D" and l: "live s F a ob"
  shows "\<exists>ls counts B'. yaffs_UnhashObject a s = Some (s\<lparr>lists := ls, bucketCount := counts\<rparr>) \<and>
    objects_ok (s\<lparr>lists := ls, bucketCount := counts\<rparr>) F B' D \<and> ring ls (HashLink a) [] \<and>
    dom ls = dom (lists s) \<and> agree (- hash_heads) (lists s) ls \<and> (\<forall>k. B' k = remove1 a (B k) \<or> B' k = B k \<and> a \<notin> set (B k) \<or> \<not> k < YAFFS_NOBJECT_BUCKETS)"
proof (cases "ring (lists s) (HashLink a) []")
  case True
  then have "yaffs_UnhashObject a s = Some s" using ring_empty_iff [OF True] by (simp add: yaffs_UnhashObject_def)
  moreover have "a \<notin> set (B k)" if "k < YAFFS_NOBJECT_BUCKETS" for k
    using ring_alone [OF True hash_okD(1) [OF objects_okD(3) [OF ok] that]] by auto
  ultimately show ?thesis using ok True by (intro exI [of _ "lists s"] exI [of _ "bucketCount s"] exI [of _ B]) (auto simp: agree_def)
next
  case False
  note p = objects_okD [OF ok] and h = hash_okD [OF objects_okD(3) [OF ok]]
  let ?k = "bucket_of ob"
  have k: "?k < YAFFS_NOBJECT_BUCKETS" by (rule bucket_of_less)
  have m: "a \<in> set (B ?k)" using h(4) [OF l] False by simp
  then obtain as bs where B: "B ?k = as @ a # bs" "a \<notin> set as" by (metis split_list_first)
  have r: "ring (lists s) (Bucket ?k) (map HashLink as @ HashLink a # map HashLink bs)" using h(1) [OF k] B by simp
  obtain ls where ls: "list_del_init (HashLink a) (lists s) = Some ls" "ring ls (Bucket ?k) (map HashLink as @ map HashLink bs)"
    "ring ls (HashLink a) []" "changed (insert (Bucket ?k) (set (map HashLink as @ HashLink a # map HashLink bs))) (lists s) ls"
    using list_del_init_ring [OF r] by blast
  let ?A = "insert (Bucket ?k) (set (map HashLink as @ HashLink a # map HashLink bs))"
  have AB: "?A = insert (Bucket ?k) (HashLink ` set (B ?k))" using B by auto
  have ag: "agree (- hash_heads) (lists s) ls" "agree (dir_heads - Siblings ` set F) (lists s) ls"
    by (rule changed_agree [OF ls(4)], auto simp: hash_heads_def dir_heads_def)+
  let ?counts = "(bucketCount s)[?k := bucketCount s ! ?k - 1]"
  let ?s = "s\<lparr>lists := ls, bucketCount := ?counts\<rparr>" and ?B = "B(?k := as @ bs)"
  have live': "live ?s F b ob' = live s F b ob'" for b ob' by (simp add: live_def)
  have dm: "dom ls = dom (lists s)" using ls(4) by (simp add: changed_def)
  have sub: "b \<in> set (B j)" if "b \<in> set (?B j)" for b j using that B by (auto split: if_splits)
  have "hash_ok ?s F ?B"
    unfolding hash_ok_def
  proof (intro conjI allI impI ballI)
    show "length (bucketCount ?s) = YAFFS_NOBJECT_BUCKETS" using h(5) by simp
  next
    fix j assume j: "j < YAFFS_NOBJECT_BUCKETS"
    show "ring (lists ?s) (Bucket j) (map HashLink (?B j))"
    proof (cases "j = ?k")
      case False
      then have "set (B j) \<inter> set (B ?k) = {}" by (rule bucket_disjoint [OF p(3) j k])
      then have "ring ls (Bucket j) (map HashLink (B j))"
        by (intro changed_ring [OF ls(4) h(1) [OF j]]) (use False AB in auto)
      with False show ?thesis by simp
    qed (use ls(2) in simp)
    show "bucketCount ?s ! j = int (length (?B j))" using h(2) [OF j] h(5) j B by (auto simp: nth_list_update)
    show "\<exists>ob'. live ?s F b ob' \<and> bucket_of ob' = j" if "b \<in> set (?B j)" for b
      using h(3) [OF j sub [OF that]] unfolding live' .
  next
    fix b ob' assume "live ?s F b ob'"
    then have b: "live s F b ob'" unfolding live' .
    show "b \<in> set (?B (bucket_of ob')) \<or> ring (lists ?s) (HashLink b) []"
    proof (cases "b = a \<or> b \<in> set (B (bucket_of ob'))")
      case True
      then show ?thesis using ls(3) B by (auto split: if_splits)
    next
      case False
      then have "ring (lists s) (HashLink b) []" using h(4) [OF b] by simp
      moreover have "b \<notin> set (B ?k)" using False in_bucket [OF p(3) b k] by auto
      ultimately have "ring ls (HashLink b) []" by (intro changed_ring [OF ls(4)]) (use AB in auto)
      then show ?thesis by simp
    qed
  qed
  moreover have "memory_ok ?s" by (rule memory_frame [OF p(1)]) (simp_all add: dm)
  moreover have "free_ok ?s F" by (rule free_frame [OF p(2)]) (use ag(1) in \<open>auto simp: agree_def hash_heads_def\<close>)
  moreover have "directory_ok ?s F D" by (rule directory_frame [OF p(4)]) (use ag(2) in simp_all)
  ultimately have ok': "objects_ok ?s F ?B D" by (simp add: objects_ok_def)
  have "list_empty (HashLink a) (lists s) = Some False" using ring_member [OF r] by simp
  then have "yaffs_UnhashObject a s = Some ?s"
    using l ls(1) by (simp add: yaffs_UnhashObject_def upd_lists_def live_def)
  moreover have "?B j = remove1 a (B j) \<or> ?B j = B j \<and> a \<notin> set (B j) \<or> \<not> j < YAFFS_NOBJECT_BUCKETS" for j
    using B in_bucket [OF p(3) l, of j] by (cases "j = ?k") (auto simp: remove1_append)
  ultimately show ?thesis using ok' ls(3) dm ag(1) by blast
qed

lemma Hash_ok:
  assumes ok: "objects_ok s F B D" and l: "live s F a ob" and self: "ring (lists s) (HashLink a) []"
  shows "\<exists>ls counts. yaffs_HashObject a s = Some (s\<lparr>lists := ls, bucketCount := counts\<rparr>) \<and>
    objects_ok (s\<lparr>lists := ls, bucketCount := counts\<rparr>) F (B(bucket_of ob := a # B (bucket_of ob))) D \<and>
    dom ls = dom (lists s) \<and> agree (- hash_heads) (lists s) ls"
proof -
  note p = objects_okD [OF ok] and h = hash_okD [OF objects_okD(3) [OF ok]]
  let ?k = "bucket_of ob"
  have k: "?k < YAFFS_NOBJECT_BUCKETS" by (rule bucket_of_less)
  have none: "a \<notin> set (B j)" if "j < YAFFS_NOBJECT_BUCKETS" for j using ring_alone [OF self h(1) [OF that]] by auto
  have "HashLink a \<in> dom (lists s)" using ring_dom [OF self] by simp
  then obtain ls where ls: "list_add (HashLink a) (Bucket ?k) (lists s) = Some ls" "ring ls (Bucket ?k) (HashLink a # map HashLink (B ?k))"
    "changed (insert (HashLink a) (insert (Bucket ?k) (set (map HashLink (B ?k))))) (lists s) ls"
    using list_add_ring [OF h(1) [OF k], of "HashLink a"] none [OF k] by auto
  have ag: "agree (- hash_heads) (lists s) ls" "agree (dir_heads - Siblings ` set F) (lists s) ls"
    by (rule changed_agree [OF ls(3)], auto simp: hash_heads_def dir_heads_def)+
  let ?counts = "(bucketCount s)[?k := bucketCount s ! ?k + 1]"
  let ?s = "s\<lparr>lists := ls, bucketCount := ?counts\<rparr>" and ?B = "B(?k := a # B ?k)"
  have live': "live ?s F b ob' = live s F b ob'" for b ob' by (simp add: live_def)
  have dm: "dom ls = dom (lists s)" using ls(3) by (simp add: changed_def)
  have "hash_ok ?s F ?B"
    unfolding hash_ok_def
  proof (intro conjI allI impI ballI)
    show "length (bucketCount ?s) = YAFFS_NOBJECT_BUCKETS" using h(5) by simp
  next
    fix j assume j: "j < YAFFS_NOBJECT_BUCKETS"
    show "ring (lists ?s) (Bucket j) (map HashLink (?B j))"
    proof (cases "j = ?k")
      case False
      then have "set (B j) \<inter> set (B ?k) = {}" by (rule bucket_disjoint [OF p(3) j k])
      then have "ring ls (Bucket j) (map HashLink (B j))"
        by (intro changed_ring [OF ls(3) h(1) [OF j]]) (use False none [OF j] in auto)
      with False show ?thesis by simp
    qed (use ls(2) in simp)
    show "bucketCount ?s ! j = int (length (?B j))" using h(2) [OF j] h(5) j by (auto simp: nth_list_update)
    show "\<exists>ob'. live ?s F b ob' \<and> bucket_of ob' = j" if "b \<in> set (?B j)" for b
      using that l h(3) [OF j, of b] unfolding live' by (auto split: if_splits)
  next
    fix b ob' assume "live ?s F b ob'"
    then have b: "live s F b ob'" unfolding live' .
    show "b \<in> set (?B (bucket_of ob')) \<or> ring (lists ?s) (HashLink b) []"
    proof (cases "b = a \<or> b \<in> set (B (bucket_of ob'))")
      case True
      then show ?thesis using live_fun [OF l, of ob'] b by (auto split: if_splits)
    next
      case False
      then have "ring (lists s) (HashLink b) []" using h(4) [OF b] by simp
      moreover have "b \<notin> set (B ?k)" using False in_bucket [OF p(3) b k] by auto
      ultimately have "ring ls (HashLink b) []" using False by (intro changed_ring [OF ls(3)]) auto
      then show ?thesis by simp
    qed
  qed
  moreover have "memory_ok ?s" by (rule memory_frame [OF p(1)]) (simp_all add: dm)
  moreover have "free_ok ?s F" by (rule free_frame [OF p(2)]) (use ag(1) in \<open>auto simp: agree_def hash_heads_def\<close>)
  moreover have "directory_ok ?s F D" by (rule directory_frame [OF p(4)]) (use ag(2) in simp_all)
  ultimately have ok': "objects_ok ?s F ?B D" by (simp add: objects_ok_def)
  moreover have "yaffs_HashObject a s = Some ?s"
    using l ls(1) by (simp add: yaffs_HashObject_def upd_lists_def live_def)
  ultimately show ?thesis using dm ag(1) by blast
qed

section \<open>Giving back\<close>

lemma Free_ok:
  assumes ok: "objects_ok s F B D" and l: "live s F a ob" and self: "ring (lists s) (Siblings a) []"
    and empty: "D a = []" and "lostNFoundDir s \<noteq> a"
  shows "\<exists>s' B'. yaffs_FreeObject a s = Some s' \<and> objects_ok s' (a # F) B' D \<and> objects s' = objects s \<and>
    (\<forall>k<YAFFS_NOBJECT_BUCKETS. B' k = remove1 a (B k) \<or> B' k = B k \<and> a \<notin> set (B k)) \<and>
    lostNFoundDir s' = lostNFoundDir s \<and> nFreeObjects (device s') = nFreeObjects (device s) + 1"
proof -
  obtain ls counts B' where 1: "yaffs_UnhashObject a s = Some (s\<lparr>lists := ls, bucketCount := counts\<rparr>)"
    "objects_ok (s\<lparr>lists := ls, bucketCount := counts\<rparr>) F B' D" "ring ls (HashLink a) []" "dom ls = dom (lists s)"
    "agree (- hash_heads) (lists s) ls"
    "\<forall>k. B' k = remove1 a (B k) \<or> B' k = B k \<and> a \<notin> set (B k) \<or> \<not> k < YAFFS_NOBJECT_BUCKETS"
    using Unhash_ok [OF ok l] by blast
  let ?s1 = "s\<lparr>lists := ls, bucketCount := counts\<rparr>"
  note p = objects_okD [OF 1(2)]
  have l1: "live ?s1 F a ob" using l by (simp add: live_def)
  have a: "a \<notin> set F" "objects s a = Some ob" using l by (simp_all add: live_def)
  have self1: "ring ls (Siblings a) []" by (rule agree_ring [OF 1(5) self]) (auto simp: hash_heads_def)
  have "Siblings a \<in> dom ls" using ring_dom [OF self1] by simp
  then obtain l2 where l2: "set_next (Siblings a) (to_list_ptr (freeObjects s)) ls = Some l2" "dom l2 = dom ls"
    "next_of l2 = (next_of ls)(Siblings a := Some (to_list_ptr (freeObjects s)))" "prev_of l2 = prev_of ls"
    using set_next_spec [of "Siblings a" ls "to_list_ptr (freeObjects s)"] by metis
  define s' where "s' = s\<lparr>lists := l2, bucketCount := counts, freeObjects := a,
    device := (device s)\<lparr>nFreeObjects := nFreeObjects (device s) + 1, nCheckpointBlocksRequired := 0\<rparr>\<rparr>"
  have live': "live s' (a # F) b ob' \<longleftrightarrow> b \<noteq> a \<and> live ?s1 F b ob'" for b ob' by (auto simp: live_def s'_def)
  have "hash_ok s' (a # F) B'"
    by (rule hash_shrink [OF p(3) _ _ live']) (use 1(3) l2 in \<open>auto simp: s'_def agree_def hash_heads_def\<close>)
  moreover have "directory_ok s' (a # F) D"
    by (rule directory_shrink [OF p(4) _ _ _ _ live']) (use self1 empty assms(5) l2 in \<open>auto simp: s'_def agree_def dir_heads_def\<close>)
  moreover have "memory_ok s'" by (rule memory_frame [OF p(1)]) (simp_all add: s'_def l2(2))
  moreover have "free_ok s' (a # F)"
  proof -
    have "free_chain l2 q G" if "free_chain ls q G" "a \<notin> set G" for q G
      using that by (induction G arbitrary: q) (auto simp: l2(3))
    then show ?thesis using p(2) a by (auto simp: free_ok_def s'_def l2(3))
  qed
  ultimately have "objects_ok s' (a # F) B' D" by (simp add: objects_ok_def)
  moreover have "yaffs_FreeObject a s = Some s'" by (simp add: yaffs_FreeObject_def 1(1) upd_lists_def l2(1) s'_def Let_def)
  ultimately show ?thesis using 1(6) by (auto simp: s'_def)
qed

section \<open>Taking\<close>

lemma zero_heads_dom: "dom (zero_heads a l) = dom l \<union> heads a"
  by (auto simp: zero_heads_def heads_def)

lemma zero_heads_other:
  assumes "x \<notin> heads a"
  shows "next_of (zero_heads a l) x = next_of l x" "prev_of (zero_heads a l) x = prev_of l x"
  using assms by (simp_all add: zero_heads_def heads_def)

lemma changed_trans: "changed A s s' \<Longrightarrow> changed B s' s'' \<Longrightarrow> changed (A \<union> B) s s''"
  by (simp add: changed_def)

text \<open>The list heads of a clean object.\<close>

lemma init_heads:
  assumes "heads a \<subseteq> dom l"
  shows "\<exists>l1 l2 l3. INIT_LIST_HEAD (HardLinks a) (zero_heads a l) = Some l1 \<and> INIT_LIST_HEAD (HashLink a) l1 = Some l2 \<and>
    INIT_LIST_HEAD (Siblings a) l2 = Some l3 \<and> ring l3 (HashLink a) [] \<and> ring l3 (Siblings a) [] \<and> ring l3 (HardLinks a) [] \<and>
    dom l3 = dom l \<and> (\<forall>x. x \<notin> heads a \<longrightarrow> next_of l3 x = next_of l x \<and> prev_of l3 x = prev_of l x)"
proof -
  let ?l = "zero_heads a l"
  have d: "dom ?l = dom l" using assms by (auto simp: zero_heads_dom)
  obtain l1 where 1: "INIT_LIST_HEAD (HardLinks a) ?l = Some l1" "ring l1 (HardLinks a) []" "changed {HardLinks a} ?l l1"
    using INIT_LIST_HEAD_ring [of "HardLinks a" ?l] assms d by (auto simp: heads_def)
  obtain l2 where 2: "INIT_LIST_HEAD (HashLink a) l1 = Some l2" "ring l2 (HashLink a) []" "changed {HashLink a} l1 l2"
    using INIT_LIST_HEAD_ring [of "HashLink a" l1] assms d 1(3) by (auto simp: heads_def changed_def)
  obtain l3 where 3: "INIT_LIST_HEAD (Siblings a) l2 = Some l3" "ring l3 (Siblings a) []" "changed {Siblings a} l2 l3"
    using INIT_LIST_HEAD_ring [of "Siblings a" l2] assms d 1(3) 2(3) by (auto simp: heads_def changed_def)
  have "ring l3 (HashLink a) []" by (rule changed_ring [OF 3(3) 2(2)]) simp
  moreover have "ring l2 (HardLinks a) []" by (rule changed_ring [OF 2(3) 1(2)]) simp
  then have "ring l3 (HardLinks a) []" by (rule changed_ring [OF 3(3)]) simp
  moreover have "next_of l3 x = next_of l x \<and> prev_of l3 x = prev_of l x" if "x \<notin> heads a" for x
  proof -
    have "x \<notin> {HardLinks a}" "x \<notin> {HashLink a}" "x \<notin> {Siblings a}" using that by (auto simp: heads_def)
    then show ?thesis using 1(3) 2(3) 3(3) zero_heads_other [OF that, of l] by (simp add: changed_def)
  qed
  moreover have "dom l3 = dom l" using 1(3) 2(3) 3(3) d by (simp add: changed_def)
  ultimately show ?thesis using 1(1) 2(1) 3(1,2) by metis
qed

definition lost_and_found :: "'f yaffs_System \<Rightarrow> nat \<Rightarrow> (nat \<Rightarrow> nat list) \<Rightarrow> nat \<Rightarrow> nat list" where
  "lost_and_found s a D = (if lostNFoundDir s \<noteq> 0 then D(lostNFoundDir s := a # D (lostNFoundDir s)) else D)"

lemma take_ok:
  assumes ok: "objects_ok s (a # F) B D"
  shows "\<exists>s' ob. takeObject s = Some (a, s') \<and> objects_ok s' F B (lost_and_found s a D) \<and> live s' F a ob \<and>
    variantType ob = UNKNOWN \<and> ring (lists s') (HashLink a) [] \<and> objects s' = (objects s)(a \<mapsto> ob) \<and>
    lostNFoundDir s' = lostNFoundDir s \<and> device s' = (device s)\<lparr>nFreeObjects := nFreeObjects (device s) - 1\<rparr> \<and>
    bucketCount s' = bucketCount s \<and> nextObject s' = nextObject s"
proof -
  note p = objects_okD [OF ok]
  have f: "freeObjects s = a" "a \<notin> set F" "distinct F" "a \<in> dom (objects s)" "set F \<subseteq> dom (objects s)" using p(2) by (auto simp: free_ok_def)
  obtain q where q: "next_of (lists s) (Siblings a) = Some (to_list_ptr q)" "free_chain (lists s) q F" using p(2) by (auto simp: free_ok_def)
  have cast: "to_object_ptr (to_list_ptr q) = Some q" by (simp add: to_object_ptr_def to_list_ptr_def)
  have "heads a \<subseteq> dom (lists s)" using p(1) f(4) by (auto simp: memory_ok_def)
  from init_heads [OF this] obtain l1 l2 l3 where l: "INIT_LIST_HEAD (HardLinks a) (zero_heads a (lists s)) = Some l1"
    "INIT_LIST_HEAD (HashLink a) l1 = Some l2" "INIT_LIST_HEAD (Siblings a) l2 = Some l3" "ring l3 (HashLink a) []" "ring l3 (Siblings a) []"
    "dom l3 = dom (lists s)" and same: "\<And>x. x \<notin> heads a \<Longrightarrow> next_of l3 x = next_of (lists s) x \<and> prev_of l3 x = prev_of (lists s) x"
    by blast
  let ?ob = "zero_object\<lparr>headerChunk := -1, variantType := UNKNOWN\<rparr>"
  define s1 where "s1 = s\<lparr>freeObjects := q, device := (device s)\<lparr>nFreeObjects := nFreeObjects (device s) - 1\<rparr>,
    objects := (objects s)(a \<mapsto> ?ob), lists := l3\<rparr>"
  have live': "live s1 F b ob \<longleftrightarrow> (if b = a then ob = ?ob else live s (a # F) b ob)" for b ob
    using f(2) by (auto simp: live_def s1_def)
  have no: "\<not> live s (a # F) a ob" for ob by (simp add: live_def)
  have "hash_ok s1 F B"
    by (rule hash_extend [OF p(3) _ _ live' no]) (use l(4) same in \<open>auto simp: s1_def agree_def hash_heads_def heads_def\<close>)
  moreover have "directory_ok s1 F D"
    by (rule directory_extend [OF p(4) _ _ _ live' no]) (use l(5) same in \<open>auto simp: s1_def agree_def dir_heads_def heads_def\<close>)
  moreover have "memory_ok s1"
    by (rule memory_frame [OF p(1)]) (use l(6) f(4) in \<open>auto simp: s1_def\<close>)
  moreover have "free_ok s1 F"
  proof -
    have "free_chain l3 r G" if "free_chain (lists s) r G" "a \<notin> set G" for r G
      using that by (induction G arbitrary: r) (auto simp: same heads_def)
    then show ?thesis using q(2) f(2,3,5) by (auto simp: free_ok_def s1_def)
  qed
  ultimately have ok1: "objects_ok s1 F B D" by (simp add: objects_ok_def)
  have l1': "live s1 F a ?ob" unfolding live' by simp
  have run: "takeObject s = do { s \<leftarrow> (if lostNFoundDir s1 \<noteq> 0 then yaffs_AddObjectToDirectory (lostNFoundDir s1) a s1 else Some s1); Some (a, s) }"
    by (simp add: takeObject_def f(1) q(1) cast Let_def upd_lists_def l(1-3) s1_def)
  have lf: "lostNFoundDir s1 = lostNFoundDir s" by (simp add: s1_def)
  show ?thesis
  proof (cases "lostNFoundDir s = 0")
    case True
    then show ?thesis using run ok1 l1' l(4) lf by (auto simp: s1_def lost_and_found_def)
  next
    case False
    obtain dob where d: "live s1 F (lostNFoundDir s) dob" "variantType dob = DIRECTORY"
      using directory_okD(5) [OF objects_okD(4) [OF ok1]] False lf by auto
    have "ring (lists s1) (Siblings a) []" using l(5) by (simp add: s1_def)
    then have det: "detach a D = D" by (rule detach_nowhere [OF objects_okD(4) [OF ok1]])
    obtain s2 ob2 where 2: "yaffs_AddObjectToDirectory (lostNFoundDir s) a s1 = Some s2"
      "objects_ok s2 F B (D(lostNFoundDir s := a # D (lostNFoundDir s)))"
      "bucketCount s2 = bucketCount s1" "nextObject s2 = nextObject s1" "device s2 = device s1" "lostNFoundDir s2 = lostNFoundDir s1"
      "agree (- dir_heads) (lists s1) (lists s2)" "objects s2 = (objects s1)(a \<mapsto> ob2)" "variantType ob2 = variantType ?ob"
      using Add_ok [OF ok1 l1' d] unfolding det by blast
    have "ring (lists s2) (HashLink a) []"
      by (rule agree_ring [OF 2(7)]) (use l(4) in \<open>auto simp: dir_heads_def s1_def\<close>)
    then show ?thesis using run False lf 2 f(2) by (auto simp: lost_and_found_def live_def s1_def)
  qed
qed

text \<open>New objects from the system.\<close>

lemma hook_objects_eq:
  "n > 0 \<Longrightarrow> \<exists>ls. hook_objects n a tail s = s\<lparr>objects := (\<lambda>x. if a \<le> x \<and> x < a + n then Some zero_object else objects s x), lists := ls\<rparr> \<and>
     dom ls = dom (lists s) \<union> (\<Union>x\<in>{a..<a + n}. heads x) \<and>
     (\<forall>p. p \<notin> (\<Union>x\<in>{a..<a + n}. heads x) \<longrightarrow> next_of ls p = next_of (lists s) p \<and> prev_of ls p = prev_of (lists s) p) \<and>
     (\<forall>G. free_chain ls tail G \<longrightarrow> free_chain ls a ([a..<a + n] @ G))"
proof (induction n arbitrary: a s)
  case (Suc n)
  let ?h = "\<lparr>nxt = to_list_ptr (if n = 0 then tail else a + 1), prv = NULL\<rparr>"
  let ?s = "s\<lparr>objects := (objects s)(a \<mapsto> zero_object), lists := (zero_heads a (lists s))(Siblings a \<mapsto> ?h)\<rparr>"
  have step: "hook_objects (Suc n) a tail s = hook_objects n (a + 1) tail ?s" by simp
  have d: "dom (lists ?s) = dom (lists s) \<union> heads a" by (auto simp: zero_heads_dom heads_def)
  have other: "next_of (lists ?s) p = next_of (lists s) p \<and> prev_of (lists ?s) p = prev_of (lists s) p" if "p \<notin> heads a" for p
    using zero_heads_other [OF that] that by (auto simp: heads_def)
  have nx: "next_of (lists ?s) (Siblings a) = Some (to_list_ptr (if n = 0 then tail else a + 1))" by simp
  show ?case
  proof (cases "n = 0")
    case True
    have o: "(objects s)(a \<mapsto> zero_object) = (\<lambda>x. if a \<le> x \<and> x < a + Suc n then Some zero_object else objects s x)"
      using True by auto
    have r: "{a..<a + Suc n} = {a}" "[a..<a + Suc n] = [a]" using True by auto
    have "hook_objects (Suc n) a tail s = s\<lparr>objects := (\<lambda>x. if a \<le> x \<and> x < a + Suc n then Some zero_object else objects s x), lists := lists ?s\<rparr>"
      unfolding step o [symmetric] using True by simp
    moreover have "\<forall>G. free_chain (lists ?s) tail G \<longrightarrow> free_chain (lists ?s) a ([a..<a + Suc n] @ G)"
      unfolding r(2) using nx True by auto
    ultimately show ?thesis using d other unfolding r(1) by blast
  next
    case False
    then have "0 < n" by simp
    from Suc.IH [OF this, of "a + 1" ?s] obtain ls where ls:
      "hook_objects n (a + 1) tail ?s = ?s\<lparr>objects := (\<lambda>x. if a + 1 \<le> x \<and> x < a + 1 + n then Some zero_object else objects ?s x), lists := ls\<rparr>"
      "dom ls = dom (lists ?s) \<union> (\<Union>x\<in>{a + 1..<a + 1 + n}. heads x)"
      "\<forall>p. p \<notin> (\<Union>x\<in>{a + 1..<a + 1 + n}. heads x) \<longrightarrow> next_of ls p = next_of (lists ?s) p \<and> prev_of ls p = prev_of (lists ?s) p"
      "\<forall>G. free_chain ls tail G \<longrightarrow> free_chain ls (a + 1) ([a + 1..<a + 1 + n] @ G)"
      by blast
    have r: "{a..<a + Suc n} = insert a {a + 1..<a + 1 + n}" "[a..<a + Suc n] = a # [a + 1..<a + 1 + n]"
      by (auto simp: upt_conv_Cons)
    have o: "(\<lambda>x. if a + 1 \<le> x \<and> x < a + 1 + n then Some zero_object else objects ?s x) =
        (\<lambda>x. if a \<le> x \<and> x < a + Suc n then Some zero_object else objects s x)" by auto
    have "Siblings a \<notin> (\<Union>x\<in>{a + 1..<a + 1 + n}. heads x)" by (auto simp: heads_def)
    then have "next_of ls (Siblings a) = Some (to_list_ptr (a + 1))" using ls(3) nx False by simp
    then have "\<forall>G. free_chain ls tail G \<longrightarrow> free_chain ls a ([a..<a + Suc n] @ G)"
      using ls(4) unfolding r(2) by auto
    moreover have "dom ls = dom (lists s) \<union> (\<Union>x\<in>{a..<a + Suc n}. heads x)" unfolding ls(2) d r(1) by auto
    moreover have "next_of ls p = next_of (lists s) p \<and> prev_of ls p = prev_of (lists s) p" if "p \<notin> (\<Union>x\<in>{a..<a + Suc n}. heads x)" for p
      using that ls(3) other [of p] unfolding r(1) by simp
    moreover have "hook_objects (Suc n) a tail s = s\<lparr>objects := (\<lambda>x. if a \<le> x \<and> x < a + Suc n then Some zero_object else objects s x), lists := ls\<rparr>"
      unfolding step ls(1) o by simp
    ultimately show ?thesis by blast
  qed
qed simp

lemma fresh_object:
  assumes "memory_ok s" and "nextObject s \<le> a"
  shows "objects s a = None"
proof (rule ccontr)
  assume "objects s a \<noteq> None"
  then have "a \<in> dom (objects s)" by blast
  then have "a < nextObject s" using assms(1) unfolding memory_ok_def by blast
  with assms(2) show False by simp
qed

lemma CreateFree_ok:
  assumes ok: "objects_ok s F B D" and n: "0 < n"
  shows "case yaffs_CreateFreeObjects n s of (r, s') \<Rightarrow> r = YAFFS_FAIL \<and> (\<exists>d. s' = s\<lparr>device := d\<rparr>) \<or>
    r = YAFFS_OK \<and> objects_ok s' ([nextObject s..<nextObject s + n] @ F) B D \<and> lostNFoundDir s' = lostNFoundDir s \<and>
    bucketCount s' = bucketCount s \<and> nextObject s' = nextObject s + n \<and> (\<forall>b. b < nextObject s \<longrightarrow> objects s' b = objects s b)"
proof -
  note p = objects_okD [OF ok]
  let ?a = "nextObject s" let ?new = "[?a..<?a + n]"
  obtain ok1 d1 ok2 d2 where m: "yMalloc (device s) = (ok1, d1)" "yMalloc d1 = (ok2, d2)" by (metis surj_pair)
  show ?thesis
  proof (cases "ok1 \<and> ok2")
    case False
    then show ?thesis using n m by (auto simp: yaffs_CreateFreeObjects_def Let_def)
  next
    case True
    let ?s0 = "s\<lparr>device := d2\<rparr>"
    obtain ls where ls: "hook_objects n ?a (freeObjects s) ?s0 =
        ?s0\<lparr>objects := (\<lambda>x. if ?a \<le> x \<and> x < ?a + n then Some zero_object else objects ?s0 x), lists := ls\<rparr>"
      "dom ls = dom (lists ?s0) \<union> (\<Union>x\<in>{?a..<?a + n}. heads x)"
      "\<And>p. p \<notin> (\<Union>x\<in>{?a..<?a + n}. heads x) \<Longrightarrow> next_of ls p = next_of (lists ?s0) p \<and> prev_of ls p = prev_of (lists ?s0) p"
      "\<And>G. free_chain ls (freeObjects s) G \<Longrightarrow> free_chain ls ?a (?new @ G)"
      using hook_objects_eq [OF n, of ?a "freeObjects s" ?s0] by blast
    note ls = ls(1) ls(2,3) [simplified] ls(4)
    define s' where "s' = snd (yaffs_CreateFreeObjects n s)"
    have run: "yaffs_CreateFreeObjects n s = (YAFFS_OK, s')" and
      s': "objects s' = (\<lambda>x. if ?a \<le> x \<and> x < ?a + n then Some zero_object else objects s x)" "lists s' = ls"
        "bucketCount s' = bucketCount s" "lostNFoundDir s' = lostNFoundDir s" "nextObject s' = ?a + n" "freeObjects s' = ?a"
      using n m True by (simp_all add: s'_def yaffs_CreateFreeObjects_def Let_def ls(1) cong: if_cong)
    have old: "b < ?a" if "b \<in> dom (objects s)" for b using p(1) that by (simp add: memory_ok_def)
    have live': "live s' (?new @ F) b ob \<longleftrightarrow> live s F b ob" for b ob
      using fresh_object [OF p(1), of b] old [of b] by (auto simp: live_def s'(1))
    have out: "x \<notin> (\<Union>x\<in>{?a..<?a + n}. heads x) \<or> (\<exists>b. x \<in> heads b \<and> ?a \<le> b)" for x by auto
    have F: "b \<in> dom (objects s)" if "b \<in> set F" for b using p(2) that by (auto simp: free_ok_def)
    have "hash_ok s' (?new @ F) B"
      unfolding hash_ok_def
    proof (intro conjI allI impI ballI)
      note h = hash_okD [OF p(3)]
      show "length (bucketCount s') = YAFFS_NOBJECT_BUCKETS" using h(5) s'(3) by simp
      fix k assume k: "k < YAFFS_NOBJECT_BUCKETS"
      have "b < ?a" if "b \<in> set (B k)" for b using h(3) [OF k that] old by (auto simp: live_def)
      then show "ring (lists s') (Bucket k) (map HashLink (B k))"
        unfolding s'(2) by (intro ring_frame [OF h(1) [OF k]] ls(3)) (fastforce simp: heads_def)
      show "bucketCount s' ! k = int (length (B k))" using h(2) [OF k] s'(3) by simp
      show "\<exists>ob. live s' (?new @ F) b ob \<and> bucket_of ob = k" if "b \<in> set (B k)" for b using h(3) [OF k that] unfolding live' .
    next
      note h = hash_okD [OF p(3)]
      fix b ob assume "live s' (?new @ F) b ob"
      then have l: "live s F b ob" unfolding live' .
      have "ring ls (HashLink b) []" if "ring (lists s) (HashLink b) []"
        using old [OF live_dom [OF l]] by (intro ring_frame [OF that] ls(3)) (auto simp: heads_def)
      then show "b \<in> set (B (bucket_of ob)) \<or> ring (lists s') (HashLink b) []" using h(4) [OF l] s'(2) by auto
    qed
    moreover have "directory_ok s' (?new @ F) D"
      unfolding directory_ok_def live' s'(4)
    proof (intro conjI allI impI ballI)
      note h = directory_okD [OF p(4)]
      fix d ob assume d: "live s F d ob \<and> variantType ob = DIRECTORY"
      have "b < ?a" if "b \<in> set (D d)" for b using h(3) [OF that] old by (auto simp: live_def)
      moreover have "d < ?a" using d old live_dom by blast
      ultimately show "ring (lists s') (Children d) (map Siblings (D d))"
        unfolding s'(2) using d by (intro ring_frame [OF h(1)] ls(3)) (fastforce simp: heads_def)+
    next
      fix b ob assume l: "live s F b ob"
      have "ring ls (Siblings b) []" if "ring (lists s) (Siblings b) []"
        using old [OF live_dom [OF l]] by (intro ring_frame [OF that] ls(3)) (auto simp: heads_def)
      then show "b \<in> set (D (parent ob)) \<or> ring (lists s') (Siblings b) []" using directory_okD(4) [OF p(4) l] s'(2) by auto
    qed (use directory_okD [OF p(4)] in auto)
    moreover have "memory_ok s'"
      unfolding memory_ok_def s'(1,2,5) using p(1) ls(2) by (auto simp: memory_ok_def split: if_splits) (use old in fastforce)+
    moreover have "free_ok s' (?new @ F)"
    proof -
      have "free_chain ls q G" if "free_chain (lists s) q G" "set G \<subseteq> set F" for q G
        using that
      proof (induction G arbitrary: q)
        case (Cons b G)
        then have "Siblings b \<notin> (\<Union>x\<in>{?a..<?a + n}. heads x)" using old [OF F [of b]] by (auto simp: heads_def)
        with Cons ls(3) [of "Siblings b"] show ?case by auto
      qed simp
      then have "free_chain ls (freeObjects s) F" using p(2) by (simp add: free_ok_def)
      then have "free_chain ls ?a (?new @ F)" by (rule ls(4))
      moreover have "set ?new \<inter> set F = {}" using old [OF F] by fastforce
      ultimately show ?thesis using p(2) by (auto simp: free_ok_def s')
    qed
    ultimately show ?thesis unfolding run using s' by (simp add: objects_ok_def)
  qed
qed

text \<open>
  Allocation of a clean object. It fails only if the stock is empty and the system has no memory; then
  nothing but counters of the device has changed.
\<close>

lemma AllocateEmpty_ok:
  assumes ok: "objects_ok s F B D"
  shows "\<exists>a s'. yaffs_AllocateEmptyObject s = Some (a, s') \<and>
    (if a = 0 then F = [] \<and> (\<exists>d. s' = s\<lparr>device := d\<rparr>)
     else (\<forall>ob. \<not> live s F a ob) \<and> bucketCount s' = bucketCount s \<and> lostNFoundDir s' = lostNFoundDir s \<and>
       (\<exists>F' ob. objects_ok s' F' B (lost_and_found s a D) \<and> live s' F' a ob \<and> variantType ob = UNKNOWN \<and>
          ring (lists s') (HashLink a) [] \<and> (\<forall>b ob'. b \<noteq> a \<longrightarrow> live s' F' b ob' = live s F b ob')))"
proof -
  \<comment> \<open>when the stock is not empty\<close>
  have take: "\<exists>s'. (do { (tn, s) \<leftarrow> takeObject t; Some (tn, s\<lparr>device := (device s)\<lparr>nCheckpointBlocksRequired := 0\<rparr>\<rparr>) }) = Some (a, s') \<and>
      bucketCount s' = bucketCount t \<and> lostNFoundDir s' = lostNFoundDir t \<and>
      (\<exists>ob. objects_ok s' F' B (lost_and_found t a D) \<and> live s' F' a ob \<and> variantType ob = UNKNOWN \<and>
         ring (lists s') (HashLink a) [] \<and> (\<forall>b ob'. b \<noteq> a \<longrightarrow> live s' F' b ob' = live t (a # F') b ob'))"
    if t: "objects_ok t (a # F') B D" for t a F'
  proof -
    obtain t' ob where t': "takeObject t = Some (a, t')" "objects_ok t' F' B (lost_and_found t a D)" "live t' F' a ob"
      "variantType ob = UNKNOWN" "ring (lists t') (HashLink a) []" "objects t' = (objects t)(a \<mapsto> ob)"
      "bucketCount t' = bucketCount t" "lostNFoundDir t' = lostNFoundDir t"
      using take_ok [OF t] by blast
    let ?t = "t'\<lparr>device := (device t')\<lparr>nCheckpointBlocksRequired := 0\<rparr>\<rparr>"
    have "objects_ok ?t F' B (lost_and_found t a D)" by (rule objects_ok_other [OF t'(2)]) simp_all
    moreover have "live ?t F' b x = live t' F' b x" for b x by (simp add: live_def)
    moreover have "live t' F' b x = live t (a # F') b x" if "b \<noteq> a" for b x using that by (simp add: live_def t'(6))
    ultimately show ?thesis using t' by (intro exI [of _ ?t]) auto
  qed
  note p = objects_okD [OF ok]
  show ?thesis
  proof (cases F)
    case (Cons a F')
    have a: "freeObjects s = a" "a \<in> dom (objects s)" using p(2) Cons by (auto simp: free_ok_def)
    then have "a \<noteq> 0" using p(1) by (auto simp: memory_ok_def)
    have run: "yaffs_AllocateEmptyObject s = do { (tn, s) \<leftarrow> takeObject s; Some (tn, s\<lparr>device := (device s)\<lparr>nCheckpointBlocksRequired := 0\<rparr>\<rparr>) }"
      using a \<open>a \<noteq> 0\<close> by (simp add: yaffs_AllocateEmptyObject_def)
    have "\<not> live s F a ob" for ob using Cons by (simp add: live_def)
    then have no: "\<forall>ob. \<not> live s F a ob" by blast
    obtain s' ob where r: "(do { (tn, s) \<leftarrow> takeObject s; Some (tn, s\<lparr>device := (device s)\<lparr>nCheckpointBlocksRequired := 0\<rparr>\<rparr>) }) = Some (a, s')"
      "bucketCount s' = bucketCount s" "lostNFoundDir s' = lostNFoundDir s" "objects_ok s' F' B (lost_and_found s a D)" "live s' F' a ob"
      "variantType ob = UNKNOWN" "ring (lists s') (HashLink a) []" "\<forall>b ob'. b \<noteq> a \<longrightarrow> live s' F' b ob' = live s F b ob'"
      using take [OF ok [unfolded Cons]] unfolding Cons by blast
    show ?thesis unfolding run r(1) using \<open>a \<noteq> 0\<close> no r(2-8) by (intro exI [of _ a] exI [of _ s']) (simp, blast)
  next
    case Nil
    then have z: "freeObjects s = 0" using p(2) by (simp add: free_ok_def)
    let ?n = "YAFFS_ALLOCATION_NOBJECTS"
    obtain r t where c: "yaffs_CreateFreeObjects ?n s = (r, t)" by (metis surj_pair)
    have cf: "r = YAFFS_FAIL \<and> (\<exists>d. t = s\<lparr>device := d\<rparr>) \<or>
        r = YAFFS_OK \<and> objects_ok t ([nextObject s..<nextObject s + ?n] @ F) B D \<and> lostNFoundDir t = lostNFoundDir s \<and>
        bucketCount t = bucketCount s \<and> nextObject t = nextObject s + ?n \<and> (\<forall>b. b < nextObject s \<longrightarrow> objects t b = objects s b)"
      using CreateFree_ok [OF ok, of ?n] c by (simp add: YAFFS_ALLOCATION_NOBJECTS_def)
    then show ?thesis
    proof
      assume f: "r = YAFFS_FAIL \<and> (\<exists>d. t = s\<lparr>device := d\<rparr>)"
      then have "yaffs_AllocateEmptyObject s = Some (0, t\<lparr>device := (device t)\<lparr>nCheckpointBlocksRequired := 0\<rparr>\<rparr>)"
        using z c by (auto simp: yaffs_AllocateEmptyObject_def)
      then show ?thesis using f Nil by auto
    next
      assume f: "r = YAFFS_OK \<and> objects_ok t ([nextObject s..<nextObject s + ?n] @ F) B D \<and> lostNFoundDir t = lostNFoundDir s \<and>
        bucketCount t = bucketCount s \<and> nextObject t = nextObject s + ?n \<and> (\<forall>b. b < nextObject s \<longrightarrow> objects t b = objects s b)"
      let ?a = "nextObject s" let ?F = "[?a + 1..<?a + ?n]"
      have new: "[?a..<?a + ?n] @ F = ?a # ?F" using Nil by (simp add: YAFFS_ALLOCATION_NOBJECTS_def upt_conv_Cons)
      then have t: "objects_ok t (?a # ?F) B D" using f by simp
      then have "freeObjects t = ?a" "?a \<noteq> 0" using p(1) by (auto simp: objects_ok_def free_ok_def memory_ok_def)
      then have run: "yaffs_AllocateEmptyObject s = do { (tn, s) \<leftarrow> takeObject t; Some (tn, s\<lparr>device := (device s)\<lparr>nCheckpointBlocksRequired := 0\<rparr>\<rparr>) }"
        using z c by (simp add: yaffs_AllocateEmptyObject_def)
      have no: "\<not> live s F b ob" if "?a \<le> b" for b ob using fresh_object [OF p(1) that] by (simp add: live_def)
      have same: "live t (?a # ?F) b ob = live s F b ob" for b ob
      proof (cases "b < ?a")
        case True
        then have "b \<notin> set (?a # ?F)" "objects t b = objects s b" using f by auto
        then show ?thesis using Nil by (simp add: live_def)
      next
        case False
        have "\<not> live t (?a # ?F) b ob"
        proof
          assume l: "live t (?a # ?F) b ob"
          then have "b < nextObject t" using objects_okD(1) [OF t] live_dom [OF l] by (simp add: memory_ok_def)
          then show False using l f False by (simp add: live_def)
        qed
        then show ?thesis using no False by simp
      qed
      have lf: "lost_and_found t ?a D = lost_and_found s ?a D" using f by (simp add: lost_and_found_def)
      obtain s' ob where r: "(do { (tn, s) \<leftarrow> takeObject t; Some (tn, s\<lparr>device := (device s)\<lparr>nCheckpointBlocksRequired := 0\<rparr>\<rparr>) }) = Some (?a, s')"
        "bucketCount s' = bucketCount t" "lostNFoundDir s' = lostNFoundDir t" "objects_ok s' ?F B (lost_and_found s ?a D)" "live s' ?F ?a ob"
        "variantType ob = UNKNOWN" "ring (lists s') (HashLink ?a) []" "\<forall>b ob'. b \<noteq> ?a \<longrightarrow> live s' ?F b ob' = live s F b ob'"
        using take [OF t] unfolding same lf by blast
      have "\<forall>ob. \<not> live s F ?a ob" using no by blast
      then show ?thesis unfolding run r(1) using \<open>?a \<noteq> 0\<close> f r(2-8) by (intro exI [of _ ?a] exI [of _ s']) (simp, blast)
    qed
  qed
qed

end
