(* ===== verification/ObjectProps.thy ===== *)
theory ObjectProps
  imports ObjectAlloc
begin

text \<open>
  The properties of the object table: creation and lookup, new object numbers, and what happens when
  memory runs out while a file is created.
\<close>

definition objects_inv :: "'f yaffs_System \<Rightarrow> bool" where
  "objects_inv s \<longleftrightarrow> (\<exists>F B D. objects_ok s F B D)"

section \<open>Creation\<close>

lemma find_id_new:
  assumes h: "hash_ok s F B" and h': "hash_ok s' F' (B(bucket_of ob := a # B (bucket_of ob)))" and l: "live s' F' a ob"
    and no: "\<And>ob. \<not> live s F a ob"
    and same: "\<And>b x. b \<noteq> a \<Longrightarrow> live s F b x \<Longrightarrow> \<exists>x'. live s' F' b x' \<and> ob_objectId x' = ob_objectId x"
  shows "yaffs_FindObjectByNumber m s' = (if m = ob_objectId ob then Some a else yaffs_FindObjectByNumber m s)"
proof -
  let ?k = "yaffs_HashFunction (sint m)"
  have id: "map_option ob_objectId (objects s' b) = map_option ob_objectId (objects s b)" if m: "b \<in> set (B k)" "k < YAFFS_NOBJECT_BUCKETS" for b k
  proof -
    obtain x where x: "live s F b x" using hash_okD(3) [OF h m(2,1)] by blast
    with no have "b \<noteq> a" by auto
    with same [OF _ x] x show ?thesis by (auto simp: live_def)
  qed
  have eq: "find_id s' m (B ?k) = find_id s m (B ?k)" using id hash_less by (intro find_id_cong) blast
  have "objects s' a = Some ob" using l by (simp add: live_def)
  then show ?thesis
    unfolding FindObjectByNumber_find [OF h'] FindObjectByNumber_find [OF h]
    using eq by (auto simp: bucket_of_def)
qed

lemma set_type_ok:
  assumes ok: "objects_ok s F B D" and l: "live s F a ob" and u: "variantType ob = UNKNOWN"
    and ob': "variantType ob' = type" "parent ob' = parent ob" "ob_objectId ob' = ob_objectId ob"
  shows "\<exists>s'. initVariant type tn a (s\<lparr>objects := (objects s)(a \<mapsto> ob')\<rparr>) = Some s' \<and> objects_ok s' F B D \<and>
    (\<forall>b. b \<noteq> a \<longrightarrow> objects s' b = objects s b) \<and> (\<exists>x. live s' F a x \<and> ob_objectId x = ob_objectId ob \<and> variantType x = type) \<and>
    lostNFoundDir s' = lostNFoundDir s"
proof -
  note p = objects_okD [OF ok]
  have a: "a \<notin> set F" "objects s a = Some ob" using l by (auto simp: live_def)
  have Da: "D a = []" using directory_okD(2) [OF p(4), of a] live_fun [OF l] u by fastforce
  have general: "objects_ok t F B D"
    if t: "objects t = (objects s)(a \<mapsto> x)" "variantType x = type" "parent x = parent ob" "ob_objectId x = ob_objectId ob"
      "bucketCount t = bucketCount s" "freeObjects t = freeObjects s" "nextObject t = nextObject s" "lostNFoundDir t = lostNFoundDir s"
      "changed (if type = DIRECTORY then {Children a} else {}) (lists s) (lists t)" "type = DIRECTORY \<longrightarrow> ring (lists t) (Children a) []" for t x
  proof -
    have live': "live t F b y \<longleftrightarrow> (if b = a then y = x else live s F b y)" for b y using a by (auto simp: live_def t(1))
    have c: "changed {Children a} (lists s) (lists t)" using t(9) by (auto simp: changed_def split: if_splits)
    have keep: "ring (lists t) q xs" if "ring (lists s) q xs" "Children a \<notin> insert q (set xs)" for q xs
      by (rule changed_ring [OF c that(1)]) (use that(2) in auto)
    have "hash_ok t F B"
    proof (rule hash_frame [OF p(3)])
      show "agree hash_heads (lists s) (lists t)" by (rule changed_agree [OF c]) (auto simp: hash_heads_def)
      show "map_option bucket_of (objects t b) = map_option bucket_of (objects s b)" for b
        using a(2) t(4) by (simp add: t(1) bucket_of_def)
    qed (rule t(5))
    moreover have "free_ok t F"
      by (rule free_frame [OF p(2) t(6)]) (use c t(1) in \<open>auto simp: changed_def\<close>)
    moreover have "memory_ok t" by (rule memory_frame [OF p(1)]) (use a c t(1,7) in \<open>auto simp: changed_def\<close>)
    moreover have "directory_ok t F D"
      unfolding directory_ok_def
    proof (intro conjI allI impI ballI)
      fix d y assume d: "live t F d y \<and> variantType y = DIRECTORY"
      show "ring (lists t) (Children d) (map Siblings (D d))"
      proof (cases "d = a")
        case True
        then show ?thesis using d t(2,10) Da unfolding live' by auto
      next
        case False
        then have "ring (lists s) (Children d) (map Siblings (D d))" using d directory_okD(1) [OF p(4)] unfolding live' by auto
        then show ?thesis by (rule keep) (use False in auto)
      qed
    next
      fix d assume "D d \<noteq> []"
      then show "\<exists>y. live t F d y \<and> variantType y = DIRECTORY"
        using directory_okD(2) [OF p(4), of d] Da unfolding live' by (cases "d = a") auto
    next
      fix d b assume "b \<in> set (D d)"
      then obtain y where y: "live s F b y" "parent y = d" using directory_okD(3) [OF p(4)] by blast
      show "\<exists>y. live t F b y \<and> parent y = d"
      proof (cases "b = a")
        case True
        then show ?thesis using y live_fun [OF l] t(3) unfolding live' by auto
      qed (use y in \<open>auto simp: live'\<close>)
    next
      fix b y assume b: "live t F b y"
      obtain z where z: "live s F b z" "parent z = parent y"
        using b l t(3) unfolding live' by (cases "b = a") auto
      show "b \<in> set (D (parent y)) \<or> ring (lists t) (Siblings b) []"
        using directory_okD(4) [OF p(4) z(1)] keep [of "Siblings b" "[]"] z(2) by auto
    next
      assume "lostNFoundDir t \<noteq> 0"
      then obtain y where y: "live s F (lostNFoundDir s) y" "variantType y = DIRECTORY" using directory_okD(5) [OF p(4)] t(8) by auto
      then have "lostNFoundDir s \<noteq> a" using live_fun [OF l] u by auto
      then show "\<exists>y. live t F (lostNFoundDir t) y \<and> variantType y = DIRECTORY" using y t(8) unfolding live' by auto
    qed
    ultimately show ?thesis by (simp add: objects_ok_def)
  qed
  have "Children a \<in> dom (lists s)" using p(1) a(2) by (auto simp: memory_ok_def heads_def)
  then obtain ls where ls: "INIT_LIST_HEAD (Children a) (lists s) = Some ls" "ring ls (Children a) []" "changed {Children a} (lists s) ls"
    using INIT_LIST_HEAD_ring [of "Children a" "lists s"] by blast
  let ?s = "s\<lparr>objects := (objects s)(a \<mapsto> ob')\<rparr>"
  let ?v = "\<lparr>fileSize = 0, scannedFileSize = 0, shrinkSize = 0xFFFFFFFF, topLevel = 0, top = tn\<rparr>"
  define s' where "s' = (if type = FILE then s\<lparr>objects := (objects s)(a \<mapsto> ob'\<lparr>fileVariant := ?v\<rparr>)\<rparr>
    else if type = DIRECTORY then ?s\<lparr>lists := ls\<rparr> else ?s)"
  have run: "initVariant type tn a ?s = Some s'"
    using ls(1) by (simp add: initVariant_def s'_def upd_object_def upd_lists_def split: object_type.split)
  define x where "x = (if type = FILE then ob'\<lparr>fileVariant := ?v\<rparr> else ob')"
  have s': "objects s' = (objects s)(a \<mapsto> x)" "variantType x = type" "parent x = parent ob" "ob_objectId x = ob_objectId ob"
    "bucketCount s' = bucketCount s" "freeObjects s' = freeObjects s" "nextObject s' = nextObject s" "lostNFoundDir s' = lostNFoundDir s"
    using ob' by (simp_all add: s'_def x_def)
  have "objects_ok s' F B D"
    by (rule general [OF s']) (use ls in \<open>auto simp: s'_def changed_def\<close>)
  then show ?thesis using run s' a(1) by (auto simp: live_def)
qed

text \<open>
  The steps of creation after the object has been allocated: it is not in the table yet and lies in
  lost+found.
\<close>

lemma create_rest_ok:
  assumes ok: "objects_ok s F B D" and l: "live s F a ob" and u: "variantType ob = UNKNOWN" and self: "ring (lists s) (HashLink a) []"
  shows "\<exists>s' B'. (do {
       s \<leftarrow> upd_object a (\<lambda>ob. ob\<lparr>fake := False, renameAllowed := True, unlinkAllowed := True, ob_objectId := n\<rparr>) s;
       s \<leftarrow> yaffs_HashObject a s;
       s \<leftarrow> upd_object a (\<lambda>ob. ob\<lparr>variantType := type, yst_ctime := currentTime s, yst_mtime := currentTime s, yst_atime := currentTime s\<rparr>) s;
       s \<leftarrow> initVariant type tn a s;
       Some (a, s)
     }) = Some (a, s') \<and> objects_ok s' F B' D \<and> lostNFoundDir s' = lostNFoundDir s \<and>
     (\<exists>x. live s' F a x \<and> ob_objectId x = n \<and> variantType x = type \<and>
       B' = B(bucket_of x := a # B (bucket_of x))) \<and> (\<forall>b. b \<noteq> a \<longrightarrow> objects s' b = objects s b)"
proof -
  note p = objects_okD [OF ok]
  have a: "a \<notin> set F" "objects s a = Some ob" using l by (auto simp: live_def)
  let ?ob1 = "ob\<lparr>fake := False, renameAllowed := True, unlinkAllowed := True, ob_objectId := n\<rparr>"
  let ?s1 = "s\<lparr>objects := (objects s)(a \<mapsto> ?ob1)\<rparr>"
  have none: "a \<notin> set (B k)" if "k < YAFFS_NOBJECT_BUCKETS" for k using ring_alone [OF self hash_okD(1) [OF p(3) that]] by auto
  have live1: "live ?s1 F b y \<longleftrightarrow> (if b = a then y = ?ob1 else live s F b y)" for b y using a by (auto simp: live_def)
  have "hash_ok ?s1 F B"
    unfolding hash_ok_def
  proof (intro conjI allI impI ballI)
    note h = hash_okD [OF p(3)]
    show "length (bucketCount ?s1) = YAFFS_NOBJECT_BUCKETS" using h(5) by simp
    fix k assume k: "k < YAFFS_NOBJECT_BUCKETS"
    show "ring (lists ?s1) (Bucket k) (map HashLink (B k))" "bucketCount ?s1 ! k = int (length (B k))" using h(1,2) [OF k] by simp_all
    show "\<exists>y. live ?s1 F b y \<and> bucket_of y = k" if "b \<in> set (B k)" for b
      using h(3) [OF k that] none [OF k] that unfolding live1 by auto
  next
    fix b y assume "live ?s1 F b y"
    then show "b \<in> set (B (bucket_of y)) \<or> ring (lists ?s1) (HashLink b) []"
      using hash_okD(4) [OF p(3)] self unfolding live1 by (auto split: if_splits)
  qed
  moreover have "directory_ok ?s1 F D"
    by (rule directory_frame [OF p(4)]) (use a in \<open>auto simp: agree_def\<close>)
  moreover have "memory_ok ?s1" by (rule memory_frame [OF p(1)]) (use a in auto)
  moreover have "free_ok ?s1 F" by (rule free_frame [OF p(2)]) auto
  ultimately have ok1: "objects_ok ?s1 F B D" by (simp add: objects_ok_def)
  have l1: "live ?s1 F a ?ob1" unfolding live1 by simp
  have self1: "ring (lists ?s1) (HashLink a) []" using self by simp
  let ?B = "B(bucket_of ?ob1 := a # B (bucket_of ?ob1))"
  obtain ls counts where 2: "yaffs_HashObject a ?s1 = Some (?s1\<lparr>lists := ls, bucketCount := counts\<rparr>)"
    "objects_ok (?s1\<lparr>lists := ls, bucketCount := counts\<rparr>) F ?B D"
    using Hash_ok [OF ok1 l1 self1] by blast
  let ?s2 = "?s1\<lparr>lists := ls, bucketCount := counts\<rparr>"
  let ?ob2 = "?ob1\<lparr>variantType := type, yst_ctime := currentTime s, yst_mtime := currentTime s, yst_atime := currentTime s\<rparr>"
  have l2: "live ?s2 F a ?ob1" using l1 by (simp add: live_def)
  have u2: "variantType ?ob1 = UNKNOWN" using u by simp
  obtain s3 where 3: "initVariant type tn a (?s2\<lparr>objects := (objects ?s2)(a \<mapsto> ?ob2)\<rparr>) = Some s3" "objects_ok s3 F ?B D"
    "\<forall>b. b \<noteq> a \<longrightarrow> objects s3 b = objects ?s2 b" "\<exists>x. live s3 F a x \<and> ob_objectId x = ob_objectId ?ob1 \<and> variantType x = type"
    "lostNFoundDir s3 = lostNFoundDir ?s2"
    using set_type_ok [OF 2(2) l2 u2, of ?ob2 type tn] by auto
  have run1: "upd_object a (\<lambda>ob. ob\<lparr>fake := False, renameAllowed := True, unlinkAllowed := True, ob_objectId := n\<rparr>) s = Some ?s1"
    using a by (simp add: upd_object_def)
  have run3: "upd_object a (\<lambda>ob. ob\<lparr>variantType := type, yst_ctime := currentTime ?s2, yst_mtime := currentTime ?s2, yst_atime := currentTime ?s2\<rparr>) ?s2 =
      Some (?s2\<lparr>objects := (objects ?s2)(a \<mapsto> ?ob2)\<rparr>)"
    by (simp add: upd_object_def)
  obtain x where x: "live s3 F a x" "ob_objectId x = n" "variantType x = type" using 3(4) by auto
  then have "bucket_of x = bucket_of ?ob1" by (simp add: bucket_of_def)
  then have B: "?B = B(bucket_of x := a # B (bucket_of x))" by (simp only:)
  have same: "\<forall>b. b \<noteq> a \<longrightarrow> objects s3 b = objects s b" using 3(3) by simp
  have lf: "lostNFoundDir s3 = lostNFoundDir s" using 3(5) by simp
  show ?thesis unfolding run1 Option.bind_lunit 2(1) run3 3(1)
    using 3(2) x B same lf by (intro exI [of _ s3] exI [of _ ?B] conjI) (rule refl | assumption | blast)+
qed

lemma hash_agree:
  assumes "hash_ok s F B" and "agree hash_heads (lists s) (lists s')" and "bucketCount s' = bucketCount s" and "objects s' = objects s"
  shows "hash_ok s' F B" "yaffs_FindObjectByNumber m s' = yaffs_FindObjectByNumber m s"
proof -
  show 1: "hash_ok s' F B" by (rule hash_frame [OF assms(1-3)]) (simp add: assms(4))
  have "find_id s' m as = find_id s m as" for as by (rule find_id_cong) (simp add: assms(4))
  then show "yaffs_FindObjectByNumber m s' = yaffs_FindObjectByNumber m s"
    by (simp only: FindObjectByNumber_find [OF 1] FindObjectByNumber_find [OF assms(1)])
qed

text \<open>Freeing an object that is not hashed, whatever its other links are.\<close>

lemma Free_unhashed:
  assumes "ring (lists s) (HashLink a) []" and "Siblings a \<in> dom (lists s)"
  shows "\<exists>ls d. yaffs_FreeObject a s = Some (s\<lparr>lists := ls, freeObjects := a, device := d\<rparr>) \<and> prev_of ls = prev_of (lists s) \<and>
    next_of ls = (next_of (lists s))(Siblings a := Some (to_list_ptr (freeObjects s)))"
proof -
  have "yaffs_UnhashObject a s = Some s" using ring_empty_iff [OF assms(1)] by (simp add: yaffs_UnhashObject_def)
  moreover obtain ls where "set_next (Siblings a) (to_list_ptr (freeObjects s)) (lists s) = Some ls" "prev_of ls = prev_of (lists s)"
    "next_of ls = (next_of (lists s))(Siblings a := Some (to_list_ptr (freeObjects s)))"
    using set_next_spec [OF assms(2), of "to_list_ptr (freeObjects s)"] by metis
  ultimately show ?thesis by (auto simp: yaffs_FreeObject_def upd_lists_def Let_def)
qed

lemma CreateNewObject_result:
  assumes ok: "objects_ok s F B D" and n: "0 \<le> number"
  shows "\<exists>a s'. yaffs_CreateNewObject number type s = Some (a, s') \<and> lostNFoundDir s' = lostNFoundDir s \<and>
    (if a = 0 then \<forall>m. yaffs_FindObjectByNumber m s' = yaffs_FindObjectByNumber m s
     else (\<forall>m. yaffs_FindObjectByNumber m s' = (if m = word_of_int number then Some a else yaffs_FindObjectByNumber m s)) \<and>
       (\<exists>F B D x. objects_ok s' F B D \<and> live s' F a x \<and> variantType x = type)) \<and>
    (a = 0 \<longrightarrow> type = FILE \<or> freeObjects s = 0 \<and> (\<exists>F B D. objects_ok s' F B D))"
proof -
  note h = objects_okD(3) [OF ok]
  obtain a s1 where alloc: "yaffs_AllocateEmptyObject s = Some (a, s1)" and
    a: "if a = 0 then F = [] \<and> (\<exists>d. s1 = s\<lparr>device := d\<rparr>)
     else (\<forall>ob. \<not> live s F a ob) \<and> bucketCount s1 = bucketCount s \<and> lostNFoundDir s1 = lostNFoundDir s \<and>
       (\<exists>F' ob. objects_ok s1 F' B (lost_and_found s a D) \<and> live s1 F' a ob \<and> variantType ob = UNKNOWN \<and>
          ring (lists s1) (HashLink a) [] \<and> (\<forall>b ob'. b \<noteq> a \<longrightarrow> live s1 F' b ob' = live s F b ob'))"
    using AllocateEmpty_ok [OF ok] by blast
  show ?thesis
  proof (cases "a = 0")
    case True
    then obtain d where d: "s1 = s\<lparr>device := d\<rparr>" using a by auto
    have "yaffs_CreateNewObject number type s = Some (0, s1)" using n alloc True by (simp add: yaffs_CreateNewObject_def)
    moreover have "yaffs_FindObjectByNumber m s1 = yaffs_FindObjectByNumber m s" for m
      by (rule hash_agree(2) [OF h]) (simp_all add: d agree_def)
    moreover have "freeObjects s = 0" using a True objects_okD(2) [OF ok] by (simp add: free_ok_def)
    moreover have "objects_ok s1 F B D" by (rule objects_ok_other [OF ok]) (simp_all add: d)
    ultimately show ?thesis using d by auto
  next
    case False
    then obtain F' ob where no: "\<And>ob. \<not> live s F a ob" and s1: "bucketCount s1 = bucketCount s" "lostNFoundDir s1 = lostNFoundDir s"
      "objects_ok s1 F' B (lost_and_found s a D)" "live s1 F' a ob" "variantType ob = UNKNOWN" "ring (lists s1) (HashLink a) []"
      and same: "\<And>b x. b \<noteq> a \<Longrightarrow> live s1 F' b x = live s F b x"
      using a by auto
    obtain tn d where tn: "(if type = FILE then yaffs_GetTnode (device s1) 0 else (Null, device s1)) = (tn, d)" by (metis surj_pair)
    let ?s2 = "s1\<lparr>device := d\<rparr>"
    have ok2: "objects_ok ?s2 F' B (lost_and_found s a D)" by (rule objects_ok_other [OF s1(3)]) simp_all
    have l2: "live ?s2 F' a ob" using s1(4) by (simp add: live_def)
    have live2: "live ?s2 F' b x = live s1 F' b x" for b x by (simp add: live_def)
    show ?thesis
    proof (cases "type = FILE \<and> tn = Null")
      case True
      have "Siblings a \<in> dom (lists ?s2)" using objects_okD(1) [OF ok2] live_dom [OF l2] by (auto simp: memory_ok_def heads_def)
      then obtain ls d' where fr: "yaffs_FreeObject a ?s2 = Some (?s2\<lparr>lists := ls, freeObjects := a, device := d'\<rparr>)"
        "prev_of ls = prev_of (lists s1)" "next_of ls = (next_of (lists s1))(Siblings a := Some (to_list_ptr (freeObjects s1)))"
        using Free_unhashed [of ?s2 a] s1(6) by auto
      let ?s3 = "?s2\<lparr>lists := ls, freeObjects := a, device := d'\<rparr>"
      have run: "yaffs_CreateNewObject number type s = Some (0, ?s3)"
        using n alloc False tn True fr(1) by (simp add: yaffs_CreateNewObject_def)
      have "yaffs_FindObjectByNumber m ?s3 = yaffs_FindObjectByNumber m ?s2" for m
        by (rule hash_agree(2) [OF objects_okD(3) [OF ok2]]) (auto simp: agree_def hash_heads_def fr(2,3))
      moreover have "yaffs_FindObjectByNumber m ?s2 = yaffs_FindObjectByNumber m s" for m
      proof -
        have "map_option ob_objectId (objects ?s2 b) = map_option ob_objectId (objects s b)"
          if m: "b \<in> set (B k)" "k < YAFFS_NOBJECT_BUCKETS" for b k
        proof -
          obtain x where x: "live s F b x" using hash_okD(3) [OF h m(2,1)] by blast
          then have "b \<noteq> a" using no by auto
          from same [OF this] x show ?thesis by (auto simp: live_def)
        qed
        then have "find_id ?s2 m (B k) = find_id s m (B k)" if "k < YAFFS_NOBJECT_BUCKETS" for k
          using that by (intro find_id_cong) blast
        then show ?thesis using hash_less by (simp only: FindObjectByNumber_find [OF h] FindObjectByNumber_find [OF objects_okD(3) [OF ok2]])
      qed
      ultimately show ?thesis using run s1(2) True by auto
    next
      case go: False
      have self2: "ring (lists ?s2) (HashLink a) []" using s1(6) by simp
      obtain s' B' x where rest: "(do {
         s \<leftarrow> upd_object a (\<lambda>ob. ob\<lparr>fake := False, renameAllowed := True, unlinkAllowed := True, ob_objectId := word_of_int number\<rparr>) ?s2;
         s \<leftarrow> yaffs_HashObject a s;
         s \<leftarrow> upd_object a (\<lambda>ob. ob\<lparr>variantType := type, yst_ctime := currentTime s, yst_mtime := currentTime s, yst_atime := currentTime s\<rparr>) s;
         s \<leftarrow> initVariant type tn a s;
         Some (a, s) }) = Some (a, s')"
        "objects_ok s' F' B' (lost_and_found s a D)" "lostNFoundDir s' = lostNFoundDir ?s2"
        "live s' F' a x" "ob_objectId x = word_of_int number" "variantType x = type" "B' = B(bucket_of x := a # B (bucket_of x))"
        "\<forall>b. b \<noteq> a \<longrightarrow> objects s' b = objects ?s2 b"
        using create_rest_ok [OF ok2 l2 s1(5) self2] by blast
      have run: "yaffs_CreateNewObject number type s = Some (a, s')"
        using n alloc False tn go rest(1) by (auto simp: yaffs_CreateNewObject_def Let_def)
      have "\<exists>y. live s' F' b y \<and> ob_objectId y = ob_objectId z" if "b \<noteq> a" "live s F b z" for b z
        using that same [OF that(1)] rest(8) by (intro exI [of _ z]) (simp add: live_def)
      from find_id_new [OF h _ rest(4) no this] objects_okD(3) [OF rest(2)] rest(7)
      have "yaffs_FindObjectByNumber m s' = (if m = ob_objectId x then Some a else yaffs_FindObjectByNumber m s)" for m by simp
      moreover have "lostNFoundDir s' = lostNFoundDir s" using rest(3) s1(2) by simp
      ultimately show ?thesis using run rest(2,4-6) False by (intro exI [of _ a] exI [of _ s']) auto
    qed
  qed
qed

text \<open>
  C33: Creating an object with a given number returns in every sound state. If it returns an object,
  the state is sound again, that object is found under its number from then on, and every other number finds what
  it found before. If it returns the null pointer, no lookup changes; for anything but a file this happens only
  when no object is in stock, and the state is then still sound.
\<close>

theorem CreateNewObject_found:
  assumes "objects_inv s" and "0 \<le> number"
  shows "\<exists>a s'. yaffs_CreateNewObject number type s = Some (a, s') \<and>
    (if a = 0 then (\<forall>m. yaffs_FindObjectByNumber m s' = yaffs_FindObjectByNumber m s) \<and>
       (type = FILE \<or> freeObjects s = 0 \<and> objects_inv s')
     else objects_inv s' \<and> (\<forall>m. yaffs_FindObjectByNumber m s' = (if m = word_of_int number then Some a else yaffs_FindObjectByNumber m s)) \<and>
       (\<exists>x. objects s' a = Some x \<and> variantType x = type))"
proof -
  obtain F B D where "objects_ok s F B D" using assms(1) by (auto simp: objects_inv_def)
  from CreateNewObject_result [OF this assms(2), of type] obtain a s' where r: "yaffs_CreateNewObject number type s = Some (a, s')"
    "if a = 0 then \<forall>m. yaffs_FindObjectByNumber m s' = yaffs_FindObjectByNumber m s
     else (\<forall>m. yaffs_FindObjectByNumber m s' = (if m = word_of_int number then Some a else yaffs_FindObjectByNumber m s)) \<and>
       (\<exists>F B D x. objects_ok s' F B D \<and> live s' F a x \<and> variantType x = type)"
    "a = 0 \<longrightarrow> type = FILE \<or> freeObjects s = 0 \<and> objects_inv s'"
    unfolding objects_inv_def by blast
  have "objects_inv s' \<and> (\<exists>x. objects s' a = Some x \<and> variantType x = type)" if "a \<noteq> 0"
    using r(2) that unfolding objects_inv_def live_def by auto
  with r show ?thesis by (intro exI [of _ a] exI [of _ s']) simp
qed

text \<open>A system without objects, and what yaffs_InitialiseObjects makes of it.\<close>

definition empty_system :: "'f yaffs_Device \<Rightarrow> 'f yaffs_System" where
  "empty_system d = \<lparr>device = d, objects = Map.empty, lists = Map.empty, bucketCount = [], freeObjects = 0, allocatedObjectList = [],
     nextObject = 1, rootDir = 0, lostNFoundDir = 0, unlinkedDir = 0, deletedDir = 0, nUnlinkedFiles = 0, niceBucket = 0, currentTime = 0,
     isDoingGC = False, gcCleanupList = [], nGCCopies = 0, garbageCollections = 0, passiveGarbageCollections = 0,
     srLastUse = 0, cacheHits = 0\<rparr>"

lemma initial_ok: "objects_ok (yaffs_InitialiseObjects (empty_system d)) [] (\<lambda>_. []) (\<lambda>_. [])"
proof -
  let ?s = "yaffs_InitialiseObjects (empty_system d)"
  have "ring (lists ?s) (Bucket k) []" if "k < YAFFS_NOBJECT_BUCKETS" for k
    using that by (simp add: yaffs_InitialiseObjects_def ring_def next_of_def prev_of_def)
  then show ?thesis
    by (simp add: objects_ok_def memory_ok_def free_ok_def hash_ok_def directory_ok_def live_def yaffs_InitialiseObjects_def empty_system_def)
qed

lemma initial_inv: "objects_inv (yaffs_InitialiseObjects (empty_system d))"
  using initial_ok by (auto simp: objects_inv_def)

text \<open>The empty system with a first batch of objects in stock.\<close>

definition stocked_system :: "unit yaffs_System" where
  "stocked_system = snd (yaffs_CreateFreeObjects YAFFS_ALLOCATION_NOBJECTS
     (yaffs_InitialiseObjects (empty_system ((zero_device ())\<lparr>ymalloc := [True, True]\<rparr>))))"

lemma stocked: "objects_inv stocked_system" "freeObjects stocked_system \<noteq> 0"
proof -
  let ?s = "yaffs_InitialiseObjects (empty_system ((zero_device ())\<lparr>ymalloc := [True, True]\<rparr>))"
  have "fst (yaffs_CreateFreeObjects YAFFS_ALLOCATION_NOBJECTS ?s) = YAFFS_OK"
    by (simp add: yaffs_CreateFreeObjects_def yMalloc_def yaffs_InitialiseObjects_def empty_system_def YAFFS_ALLOCATION_NOBJECTS_def Let_def)
  moreover have "nextObject ?s = 1" by (simp add: yaffs_InitialiseObjects_def empty_system_def)
  moreover have "0 < YAFFS_ALLOCATION_NOBJECTS" by (simp add: YAFFS_ALLOCATION_NOBJECTS_def)
  ultimately have "objects_ok stocked_system ([1..<1 + YAFFS_ALLOCATION_NOBJECTS] @ []) (\<lambda>_. []) (\<lambda>_. [])"
    using CreateFree_ok [OF initial_ok, of YAFFS_ALLOCATION_NOBJECTS "(zero_device ())\<lparr>ymalloc := [True, True]\<rparr>"]
    unfolding stocked_system_def by (cases "yaffs_CreateFreeObjects YAFFS_ALLOCATION_NOBJECTS ?s") (simp add: YAFFS_OK_def YAFFS_FAIL_def del: upt_Suc)
  then have ok: "objects_ok stocked_system [1..<1 + YAFFS_ALLOCATION_NOBJECTS] (\<lambda>_. []) (\<lambda>_. [])" by (simp only: append_Nil2)
  then show "objects_inv stocked_system" unfolding objects_inv_def by blast
  have "free_chain l p [1..<1 + n] \<Longrightarrow> 0 < n \<Longrightarrow> p \<noteq> 0" for l p n by (simp add: upt_conv_Cons del: upt_Suc)
  then show "freeObjects stocked_system \<noteq> 0"
    using objects_okD(2) [OF ok] \<open>0 < YAFFS_ALLOCATION_NOBJECTS\<close> unfolding free_ok_def by blast
qed

theorem CreateNewObject_found_witness:
  "\<exists>a s'. yaffs_CreateNewObject 257 DIRECTORY stocked_system = Some (a, s') \<and> a \<noteq> 0 \<and> objects_inv s' \<and>
    yaffs_FindObjectByNumber 257 s' = Some a"
proof -
  have n: "(0 :: int) \<le> 257" by simp
  from CreateNewObject_found [OF stocked(1) n, of DIRECTORY] stocked(2)
  show ?thesis by (auto split: if_split_asm)
qed

section \<open>New object numbers\<close>

lemma number_taken_eq:
  assumes "hash_ok s F B" and "k < YAFFS_NOBJECT_BUCKETS"
  shows "number_taken k n s = Some (\<exists>a\<in>set (B k). map_option ob_objectId (objects s a) = Some n)"
proof -
  let ?body = "\<lambda>i taken. do { a \<leftarrow> hashLink_entry i; ob \<leftarrow> objects s a; Some (None :: unit option, if ob_objectId ob = n then True else taken) }"
  have r: "ring (lists s) (Bucket k) (map HashLink (B k))" "\<forall>a\<in>set (B k). objects s a \<noteq> None"
    using hash_okD(1,3) [OF assms(1,2)] by (fastforce simp: live_def)+
  have "visit ?body (map HashLink as) t = Some (None, t \<or> (\<exists>a\<in>set as. map_option ob_objectId (objects s a) = Some n))"
    if "\<forall>a\<in>set as. objects s a \<noteq> None" for as t
    using that by (induction as arbitrary: t) (auto simp: hashLink_entry_def)
  then have v: "visit ?body (map HashLink (B k)) False = Some (None, \<exists>a\<in>set (B k). map_option ob_objectId (objects s a) = Some n)"
    using r(2) by simp
  have "list_for_each (\<lambda>_. lists s) (Bucket k) ?body False = visit ?body (map HashLink (B k)) False"
    by (rule list_for_each_ring) (use r in simp_all)
  then show ?thesis unfolding number_taken_def v by simp
qed

lemma nice_loop_keeps:
  "l < YAFFS_NOBJECT_BUCKETS \<Longrightarrow> fst (snd (nice_loop n limit counts (x, l, lowest))) < YAFFS_NOBJECT_BUCKETS"
  by (induction n arbitrary: x l lowest) (auto simp: Let_def YAFFS_NOBJECT_BUCKETS_def)

lemma nice_bucket:
  assumes "\<And>k. k < YAFFS_NOBJECT_BUCKETS \<Longrightarrow> bucketCount s ! k < 999999"
  shows "fst (yaffs_FindNiceObjectBucket s) < YAFFS_NOBJECT_BUCKETS"
proof -
  let ?c = "bucketCount s" and ?x = "(niceBucket s + 1) mod YAFFS_NOBJECT_BUCKETS"
  have x: "?x < YAFFS_NOBJECT_BUCKETS" by (simp add: YAFFS_NOBJECT_BUCKETS_def)
  have "nice_loop 10 0 ?c (niceBucket s, 999, 999999) = nice_loop 9 0 ?c (?x, ?x, ?c ! ?x)"
    using assms [OF x] by (simp add: eval_nat_numeral Let_def)
  moreover obtain x2 l2 w2 where n: "nice_loop 9 0 ?c (?x, ?x, ?c ! ?x) = (x2, l2, w2)" by (metis prod_cases3)
  moreover obtain x3 l3 w3 where "nice_loop 10 3 ?c (x2, l2, w2) = (x3, l3, w3)" by (metis prod_cases3)
  ultimately show ?thesis
    using nice_loop_keeps [OF x, of 9 0 ?c ?x "?c ! ?x"] nice_loop_keeps [of l2 10 3 ?c x2 w2]
    by (simp add: yaffs_FindNiceObjectBucket_def)
qed

lemma newNumber_runs:
  assumes "\<And>i. i < j \<Longrightarrow> number_taken k (n + of_nat YAFFS_NOBJECT_BUCKETS * of_nat (i + 1)) s = Some True"
    and "number_taken k (n + of_nat YAFFS_NOBJECT_BUCKETS * of_nat (j + 1)) s = Some False"
  shows "newNumber_loop k n s = Some (n + of_nat YAFFS_NOBJECT_BUCKETS * of_nat (j + 1))"
  using assms
proof (induction j arbitrary: n)
  case 0
  then show ?case by (subst newNumber_loop.simps) simp
next
  case (Suc j)
  let ?n = "n + of_nat YAFFS_NOBJECT_BUCKETS :: u32"
  have shift: "?n + of_nat YAFFS_NOBJECT_BUCKETS * of_nat (i + 1) = n + of_nat YAFFS_NOBJECT_BUCKETS * of_nat (Suc i + 1)" for i
    by (simp add: algebra_simps)
  have "number_taken k ?n s = Some True" using Suc.prems(1) [of 0] by simp
  moreover have "newNumber_loop k ?n s = Some (?n + of_nat YAFFS_NOBJECT_BUCKETS * of_nat (j + 1))"
    by (rule Suc.IH) (use Suc.prems in \<open>auto simp only: shift Suc_less_eq\<close>)
  ultimately show ?case by (subst newNumber_loop.simps) (simp only: shift Let_def option.simps Option.bind_lunit if_True)
qed

lemma number_of_bucket:
  assumes "k < 256" and "m < 4000000"
  shows "unat (of_nat k + of_nat 256 * of_nat m :: u32) = k + 256 * m" and "yaffs_HashFunction (sint (of_nat k + of_nat 256 * of_nat m :: u32)) = k"
proof -
  have w: "(of_nat k + of_nat 256 * of_nat m :: u32) = of_nat (k + 256 * m)" by simp
  show u: "unat (of_nat k + of_nat 256 * of_nat m :: u32) = k + 256 * m"
    unfolding w unat_of_nat using assms by (simp add: take_bit_nat_eq_self)
  have "sint (of_nat n :: u32) = int n" if "n < 2 ^ 31" for n
    using that by (simp add: signed_of_nat signed_take_bit_int_eq_self)
  from this [of "k + 256 * m"] have "sint (of_nat (k + 256 * m) :: u32) = int (k + 256 * m)" using assms by simp
  then show "yaffs_HashFunction (sint (of_nat k + of_nat 256 * of_nat m :: u32)) = k"
    unfolding w yaffs_HashFunction_def YAFFS_NOBJECT_BUCKETS_def using assms by simp
qed

lemma bucket_numbers:
  assumes "hash_ok s F B" and "k < YAFFS_NOBJECT_BUCKETS" and "length (B k) < 1000000"
  obtains j where "j \<le> length (B k)"
    "number_taken k (of_nat k + of_nat YAFFS_NOBJECT_BUCKETS * of_nat (j + 1)) s = Some False"
    "\<And>i. i < j \<Longrightarrow> number_taken k (of_nat k + of_nat YAFFS_NOBJECT_BUCKETS * of_nat (i + 1)) s = Some True"
proof -
  let ?num = "\<lambda>i. of_nat k + of_nat YAFFS_NOBJECT_BUCKETS * of_nat (i + 1) :: u32"
  let ?ids = "(\<lambda>a. ob_objectId (the (objects s a))) ` set (B k)"
  have taken: "number_taken k n s = Some (n \<in> ?ids)" for n
  proof -
    have "(map_option ob_objectId (objects s a) = Some n) = (n = ob_objectId (the (objects s a)))" if "a \<in> set (B k)" for a
      using hash_okD(3) [OF assms(1,2) that] by (auto simp: live_def)
    then show ?thesis unfolding number_taken_eq [OF assms(1,2)] by auto
  qed
  have "inj_on ?num {..length (B k)}"
  proof (rule inj_onI)
    fix i i' assume m: "i \<in> {..length (B k)}" "i' \<in> {..length (B k)}" and eq: "?num i = ?num i'"
    have "unat (?num i) = k + 256 * (i + 1)" "unat (?num i') = k + 256 * (i' + 1)"
      using m assms(2,3) number_of_bucket(1) [of k "i + 1"] number_of_bucket(1) [of k "i' + 1"]
      by (simp_all only: YAFFS_NOBJECT_BUCKETS_def atMost_iff)
    then have "k + 256 * (i + 1) = k + 256 * (i' + 1)" using arg_cong [OF eq, of unat] by (simp only:)
    then show "i = i'" by simp
  qed
  then have "card (?num ` {..length (B k)}) = Suc (length (B k))" by (simp add: card_image)
  moreover have "card ?ids \<le> length (B k)" using card_image_le [of "set (B k)"] card_length [of "B k"] by (meson finite_set le_trans)
  ultimately have "\<not> ?num ` {..length (B k)} \<subseteq> ?ids" using card_mono [of ?ids "?num ` {..length (B k)}"] by auto
  then obtain i where i: "i \<le> length (B k)" "?num i \<notin> ?ids" by auto
  define j where "j = (LEAST i. ?num i \<notin> ?ids)"
  have "?num j \<notin> ?ids" unfolding j_def by (rule LeastI [where P = "\<lambda>i. ?num i \<notin> ?ids"], rule i(2))
  moreover have "j \<le> i" unfolding j_def by (rule Least_le [where P = "\<lambda>i. ?num i \<notin> ?ids"], rule i(2))
  moreover have "?num i' \<in> ?ids" if "i' < j" for i' using not_less_Least [of i' "\<lambda>i. ?num i \<notin> ?ids"] that unfolding j_def by blast
  ultimately have "j \<le> length (B k)" "number_taken k (?num j) s = Some False" "\<And>i'. i' < j \<Longrightarrow> number_taken k (?num i') s = Some True"
    using i(1) by (simp_all only: taken option.inject)
  then show thesis by (rule that)
qed

text \<open>
  C34: With fewer than a million objects in memory the search for an object number ends, however the
  numbers in use are spread, and the number it returns is not that of any object in the table
  and is none of the first 256, which the special objects have.
\<close>

theorem CreateNewObjectNumber_fresh:
  assumes "objects_inv s" and "nextObject s < 999999"
  shows "\<exists>n s'. yaffs_CreateNewObjectNumber s = Some (n, s') \<and> yaffs_FindObjectByNumber n s = Some 0 \<and> 256 \<le> n \<and> objects_inv s'"
proof -
  obtain F B D where ok: "objects_ok s F B D" using assms(1) by (auto simp: objects_inv_def)
  note p = objects_okD [OF ok]
  have len: "length (B k) < 999999" if k: "k < YAFFS_NOBJECT_BUCKETS" for k
  proof -
    have "distinct (B k)" using hash_okD(1) [OF p(3) k] by (simp add: ring_def distinct_map)
    moreover have "set (B k) \<subseteq> {0..<nextObject s}"
    proof
      fix a assume "a \<in> set (B k)"
      then have "a \<in> dom (objects s)" using hash_okD(3) [OF p(3) k] by (auto simp: live_def)
      then show "a \<in> {0..<nextObject s}" using p(1) by (simp add: memory_ok_def)
    qed
    ultimately have "length (B k) \<le> nextObject s" using card_mono [of "{0..<nextObject s}" "set (B k)"] by (simp add: distinct_card)
    then show ?thesis using assms(2) by simp
  qed
  obtain k s1 where f: "yaffs_FindNiceObjectBucket s = (k, s1)" by (metis surj_pair)
  have k: "k < YAFFS_NOBJECT_BUCKETS" using nice_bucket [of s] hash_okD(2) [OF p(3)] len f by simp
  obtain x where s1: "s1 = s\<lparr>niceBucket := x\<rparr>" using f by (auto simp: yaffs_FindNiceObjectBucket_def split: prod.splits)
  have ok1: "objects_ok s1 F B D" by (rule objects_ok_other [OF ok]) (simp_all add: s1)
  have l: "length (B k) < 1000000" using len [OF k] by simp
  have ob1: "objects s1 = objects s" by (simp add: s1)
  obtain j where j: "j \<le> length (B k)" "number_taken k (of_nat k + of_nat YAFFS_NOBJECT_BUCKETS * of_nat (j + 1)) s1 = Some False"
    "\<And>i. i < j \<Longrightarrow> number_taken k (of_nat k + of_nat YAFFS_NOBJECT_BUCKETS * of_nat (i + 1)) s1 = Some True"
    using bucket_numbers [OF objects_okD(3) [OF ok1] k l] by blast
  let ?n = "of_nat k + of_nat YAFFS_NOBJECT_BUCKETS * of_nat (j + 1) :: u32"
  have "newNumber_loop k (of_nat k) s1 = Some ?n" by (rule newNumber_runs [OF j(3,2)])
  then have run: "yaffs_CreateNewObjectNumber s = Some (?n, s1)" by (simp add: yaffs_CreateNewObjectNumber_def f)
  have j1: "k < 256" "j + 1 < 4000000" using j(1) len [OF k] k by (simp_all add: YAFFS_NOBJECT_BUCKETS_def)
  note nb = number_of_bucket [OF j1, folded YAFFS_NOBJECT_BUCKETS_def]
  have "unat ?n \<ge> 256" using nb(1) by (simp add: YAFFS_NOBJECT_BUCKETS_def)
  then have "256 \<le> ?n" by (simp add: word_le_nat_alt)
  moreover have "yaffs_FindObjectByNumber ?n s = Some 0"
  proof -
    have "\<forall>a\<in>set (B k). map_option ob_objectId (objects s a) \<noteq> Some ?n"
      using j(2) ob1 unfolding number_taken_eq [OF objects_okD(3) [OF ok1] k] by auto
    moreover have "0 \<notin> set (B k)" using hash_okD(3) [OF p(3) k] p(1) by (fastforce simp: live_def memory_ok_def)
    ultimately show ?thesis unfolding FindObjectByNumber_find [OF p(3)] nb(2) using find_id_0 [of "B k" s ?n] by simp
  qed
  moreover have "objects_inv s1" using ok1 by (auto simp: objects_inv_def)
  ultimately show ?thesis using run by blast
qed

theorem CreateNewObjectNumber_fresh_witness:
  "\<exists>n s'. yaffs_CreateNewObjectNumber (yaffs_InitialiseObjects (empty_system (zero_device ()))) = Some (n, s') \<and> 256 \<le> n"
  using CreateNewObjectNumber_fresh [OF initial_inv [of "zero_device ()"]] by (auto simp: yaffs_InitialiseObjects_def empty_system_def)

section \<open>Out of memory\<close>

text \<open>The children of a directory as a reader of the directory meets them.\<close>

definition directory_children :: "'f yaffs_System \<Rightarrow> nat \<Rightarrow> nat list option" where
  "directory_children s d = do {
     (r :: unit option, as) \<leftarrow> list_for_each (\<lambda>_. lists s) (Children d) (\<lambda>i as. do { a \<leftarrow> siblings_entry i; Some (None, as @ [a]) }) [];
     Some as
   }"

lemma children_of_directory:
  assumes "ring (lists s) (Children d) (map Siblings as)"
  shows "directory_children s d = Some as"
proof -
  let ?body = "\<lambda>i bs. do { a \<leftarrow> siblings_entry i; Some (None :: unit option, bs @ [a]) }"
  have "visit ?body (map Siblings cs) bs = Some (None, bs @ cs)" for bs cs
    by (induction cs arbitrary: bs) (simp_all add: siblings_entry_def)
  moreover have "list_for_each (\<lambda>_. lists s) (Children d) ?body [] = visit ?body (map Siblings as) []"
    by (rule list_for_each_ring) (simp_all add: assms)
  ultimately show ?thesis by (simp add: directory_children_def)
qed

lemma get_tnode_none: "freeTnodes d = 0 \<Longrightarrow> ymalloc d = [] \<Longrightarrow> fst (yaffs_GetTnode d 0) = Null"
  by (simp add: yaffs_GetTnode_def yaffs_GetTnodeRaw_def yaffs_CreateTnodes_def yMalloc_def YAFFS_ALLOCATION_NTNODES_def Let_def)

text \<open>
  C36: When a file is created and there is a free object but no memory for its first tnode, the object goes
  back to the stock while it is still a child of lost+found: its link in the directory becomes the link
  of the stock. Before, reading lost+found met its children; after it, the reader follows the
  stock's pointer out of the directory, which is not a list head.
\<close>

theorem CreateNewObject_no_tnode:
  assumes "objects_inv s" and "0 \<le> number" and "lostNFoundDir s \<noteq> 0" and "freeObjects s \<noteq> 0"
    and "freeTnodes (device s) = 0" and "ymalloc (device s) = []"
  shows "directory_children s (lostNFoundDir s) \<noteq> None \<and>
    (\<exists>s'. yaffs_CreateNewObject number FILE s = Some (0, s') \<and> lostNFoundDir s' = lostNFoundDir s \<and>
      directory_children s' (lostNFoundDir s') = None)"
proof
  obtain F B D where ok: "objects_ok s F B D" using assms(1) by (auto simp: objects_inv_def)
  note p = objects_okD [OF ok]
  let ?d = "lostNFoundDir s"
  obtain dob where "live s F ?d dob" "variantType dob = DIRECTORY" using directory_okD(5) [OF p(4) assms(3)] by blast
  then show "directory_children s ?d \<noteq> None" using children_of_directory directory_okD(1) [OF p(4)] by fastforce
  obtain a F' where F: "F = a # F'" using p(2) assms(4) by (cases F) (auto simp: free_ok_def)
  then have a: "freeObjects s = a" "a \<noteq> 0" using p(2) assms(4) by (auto simp: free_ok_def)
  obtain s1 ob where s1: "takeObject s = Some (a, s1)" "objects_ok s1 F' B (lost_and_found s a D)" "live s1 F' a ob"
    "ring (lists s1) (HashLink a) []" "lostNFoundDir s1 = ?d" "device s1 = (device s)\<lparr>nFreeObjects := nFreeObjects (device s) - 1\<rparr>"
    using take_ok [OF ok [unfolded F]] by blast
  define d where "d = snd (yaffs_GetTnode ((device s1)\<lparr>nCheckpointBlocksRequired := 0\<rparr>) 0)"
  have g: "yaffs_GetTnode ((device s1)\<lparr>nCheckpointBlocksRequired := 0\<rparr>) 0 = (Null, d)"
    using get_tnode_none [of "(device s1)\<lparr>nCheckpointBlocksRequired := 0\<rparr>"] assms(5,6) s1(6) by (simp add: d_def prod_eq_iff)
  let ?s2 = "s1\<lparr>device := d\<rparr>"
  have "Siblings a \<in> dom (lists ?s2)" using objects_okD(1) [OF s1(2)] live_dom [OF s1(3)] by (auto simp: memory_ok_def heads_def)
  then obtain ls d' where fr: "yaffs_FreeObject a ?s2 = Some (?s2\<lparr>lists := ls, freeObjects := a, device := d'\<rparr>)"
    "next_of ls = (next_of (lists s1))(Siblings a := Some (to_list_ptr (freeObjects s1)))"
    using Free_unhashed [of ?s2 a] s1(4) by auto
  let ?s3 = "?s2\<lparr>lists := ls, freeObjects := a, device := d'\<rparr>"
  have run: "yaffs_CreateNewObject number FILE s = Some (0, ?s3)"
    using assms(2) a s1(1) g fr(1) by (simp add: yaffs_CreateNewObject_def yaffs_AllocateEmptyObject_def)
  obtain dob1 where "live s1 F' ?d dob1" "variantType dob1 = DIRECTORY"
    using directory_okD(5) [OF objects_okD(4) [OF s1(2)]] s1(5) assms(3) by auto
  then have "ring (lists s1) (Children ?d) (map Siblings (lost_and_found s a D ?d))"
    using directory_okD(1) [OF objects_okD(4) [OF s1(2)]] by blast
  then have "next_of (lists s1) (Children ?d) = Some (Siblings a)" using assms(3) by (simp add: lost_and_found_def ring_def)
  then have first: "next_of ls (Children ?d) = Some (Siblings a)" "next_of ls (Siblings a) = Some (to_list_ptr (freeObjects s1))"
    by (simp_all add: fr(2))
  have "directory_children ?s3 ?d = None"
    unfolding directory_children_def list_for_each_def
    by (simp add: first list_search.simps siblings_entry_def) (simp add: to_list_ptr_def)
  then show "\<exists>s'. yaffs_CreateNewObject number FILE s = Some (0, s') \<and> lostNFoundDir s' = ?d \<and> directory_children s' (lostNFoundDir s') = None"
    using run s1(5) by (intro exI [of _ ?s3]) simp
qed

text \<open>A system with memory for two objects, of which one has become the lost+found directory.\<close>

definition two_objects :: "unit yaffs_System" where
  "two_objects = snd (yaffs_CreateFreeObjects 2 (yaffs_InitialiseObjects (empty_system ((zero_device ())\<lparr>ymalloc := [True, True]\<rparr>))))"

definition small_system :: "unit yaffs_System" where
  "small_system = (snd (the (yaffs_CreateNewObject 2 DIRECTORY two_objects)))\<lparr>lostNFoundDir := 1\<rparr>"

lemma small_system_runs:
  "fst (the (yaffs_CreateNewObject 2 DIRECTORY two_objects)) = 1" "yaffs_CreateNewObject 2 DIRECTORY two_objects \<noteq> None"
  "freeObjects small_system = 2" "freeTnodes (device small_system) = 0" "ymalloc (device small_system) = []" "lostNFoundDir small_system = 1"
  by code_simp+

lemma set_lost_and_found:
  assumes "objects_ok s F B D" and "live s F a x" and "variantType x = DIRECTORY"
  shows "objects_ok (s\<lparr>lostNFoundDir := a\<rparr>) F B D"
proof -
  note p = objects_okD [OF assms(1)]
  let ?s = "s\<lparr>lostNFoundDir := a\<rparr>"
  have "live ?s F b y = live s F b y" for b y by (simp add: live_def)
  then have "directory_ok ?s F D" using p(4) assms(2,3) by (auto simp: directory_ok_def)
  moreover have "hash_ok ?s F B" by (rule hash_frame [OF p(3)]) (simp_all add: agree_def)
  moreover have "free_ok ?s F" by (rule free_frame [OF p(2)]) simp_all
  moreover have "memory_ok ?s" by (rule memory_frame [OF p(1)]) simp_all
  ultimately show ?thesis by (simp add: objects_ok_def)
qed

lemma two_objects_ok: "\<exists>F. objects_ok two_objects F (\<lambda>_. []) (\<lambda>_. [])"
proof -
  obtain r s where c: "yaffs_CreateFreeObjects 2 (yaffs_InitialiseObjects (empty_system ((zero_device ())\<lparr>ymalloc := [True, True]\<rparr>))) = (r, s)"
    by (metis surj_pair)
  have "r = YAFFS_OK"
    using c by (auto simp: yaffs_CreateFreeObjects_def yMalloc_def yaffs_InitialiseObjects_def empty_system_def Let_def)
  then obtain F where "objects_ok s F (\<lambda>_. []) (\<lambda>_. [])"
    using CreateFree_ok [OF initial_ok [of "(zero_device ())\<lparr>ymalloc := [True, True]\<rparr>"], of 2] c by (auto simp: YAFFS_OK_def YAFFS_FAIL_def)
  moreover have "s = two_objects" by (simp add: two_objects_def c)
  ultimately show ?thesis by blast
qed

lemma two_objects_inv: "objects_inv two_objects"
  using two_objects_ok by (auto simp: objects_inv_def)

lemma small_system_inv: "objects_inv small_system"
proof -
  obtain F where "objects_ok two_objects F (\<lambda>_. []) (\<lambda>_. [])" using two_objects_ok by blast
  from CreateNewObject_result [OF this, of 2 DIRECTORY] obtain a s' where
    r: "yaffs_CreateNewObject 2 DIRECTORY two_objects = Some (a, s')" "if a = 0 then \<forall>m. yaffs_FindObjectByNumber m s' = yaffs_FindObjectByNumber m two_objects
     else (\<forall>m. yaffs_FindObjectByNumber m s' = (if m = word_of_int 2 then Some a else yaffs_FindObjectByNumber m two_objects)) \<and>
       (\<exists>F B D x. objects_ok s' F B D \<and> live s' F a x \<and> variantType x = DIRECTORY)" by auto
  have a: "a = 1" "small_system = s'\<lparr>lostNFoundDir := 1\<rparr>" using small_system_runs(1) r(1) by (simp_all add: small_system_def)
  then show ?thesis using r(2) set_lost_and_found unfolding objects_inv_def by (metis one_neq_zero)
qed

theorem CreateNewObject_no_tnode_witness:
  "\<exists>s'. yaffs_CreateNewObject 300 FILE small_system = Some (0, s') \<and> directory_children s' 1 = None"
  using CreateNewObject_no_tnode [OF small_system_inv, of 300] small_system_runs(3-6) by auto

section \<open>Moving objects\<close>

text \<open>
  C35: In a sound state an object can be put into any directory, wherever it was before: the operation returns,
  it becomes the first child of that directory and is a child of no other one, every other entry of
  every directory stays in its place, and the pointers of all lists fit together again.
\<close>

theorem AddObjectToDirectory_moves:
  assumes "objects_ok s F B D" and "live s F a ob" and "live s F d dob" and "variantType dob = DIRECTORY"
  shows "\<exists>s' ob'. yaffs_AddObjectToDirectory d a s = Some s' \<and> objects_inv s' \<and> objects s' a = Some ob' \<and> parent ob' = d \<and>
    (\<forall>e eob. live s F e eob \<and> variantType eob = DIRECTORY \<longrightarrow>
      directory_children s e = Some (D e) \<and>
      directory_children s' e = Some (if e = d then a # remove1 a (D e) else remove1 a (D e)))"
proof -
  obtain s' ob' where s': "yaffs_AddObjectToDirectory d a s = Some s'" "objects_ok s' F B ((detach a D)(d := a # detach a D d))"
    "objects s' = (objects s)(a \<mapsto> ob')" "variantType ob' = variantType ob" "parent ob' = d"
    using Add_ok [OF assms] by blast
  have "directory_children s e = Some (D e) \<and>
      directory_children s' e = Some (if e = d then a # remove1 a (D e) else remove1 a (D e))"
    if e: "live s F e eob" "variantType eob = DIRECTORY" for e eob
  proof
    show "directory_children s e = Some (D e)"
      by (rule children_of_directory) (rule directory_okD(1) [OF objects_okD(4) [OF assms(1)] e])
    obtain eob' where "live s' F e eob'" "variantType eob' = DIRECTORY"
      using e assms(2) s'(3,4) by (cases "e = a") (auto simp: live_def)
    from directory_okD(1) [OF objects_okD(4) [OF s'(2)] this]
    show "directory_children s' e = Some (if e = d then a # remove1 a (D e) else remove1 a (D e))"
      by (intro children_of_directory) (simp add: detach_def split: if_splits)
  qed
  then show ?thesis using s' unfolding objects_inv_def by (intro exI [of _ s'] exI [of _ ob']) auto
qed

text \<open>The root directory and lost+found, as they are when yaffs_CreateInitialDirectories hooks one into the other.\<close>

lemma create_inv:
  assumes "objects_inv s" and "0 \<le> number" and "yaffs_CreateNewObject number type s = Some (a, s')" and "a \<noteq> 0"
  shows "objects_inv s'"
proof -
  obtain F B D where "objects_ok s F B D" using assms(1) by (auto simp: objects_inv_def)
  from CreateNewObject_result [OF this assms(2), of type] assms(3,4) show ?thesis by (auto simp: objects_inv_def)
qed

definition root_only :: "unit yaffs_System" where
  "root_only = snd (the (yaffs_CreateNewObject 1 DIRECTORY two_objects))"

definition two_directories :: "unit yaffs_System" where
  "two_directories = snd (the (yaffs_CreateNewObject 2 DIRECTORY root_only))"

lemma two_directories_runs:
  "yaffs_CreateNewObject 1 DIRECTORY two_objects = Some (1, root_only)" "yaffs_CreateNewObject 2 DIRECTORY root_only = Some (2, two_directories)"
  "freeObjects two_directories = 0" "map_option variantType (objects two_directories 1) = Some DIRECTORY"
  "map_option variantType (objects two_directories 2) = Some DIRECTORY"
  "next_of (lists two_directories) (Children 1) = Some (Children 1)"
proof -
  have "yaffs_CreateNewObject 1 DIRECTORY two_objects \<noteq> None" "fst (the (yaffs_CreateNewObject 1 DIRECTORY two_objects)) = 1"
    "yaffs_CreateNewObject 2 DIRECTORY root_only \<noteq> None" "fst (the (yaffs_CreateNewObject 2 DIRECTORY root_only)) = 2"
    by code_simp+
  then show "yaffs_CreateNewObject 1 DIRECTORY two_objects = Some (1, root_only)" "yaffs_CreateNewObject 2 DIRECTORY root_only = Some (2, two_directories)"
    by (auto simp: root_only_def two_directories_def)
qed (code_simp+)

theorem AddObjectToDirectory_moves_witness:
  "\<exists>s'. yaffs_AddObjectToDirectory 1 2 two_directories = Some s' \<and> directory_children s' 1 = Some [2]"
proof -
  note r = two_directories_runs
  have "objects_inv root_only" by (rule create_inv [OF two_objects_inv _ r(1)]) simp_all
  then have "objects_inv two_directories" by (rule create_inv [OF _ _ r(2)]) simp_all
  then obtain F B D where ok: "objects_ok two_directories F B D" by (auto simp: objects_inv_def)
  have F: "F = []" using objects_okD(1,2) [OF ok] r(3) by (cases F) (auto simp: free_ok_def memory_ok_def)
  obtain x y where x: "live two_directories F 1 x" "variantType x = DIRECTORY" and y: "live two_directories F 2 y"
    using r(4,5) by (auto simp: live_def F)
  have "directory_children two_directories 1 = Some []"
    by (simp add: directory_children_def list_for_each_def r(6)[simplified] list_search.simps)
  moreover have "directory_children two_directories 1 = Some (D 1)"
    by (rule children_of_directory) (rule directory_okD(1) [OF objects_okD(4) [OF ok] x])
  ultimately have "D 1 = []" by simp
  with AddObjectToDirectory_moves [OF ok y x] x show ?thesis by (auto dest!: spec [of _ 1])
qed

end
