(* ===== verification/FileAccess.thy ===== *)
theory FileAccess
  imports GarbageCollect Geometry
begin

text \<open>
  The cache of chunks for short operations and the reading and writing of file data (yaffs_guts.c). A pointer to a
  cache entry is its position in the array. An access outside of an array, a null pointer that is used, and a loop that
  does not end give None.
\<close>

section \<open>The cache\<close>

definition upd_cache :: "nat \<Rightarrow> (yaffs_ChunkCache \<Rightarrow> yaffs_ChunkCache) \<Rightarrow> 'f yaffs_System \<Rightarrow> 'f yaffs_System option" where
  "upd_cache i f s =
     (if i < length (srCache (device s)) then
        Some (s\<lparr>device := (device s)\<lparr>srCache := (srCache (device s))[i := f (srCache (device s) ! i)]\<rparr>\<rparr>)
      else None)"

definition caches :: "'f yaffs_System \<Rightarrow> yaffs_ChunkCache list" where
  "caches s = take (nat (nShortOpCaches (device s))) (srCache (device s))"

text \<open>The dirty entry of an object with the lowest chunk, the first such one, from position i on.\<close>

fun lowest_dirty :: "nat \<Rightarrow> nat \<Rightarrow> yaffs_ChunkCache list \<Rightarrow> (nat \<times> int) option \<Rightarrow> (nat \<times> int) option" where
  "lowest_dirty a i [] best = best"
| "lowest_dirty a i (c # cs) best =
     lowest_dirty a (i + 1) cs
       (if cc_object c = Some a \<and> dirty c \<and> (case best of None \<Rightarrow> True | Some (j, lowest) \<Rightarrow> cc_chunkId c < lowest)
        then Some (i, cc_chunkId c) else best)"

text \<open>The loop of yaffs_FlushFilesChunkCache. An entry is dropped whether its chunk could be written or not.\<close>

partial_function (option) flush_loop :: "'f collector \<Rightarrow> nat \<Rightarrow> nat \<Rightarrow> int \<Rightarrow> 'f yaffs_System \<Rightarrow> 'f yaffs_System option" where
  "flush_loop gc fuel a chunkWritten s =
     (case lowest_dirty a 0 (caches s) None of
        None \<Rightarrow> Some s
      | Some (i, lowest) \<Rightarrow> do {
          let cache = srCache (device s) ! i;
          (chunkWritten, s) \<leftarrow>
            (if \<not> locked cache then do {
               (r, s) \<leftarrow> yaffs_WriteChunkDataToObject gc fuel a (cc_chunkId cache) (cc_data cache) (nBytes cache) True s;
               s \<leftarrow> upd_cache i (\<lambda>c. c\<lparr>dirty := False, cc_object := None\<rparr>) s;
               Some (r, s)
             } else Some (chunkWritten, s));
          if chunkWritten > 0 then flush_loop gc fuel a chunkWritten s else Some s
        })"

definition yaffs_FlushFilesChunkCache :: "'f collector \<Rightarrow> nat \<Rightarrow> nat \<Rightarrow> 'f yaffs_System \<Rightarrow> 'f yaffs_System option" where
  "yaffs_FlushFilesChunkCache gc fuel a s = do {
     ob \<leftarrow> objects s a;
     if nShortOpCaches (device s) > 0 then flush_loop gc fuel a 0 s else Some s
   }"

partial_function (option) yaffs_FlushEntireDeviceCache :: "'f collector \<Rightarrow> nat \<Rightarrow> 'f yaffs_System \<Rightarrow> 'f yaffs_System option" where
  "yaffs_FlushEntireDeviceCache gc fuel s =
     (case List.find (\<lambda>c. cc_object c \<noteq> None \<and> dirty c) (caches s) of
        None \<Rightarrow> Some s
      | Some c \<Rightarrow> do { s \<leftarrow> yaffs_FlushFilesChunkCache gc fuel (the (cc_object c)) s; yaffs_FlushEntireDeviceCache gc fuel s })"

text \<open>A free entry. What the code has behind its return is not reached.\<close>

fun free_entry :: "nat \<Rightarrow> yaffs_ChunkCache list \<Rightarrow> nat option" where
  "free_entry i [] = None"
| "free_entry i (c # cs) = (if cc_object c = None then Some i else free_entry (i + 1) cs)"

definition yaffs_GrabChunkCacheWorker :: "'f yaffs_System \<Rightarrow> nat option" where
  "yaffs_GrabChunkCacheWorker s = (if nShortOpCaches (device s) > 0 then free_entry 0 (caches s) else None)"

text \<open>The entry in use and not locked that was used least recently, with the time of its use.\<close>

fun oldest_entry :: "nat \<Rightarrow> yaffs_ChunkCache list \<Rightarrow> (nat \<times> int) option \<Rightarrow> (nat \<times> int) option" where
  "oldest_entry i [] best = best"
| "oldest_entry i (c # cs) best =
     oldest_entry (i + 1) cs
       (if cc_object c \<noteq> None \<and> \<not> locked c \<and> (case best of None \<Rightarrow> True | Some (j, usage) \<Rightarrow> lastUse c < usage)
        then Some (i, lastUse c) else best)"

definition yaffs_GrabChunkCache :: "'f collector \<Rightarrow> nat \<Rightarrow> 'f yaffs_System \<Rightarrow> (nat option \<times> 'f yaffs_System) option" where
  "yaffs_GrabChunkCache gc fuel s =
     (if nShortOpCaches (device s) > 0 then
        (case yaffs_GrabChunkCacheWorker s of
           Some i \<Rightarrow> Some (Some i, s)
         | None \<Rightarrow>
             (case oldest_entry 0 (caches s) None of
                None \<Rightarrow> None
              | Some (i, usage) \<Rightarrow>
                  if dirty (srCache (device s) ! i) then do {
                    s \<leftarrow> yaffs_FlushFilesChunkCache gc fuel (the (cc_object (srCache (device s) ! i))) s;
                    Some (yaffs_GrabChunkCacheWorker s, s)
                  } else Some (Some i, s)))
      else Some (None, s))"

fun cached_index :: "nat \<Rightarrow> int \<Rightarrow> nat \<Rightarrow> yaffs_ChunkCache list \<Rightarrow> nat option" where
  "cached_index a chunk i [] = None"
| "cached_index a chunk i (c # cs) = (if cc_object c = Some a \<and> cc_chunkId c = chunk then Some i else cached_index a chunk (i + 1) cs)"

definition yaffs_FindChunkCache :: "nat \<Rightarrow> int \<Rightarrow> 'f yaffs_System \<Rightarrow> nat option \<times> 'f yaffs_System" where
  "yaffs_FindChunkCache a chunk s =
     (if nShortOpCaches (device s) > 0 then
        (case cached_index a chunk 0 (caches s) of
           Some i \<Rightarrow> (Some i, s\<lparr>cacheHits := cacheHits s + 1\<rparr>)
         | None \<Rightarrow> (None, s))
      else (None, s))"

text \<open>The times of use are reset before they get too large; the entry at position 0 is left out of this.\<close>

definition yaffs_UseChunkCache :: "nat \<Rightarrow> bool \<Rightarrow> 'f yaffs_System \<Rightarrow> 'f yaffs_System option" where
  "yaffs_UseChunkCache i isAWrite s =
     (if nShortOpCaches (device s) > 0 then do {
        let s = (if srLastUse s < 0 \<or> srLastUse s > 100000000 then
            s\<lparr>device := (device s)\<lparr>srCache := take 1 (srCache (device s)) @ map (\<lambda>c. c\<lparr>lastUse := 0\<rparr>) (drop 1 (caches s)) @
                drop (max 1 (nat (nShortOpCaches (device s)))) (srCache (device s))\<rparr>, srLastUse := 0\<rparr>
          else s);
        let s = s\<lparr>srLastUse := srLastUse s + 1\<rparr>;
        upd_cache i (\<lambda>c. c\<lparr>lastUse := srLastUse s, dirty := (if isAWrite then True else dirty c)\<rparr>) s
      } else Some s)"

definition yaffs_InvalidateChunkCache :: "nat \<Rightarrow> int \<Rightarrow> 'f yaffs_System \<Rightarrow> 'f yaffs_System option" where
  "yaffs_InvalidateChunkCache a chunk s =
     (if nShortOpCaches (device s) > 0 then
        (let (cache, s) = yaffs_FindChunkCache a chunk s
         in case cache of Some i \<Rightarrow> upd_cache i (\<lambda>c. c\<lparr>cc_object := None\<rparr>) s | None \<Rightarrow> Some s)
      else Some s)"

section \<open>Copying\<close>

text \<open>memcpy to position i of an array.\<close>

definition memcpy_at :: "nat \<Rightarrow> u8 list \<Rightarrow> u8 list \<Rightarrow> u8 list option" where
  "memcpy_at i src dst = (if i + length src \<le> length dst then Some (take i dst @ src @ drop (i + length src) dst) else None)"

text \<open>The n bytes at position i of an array.\<close>

definition bytes_at :: "int \<Rightarrow> int \<Rightarrow> u8 list \<Rightarrow> u8 list option" where
  "bytes_at i n b = (if 0 \<le> i \<and> 0 \<le> n \<and> nat (i + n) \<le> length b then Some (slice (nat i) (nat n) b) else None)"

text \<open>A chunk of a file read into the entry of the cache it was given.\<close>

definition load_entry :: "nat \<Rightarrow> nat \<Rightarrow> int \<Rightarrow> 'f yaffs_System \<Rightarrow> 'f yaffs_System option" where
  "load_entry i a chunk s = do {
     s \<leftarrow> upd_cache i (\<lambda>c. c\<lparr>cc_object := Some a, cc_chunkId := chunk, dirty := False, locked := False\<rparr>) s;
     ob \<leftarrow> objects s a;
     (r, b, d) \<leftarrow> yaffs_ReadChunkDataFromObject ob chunk (cc_data (srCache (device s) ! i)) (device s);
     upd_cache i (\<lambda>c. c\<lparr>cc_data := b\<rparr>) (s\<lparr>device := d\<rparr>)
   }"

text \<open>A chunk of a file read into a temporary buffer.\<close>

definition load_temp :: "nat \<Rightarrow> nat \<Rightarrow> int \<Rightarrow> 'f yaffs_System \<Rightarrow> 'f yaffs_System option" where
  "load_temp buf a chunk s = do {
     ob \<leftarrow> objects s a;
     (r, b, d) \<leftarrow> yaffs_ReadChunkDataFromObject ob chunk (heap (device s) buf) (device s);
     Some (s\<lparr>device := d\<lparr>heap := (heap d)(buf := b)\<rparr>\<rparr>)
   }"

section \<open>Reading\<close>

text \<open>The part of one chunk: how many bytes are copied, the buffer of the caller, and the state.\<close>

definition read_part ::
    "'f collector \<Rightarrow> nat \<Rightarrow> nat \<Rightarrow> u8 list \<Rightarrow> nat \<Rightarrow> int \<Rightarrow> int \<Rightarrow> 'f yaffs_System \<Rightarrow> (int \<times> u8 list \<times> 'f yaffs_System) option" where
  "read_part gc fuel a buf nDone offset n s = do {
     (chunk, start) \<leftarrow> yaffs_AddrToChunk (device s) offset;
     let (chunk, start) = (sint chunk + 1, sint start);
     let csize = nDataBytesPerChunk (device s);
     let nToCopy = (if start + n < csize then n else csize - start);
     let (cache, s) = yaffs_FindChunkCache a chunk s;
     if cache \<noteq> None \<or> nToCopy \<noteq> csize then
       (if nShortOpCaches (device s) > 0 then do {
          (i, s) \<leftarrow>
            (case cache of
               Some i \<Rightarrow> Some (i, s)
             | None \<Rightarrow> do {
                 (grabbed, s) \<leftarrow> yaffs_GrabChunkCache gc fuel s;
                 i \<leftarrow> grabbed;
                 s \<leftarrow> load_entry i a chunk s;
                 s \<leftarrow> upd_cache i (\<lambda>c. c\<lparr>nBytes := 0\<rparr>) s;
                 Some (i, s)
               });
          s \<leftarrow> yaffs_UseChunkCache i False s;
          part \<leftarrow> bytes_at start nToCopy (cc_data (srCache (device s) ! i));
          buf \<leftarrow> memcpy_at nDone part buf;
          s \<leftarrow> upd_cache i (\<lambda>c. c\<lparr>locked := False\<rparr>) s;
          Some (nToCopy, buf, s)
        } else do {
          let (localBuffer, d) = yaffs_GetTempBuffer (device s) 4718;
          s \<leftarrow> load_temp localBuffer a chunk (s\<lparr>device := d\<rparr>);
          part \<leftarrow> bytes_at start nToCopy (heap (device s) localBuffer);
          buf \<leftarrow> memcpy_at nDone part buf;
          Some (nToCopy, buf, s\<lparr>device := yaffs_ReleaseTempBuffer (device s) localBuffer\<rparr>)
        })
     else do {
       ob \<leftarrow> objects s a;
       (r, b, d) \<leftarrow> yaffs_ReadChunkDataFromObject ob chunk (drop nDone buf) (device s);
       Some (nToCopy, take nDone buf @ b, s\<lparr>device := d\<rparr>)
     }
   }"

partial_function (option) read_loop ::
    "'f collector \<Rightarrow> nat \<Rightarrow> nat \<Rightarrow> u8 list \<Rightarrow> nat \<Rightarrow> int \<Rightarrow> int \<Rightarrow> 'f yaffs_System \<Rightarrow> (int \<times> u8 list \<times> 'f yaffs_System) option" where
  "read_loop gc fuel a buf nDone offset n s =
     (if n > 0 then do {
        (nToCopy, buf, s) \<leftarrow> read_part gc fuel a buf nDone offset n s;
        read_loop gc fuel a buf (nat (int nDone + nToCopy)) (offset + nToCopy) (n - nToCopy) s
      } else Some (int nDone, buf, s))"

definition yaffs_ReadDataFromFile ::
    "'f collector \<Rightarrow> nat \<Rightarrow> nat \<Rightarrow> u8 list \<Rightarrow> int \<Rightarrow> int \<Rightarrow> 'f yaffs_System \<Rightarrow> (int \<times> u8 list \<times> 'f yaffs_System) option" where
  "yaffs_ReadDataFromFile gc fuel a buf offset n s = do { ob \<leftarrow> objects s a; read_loop gc fuel a buf 0 offset n s }"

section \<open>Writing\<close>

text \<open>
  How many bytes of a chunk are copied from the caller, and how many the chunk has then: when it is not
  written up to its end, as many as the file had there before if those are more.
\<close>

definition write_amounts :: "u32 \<Rightarrow> int \<Rightarrow> int \<Rightarrow> int \<Rightarrow> int \<Rightarrow> int \<times> int" where
  "write_amounts fsize csize chunk start n =
     (if start + n < csize then
        (let nBytesRead = sint (fsize - word_of_int ((chunk - 1) * csize));
             nBytesRead = (if nBytesRead > csize then csize else nBytesRead)
         in (n, if nBytesRead > start + n then nBytesRead else start + n))
      else (csize - start, csize))"

text \<open>
  An incomplete chunk through the cache; the result is the number of the chunk written, -1 for a failure and
  unchanged if nothing was written yet.
\<close>

definition write_cached ::
    "'f collector \<Rightarrow> nat \<Rightarrow> nat \<Rightarrow> int \<Rightarrow> int \<Rightarrow> u8 list \<Rightarrow> int \<Rightarrow> bool \<Rightarrow> int \<Rightarrow> 'f yaffs_System \<Rightarrow> (int \<times> 'f yaffs_System) option" where
  "write_cached gc fuel a chunk start part nToWriteBack writeThrough chunkWritten s = do {
     let (cache, s) = yaffs_FindChunkCache a chunk s;
     (cache, s) \<leftarrow>
       (case cache of
          None \<Rightarrow>
            (let (ok, d) = yaffs_CheckSpaceForAllocation (device s); s = s\<lparr>device := d\<rparr>
             in if ok then do {
                  (grabbed, s) \<leftarrow> yaffs_GrabChunkCache gc fuel s;
                  i \<leftarrow> grabbed;
                  s \<leftarrow> load_entry i a chunk s;
                  Some (Some i, s)
                } else Some (None, s))
        | Some i \<Rightarrow>
            if \<not> dirty (srCache (device s) ! i) then
              (let (ok, d) = yaffs_CheckSpaceForAllocation (device s); s = s\<lparr>device := d\<rparr>
               in Some (if ok then Some i else None, s))
            else Some (Some i, s));
     (case cache of
        None \<Rightarrow> Some (-1, s)
      | Some i \<Rightarrow> do {
          s \<leftarrow> yaffs_UseChunkCache i True s;
          content \<leftarrow> (if start < 0 then None else memcpy_at (nat start) part (cc_data (srCache (device s) ! i)));
          s \<leftarrow> upd_cache i (\<lambda>c. c\<lparr>cc_data := content, locked := False, nBytes := nToWriteBack\<rparr>) s;
          if writeThrough then do {
            (r, s) \<leftarrow> yaffs_WriteChunkDataToObject gc fuel a chunk content nToWriteBack True s;
            s \<leftarrow> upd_cache i (\<lambda>c. c\<lparr>dirty := False\<rparr>) s;
            Some (r, s)
          } else Some (chunkWritten, s)
        })
   }"

definition write_uncached ::
    "'f collector \<Rightarrow> nat \<Rightarrow> nat \<Rightarrow> int \<Rightarrow> int \<Rightarrow> u8 list \<Rightarrow> int \<Rightarrow> 'f yaffs_System \<Rightarrow> (int \<times> 'f yaffs_System) option" where
  "write_uncached gc fuel a chunk start part nToWriteBack s = do {
     let (localBuffer, d) = yaffs_GetTempBuffer (device s) 4884;
     s \<leftarrow> load_temp localBuffer a chunk (s\<lparr>device := d\<rparr>);
     content \<leftarrow> (if start < 0 then None else memcpy_at (nat start) part (heap (device s) localBuffer));
     let s = s\<lparr>device := (device s)\<lparr>heap := (heap (device s))(localBuffer := content)\<rparr>\<rparr>;
     (r, s) \<leftarrow> yaffs_WriteChunkDataToObject gc fuel a chunk content nToWriteBack False s;
     Some (r, s\<lparr>device := yaffs_ReleaseTempBuffer (device s) localBuffer\<rparr>)
   }"

partial_function (option) write_loop ::
    "'f collector \<Rightarrow> nat \<Rightarrow> nat \<Rightarrow> u8 list \<Rightarrow> bool \<Rightarrow> int \<Rightarrow> int \<Rightarrow> int \<Rightarrow> int \<Rightarrow> 'f yaffs_System \<Rightarrow> (int \<times> 'f yaffs_System) option" where
  "write_loop gc fuel a buf writeThrough nDone offset n chunkWritten s =
     (if n > 0 \<and> chunkWritten \<ge> 0 then do {
        (chunk, start) \<leftarrow> yaffs_AddrToChunk (device s) offset;
        let (chunk, start) = (sint chunk + 1, sint start);
        let csize = nDataBytesPerChunk (device s);
        ob \<leftarrow> objects s a;
        let (nToCopy, nToWriteBack) = write_amounts (fileSize (fileVariant ob)) csize chunk start n;
        part \<leftarrow> bytes_at nDone nToCopy buf;
        (chunkWritten, s) \<leftarrow>
          (if nToCopy \<noteq> csize then
             (if nShortOpCaches (device s) > 0
              then write_cached gc fuel a chunk start part nToWriteBack writeThrough chunkWritten s
              else write_uncached gc fuel a chunk start part nToWriteBack s)
           else do {
             (r, s) \<leftarrow> yaffs_WriteChunkDataToObject gc fuel a chunk part csize False s;
             s \<leftarrow> yaffs_InvalidateChunkCache a chunk s;
             Some (r, s)
           });
        let k = (if chunkWritten \<ge> 0 then nToCopy else 0);
        write_loop gc fuel a buf writeThrough (nDone + k) (offset + k) (n - k) chunkWritten s
      } else Some (nDone, s))"

definition yaffs_WriteDataToFile ::
    "'f collector \<Rightarrow> nat \<Rightarrow> nat \<Rightarrow> u8 list \<Rightarrow> int \<Rightarrow> int \<Rightarrow> bool \<Rightarrow> 'f yaffs_System \<Rightarrow> (int \<times> 'f yaffs_System) option" where
  "yaffs_WriteDataToFile gc fuel a buf offset n writeThrough s = do {
     (nDone, s) \<leftarrow> write_loop gc fuel a buf writeThrough 0 offset n 0 s;
     ob \<leftarrow> objects s a;
     let written = word_of_int (offset + nDone);
     let fs = (if written > fileSize (fileVariant ob) then (fileVariant ob)\<lparr>fileSize := written\<rparr> else fileVariant ob);
     Some (nDone, s\<lparr>objects := (objects s)(a \<mapsto> ob\<lparr>fileVariant := fs, ob_dirty := True\<rparr>)\<rparr>)
   }"

end
