(* ===== verification/FileSystem.thy ===== *)
theory FileSystem
  imports FileAccess
begin

text \<open>
  Operations on whole objects (yaffs_guts.c): creation with a name, links, renaming, resizing, flushing,
  deletion and unlinking of files, directories and links, and the attributes. The number of an object
  stands for its pointer, 0 for the null pointer.
\<close>

section \<open>Equivalent objects\<close>

definition hardLinks_entry :: "list_ptr \<Rightarrow> nat option" where
  "hardLinks_entry p = (case p of HardLinks a \<Rightarrow> Some a | _ \<Rightarrow> None)"

definition yaffs_GetEquivalentObject :: "nat \<Rightarrow> 'f yaffs_System \<Rightarrow> (nat \<times> 'f yaffs_System) option" where
  "yaffs_GetEquivalentObject a s =
     (if a = 0 then Some (0, s)
      else do {
        ob \<leftarrow> objects s a;
        if variantType ob = HARDLINK then do {
          s \<leftarrow> yaffs_CheckObjectDetailsLoaded (equivalentObject ob) s;
          Some (equivalentObject ob, s)
        } else Some (a, s)
      })"

definition yaffs_GetFileSize :: "nat \<Rightarrow> 'f yaffs_System \<Rightarrow> (int \<times> 'f yaffs_System) option" where
  "yaffs_GetFileSize a s = do {
     (a, s) \<leftarrow> yaffs_GetEquivalentObject a s;
     ob \<leftarrow> objects s a;
     (case variantType ob of
        FILE \<Rightarrow> Some (uint (fileSize (fileVariant ob)), s)
      | SYMLINK \<Rightarrow> do { al \<leftarrow> symLinkAlias ob; Some (int (length al), s) }
      | _ \<Rightarrow> Some (0, s))
   }"

definition yaffs_GetObjectFileLength :: "nat \<Rightarrow> 'f yaffs_System \<Rightarrow> (int \<times> 'f yaffs_System) option" where
  "yaffs_GetObjectFileLength a s = do {
     (a, s) \<leftarrow> yaffs_GetEquivalentObject a s;
     ob \<leftarrow> objects s a;
     (case variantType ob of
        FILE \<Rightarrow> Some (sint (fileSize (fileVariant ob)), s)
      | SYMLINK \<Rightarrow> do { al \<leftarrow> symLinkAlias ob; Some (int (length al), s) }
      | _ \<Rightarrow> Some (nDataBytesPerChunk (device s), s))
   }"

definition yaffs_GetObjectLinkCount :: "nat \<Rightarrow> 'f yaffs_System \<Rightarrow> int option" where
  "yaffs_GetObjectLinkCount a s = do {
     ob \<leftarrow> objects s a;
     (r :: unit option, count) \<leftarrow> list_for_each (\<lambda>_. lists s) (HardLinks a) (\<lambda>i count. Some (None, count + 1))
       (if \<not> unlinked ob then 1 else 0);
     Some count
   }"

definition yaffs_GetObjectInode :: "nat \<Rightarrow> 'f yaffs_System \<Rightarrow> (u32 \<times> 'f yaffs_System) option" where
  "yaffs_GetObjectInode a s = do {
     (a, s) \<leftarrow> yaffs_GetEquivalentObject a s;
     ob \<leftarrow> objects s a;
     Some (ob_objectId ob, s)
   }"

text \<open>The types of directory entries, and the tests on the type bits of a mode (0xF000).\<close>

definition yaffs_GetObjectType :: "nat \<Rightarrow> 'f yaffs_System \<Rightarrow> (nat \<times> 'f yaffs_System) option" where
  "yaffs_GetObjectType a s = do {
     (a, s) \<leftarrow> yaffs_GetEquivalentObject a s;
     ob \<leftarrow> objects s a;
     let format = yst_mode ob AND 0xF000;
     Some (case variantType ob of
         FILE \<Rightarrow> 8
       | DIRECTORY \<Rightarrow> 4
       | SYMLINK \<Rightarrow> 10
       | HARDLINK \<Rightarrow> 8
       | object_type.SPECIAL \<Rightarrow>
           (if format = 0x1000 then 1 else if format = 0x2000 then 2 else if format = 0x6000 then 6
            else if format = 0xC000 then 12 else 8)
       | UNKNOWN \<Rightarrow> 8, s)
   }"

definition yaffs_GetSymlinkAlias :: "nat \<Rightarrow> 'f yaffs_System \<Rightarrow> (u8 list option \<times> 'f yaffs_System) option" where
  "yaffs_GetSymlinkAlias a s = do {
     (a, s) \<leftarrow> yaffs_GetEquivalentObject a s;
     ob \<leftarrow> objects s a;
     let (r, d) = yaffs_CloneString (if variantType ob = SYMLINK then symLinkAlias ob else Some []) (device s);
     Some (r, s\<lparr>device := d\<rparr>)
   }"

section \<open>Deleting\<close>

definition yaffs_SoftDeleteFile :: "nat \<Rightarrow> nat \<Rightarrow> 'f yaffs_System \<Rightarrow> 'f yaffs_System option" where
  "yaffs_SoftDeleteFile fuel a s = do {
     ob \<leftarrow> objects s a;
     if ob_deleted ob \<and> variantType ob = FILE \<and> \<not> softDeleted ob then
       (if nDataChunks ob \<le> 0 then do {
          s \<leftarrow> free_top a s;
          (r, s) \<leftarrow> yaffs_DoGenericObjectDeletion (yaffs_CheckGarbageCollection fuel) fuel a s;
          Some s
        } else do {
          let fs = fileVariant ob;
          (allDone, tn, d) \<leftarrow> yaffs_SoftDeleteWorker (nat (topLevel fs)) (top fs) (device s);
          upd_object a (\<lambda>ob. ob\<lparr>fileVariant := fs\<lparr>top := tn\<rparr>, softDeleted := True\<rparr>) (s\<lparr>device := d\<rparr>)
        })
     else Some s
   }"

definition yaffs_UnlinkFile :: "nat \<Rightarrow> nat \<Rightarrow> 'f yaffs_System \<Rightarrow> (int \<times> 'f yaffs_System) option" where
  "yaffs_UnlinkFile fuel a s = do {
     ob \<leftarrow> objects s a;
     if ob_inUse ob = 0 then do {
       (retVal, s) \<leftarrow> yaffs_ChangeObjectName (yaffs_CheckGarbageCollection fuel) fuel a (deletedDir s) (Some (ascii ''deleted'')) False 0 s;
       s \<leftarrow> upd_object a (\<lambda>ob. ob\<lparr>ob_deleted := True\<rparr>) s;
       let s = s\<lparr>device := (device s)\<lparr>nDeletedFiles := nDeletedFiles (device s) + 1\<rparr>\<rparr>;
       s \<leftarrow> yaffs_SoftDeleteFile fuel a s;
       Some (retVal, s)
     } else yaffs_ChangeObjectName (yaffs_CheckGarbageCollection fuel) fuel a (unlinkedDir s) (Some (ascii ''unlinked'')) False 0 s
   }"

definition yaffs_DeleteFile :: "nat \<Rightarrow> nat \<Rightarrow> 'f yaffs_System \<Rightarrow> (int \<times> 'f yaffs_System) option" where
  "yaffs_DeleteFile fuel a s = do {
     ob \<leftarrow> objects s a;
     if nDataChunks ob > 0 then do {
       (retVal, s) \<leftarrow> (if \<not> unlinked ob then yaffs_UnlinkFile fuel a s else Some (YAFFS_OK, s));
       ob \<leftarrow> objects s a;
       s \<leftarrow> (if retVal = YAFFS_OK \<and> unlinked ob \<and> \<not> ob_deleted ob then do {
              s \<leftarrow> upd_object a (\<lambda>ob. ob\<lparr>ob_deleted := True\<rparr>) s;
              yaffs_SoftDeleteFile fuel a (s\<lparr>device := (device s)\<lparr>nDeletedFiles := nDeletedFiles (device s) + 1\<rparr>\<rparr>)
            } else Some s);
       ob \<leftarrow> objects s a;
       Some (if ob_deleted ob then YAFFS_OK else YAFFS_FAIL, s)
     } else do {
       s \<leftarrow> free_top a s;
       (r, s) \<leftarrow> yaffs_DoGenericObjectDeletion (yaffs_CheckGarbageCollection fuel) fuel a s;
       Some (YAFFS_OK, s)
     }
   }"

definition yaffs_DeleteDirectory :: "nat \<Rightarrow> nat \<Rightarrow> 'f yaffs_System \<Rightarrow> (int \<times> 'f yaffs_System) option" where
  "yaffs_DeleteDirectory fuel a s = do {
     e \<leftarrow> list_empty (Children a) (lists s);
     if e then yaffs_DoGenericObjectDeletion (yaffs_CheckGarbageCollection fuel) fuel a s else Some (YAFFS_FAIL, s)
   }"

text \<open>
  The memory of the alias goes back to the system first. The deletion then writes a header for the object, which has
  no value for an alias that is gone: the code reads the memory after it has been freed.
\<close>

definition yaffs_DeleteSymLink :: "nat \<Rightarrow> nat \<Rightarrow> 'f yaffs_System \<Rightarrow> (int \<times> 'f yaffs_System) option" where
  "yaffs_DeleteSymLink fuel a s = do {
     s \<leftarrow> upd_object a (\<lambda>ob. ob\<lparr>symLinkAlias := None\<rparr>) s;
     yaffs_DoGenericObjectDeletion (yaffs_CheckGarbageCollection fuel) fuel a s
   }"

definition yaffs_DeleteHardLink :: "nat \<Rightarrow> nat \<Rightarrow> 'f yaffs_System \<Rightarrow> (int \<times> 'f yaffs_System) option" where
  "yaffs_DeleteHardLink fuel a s = do {
     s \<leftarrow> upd_lists (list_del (HardLinks a)) s;
     yaffs_DoGenericObjectDeletion (yaffs_CheckGarbageCollection fuel) fuel a s
   }"

definition yaffs_DestroyObject :: "nat \<Rightarrow> nat \<Rightarrow> 'f yaffs_System \<Rightarrow> 'f yaffs_System option" where
  "yaffs_DestroyObject fuel a s = do {
     ob \<leftarrow> objects s a;
     (case variantType ob of
        FILE \<Rightarrow> map_option snd (yaffs_DeleteFile fuel a s)
      | DIRECTORY \<Rightarrow> map_option snd (yaffs_DeleteDirectory fuel a s)
      | SYMLINK \<Rightarrow> map_option snd (yaffs_DeleteSymLink fuel a s)
      | HARDLINK \<Rightarrow> map_option snd (yaffs_DeleteHardLink fuel a s)
      | object_type.SPECIAL \<Rightarrow> map_option snd (yaffs_DoGenericObjectDeletion (yaffs_CheckGarbageCollection fuel) fuel a s)
      | UNKNOWN \<Rightarrow> Some s)
   }"

text \<open>An object with hard links is not deleted: it takes the name and the place of one of its links, which is deleted instead.\<close>

definition yaffs_UnlinkWorker :: "nat \<Rightarrow> nat \<Rightarrow> 'f yaffs_System \<Rightarrow> (int \<times> 'f yaffs_System) option" where
  "yaffs_UnlinkWorker fuel a s = do {
     ob \<leftarrow> objects s a;
     if variantType ob = HARDLINK then yaffs_DeleteHardLink fuel a s
     else do {
       e \<leftarrow> list_empty (HardLinks a) (lists s);
       if \<not> e then do {
         p \<leftarrow> next_of (lists s) (HardLinks a);
         hl \<leftarrow> hardLinks_entry p;
         s \<leftarrow> upd_lists (list_del_init (HardLinks hl)) s;
         s \<leftarrow> upd_lists (list_del_init (Siblings hl)) s;
         (name, s) \<leftarrow> yaffs_GetObjectName hl (YAFFS_MAX_NAME_LENGTH + 1) s;
         link \<leftarrow> objects s hl;
         (retVal, s) \<leftarrow> yaffs_ChangeObjectName (yaffs_CheckGarbageCollection fuel) fuel a (parent link) (Some name) False 0 s;
         if retVal = YAFFS_OK then yaffs_DoGenericObjectDeletion (yaffs_CheckGarbageCollection fuel) fuel hl s
         else Some (retVal, s)
       } else
         (case variantType ob of
            FILE \<Rightarrow> yaffs_UnlinkFile fuel a s
          | DIRECTORY \<Rightarrow> yaffs_DeleteDirectory fuel a s
          | SYMLINK \<Rightarrow> yaffs_DeleteSymLink fuel a s
          | object_type.SPECIAL \<Rightarrow> yaffs_DoGenericObjectDeletion (yaffs_CheckGarbageCollection fuel) fuel a s
          | _ \<Rightarrow> Some (YAFFS_FAIL, s))
     }
   }"

definition yaffs_UnlinkObject :: "nat \<Rightarrow> nat \<Rightarrow> 'f yaffs_System \<Rightarrow> (int \<times> 'f yaffs_System) option" where
  "yaffs_UnlinkObject fuel a s =
     (if a = 0 then Some (YAFFS_FAIL, s)
      else do { ob \<leftarrow> objects s a; if unlinkAllowed ob then yaffs_UnlinkWorker fuel a s else Some (YAFFS_FAIL, s) })"

definition yaffs_Unlink :: "nat \<Rightarrow> nat \<Rightarrow> u8 list option \<Rightarrow> 'f yaffs_System \<Rightarrow> (int \<times> 'f yaffs_System) option" where
  "yaffs_Unlink fuel dir name s = do {
     (a, s) \<leftarrow> yaffs_FindObjectByName dir name s;
     yaffs_UnlinkObject fuel a s
   }"

section \<open>Creating\<close>

definition yaffs_MknodObject ::
    "nat \<Rightarrow> object_type \<Rightarrow> nat \<Rightarrow> u8 list option \<Rightarrow> u32 \<Rightarrow> u32 \<Rightarrow> u32 \<Rightarrow> nat \<Rightarrow> u8 list option \<Rightarrow> u32 \<Rightarrow> 'f yaffs_System \<Rightarrow>
     (nat \<times> 'f yaffs_System) option" where
  "yaffs_MknodObject fuel type par name mode uid gid equivalent aliasString rdev s = do {
     (existing, s) \<leftarrow> yaffs_FindObjectByName par name s;
     if existing \<noteq> 0 then Some (0, s)
     else do {
       (a, s) \<leftarrow> yaffs_CreateNewObject (-1) type s;
       let (str, d) = (if type = SYMLINK then yaffs_CloneString aliasString (device s) else (None, device s));
       let s = s\<lparr>device := d\<rparr>;
       if type = SYMLINK \<and> str = None then do { s \<leftarrow> yaffs_FreeObject a s; Some (0, s) }
       else if a = 0 then Some (0, s)
       else do {
         s \<leftarrow> upd_object a (\<lambda>ob. (yaffs_SetObjectName name (ob\<lparr>headerChunk := -1, ob_valid := True, variantType := type, yst_mode := mode,
           yst_ctime := currentTime s, yst_mtime := currentTime s, yst_atime := currentTime s, yst_rdev := rdev, yst_uid := uid,
           yst_gid := gid, nDataChunks := 0\<rparr>))\<lparr>ob_dirty := True\<rparr>) s;
         s \<leftarrow> yaffs_AddObjectToDirectory par a s;
         s \<leftarrow> (case type of
                SYMLINK \<Rightarrow> upd_object a (\<lambda>ob. ob\<lparr>symLinkAlias := str\<rparr>) s
              | HARDLINK \<Rightarrow> do {
                  eq \<leftarrow> objects s equivalent;
                  s \<leftarrow> upd_object a (\<lambda>ob. ob\<lparr>equivalentObject := equivalent, ob_equivalentObjectId := ob_objectId eq\<rparr>) s;
                  upd_lists (list_add (HardLinks a) (HardLinks equivalent)) s
                }
              | _ \<Rightarrow> Some s);
         (r, s) \<leftarrow> yaffs_UpdateObjectHeader (yaffs_CheckGarbageCollection fuel) fuel a name False False 0 s;
         if r < 0 then do { s \<leftarrow> yaffs_DestroyObject fuel a s; Some (0, s) } else Some (a, s)
       }
     }
   }"

definition yaffs_MknodFile :: "nat \<Rightarrow> nat \<Rightarrow> u8 list option \<Rightarrow> u32 \<Rightarrow> u32 \<Rightarrow> u32 \<Rightarrow> 'f yaffs_System \<Rightarrow> (nat \<times> 'f yaffs_System) option" where
  "yaffs_MknodFile fuel par name mode uid gid s = yaffs_MknodObject fuel FILE par name mode uid gid 0 None 0 s"

definition yaffs_MknodDirectory :: "nat \<Rightarrow> nat \<Rightarrow> u8 list option \<Rightarrow> u32 \<Rightarrow> u32 \<Rightarrow> u32 \<Rightarrow> 'f yaffs_System \<Rightarrow> (nat \<times> 'f yaffs_System) option" where
  "yaffs_MknodDirectory fuel par name mode uid gid s = yaffs_MknodObject fuel DIRECTORY par name mode uid gid 0 None 0 s"

definition yaffs_MknodSpecial :: "nat \<Rightarrow> nat \<Rightarrow> u8 list option \<Rightarrow> u32 \<Rightarrow> u32 \<Rightarrow> u32 \<Rightarrow> u32 \<Rightarrow> 'f yaffs_System \<Rightarrow> (nat \<times> 'f yaffs_System) option" where
  "yaffs_MknodSpecial fuel par name mode uid gid rdev s = yaffs_MknodObject fuel object_type.SPECIAL par name mode uid gid 0 None rdev s"

definition yaffs_MknodSymLink ::
    "nat \<Rightarrow> nat \<Rightarrow> u8 list option \<Rightarrow> u32 \<Rightarrow> u32 \<Rightarrow> u32 \<Rightarrow> u8 list option \<Rightarrow> 'f yaffs_System \<Rightarrow> (nat \<times> 'f yaffs_System) option" where
  "yaffs_MknodSymLink fuel par name mode uid gid alias s = yaffs_MknodObject fuel SYMLINK par name mode uid gid 0 alias 0 s"

definition yaffs_Link :: "nat \<Rightarrow> nat \<Rightarrow> u8 list option \<Rightarrow> nat \<Rightarrow> 'f yaffs_System \<Rightarrow> (nat \<times> 'f yaffs_System) option" where
  "yaffs_Link fuel par name equivalent s = do {
     (equivalent, s) \<leftarrow> yaffs_GetEquivalentObject equivalent s;
     (a, s) \<leftarrow> yaffs_MknodObject fuel HARDLINK par name 0 0 0 equivalent None 0 s;
     Some (if a \<noteq> 0 then equivalent else 0, s)
   }"

section \<open>Renaming\<close>

text \<open>The variant for case sensitive names. The object is read before the code tests that there is one.\<close>

definition yaffs_RenameObject :: "nat \<Rightarrow> nat \<Rightarrow> u8 list option \<Rightarrow> nat \<Rightarrow> u8 list \<Rightarrow> 'f yaffs_System \<Rightarrow> (int \<times> 'f yaffs_System) option" where
  "yaffs_RenameObject fuel oldDir oldName newDir newName s = do {
     (a, s) \<leftarrow> yaffs_FindObjectByName oldDir oldName s;
     ob \<leftarrow> objects s a;
     if variantType ob = SYMLINK \<and> length newName > YAFFS_MAX_ALIAS_LENGTH then Some (YAFFS_FAIL, s)
     else if variantType ob \<noteq> SYMLINK \<and> length newName > YAFFS_MAX_NAME_LENGTH then Some (YAFFS_FAIL, s)
     else if a \<noteq> 0 \<and> renameAllowed ob then do {
       (existingTarget, s) \<leftarrow> yaffs_FindObjectByName newDir (Some newName) s;
       target \<leftarrow> (if existingTarget \<noteq> 0 then map_option Some (objects s existingTarget) else Some None);
       full \<leftarrow> (case target of
            Some t \<Rightarrow> if variantType t = DIRECTORY then map_option Not (list_empty (Children existingTarget) (lists s)) else Some False
          | None \<Rightarrow> Some False);
       if full then Some (YAFFS_FAIL, s)
       else do {
         s \<leftarrow> (case target of
              Some t \<Rightarrow>
                if existingTarget \<noteq> a then do {
                  (r, s) \<leftarrow> yaffs_ChangeObjectName (yaffs_CheckGarbageCollection fuel) fuel a newDir (Some newName) False (sint (ob_objectId t)) s;
                  (r, s) \<leftarrow> yaffs_UnlinkObject fuel existingTarget s;
                  Some s
                } else Some s
            | None \<Rightarrow> Some s);
         yaffs_ChangeObjectName (yaffs_CheckGarbageCollection fuel) fuel a newDir (Some newName) True 0 s
       }
     } else Some (YAFFS_FAIL, s)
   }"

section \<open>Resizing and flushing\<close>

text \<open>The chunk that becomes the last one is written again, cleared behind the new end.\<close>

definition rewrite_last :: "nat \<Rightarrow> nat \<Rightarrow> int \<Rightarrow> int \<Rightarrow> 'f yaffs_System \<Rightarrow> 'f yaffs_System option" where
  "rewrite_last fuel a lastChunk partial s = do {
     let (localBuffer, d) = yaffs_GetTempBuffer (device s) 5034;
     s \<leftarrow> load_temp localBuffer a lastChunk (s\<lparr>device := d\<rparr>);
     let d = device s;
     content \<leftarrow> memcpy_at (nat partial) (replicate (nat (nDataBytesPerChunk d - partial)) 0) (heap d localBuffer);
     let s = s\<lparr>device := d\<lparr>heap := (heap d)(localBuffer := content)\<rparr>\<rparr>;
     (r, s) \<leftarrow> yaffs_WriteChunkDataToObject (yaffs_CheckGarbageCollection fuel) fuel a lastChunk content partial True s;
     Some (s\<lparr>device := yaffs_ReleaseTempBuffer (device s) localBuffer\<rparr>)
   }"

definition shrink_file :: "nat \<Rightarrow> nat \<Rightarrow> int \<Rightarrow> int \<Rightarrow> int \<Rightarrow> 'f yaffs_System \<Rightarrow> 'f yaffs_System option" where
  "shrink_file fuel a newSize newFullChunks partial s = do {
     ob \<leftarrow> objects s a;
     (ob, d) \<leftarrow> yaffs_PruneResizedChunks ob newSize (device s);
     let s = s\<lparr>device := d, objects := (objects s)(a \<mapsto> ob)\<rparr>;
     s \<leftarrow> (if partial \<noteq> 0 then rewrite_last fuel a (1 + newFullChunks) partial s else Some s);
     ob \<leftarrow> objects s a;
     (r, fs, d) \<leftarrow> yaffs_PruneFileStructure (device s) ((fileVariant ob)\<lparr>fileSize := word_of_int newSize\<rparr>);
     Some (s\<lparr>device := d, objects := (objects s)(a \<mapsto> ob\<lparr>fileVariant := fs\<rparr>)\<rparr>)
   }"

definition yaffs_ResizeFile :: "nat \<Rightarrow> nat \<Rightarrow> int \<Rightarrow> 'f yaffs_System \<Rightarrow> (int \<times> 'f yaffs_System) option" where
  "yaffs_ResizeFile fuel a newSize s = do {
     ob \<leftarrow> objects s a;
     let oldFileSize = sint (fileSize (fileVariant ob));
     (newFullChunks, partial) \<leftarrow> yaffs_AddrToChunk (device s) newSize;
     s \<leftarrow> yaffs_FlushFilesChunkCache (yaffs_CheckGarbageCollection fuel) fuel a s;
     let s = s\<lparr>device := yaffs_InvalidateWholeChunkCache a (device s)\<rparr>;
     (gcOk, s) \<leftarrow> yaffs_CheckGarbageCollection fuel s;
     if variantType ob \<noteq> FILE then yaffs_GetFileSize a s
     else if newSize = oldFileSize then Some (oldFileSize, s)
     else do {
       s \<leftarrow> (if newSize < oldFileSize then shrink_file fuel a newSize (sint newFullChunks) (sint partial) s
             else upd_object a (\<lambda>ob. ob\<lparr>fileVariant := (fileVariant ob)\<lparr>fileSize := word_of_int newSize\<rparr>\<rparr>) s);
       ob \<leftarrow> objects s a;
       par \<leftarrow> objects s (parent ob);
       (r, s) \<leftarrow> (if ob_objectId par \<noteq> YAFFS_OBJECTID_UNLINKED \<and> ob_objectId par \<noteq> YAFFS_OBJECTID_DELETED
                 then yaffs_UpdateObjectHeader (yaffs_CheckGarbageCollection fuel) fuel a None False (newSize < oldFileSize) 0 s
                 else Some (0, s));
       Some (YAFFS_OK, s)
     }
   }"

definition yaffs_FlushFile :: "nat \<Rightarrow> nat \<Rightarrow> bool \<Rightarrow> 'f yaffs_System \<Rightarrow> (int \<times> 'f yaffs_System) option" where
  "yaffs_FlushFile fuel a updateTime s = do {
     ob \<leftarrow> objects s a;
     if ob_dirty ob then do {
       s \<leftarrow> yaffs_FlushFilesChunkCache (yaffs_CheckGarbageCollection fuel) fuel a s;
       s \<leftarrow> (if updateTime then upd_object a (\<lambda>ob. ob\<lparr>yst_mtime := currentTime s\<rparr>) s else Some s);
       (r, s) \<leftarrow> yaffs_UpdateObjectHeader (yaffs_CheckGarbageCollection fuel) fuel a None False False 0 s;
       Some (if r \<ge> 0 then YAFFS_OK else YAFFS_FAIL, s)
     } else Some (YAFFS_OK, s)
   }"

section \<open>Attributes\<close>

record iattr =
  ia_valid :: u32
  ia_mode :: u32
  ia_uid :: u32
  ia_gid :: u32
  ia_size :: u32
  ia_atime :: u32
  ia_mtime :: u32
  ia_ctime :: u32
  ia_attr_flags :: u32

definition ATTR_MODE :: u32 where "ATTR_MODE = 1"
definition ATTR_UID :: u32 where "ATTR_UID = 2"
definition ATTR_GID :: u32 where "ATTR_GID = 4"
definition ATTR_SIZE :: u32 where "ATTR_SIZE = 8"
definition ATTR_ATIME :: u32 where "ATTR_ATIME = 16"
definition ATTR_MTIME :: u32 where "ATTR_MTIME = 32"
definition ATTR_CTIME :: u32 where "ATTR_CTIME = 64"

definition yaffs_SetAttributes :: "nat \<Rightarrow> nat \<Rightarrow> iattr \<Rightarrow> 'f yaffs_System \<Rightarrow> (int \<times> 'f yaffs_System) option" where
  "yaffs_SetAttributes fuel a attr s = do {
     let v = (\<lambda>m. ia_valid attr AND m \<noteq> 0);
     s \<leftarrow> upd_object a (\<lambda>ob. ob\<lparr>
         yst_mode := (if v ATTR_MODE then ia_mode attr else yst_mode ob),
         yst_uid := (if v ATTR_UID then ia_uid attr else yst_uid ob),
         yst_gid := (if v ATTR_GID then ia_gid attr else yst_gid ob),
         yst_atime := (if v ATTR_ATIME then ia_atime attr else yst_atime ob),
         yst_ctime := (if v ATTR_CTIME then ia_ctime attr else yst_ctime ob),
         yst_mtime := (if v ATTR_MTIME then ia_mtime attr else yst_mtime ob)\<rparr>) s;
     s \<leftarrow> (if v ATTR_SIZE then map_option snd (yaffs_ResizeFile fuel a (uint (ia_size attr)) s) else Some s);
     (r, s) \<leftarrow> yaffs_UpdateObjectHeader (yaffs_CheckGarbageCollection fuel) fuel a None True False 0 s;
     Some (YAFFS_OK, s)
   }"

definition yaffs_GetAttributes :: "nat \<Rightarrow> iattr \<Rightarrow> 'f yaffs_System \<Rightarrow> (int \<times> iattr \<times> 'f yaffs_System) option" where
  "yaffs_GetAttributes a attr s = do {
     ob \<leftarrow> objects s a;
     (fsize, s) \<leftarrow> yaffs_GetFileSize a s;
     Some (YAFFS_OK, attr\<lparr>ia_mode := yst_mode ob, ia_uid := yst_uid ob, ia_gid := yst_gid ob, ia_atime := yst_atime ob,
       ia_mtime := yst_mtime ob, ia_ctime := yst_ctime ob, ia_size := word_of_int fsize,
       ia_valid := ATTR_MODE OR ATTR_UID OR ATTR_GID OR ATTR_ATIME OR ATTR_MTIME OR ATTR_CTIME OR ATTR_SIZE\<rparr>, s)
   }"

end
