(* ===== verification/NameProps.thy ===== *)
theory NameProps
  imports FileSystem ObjectProps
begin

text \<open>
  Properties of names and headers: what is stored in a header is loaded from it again, a name is found among the
  children of a directory, and names of the full length are not.
\<close>

section \<open>Headers\<close>

lemma strncpy_length [simp]: "length (strncpy_bytes n s) = n"
  by (simp add: strncpy_bytes_def)

lemma cstring_strncpy:
  assumes "0 \<notin> set s" and "length s \<le> n"
  shows "cstring (strncpy_bytes n s @ 0 # rest) = s"
proof -
  have "strncpy_bytes n s = s @ replicate (n - length s) 0" using assms(2) by (simp add: strncpy_bytes_def)
  then obtain r where "strncpy_bytes n s @ 0 # rest = s @ 0 # r"
    by (cases "n - length s") auto
  moreover have "takeWhile (\<lambda>c. c \<noteq> 0) s = s" using assms(1) by (auto simp: takeWhile_eq_all_conv)
  ultimately show ?thesis by (simp add: cstring_def takeWhile_tail)
qed

lemma fill_header_ok:
  assumes "header_ok oh" and "fill_header ob pid (Some (c # cs)) old isShrink shadows oh = Some oh'"
  shows "header_ok oh'"
  using assms by (auto simp: fill_header_def header_ok_def Let_def YAFFS_MAX_NAME_LENGTH_def YAFFS_MAX_ALIAS_LENGTH_def
      split: object_type.splits option.splits)

lemma fill_header_fields:
  assumes "fill_header ob pid (Some (c # cs)) old isShrink shadows oh = Some oh'"
  shows "oh_name oh' = strncpy_bytes YAFFS_MAX_NAME_LENGTH (c # cs) @ [0]" "oh_yst_mode oh' = yst_mode ob" "oh_yst_uid oh' = yst_uid ob"
    "oh_yst_gid oh' = yst_gid ob" "oh_yst_atime oh' = yst_atime ob" "oh_yst_mtime oh' = yst_mtime ob" "oh_yst_ctime oh' = yst_ctime ob"
    "oh_yst_rdev oh' = yst_rdev ob" "variantType ob = SYMLINK \<Longrightarrow> symLinkAlias ob = Some al \<Longrightarrow> oh_alias oh' = strncpy_bytes YAFFS_MAX_ALIAS_LENGTH al @ [0]"
  using assms by (auto simp: fill_header_def Let_def split: object_type.splits option.splits)

lemma store_header_parts:
  assumes "header_ok oh" and "512 \<le> length b"
  shows "\<exists>rest. drop 10 (store_header oh b) = oh_name oh @ rest" "\<exists>rest. drop 300 (store_header oh b) = oh_alias oh @ rest"
  using assms by (auto simp: store_header_def slice_def header_ok_def)

text \<open>
  C38: What yaffs_UpdateObjectHeader stores in the header of an object is what loading the details of an object from
  that chunk gives back: the mode, the owner, the times, the device number, the name if it has at most
  255 characters, and the alias of a symbolic link if it has at most 159.
\<close>

theorem header_roundtrip:
  assumes "fill_header ob parentId (Some name) oldName isShrink shadows (load_header blank) = Some oh"
    and "512 \<le> length blank" and "name \<noteq> []" and "0 \<notin> set name" and "length name \<le> 255"
  shows "load_details (store_header oh blank) ob2 = (yaffs_SetObjectName (Some name) ob2)\<lparr>lazyLoaded := False, yst_mode := yst_mode ob,
      yst_uid := yst_uid ob, yst_gid := yst_gid ob, yst_atime := yst_atime ob, yst_mtime := yst_mtime ob, yst_ctime := yst_ctime ob,
      yst_rdev := yst_rdev ob\<rparr> \<and>
    load_header (store_header oh blank) = oh \<and>
    (\<forall>al. variantType ob = SYMLINK \<and> symLinkAlias ob = Some al \<and> 0 \<notin> set al \<and> length al \<le> 159 \<longrightarrow>
       cstring (drop 300 (store_header oh blank)) = al)"
proof -
  obtain c cs where n: "name = c # cs" using assms(3) by (cases name) auto
  note f = assms(1) [unfolded n]
  have ok: "header_ok oh" using fill_header_ok [OF load_header_ok [OF assms(2)] f] .
  note ff = fill_header_fields [OF f]
  have ld: "load_header (store_header oh blank) = oh" by (rule load_store_header [OF ok assms(2)])
  obtain r1 where r1: "drop 10 (store_header oh blank) = oh_name oh @ r1" using store_header_parts(1) [OF ok assms(2)] by blast
  have nm: "cstring (drop 10 (store_header oh blank)) = name"
    unfolding r1 ff(1) n [symmetric] using cstring_strncpy [OF assms(4), of 255 r1] assms(5) by (simp add: YAFFS_MAX_NAME_LENGTH_def)
  obtain r2 where r2: "drop 300 (store_header oh blank) = oh_alias oh @ r2" using store_header_parts(2) [OF ok assms(2)] by blast
  have "cstring (drop 300 (store_header oh blank)) = al"
    if "variantType ob = SYMLINK" "symLinkAlias ob = Some al" "0 \<notin> set al" "length al \<le> 159" for al
    unfolding r2 using ff(9) [OF that(1,2)] cstring_strncpy [OF that(3), of 159 r2] that(4) by (simp add: YAFFS_MAX_ALIAS_LENGTH_def)
  then show ?thesis by (auto simp: load_details_def ld nm ff yaffs_SetObjectName_def)
qed

theorem header_roundtrip_witness:
  "load_details (store_header (the (fill_header (zero_object\<lparr>variantType := DIRECTORY, yst_mode := 493\<rparr>) 1 (Some (ascii ''etc'')) None False 0
      (load_header (replicate 512 0xFF)))) (replicate 512 0xFF)) zero_object =
   (yaffs_SetObjectName (Some (ascii ''etc'')) zero_object)\<lparr>yst_mode := 493\<rparr>"
proof -
  let ?ob = "zero_object\<lparr>variantType := DIRECTORY, yst_mode := 493\<rparr>"
  obtain oh where oh: "fill_header ?ob 1 (Some (ascii ''etc'')) None False 0 (load_header (replicate 512 0xFF)) = Some oh"
    by (simp add: fill_header_def)
  have "ascii ''etc'' \<noteq> []" "0 \<notin> set (ascii ''etc'')" "length (ascii ''etc'') \<le> 255" by (simp_all add: ascii_def)
  from conjunct1 [OF header_roundtrip [OF oh _ this, of zero_object]]
  have "load_details (store_header oh (replicate 512 0xFF)) zero_object = (yaffs_SetObjectName (Some (ascii ''etc'')) zero_object)\<lparr>yst_mode := 493\<rparr>"
    by (simp only: length_replicate order_refl) (simp add: zero_object_def yaffs_SetObjectName_def)
  then show ?thesis unfolding oh option.sel .
qed

section \<open>Finding a name\<close>

text \<open>A child whose details and short name are in memory, and which is on the flash.\<close>

definition named_child :: "'f yaffs_System \<Rightarrow> nat \<Rightarrow> bool" where
  "named_child s c \<longleftrightarrow> c \<noteq> 0 \<and> (\<exists>ob. objects s c = Some ob \<and> \<not> lazyLoaded ob \<and> headerChunk ob > 0 \<and>
     ob_objectId ob \<noteq> YAFFS_OBJECTID_LOSTNFOUND \<and> shortName ob \<noteq> [] \<and> length (shortName ob) \<le> YAFFS_SHORT_NAME_LENGTH \<and>
     nameSum ob = yaffs_CalcNameSum (Some (shortName ob)))"

definition child_name :: "'f yaffs_System \<Rightarrow> nat \<Rightarrow> u8 list" where
  "child_name s c = shortName (the (objects s c))"

definition match_child :: "u8 list \<Rightarrow> list_ptr \<Rightarrow> 'f yaffs_System \<Rightarrow> (nat option \<times> 'f yaffs_System) option" where
  "match_child name i s = do {
     l \<leftarrow> siblings_entry i;
     s \<leftarrow> yaffs_CheckObjectDetailsLoaded l s;
     ob \<leftarrow> objects s l;
     if ob_objectId ob = YAFFS_OBJECTID_LOSTNFOUND then
       Some (if name = YAFFS_LOSTNFOUND_NAME then Some l else None, s)
     else if nameSum ob = yaffs_CalcNameSum (Some name) \<or> headerChunk ob \<le> 0 then do {
       (buf, s) \<leftarrow> yaffs_GetObjectName l YAFFS_MAX_NAME_LENGTH s;
       Some (if take YAFFS_MAX_NAME_LENGTH name = take YAFFS_MAX_NAME_LENGTH buf then Some l else None, s)
     } else Some (None, s)
   }"

lemma FindObjectByName_match:
  "yaffs_FindObjectByName dir (Some name) s = do {
     d \<leftarrow> objects s dir;
     (r, s) \<leftarrow> list_for_each lists (Children dir) (match_child name) s;
     Some (case r of Some l \<Rightarrow> l | None \<Rightarrow> 0, s) }"
  by (simp add: yaffs_FindObjectByName_def match_child_def [abs_def] Let_def)

lemma match_named:
  assumes "named_child s c"
  shows "match_child name (Siblings c) s = Some (if name = child_name s c then Some c else None, s)"
proof -
  obtain ob where ob: "objects s c = Some ob" "\<not> lazyLoaded ob" "headerChunk ob > 0" "ob_objectId ob \<noteq> YAFFS_OBJECTID_LOSTNFOUND"
    "shortName ob \<noteq> []" "length (shortName ob) \<le> 15" "nameSum ob = yaffs_CalcNameSum (Some (shortName ob))"
    using assms by (auto simp: named_child_def YAFFS_SHORT_NAME_LENGTH_def)
  have "take 255 name = take 255 (shortName ob) \<longleftrightarrow> name = shortName ob"
  proof
    assume eq: "take 255 name = take 255 (shortName ob)"
    then have "length (take 255 name) \<le> 15" using ob(6) by simp
    then have "length name \<le> 255" by (simp add: min_def split: if_splits)
    with eq ob(6) show "name = shortName ob" by simp
  qed simp
  with ob show ?thesis
    by (auto simp: match_child_def siblings_entry_def yaffs_CheckObjectDetailsLoaded_def yaffs_GetObjectName_def child_name_def
        YAFFS_MAX_NAME_LENGTH_def)
qed

text \<open>
  C39: If every child of a directory has a header on the flash, its details loaded, and a non-empty name of at most
  15 bytes in memory with the matching sum, and none is lost+found, then yaffs_FindObjectByName returns: it finds the
  first child that has the name, or the null pointer if there is none, and changes nothing; the sum of
  the name never hides a child.
\<close>

theorem FindObjectByName_first:
  assumes "objects s dir \<noteq> None" and "ring (lists s) (Children dir) (map Siblings cs)" and "\<forall>c\<in>set cs. named_child s c"
  shows "yaffs_FindObjectByName dir (Some name) s =
    Some (case List.find (\<lambda>c. child_name s c = name) cs of Some c \<Rightarrow> c | None \<Rightarrow> 0, s)"
proof -
  have "visit (match_child name) (map Siblings cs) s = Some (List.find (\<lambda>c. child_name s c = name) cs, s)"
    using assms(3) by (induction cs) (auto simp: match_named)
  moreover have "list_for_each lists (Children dir) (match_child name) s = visit (match_child name) (map Siblings cs) s"
  proof -
    have search: "list_search lists (Children dir) (match_child name) p s = visit (match_child name) (map Siblings ds) s"
      if "links (lists s) q (map Siblings ds @ [Children dir])" "next_of (lists s) q = Some p" "Children dir \<notin> set (map Siblings ds)"
        "set ds \<subseteq> set cs" for p q ds
      using that
    proof (induction ds arbitrary: p q)
      case Nil
      then show ?case by (simp add: list_search.simps)
    next
      case (Cons d ds)
      then have p: "p = Siblings d" "named_child s d" using assms(3) by auto
      obtain n where n: "next_of (lists s) (Siblings d) = Some n" using Cons.prems(1) by (cases ds) auto
      have "list_search lists (Children dir) (match_child name) n s = visit (match_child name) (map Siblings ds) s"
        by (rule Cons.IH [OF _ n]) (use Cons.prems in auto)
      with Cons.prems p n show ?case by (subst list_search.simps) (simp add: match_named)
    qed
    obtain p where p: "next_of (lists s) (Children dir) = Some p" using assms(2) by (cases cs) (auto simp: ring_def)
    show ?thesis unfolding list_for_each_def p bind.bind_lunit
      by (rule search [OF _ p]) (use assms(2) in \<open>auto simp: ring_def\<close>)
  qed
  ultimately show ?thesis using assms(1) by (auto simp: FindObjectByName_match)
qed

text \<open>A directory with the files b and a.\<close>

definition two_files :: "unit yaffs_System" where
  "two_files = (empty_system (zero_device ()))\<lparr>
     objects := [1 \<mapsto> zero_object\<lparr>ob_objectId := 1, variantType := DIRECTORY\<rparr>,
                 2 \<mapsto> yaffs_SetObjectName (Some (ascii ''b'')) (zero_object\<lparr>ob_objectId := 300, variantType := FILE, headerChunk := 8, parent := 1\<rparr>),
                 3 \<mapsto> yaffs_SetObjectName (Some (ascii ''a'')) (zero_object\<lparr>ob_objectId := 301, variantType := FILE, headerChunk := 9, parent := 1\<rparr>)],
     lists := [Children 1 \<mapsto> \<lparr>nxt = Siblings 2, prv = Siblings 3\<rparr>, Siblings 2 \<mapsto> \<lparr>nxt = Siblings 3, prv = Children 1\<rparr>,
               Siblings 3 \<mapsto> \<lparr>nxt = Children 1, prv = Siblings 2\<rparr>]\<rparr>"

theorem FindObjectByName_first_witness:
  "yaffs_FindObjectByName 1 (Some (ascii ''a'')) two_files = Some (3, two_files)"
proof -
  have "objects two_files 1 \<noteq> None" by (simp add: two_files_def)
  moreover have "ring (lists two_files) (Children 1) (map Siblings [2, 3])"
    by (simp add: two_files_def ring_def next_of_def prev_of_def)
  moreover have "\<forall>c\<in>set [2, 3]. named_child two_files c"
    by (simp add: named_child_def two_files_def yaffs_SetObjectName_def ascii_def zero_object_def YAFFS_SHORT_NAME_LENGTH_def
        YAFFS_OBJECTID_LOSTNFOUND_def)
  ultimately show ?thesis
    using FindObjectByName_first [of two_files 1 "[2, 3]" "ascii ''a''"]
    by (simp add: child_name_def two_files_def yaffs_SetObjectName_def ascii_def YAFFS_SHORT_NAME_LENGTH_def)
qed

section \<open>Names of the full length\<close>

definition short_names :: "'f yaffs_System \<Rightarrow> bool" where
  "short_names s \<longleftrightarrow> (\<forall>ob\<in>ran (objects s). length (shortName ob) \<le> YAFFS_SHORT_NAME_LENGTH)"

lemma short_names_other: "objects s' = objects s \<Longrightarrow> short_names s' = short_names s"
  by (simp add: short_names_def)

lemma short_names_upd: "short_names s \<Longrightarrow> length (shortName ob) \<le> YAFFS_SHORT_NAME_LENGTH \<Longrightarrow> short_names (s\<lparr>objects := (objects s)(a \<mapsto> ob)\<rparr>)"
  by (auto simp: short_names_def ran_def)

lemma load_details_short: "length (shortName (load_details c ob)) \<le> YAFFS_SHORT_NAME_LENGTH"
  by (simp add: load_details_def yaffs_SetObjectName_def Let_def)

lemma Check_cases:
  assumes "yaffs_CheckObjectDetailsLoaded a s = Some s'"
  shows "s' = s \<or> (\<exists>ob d. length (shortName ob) \<le> YAFFS_SHORT_NAME_LENGTH \<and> s' = s\<lparr>device := d, objects := (objects s)(a \<mapsto> ob)\<rparr>)"
proof -
  obtain ob where ob: "objects s a = Some ob" using assms by (auto simp: yaffs_CheckObjectDetailsLoaded_def bind_eq_Some_conv)
  show ?thesis
  proof (cases "lazyLoaded ob")
    case True
    with assms ob obtain c al d where "s' = s\<lparr>device := d, objects := (objects s)(a \<mapsto> (load_details c ob)\<lparr>symLinkAlias := al\<rparr>)\<rparr>"
      by (simp add: yaffs_CheckObjectDetailsLoaded_def bind_eq_Some_conv case_prod_beta Let_def split del: if_split) blast
    moreover have "length (shortName ((load_details c ob)\<lparr>symLinkAlias := al\<rparr>)) \<le> YAFFS_SHORT_NAME_LENGTH"
      by (simp add: load_details_short)
    ultimately show ?thesis by blast
  qed (use assms ob in \<open>simp add: yaffs_CheckObjectDetailsLoaded_def\<close>)
qed

lemma Check_short:
  assumes "yaffs_CheckObjectDetailsLoaded a s = Some s'" and "short_names s"
  shows "short_names s'"
  using Check_cases [OF assms(1)] assms(2) unfolding short_names_def ran_def by (auto split: if_splits) blast+

lemma GetObjectName_cases:
  assumes "yaffs_GetObjectName a n s = Some (b, s')"
  obtains s1 ob d where "yaffs_CheckObjectDetailsLoaded a s = Some s1" "objects s1 a = Some ob" "s' = s1 \<or> s' = s1\<lparr>device := d\<rparr>"
    "b = shortName ob \<or> (\<exists>x. b = take (n - 1) x)"
  using assms by (auto simp: yaffs_GetObjectName_def bind_eq_Some_conv Let_def case_prod_beta split: if_splits)

lemma GetObjectName_short:
  assumes "yaffs_GetObjectName a YAFFS_MAX_NAME_LENGTH s = Some (b, s')" and "short_names s"
  shows "length b < YAFFS_MAX_NAME_LENGTH \<and> short_names s'"
proof -
  obtain s1 ob d where s1: "yaffs_CheckObjectDetailsLoaded a s = Some s1" "objects s1 a = Some ob" "s' = s1 \<or> s' = s1\<lparr>device := d\<rparr>"
    "b = shortName ob \<or> (\<exists>x. b = take (YAFFS_MAX_NAME_LENGTH - 1) x)"
    using GetObjectName_cases [OF assms(1)] by metis
  have ok: "short_names s1" by (rule Check_short [OF s1(1) assms(2)])
  then have "length (shortName ob) \<le> 15" using s1(2) by (auto simp: short_names_def ran_def YAFFS_SHORT_NAME_LENGTH_def)
  with s1(3,4) ok short_names_other [of s' s1] show ?thesis by (auto simp: YAFFS_MAX_NAME_LENGTH_def)
qed

lemma match_child_long:
  assumes "match_child name p s = Some (r, s')" and "short_names s" and "YAFFS_MAX_NAME_LENGTH \<le> length name"
  shows "r = None \<and> short_names s'"
proof -
  have long: "take YAFFS_MAX_NAME_LENGTH name \<noteq> take YAFFS_MAX_NAME_LENGTH b" if "length b < YAFFS_MAX_NAME_LENGTH" for b
    using arg_cong [of _ _ length] assms(3) that by fastforce
  have "name \<noteq> YAFFS_LOSTNFOUND_NAME" using assms(3) by (auto simp: YAFFS_LOSTNFOUND_NAME_def ascii_def YAFFS_MAX_NAME_LENGTH_def)
  then obtain l s1 ob where s1: "yaffs_CheckObjectDetailsLoaded l s = Some s1"
    "r = None \<and> s' = s1 \<or> (\<exists>b. yaffs_GetObjectName l YAFFS_MAX_NAME_LENGTH s1 = Some (b, s') \<and>
       r = (if take YAFFS_MAX_NAME_LENGTH name = take YAFFS_MAX_NAME_LENGTH b then Some l else None))"
    using assms(1) by (auto simp: match_child_def bind_eq_Some_conv split: if_splits)
  have "short_names s1" by (rule Check_short [OF s1(1) assms(2)])
  with s1(2) GetObjectName_short long show ?thesis by (metis (no_types, lifting))
qed

lemma list_search_none:
  assumes "list_search lk h body p st = Some y"
  shows "(\<forall>p st r st'. body p st = Some (r, st') \<longrightarrow> P st \<longrightarrow> r = None \<and> P st') \<longrightarrow>
     P st \<longrightarrow> fst y = None \<and> P (snd y)"
  using assms
proof (induction lk h body p st y rule: list_search.raw_induct [rotated, consumes 1, case_names step])
  case (step search lk h body p st y)
  show ?case
  proof (cases "p = h")
    case True
    with step(2) show ?thesis by auto
  next
    case False
    with step(2) obtain r st1 where b: "body p st = Some (r, st1)"
      "(if r \<noteq> None then Some (r, st1) else do { n \<leftarrow> next_of (lk st1) p; search lk h body n st1 }) = Some y"
      by (auto simp: bind_eq_Some_conv)
    show ?thesis
    proof (intro impI)
      assume keep: "\<forall>p st r st'. body p st = Some (r, st') \<longrightarrow> P st \<longrightarrow> r = None \<and> P st'" and P: "P st"
      have "r = None \<and> P st1" using keep b(1) P by blast
      with b(2) obtain n where "search lk h body n st1 = Some y" by (auto simp: bind_eq_Some_conv)
      from step(1) [OF this] keep \<open>r = None \<and> P st1\<close> show "fst y = None \<and> P (snd y)" by blast
    qed
  qed
qed

text \<open>
  C40: A name of 255 or more characters is never found in a directory, whatever is on the flash: the name of an object is
  copied into a buffer of 255 bytes, so it is compared without its last character. Headers have room
  for 255 characters, and yaffs_RenameObject accepts as many.
\<close>

theorem FindObjectByName_long:
  assumes "short_names s" and "255 \<le> length name" and "yaffs_FindObjectByName dir (Some name) s = Some (r, s')"
  shows "r = 0"
proof -
  obtain r1 s1 p where "list_search lists (Children dir) (match_child name) p s = Some (r1, s1)" and r: "r = (case r1 of Some l \<Rightarrow> l | None \<Rightarrow> 0)"
    using assms(3) by (auto simp: FindObjectByName_match list_for_each_def bind_eq_Some_conv)
  moreover have "\<forall>p st r st'. match_child name p st = Some (r, st') \<longrightarrow> short_names st \<longrightarrow> r = None \<and> short_names st'"
    using match_child_long assms(2) unfolding YAFFS_MAX_NAME_LENGTH_def by blast
  ultimately show ?thesis using list_search_none [of lists _ "match_child name" p s _ short_names] assms(1) by fastforce
qed

text \<open>A directory with one file whose header holds a name of 255 characters.\<close>

definition long_name :: "u8 list" where "long_name = replicate 255 97"

definition long_header :: "u8 list" where "long_header = replicate 10 0 @ long_name @ replicate 247 0"

definition long_system :: "unit yaffs_System" where
  "long_system = (empty_system ((zero_device ())\<lparr>nDataBytesPerChunk := 512, nChunksPerBlock := 4,
       tempBuffer := [\<lparr>buffer = 1, line = 0, maxLine = 0\<rparr>], heap := (\<lambda>_. replicate 512 0),
       readChunkWithTagsFromNAND := Some (\<lambda>f c b t. (YAFFS_OK, Some long_header, zero_tags, f))\<rparr>))\<lparr>
     objects := [1 \<mapsto> zero_object\<lparr>ob_objectId := 1, variantType := DIRECTORY\<rparr>,
                 2 \<mapsto> yaffs_SetObjectName (Some long_name) (zero_object\<lparr>ob_objectId := 300, variantType := FILE, headerChunk := 8, parent := 1\<rparr>)],
     lists := [Children 1 \<mapsto> \<lparr>nxt = Siblings 2, prv = Siblings 2\<rparr>, Siblings 2 \<mapsto> \<lparr>nxt = Children 1, prv = Children 1\<rparr>]\<rparr>"

lemma long_match:
  "map_option (\<lambda>(r, s). (r, next_of (lists s) (Siblings 2))) (match_child long_name (Siblings 2) long_system) = Some (None, Some (Children 1))"
  by code_simp

theorem FindObjectByName_long_witness:
  "cstring (drop 10 long_header) = long_name \<and> (\<exists>s'. yaffs_FindObjectByName 1 (Some long_name) long_system = Some (0, s'))"
proof -
  have short: "short_names long_system"
    by (auto simp: short_names_def ran_def long_system_def yaffs_SetObjectName_def zero_object_def split: if_splits)
  have len: "255 \<le> length long_name" by (simp add: long_name_def)
  obtain s1 where m: "match_child long_name (Siblings 2) long_system = Some (None, s1)" "next_of (lists s1) (Siblings 2) = Some (Children 1)"
    using long_match by auto
  have "objects long_system 1 \<noteq> None" "next_of (lists long_system) (Children 1) = Some (Siblings 2)"
    by (simp_all add: long_system_def)
  then have "yaffs_FindObjectByName 1 (Some long_name) long_system \<noteq> None"
    using m by (auto simp: FindObjectByName_match list_for_each_def list_search.simps)
  then obtain r s' where "yaffs_FindObjectByName 1 (Some long_name) long_system = Some (r, s')" by auto
  moreover have "takeWhile (\<lambda>c. c \<noteq> 0) (replicate 255 97 @ replicate 247 0) = replicate 255 97 @ takeWhile (\<lambda>c. c \<noteq> 0) (replicate 247 (0 :: u8))"
    by (rule takeWhile_append2) auto
  then have "cstring (drop 10 long_header) = long_name"
    by (simp add: long_header_def long_name_def cstring_def takeWhile_eq_Nil_iff)
  ultimately show ?thesis using FindObjectByName_long [OF short len] by auto
qed

end
