(* ===== verification/Spec2Isabelle.thy ===== *)
theory Spec2Isabelle
  imports Crc32 NandEcc FileEmul GcSafety VsprintfProps EnvNand CommandProps FileDelete Geometry ObjectProps NameProps
begin

text \<open>
  A model of the two programs of the repository that carry its own logic, with the theorems that
  make them correct: the flash file system YAFFS as it is built for direct use
  (src/yaffs_patched/yaffs2, with CONFIG_YAFFS_DIRECT, names kept in memory, a little-endian
  target with 32-bit integers and pointers) and the parts of the boot loader U-Boot 1.1.6
  (src/u-boot-1.1.6) that the board relies on before the file system is there: its environment,
  its command line, and the checksums and codes that protect both.

  How the parts interact. A file is an object with a tree of tnodes (Tnode, TnodeTree). The tree
  leads from a position to a chunk of flash (FileChunks). Chunks are handed out and taken back
  by the block manager (BlockManager), which keeps a table of blocks and a bitmap of chunks in use
  (YaffsDevice, ChunkBitmap). It reads and writes chunks with their tags through the NAND
  interface (NandIf); that interface calls the driver of the device or the YAFFS1 layer
  (TagsCompat), which packs tags into the spare area (PackedTags) and corrects bit errors
  (YaffsEcc). Objects are found by number in a hash table, or by name among the children of a
  directory (Objects, ObjectHeader, over the list heads of LinkedLists). Writing first looks for a
  block to collect (GarbageCollect); short writes go through a cache (FileAccess);
  and the operations of the interface combine all of these (FileSystem). U-Boot keeps its variables in an
  array of bytes (Environment) that is saved in flash (EnvNand) under the checksum of Crc32; its command
  line (CommandLine) expands them, and both print and read numbers by Vsprintf.

  Conventions. A C function is a HOL function of the same name. A structure is a record with the
  names of the source, prefixed where two structures share a field name; an enumeration is a datatype.
  What is undefined in C (an access outside an array, a null pointer that is used, a member of a union that
  is not the one stored) is the value None of an option, and so is a loop that does not end; the results YAFFS_OK,
  YAFFS_FAIL, chunk numbers and negative errors are results as in the code. Theorems that say that a function
  returns a value therefore say at once that it ends and stays inside its arrays. Fields and
  variables whose width matters are words (u8, u32, 64 word, the bit fields of tags and of the block
  table); counters that cannot wrap within the sizes of a device are integers. What the code reads before it
  has set it (automatic variables, fresh memory) is an arbitrary field of the state, so
  that the theorems hold for every such value. Flash drivers, the allocator and the clock are not part of the
  repository's logic: they are function fields of the device, a list of answers of the allocator, and a
  field of the state. Theorems either hold for every driver, or state what they need of it.

  Theories and sources (YAFFS paths are under src/yaffs_patched/yaffs2, the others under src/u-boot-1.1.6).
  Prelude: machine integers, slices of lists, monotone maps, the shared simplification sets.
  EccSpec: the locale of a single error correcting code. YaffsEcc: yaffs_ecc.c and the table generator
  of src/yaffs/yaffs/utils/gen-ecc.c. NandEcc: drivers/nand/nand_ecc.c. Both interpret the locale.
  Crc32: lib_generic/crc32.c.
  PackedTags: yaffs_packedtags1.c, yaffs_packedtags2.c, yaffs_tagsvalidity.c.
  YaffsDevice: the structures of yaffs_guts.h. TagsCompat: yaffs_tagscompat.c.
  FileEmul: direct/yaffs_fileem.c. NandIf: yaffs_nand.c. Checkpoint: yaffs_checkptrw.c.
  BlockManager, ChunkBitmap, BlockInvariant, BlockSafety, BlockOps, BlockDelete, BlockWrite, BlockSteps,
  BlockTotal, BlockProps: the block manager of yaffs_guts.c, its invariant, what each operation does to it, the
  transition system of all of them, and the proof that writing a new chunk ends.
  TnodeBits, Tnode, TnodeTree, TnodeProps, PruneProps: the tnode trees of yaffs_guts.c.
  Geometry: the computed shifts and widths of yaffs_GutsInitialise, and yaffs_AddrToChunk.
  FileChunks, FileFrame, FileProps, FileDelete: finding, putting and deleting the chunks of files.
  LinkedLists: devextras.h. Objects, ObjectInvariant, ObjectOps, ObjectAlloc, ObjectProps: the objects, their stock,
  the hash table and the directories. ObjectHeader, NameProps: headers, names and the search of directories.
  GarbageCollect, GcSafety: header updates, collection, deletion of objects, writing of chunks. FileAccess: the short
  operation cache, reading and writing. FileSystem: the operations on whole objects.
  Stores: the locale of a store of values under keys, interpreted on the environment and on the tree of a file.
  Vsprintf, VsprintfProps: lib_generic/vsprintf.c, lib_generic/ctype.c. Environment, EnvRefine, EnvProps:
  common/env_common.c, common/cmd_nvedit.c. EnvNand: common/env_nand.c. CommandLine, CommandProps:
  common/main.c, common/command.c.

  What the lemmas show. Codes and checksums: the table-driven code computes the polynomial or the parities, one
  wrong bit is corrected and two are reported, and where the code does not do so (YaffsEcc, NandEcc, TagsCompat,
  Crc32). Encodings: what is packed or printed is read back (PackedTags, FileEmul, VsprintfProps,
  NameProps). Block manager: an invariant on the block table, the bitmap and the counters that each operation
  keeps for every answer of the driver; so the run-time checks stay silent in every reachable state,
  a chunk in use is never handed out or lost, writing a new chunk always returns, and the collection of a block
  gives up no chunk of another block. Trees of chunks: the tree refines a finite map from positions to
  groups of chunks, and no node is lost; soft deletion ends. Objects: the ring of list heads refines a sequence,
  the hash table refines a map from numbers to objects, the children of directories are kept disjoint.
  Environment: the byte array refines a map from names to values, and saving is safe
  against a loss of power. Command line: splitting, expansion and sequencing of commands.

  Bounds and fuel. Loops over a range or a list are structural recursions. The loop of
  yaffs_WriteNewChunkWithTagsToNAND takes a bound on its turns as an argument, and is None when the bound runs out. The limit
  yaffs_wr_attempts alone is no such bound, since a turn on a block that waits for collection is not counted as an
  attempt. BlockTotal gives a bound, write_fuel, from the limit and the pages of such blocks:
  with it the write returns, and every larger bound gives the same result (WriteNewChunk_returns in BlockProps). Loops that follow pointers of
  the store, and the loops of reading and writing, which end only if the flash and the numbers are sound, are
  partial functions that are None where the C loop does not end. The recursion between writing, collecting and deleting is cut
  where the code cuts it, by the flag isDoingGC: inside of a collection the collector is
  no_collection.

  Not modelled. YAFFS: mounting by scanning (yaffs_Scan, yaffs_ScanBackwards), the contents of a checkpoint and the rest of
  yaffs_GutsInitialise; the layer of directory entries and handles (direct/yaffsfs.c), which wraps the operations
  modelled here in a table of handles; the sorting of the scan (yaffs_qsort.c); the Linux glue
  (yaffs_fs.c, yaffs_mtdif*.c) and the RAM emulations, whose state belongs to Linux or to test programs; the
  statements that only trace or verify for a trace. The safety of a collection is shown for states without deleted files in memory;
  the clean-up after the last chunk of a deleted file is modelled, but no theorem covers it. U-Boot: env_init, which marks
  the default environment as valid before relocation, and environments embedded in the image; drivers, boards and processors, which act on
  registers of devices; network, USB and disk stacks; the decompressors, dlmalloc, the hush shell and the other file
  systems, which are copies of other projects; the commands that only call a driver and print.
\<close>

end
